(* ===== verification/Prelude.thy ===== *)
theory Prelude
  imports Complex_Main "HOL-Library.AList" "HOL-Library.Word" "HOL-Library.Monad_Syntax"
begin

text \<open>
  Shared vocabulary of the development.  Byte vectors, Rust's \<open>HashMap\<close> with its
  \<open>insert\<close>, \<open>get\<close>, \<open>entry(..).or_insert\<close> and \<open>collect\<close>, the \<open>HashSet\<close>-based
  duplicate test, the pop-front loops over time-stamped queues, and the saturating
  operations of unsigned machine integers.

  A computation that can panic returns an \<open>option\<close> whose \<open>None\<close> is the panic; an error
  that the code returns as a value is the left side of a sum.  A Rust \<open>String\<close> is
  identified with its UTF-8 bytes, so a \<^typ>\<open>char\<close> is one byte.
\<close>

section \<open>Collections of facts\<close>

named_theorems unit_interval \<open>facts that place a quantity between its bounds\<close>
named_theorems sat_simps \<open>unfolding rules of saturating integer arithmetic\<close>
named_theorems table_simps \<open>rules of hash tables\<close>

section \<open>Types\<close>

type_synonym byte = "8 word"
type_synonym bytes = "byte list"
type_synonym address = string
type_synonym 'a run = "'a option"
type_synonym ('k, 'v) hash_map = "('k \<times> 'v) list"

definition as_bytes :: "string \<Rightarrow> bytes" where
  "as_bytes s = map of_char s"

definition to_be_bytes :: "nat \<Rightarrow> bytes" where
  "to_be_bytes n = map (\<lambda>i. word_of_nat (n div 256 ^ i)) [7, 6, 5, 4, 3, 2, 1, 0]"

lemma length_to_be_bytes [simp]: "length (to_be_bytes n) = 8"
  by (simp add: to_be_bytes_def)

definition to_le_bytes :: "nat \<Rightarrow> bytes" where
  "to_le_bytes n = rev (to_be_bytes n)"

definition from_le_bytes :: "bytes \<Rightarrow> nat" where
  "from_le_bytes bs = foldr (\<lambda>b n. unat b + 256 * n) bs 0"

lemma length_to_le_bytes [simp]: "length (to_le_bytes n) = 8"
  by (simp add: to_le_bytes_def)

lemma from_le_bytes_less: "from_le_bytes bs < 256 ^ length bs"
proof (induction bs)
  case (Cons b bs)
  have "unat b < 2 ^ LENGTH(8)" by (rule unsigned_less)
  with Cons show ?case by (simp add: from_le_bytes_def)
qed (simp add: from_le_bytes_def)

section \<open>Hash tables\<close>

text \<open>
  A table is an association list with distinct keys; its order is one of the iteration
  orders the program may see.
\<close>

definition hm_ok :: "('k, 'v) hash_map \<Rightarrow> bool" where
  "hm_ok m \<longleftrightarrow> distinct (map fst m)"

definition hm_get_or :: "'v \<Rightarrow> ('k, 'v) hash_map \<Rightarrow> 'k \<Rightarrow> 'v" where
  "hm_get_or d m k = (case map_of m k of None \<Rightarrow> d | Some v \<Rightarrow> v)"

definition unwrap_or :: "'a \<Rightarrow> 'a option \<Rightarrow> 'a" where
  "unwrap_or d x = (case x of None \<Rightarrow> d | Some v \<Rightarrow> v)"

definition hm_insert :: "'k \<Rightarrow> 'v \<Rightarrow> ('k, 'v) hash_map \<Rightarrow> ('k, 'v) hash_map" where
  "hm_insert k v m = AList.update k v m"

definition hm_remove :: "'k \<Rightarrow> ('k, 'v) hash_map \<Rightarrow> ('k, 'v) hash_map" where
  "hm_remove k m = filter (\<lambda>p. fst p \<noteq> k) m"

definition hm_add :: "'k \<Rightarrow> 'v::monoid_add \<Rightarrow> ('k, 'v) hash_map \<Rightarrow> ('k, 'v) hash_map" where
  "hm_add k x m = hm_insert k (hm_get_or 0 m k + x) m"

fun hm_extend :: "('k, 'v) hash_map \<Rightarrow> ('k \<times> 'v) list \<Rightarrow> ('k, 'v) hash_map" where
  "hm_extend m [] = m"
| "hm_extend m ((k, v) # ps) = hm_extend (hm_insert k v m) ps"

definition hm_collect :: "('k \<times> 'v) list \<Rightarrow> ('k, 'v) hash_map" where
  "hm_collect ps = hm_extend [] ps"

definition hm_values :: "('k, 'v) hash_map \<Rightarrow> 'v list" where
  "hm_values m = map snd m"

definition hm_keys :: "('k, 'v) hash_map \<Rightarrow> 'k list" where
  "hm_keys m = map fst m"

text \<open>The laws of the table that the consensus and metrics code rely on.\<close>

locale table_api =
  fixes get :: "'m \<Rightarrow> 'k \<Rightarrow> 'v option"
    and ins :: "'k \<Rightarrow> 'v \<Rightarrow> 'm \<Rightarrow> 'm"
    and rem :: "'k \<Rightarrow> 'm \<Rightarrow> 'm"
    and empty :: 'm
    and ok :: "'m \<Rightarrow> bool"
  assumes get_empty: "get empty k = None"
    and get_ins: "get (ins k v m) k' = (if k' = k then Some v else get m k')"
    and get_rem: "get (rem k m) k' = (if k' = k then None else get m k')"
    and ok_empty: "ok empty"
    and ok_ins: "ok m \<Longrightarrow> ok (ins k v m)"
    and ok_rem: "ok m \<Longrightarrow> ok (rem k m)"
begin

lemma ins_commute: "k \<noteq> k' \<Longrightarrow> get (ins k v (ins k' v' m)) = get (ins k' v' (ins k v m))"
  by (auto simp: fun_eq_iff get_ins)

lemma rem_ins: "get m k = None \<Longrightarrow> get (rem k (ins k v m)) = get m"
  by (auto simp: fun_eq_iff get_ins get_rem)

lemma fold_ins_other: "k \<notin> fst ` set ps \<Longrightarrow> get (fold (\<lambda>(a, b). ins a b) ps m) k = get m k"
  by (induction ps arbitrary: m) (auto simp: get_ins)

lemma fold_ins_get:
  "distinct (map fst ps) \<Longrightarrow> (k, v) \<in> set ps \<Longrightarrow> get (fold (\<lambda>(a, b). ins a b) ps m) k = Some v"
  by (induction ps arbitrary: m) (auto simp: get_ins fold_ins_other rev_image_eqI)

lemma fold_ins_ok: "ok m \<Longrightarrow> ok (fold (\<lambda>(a, b). ins a b) ps m)"
  by (induction ps arbitrary: m) (auto simp: ok_ins)

end

lemma map_of_hm_insert [table_simps]:
  "map_of (hm_insert k v m) k' = (if k' = k then Some v else map_of m k')"
  by (simp add: hm_insert_def update_conv)

lemma map_of_hm_remove [table_simps]:
  "map_of (hm_remove k m) k' = (if k' = k then None else map_of m k')"
  unfolding hm_remove_def by (induction m) auto

lemma hm_ok_insert: "hm_ok m \<Longrightarrow> hm_ok (hm_insert k v m)"
  by (simp add: hm_ok_def hm_insert_def distinct_update)

interpretation hm: table_api map_of hm_insert hm_remove "[]" hm_ok
proof unfold_locales
  fix m :: "('a \<times> 'b) list" and k
  show "hm_ok m \<Longrightarrow> hm_ok (hm_remove k m)"
    by (simp add: hm_ok_def hm_remove_def distinct_map_filter)
qed (auto simp: table_simps hm_ok_insert, simp add: hm_ok_def)

lemma hm_extend_fold: "hm_extend m ps = fold (\<lambda>(a, b). hm_insert a b) ps m"
  by (induction m ps rule: hm_extend.induct) auto

lemma hm_collect_get:
  "distinct (map fst ps) \<Longrightarrow> (k, v) \<in> set ps \<Longrightarrow> map_of (hm_collect ps) k = Some v"
  by (simp add: hm_collect_def hm_extend_fold hm.fold_ins_get)

lemma hm_collect_ok [simp]: "hm_ok (hm_collect ps)"
  by (simp add: hm_collect_def hm_extend_fold hm.fold_ins_ok hm.ok_empty)

lemma hm_get_or_insert [table_simps]:
  "hm_get_or d (hm_insert k v m) k' = (if k' = k then v else hm_get_or d m k')"
  by (simp add: hm_get_or_def table_simps)

lemma hm_get_or_add [table_simps]:
  "hm_get_or 0 (hm_add k x m) k' = (if k' = k then hm_get_or 0 m k + x else hm_get_or 0 m k')"
  by (simp add: hm_add_def table_simps)

lemma hm_get_or_Nil [table_simps]: "hm_get_or d [] k = d"
  by (simp add: hm_get_or_def)

lemma hm_ok_add: "hm_ok m \<Longrightarrow> hm_ok (hm_add k x m)"
  by (simp add: hm_add_def hm_ok_insert)

lemma hm_insert_fresh: "k \<notin> set (map fst m) \<Longrightarrow> hm_insert k v m = m @ [(k, v)]"
  unfolding hm_insert_def by (induction m) auto

lemma hm_extend_distinct:
  "distinct (map fst (m @ ps)) \<Longrightarrow> hm_extend m ps = m @ ps"
  by (induction m ps rule: hm_extend.induct) (auto simp: hm_insert_fresh)

lemma hm_collect_distinct: "distinct (map fst ps) \<Longrightarrow> hm_collect ps = ps"
  using hm_extend_distinct [of "[]" ps] by (simp add: hm_collect_def)

lemma keys_hm_insert: "set (map fst (hm_insert k v m)) = insert k (set (map fst m))"
  unfolding hm_insert_def by (induction m) auto

lemma keys_hm_extend: "set (map fst (hm_extend m ps)) = set (map fst m) \<union> set (map fst ps)"
  by (induction m ps rule: hm_extend.induct) (auto simp: keys_hm_insert simp del: set_map)

lemma keys_hm_collect: "set (map fst (hm_collect ps)) = set (map fst ps)"
  using keys_hm_extend [of "[]" ps] by (simp add: hm_collect_def)

lemma set_hm_insert: "p \<in> set (hm_insert k v m) \<Longrightarrow> p = (k, v) \<or> p \<in> set m"
  unfolding hm_insert_def by (induction m) (auto split: if_splits)

lemma those_map_Some: "those (map f xs) = Some ys \<longleftrightarrow> list_all2 (\<lambda>x y. f x = Some y) xs ys"
  by (induction xs arbitrary: ys) (auto split: option.splits simp: list_all2_Cons1)

lemma sum_hm_insert_nat:
  fixes v :: nat
  assumes "hm_ok m"
  shows "sum_list (map snd (hm_insert k v m)) + hm_get_or 0 m k = sum_list (map snd m) + v"
  using assms unfolding hm_ok_def hm_insert_def hm_get_or_def
proof (induction m)
  case (Cons p m)
  show ?case
  proof (cases "fst p = k")
    case True
    with Cons.prems have "k \<notin> set (map fst m)" by auto
    with True show ?thesis by (cases p) (simp add: map_of_eq_None_iff)
  next
    case False
    with Cons show ?thesis by (cases p) auto
  qed
qed simp

lemma hm_get_or_le_sum:
  fixes m :: "('k, nat) hash_map"
  shows "hm_get_or 0 m k \<le> sum_list (map snd m)"
  by (induction m) (auto simp: hm_get_or_def split: option.splits)

lemma values_hm_insert:
  "x \<in> set (map snd (hm_insert k v m)) \<Longrightarrow> x = v \<or> x \<in> set (map snd m)"
  unfolding hm_insert_def by (induction m) (auto split: if_splits)

lemma values_hm_extend:
  "x \<in> set (map snd (hm_extend m ps)) \<Longrightarrow> x \<in> set (map snd m) \<or> x \<in> set (map snd ps)"
  by (induction m ps rule: hm_extend.induct) (auto dest: values_hm_insert simp del: set_map)

lemma sum_hm_insert:
  fixes v :: "'v::ab_group_add"
  assumes "hm_ok m"
  shows "sum_list (map snd (hm_insert k v m)) = sum_list (map snd m) - hm_get_or 0 m k + v"
  using assms unfolding hm_ok_def hm_insert_def hm_get_or_def
proof (induction m)
  case (Cons p m)
  show ?case
  proof (cases "fst p = k")
    case True
    with Cons.prems have "k \<notin> set (map fst m)" by auto
    with True show ?thesis by (cases p) (simp add: map_of_eq_None_iff)
  next
    case False
    with Cons show ?thesis by (cases p) (auto simp: algebra_simps)
  qed
qed simp

lemma sum_hm_add:
  fixes x :: "'v::ab_group_add"
  shows "hm_ok m \<Longrightarrow> sum_list (map snd (hm_add k x m)) = sum_list (map snd m) + x"
  by (simp add: hm_add_def sum_hm_insert)

lemma foldl_insert_distinct:
  assumes "distinct (map fst m @ map k xs)"
  shows "foldl (\<lambda>m x. hm_insert (k x) (f x) m) m xs = m @ map (\<lambda>x. (k x, f x)) xs"
  using assms by (induction xs arbitrary: m) (auto simp: hm_insert_fresh)

lemma hm_get_or_map:
  assumes "distinct (map k xs)" and "x \<in> set xs"
  shows "hm_get_or d (map (\<lambda>x. (k x, f x)) xs) (k x) = f x"
proof -
  have "map_of (map (\<lambda>x. (k x, f x)) xs) (k x) = Some (f x)"
    using assms by (intro map_of_is_SomeI) (auto simp: comp_def)
  then show ?thesis by (simp add: hm_get_or_def)
qed

section \<open>Duplicate test with a growing set\<close>

text \<open>\<open>iter().any(|x| !seen.insert(x))\<close> of the sources.\<close>

fun any_seen :: "'a list \<Rightarrow> 'a list \<Rightarrow> bool" where
  "any_seen seen [] = False"
| "any_seen seen (x # xs) = (if x \<in> set seen then True else any_seen (x # seen) xs)"

lemma any_seen_iff: "any_seen seen xs \<longleftrightarrow> \<not> (distinct xs \<and> set xs \<inter> set seen = {})"
  by (induction seen xs rule: any_seen.induct) auto

section \<open>Queues drained from the front\<close>

text \<open>
  Two loops of the consensus pop a \<open>VecDeque\<close> while its front is due and absorb what they
  pop.  The interface is the two equations of such a loop.
\<close>

locale maturity_queue =
  fixes due :: "'b \<Rightarrow> nat"
    and absorb :: "'b \<Rightarrow> 'a \<Rightarrow> 'a"
    and pop :: "nat \<Rightarrow> 'b list \<Rightarrow> 'a \<Rightarrow> 'a \<times> 'b list"
  assumes pop_Nil: "pop now [] a = (a, [])"
    and pop_Cons: "pop now (b # q) a = (if due b \<le> now then pop now q (absorb b a) else (a, b # q))"
begin

lemma pop_eq:
  "pop now q a = (fold absorb (takeWhile (\<lambda>b. due b \<le> now) q) a, dropWhile (\<lambda>b. due b \<le> now) q)"
  by (induction q arbitrary: a) (simp_all add: pop_Nil pop_Cons)

lemma takeWhile_due:
  "sorted (map due q) \<Longrightarrow> takeWhile (\<lambda>b. due b \<le> now) q = filter (\<lambda>b. due b \<le> now) q"
proof (induction q)
  case (Cons b q)
  then show ?case
    by (cases "due b \<le> now") (auto simp: filter_empty_conv intro!: filter_False [symmetric])
qed simp

lemma dropWhile_due:
  "sorted (map due q) \<Longrightarrow> dropWhile (\<lambda>b. due b \<le> now) q = filter (\<lambda>b. now < due b) q"
proof (induction q)
  case (Cons b q)
  then show ?case by (cases "due b \<le> now") (auto intro!: filter_True [symmetric])
qed simp

lemma pop_sorted:
  "sorted (map due q) \<Longrightarrow>
    pop now q a = (fold absorb (filter (\<lambda>b. due b \<le> now) q) a, filter (\<lambda>b. now < due b) q)"
  by (simp add: pop_eq takeWhile_due dropWhile_due)

lemma pop_none_due: "(\<And>b. b \<in> set q \<Longrightarrow> now < due b) \<Longrightarrow> pop now q a = (a, q)"
  by (cases q) (auto simp: pop_Nil pop_Cons simp flip: not_le)

lemma pop_twice:
  assumes "now \<le> later"
  shows "pop later (snd (pop now q a)) (fst (pop now q a)) = pop later q a"
  using assms by (induction q arbitrary: a) (auto simp: pop_Nil pop_Cons)

end

section \<open>Unsigned machine integers\<close>

definition sat64 :: "nat \<Rightarrow> nat" where
  "sat64 n = min n (2 ^ 64 - 1)"

definition sat128 :: "nat \<Rightarrow> nat" where
  "sat128 n = min n (2 ^ 128 - 1)"

lemma sat64_le [unit_interval]: "sat64 n \<le> n" "sat64 n \<le> 2 ^ 64 - 1"
  by (simp_all add: sat64_def)

lemma sat128_le [unit_interval]: "sat128 n \<le> n" "sat128 n \<le> 2 ^ 128 - 1"
  by (simp_all add: sat128_def)

lemma sat64_id [sat_simps]: "n < 2 ^ 64 \<Longrightarrow> sat64 n = n"
  by (simp add: sat64_def)

lemma sat128_id [sat_simps]: "n < 2 ^ 128 \<Longrightarrow> sat128 n = n"
  by (simp add: sat128_def)

lemma sat64_pos: "0 < n \<Longrightarrow> 0 < sat64 n"
  unfolding sat64_def by (simp only: min_less_iff_conj) simp

lemma sat64_less: "sat64 n < 2 ^ 64"
  unfolding sat64_def by (rule le_less_trans [OF min.cobounded2]) simp

lemma sat64_mono: "m \<le> n \<Longrightarrow> sat64 m \<le> sat64 n"
  by (auto simp: sat64_def)

lemma sat128_mono: "m \<le> n \<Longrightarrow> sat128 m \<le> sat128 n"
  by (auto simp: sat128_def)

section \<open>Lists\<close>

lemma takeWhile_length_iff:
  "n \<le> length xs \<Longrightarrow> n \<le> length (takeWhile P xs) \<longleftrightarrow> (\<forall>i < n. P (xs ! i))"
proof (induction xs arbitrary: n)
  case (Cons x xs)
  then show ?case by (cases n) (auto simp: less_Suc_eq_0_disj)
qed simp

lemma sum_list_nonneg_map:
  fixes f :: "'a \<Rightarrow> 'b::ordered_comm_monoid_add"
  shows "(\<And>x. x \<in> set xs \<Longrightarrow> 0 \<le> f x) \<Longrightarrow> 0 \<le> sum_list (map f xs)"
  by (induction xs) (auto intro: add_nonneg_nonneg)

lemma sum_list_map_mono:
  fixes f g :: "'a \<Rightarrow> 'b::ordered_comm_monoid_add"
  shows "(\<And>x. x \<in> set xs \<Longrightarrow> f x \<le> g x) \<Longrightarrow> sum_list (map f xs) \<le> sum_list (map g xs)"
  by (induction xs) (auto intro: add_mono)

lemma sum_list_div: "sum_list (map (\<lambda>x. f x / c) xs) = sum_list (map f xs) / (c::real)"
  by (induction xs) (auto simp: add_divide_distrib)

lemma sum_list_mult: "sum_list (map (\<lambda>x. c * f x) xs) = (c::real) * sum_list (map f xs)"
  by (induction xs) (auto simp: algebra_simps)

lemma member_le_sum_list_map:
  fixes f :: "'a \<Rightarrow> real"
  assumes "x \<in> set xs" and "\<And>y. y \<in> set xs \<Longrightarrow> 0 \<le> f y"
  shows "f x \<le> sum_list (map f xs)"
  using assms
proof (induction xs)
  case (Cons a xs)
  then have "0 \<le> f a" and "0 \<le> sum_list (map f xs)"
    by (auto intro: sum_list_nonneg_map)
  with Cons show ?case by fastforce
qed simp

end
