(* ===== verification/Wallet.thy ===== *)
theory Wallet
  imports Prelude
begin

text \<open>
  \<^verbatim>\<open>src/src/wallet/mod.rs\<close> and the hasher of \<^verbatim>\<open>src/src/tools/mod.rs\<close>: addresses,
  recoverable ECDSA signatures, BLS signatures and their aggregation, and the registry of
  trusted BLS keys.

  The libraries the code calls (sha3, hex, secp256k1, blst) are the fields of one record,
  an argument of every definition that uses them.  Keys and signatures are represented by
  byte vectors.  What the code relies on is collected in named predicates over that
  record.
\<close>

section \<open>The cryptographic libraries\<close>

record crypto =
  sha3_256 :: "bytes \<Rightarrow> bytes"
  hex_encode :: "bytes \<Rightarrow> string"
  hex_decode :: "string \<Rightarrow> bytes option"
  u8_from_str_radix16 :: "string \<Rightarrow> byte option"
  secp_from_slice :: "bytes \<Rightarrow> bytes option"
  secp_from_str :: "string \<Rightarrow> bytes option"
  secp_public_key :: "bytes \<Rightarrow> bytes"
  serialize_uncompressed :: "bytes \<Rightarrow> bytes"
  sign_ecdsa_recoverable :: "bytes \<Rightarrow> bytes \<Rightarrow> nat \<times> bytes"
  compact_ok :: "bytes \<Rightarrow> nat \<Rightarrow> bool"
  recover_ecdsa :: "bytes \<Rightarrow> bytes \<Rightarrow> nat \<Rightarrow> bytes option"
  bls_key_gen :: "bytes \<Rightarrow> bytes option"
  bls_sk_to_pk :: "bytes \<Rightarrow> bytes"
  bls_sign :: "bytes \<Rightarrow> bytes \<Rightarrow> bytes"
  bls_sig_to_bytes :: "bytes \<Rightarrow> bytes"
  bls_sig_from_bytes :: "bytes \<Rightarrow> bytes option"
  bls_verify :: "bytes \<Rightarrow> bytes \<Rightarrow> bytes \<Rightarrow> bool"
  bls_add_signature :: "bytes \<Rightarrow> bytes \<Rightarrow> bytes option"
  bls_aggregate_verify :: "bytes \<Rightarrow> bytes list \<Rightarrow> bytes list \<Rightarrow> bool"

datatype wallet_error = InvalidPrivateKeyString | InvalidSignature

record wallet =
  secret_key :: bytes
  public_key :: bytes
  bls_private_key :: bytes
  bls_public_key :: bytes
  w_address :: address

type_synonym bls_registry = "(address, bytes) hash_map"

section \<open>Operations\<close>

definition hasher_hash :: "('x) crypto_scheme \<Rightarrow> bytes \<Rightarrow> bytes" where
  "hasher_hash C data = sha3_256 C data"

definition get_bls_pub_key :: "bls_registry \<Rightarrow> address \<Rightarrow> bytes option" where
  "get_bls_pub_key reg a = map_of reg a"

definition register_trusted_bls_pub_key :: "address \<Rightarrow> bytes \<Rightarrow> bls_registry \<Rightarrow> bls_registry" where
  "register_trusted_bls_pub_key a pk reg = hm_insert a pk reg"

definition public_key_to_address :: "('x) crypto_scheme \<Rightarrow> bytes \<Rightarrow> address" where
  "public_key_to_address C pk =
     ''0x'' @ hex_encode C (drop 12 (hasher_hash C (drop 1 (serialize_uncompressed C pk))))"

text \<open>The key material shared by the three constructors; \<open>None\<close> is the panic of \<open>unwrap\<close>.\<close>

definition wallet_of_secret :: "('x) crypto_scheme \<Rightarrow> bytes \<Rightarrow> wallet run" where
  "wallet_of_secret C sk =
     (case bls_key_gen C sk of
        None \<Rightarrow> None
      | Some bsk \<Rightarrow>
          Some \<lparr>secret_key = sk, public_key = secp_public_key C sk, bls_private_key = bsk,
                bls_public_key = bls_sk_to_pk C bsk,
                w_address = public_key_to_address C (secp_public_key C sk)\<rparr>)"

definition register_wallet :: "wallet \<Rightarrow> bls_registry \<Rightarrow> bls_registry" where
  "register_wallet w reg = register_trusted_bls_pub_key (w_address w) (bls_public_key w) reg"

text \<open>\<open>Wallet::new\<close>; the secret key drawn by \<open>generate_keypair\<close> is an argument.\<close>

definition wallet_new :: "('x) crypto_scheme \<Rightarrow> bytes \<Rightarrow> bls_registry \<Rightarrow> (wallet \<times> bls_registry) run" where
  "wallet_new C sk reg =
     (case wallet_of_secret C sk of
        None \<Rightarrow> None
      | Some w \<Rightarrow> Some (w, register_wallet w reg))"

definition u32_be_bytes :: "nat \<Rightarrow> bytes" where
  "u32_be_bytes n = map (\<lambda>i. word_of_nat (n div 256 ^ i)) [3, 2, 1, 0]"

definition new_deterministic ::
  "('x) crypto_scheme \<Rightarrow> nat \<Rightarrow> nat \<Rightarrow> bls_registry \<Rightarrow> (wallet \<times> bls_registry) run" where
  "new_deterministic C seed index reg =
     (case secp_from_slice C (hasher_hash C (to_be_bytes seed @ u32_be_bytes index)) of
        None \<Rightarrow> None
      | Some sk \<Rightarrow>
          (case wallet_of_secret C sk of
             None \<Rightarrow> None
           | Some w \<Rightarrow> Some (w, register_wallet w reg)))"

definition from_secret_key_string ::
  "('x) crypto_scheme \<Rightarrow> string \<Rightarrow> (wallet_error + wallet) run" where
  "from_secret_key_string C s0 =
     (let s = (if length s0 = 66 then drop 2 s0 else s0) in
      if length s \<noteq> 64 then Some (Inl InvalidPrivateKeyString)
      else case secp_from_str C s of
             None \<Rightarrow> Some (Inl InvalidPrivateKeyString)
           | Some sk \<Rightarrow> map_option Inr (wallet_of_secret C sk))"

definition strip_0x :: "string \<Rightarrow> string" where
  "strip_0x s = (if take 2 s = ''0x'' then drop 2 s else s)"

definition hex_digit :: "nat \<Rightarrow> char" where
  "hex_digit n = (if n < 10 then char_of (48 + n) else char_of (87 + n))"

definition fmt_02x :: "nat \<Rightarrow> string" where
  "fmt_02x v = [hex_digit (v div 16 mod 16), hex_digit (v mod 16)]"

definition sign :: "('x) crypto_scheme \<Rightarrow> wallet \<Rightarrow> bytes \<Rightarrow> string" where
  "sign C w msg =
     (let (recovery_id, signature_bytes) =
            sign_ecdsa_recoverable C (secret_key w) (hasher_hash C msg)
      in ''0x'' @ hex_encode C signature_bytes @ fmt_02x (27 + recovery_id))"

definition sign_by_bls :: "('x) crypto_scheme \<Rightarrow> wallet \<Rightarrow> bytes \<Rightarrow> string" where
  "sign_by_bls C w msg =
     ''0x'' @ hex_encode C (bls_sig_to_bytes C (bls_sign C (bls_private_key w) msg))"

text \<open>
  \<open>recover_pubkey\<close>.  The two slices panic on a short string, \<open>v - 27\<close> panics below 27
  (an overflow in a checked build; in a wrapping build the recovery id is out of range and
  \<open>RecoveryId::try_from\<close> panics), and three \<open>expect\<close> calls panic on values the libraries
  refuse.
\<close>

definition recover_pubkey ::
  "('x) crypto_scheme \<Rightarrow> bytes \<Rightarrow> string \<Rightarrow> (wallet_error + bytes) run" where
  "recover_pubkey C msg signature0 =
     (let signature = strip_0x signature0; digest = hasher_hash C msg in
      if length signature < 128 then None
      else case hex_decode C (take 128 signature) of
        None \<Rightarrow> Some (Inl InvalidSignature)
      | Some signature_bytes \<Rightarrow>
          if length signature < 130 then None
          else case u8_from_str_radix16 C (take 2 (drop 128 signature)) of
            None \<Rightarrow> Some (Inl InvalidSignature)
          | Some v \<Rightarrow>
              if unat v < 27 \<or> 30 < unat v then None
              else if \<not> compact_ok C signature_bytes (unat v - 27) then None
              else map_option Inr (recover_ecdsa C digest signature_bytes (unat v - 27)))"

definition wallet_verify :: "('x) crypto_scheme \<Rightarrow> wallet \<Rightarrow> bytes \<Rightarrow> string \<Rightarrow> bool run" where
  "wallet_verify C w msg signature =
     (case recover_pubkey C msg signature of
        None \<Rightarrow> None
      | Some (Inl _) \<Rightarrow> Some False
      | Some (Inr pk) \<Rightarrow> Some (pk = public_key w))"

definition verify_by_address ::
  "('x) crypto_scheme \<Rightarrow> bytes \<Rightarrow> string \<Rightarrow> address \<Rightarrow> bool run" where
  "verify_by_address C msg signature address =
     (case recover_pubkey C msg signature of
        None \<Rightarrow> None
      | Some (Inl _) \<Rightarrow> Some False
      | Some (Inr pk) \<Rightarrow> Some (public_key_to_address C pk = address))"

definition bls_signature_from_string ::
  "('x) crypto_scheme \<Rightarrow> string \<Rightarrow> wallet_error + bytes" where
  "bls_signature_from_string C signature =
     (case hex_decode C (strip_0x signature) of
        None \<Rightarrow> Inl InvalidSignature
      | Some bs \<Rightarrow>
          (case bls_sig_from_bytes C bs of
             None \<Rightarrow> Inl InvalidSignature
           | Some s \<Rightarrow> Inr s))"

definition verify_bls_with_pk ::
  "('x) crypto_scheme \<Rightarrow> bytes \<Rightarrow> string \<Rightarrow> bytes \<Rightarrow> bool" where
  "verify_bls_with_pk C msg signature pk =
     (case bls_signature_from_string C signature of
        Inl _ \<Rightarrow> False
      | Inr s \<Rightarrow> bls_verify C s msg pk)"

definition verify_bls :: "('x) crypto_scheme \<Rightarrow> wallet \<Rightarrow> bytes \<Rightarrow> string \<Rightarrow> bool" where
  "verify_bls C w msg signature = verify_bls_with_pk C msg signature (bls_public_key w)"

fun add_signatures :: "('x) crypto_scheme \<Rightarrow> bytes \<Rightarrow> bytes list \<Rightarrow> bytes run" where
  "add_signatures C agg [] = Some agg"
| "add_signatures C agg (s # ss) =
     (case bls_add_signature C agg s of
        None \<Rightarrow> None
      | Some agg' \<Rightarrow> add_signatures C agg' ss)"

fun bls_aggregated_sign :: "('x) crypto_scheme \<Rightarrow> bytes list \<Rightarrow> string run" where
  "bls_aggregated_sign C [] = Some ''''"
| "bls_aggregated_sign C (s # ss) =
     map_option (\<lambda>agg. ''0x'' @ hex_encode C (bls_sig_to_bytes C agg)) (add_signatures C s ss)"

definition bls_aggregated_verify_parsed ::
  "('x) crypto_scheme \<Rightarrow> bytes list \<Rightarrow> bytes list \<Rightarrow> bytes \<Rightarrow> bool" where
  "bls_aggregated_verify_parsed C messages pks s = bls_aggregate_verify C s messages pks"

definition bls_aggregated_verify ::
  "('x) crypto_scheme \<Rightarrow> bytes list \<Rightarrow> bytes list \<Rightarrow> string \<Rightarrow> bool" where
  "bls_aggregated_verify C messages pks signature =
     (case bls_signature_from_string C signature of
        Inl _ \<Rightarrow> False
      | Inr s \<Rightarrow> bls_aggregated_verify_parsed C messages pks s)"

section \<open>What the code relies on\<close>

text \<open>Hexadecimal text: decoding inverts encoding, and encoding doubles the length.\<close>

definition hex_laws :: "('x) crypto_scheme \<Rightarrow> bool" where
  "hex_laws C \<longleftrightarrow>
     (\<forall>b. hex_decode C (hex_encode C b) = Some b) \<and>
     (\<forall>b. length (hex_encode C b) = 2 * length b)"

text \<open>
  ECDSA with recovery: a signature is 64 bytes with a recovery id below four, parses, and
  recovers the signer's public key; \<open>from_str_radix\<close> reads two hexadecimal digits.
\<close>

definition ecdsa_laws :: "('x) crypto_scheme \<Rightarrow> bool" where
  "ecdsa_laws C \<longleftrightarrow>
     (\<forall>sk d. let (rid, s) = sign_ecdsa_recoverable C sk d in
        rid < 4 \<and> length s = 64 \<and> compact_ok C s rid \<and>
        recover_ecdsa C d s rid = Some (secp_public_key C sk)) \<and>
     (\<forall>v < 256. u8_from_str_radix16 C (fmt_02x v) = Some (word_of_nat v))"

text \<open>
  BLS: signatures survive serialisation, a signature verifies under the key of its signer,
  and an aggregate of signatures verifies against the list of their messages and keys.
\<close>

fun all_verify :: "('x) crypto_scheme \<Rightarrow> bytes list \<Rightarrow> bytes list \<Rightarrow> bytes list \<Rightarrow> bool" where
  "all_verify C (s # ss) (m # ms) (p # ps) = (bls_verify C s m p \<and> all_verify C ss ms ps)"
| "all_verify C [] [] [] = True"
| "all_verify C _ _ _ = False"

definition bls_sign_laws :: "('x) crypto_scheme \<Rightarrow> bool" where
  "bls_sign_laws C \<longleftrightarrow>
     (\<forall>s. bls_sig_from_bytes C (bls_sig_to_bytes C s) = Some s) \<and>
     (\<forall>sk m. bls_verify C (bls_sign C sk m) m (bls_sk_to_pk C sk))"

definition bls_aggregate_laws :: "('x) crypto_scheme \<Rightarrow> bool" where
  "bls_aggregate_laws C \<longleftrightarrow>
     (\<forall>s ss ms ps. all_verify C (s # ss) ms ps \<longrightarrow>
        (\<exists>agg. add_signatures C s ss = Some agg \<and> bls_aggregate_verify C agg ms ps))"

section \<open>Lemmas\<close>

lemma strip_0x_prefix [simp]: "strip_0x (''0x'' @ s) = s"
  by (simp add: strip_0x_def)

lemma strip_0x_cons [simp]: "strip_0x (CHR ''0'' # CHR ''x'' # s) = s"
  by (simp add: strip_0x_def)

lemma bls_string_roundtrip:
  assumes "hex_laws C" and "bls_sign_laws C"
  shows "bls_signature_from_string C (''0x'' @ hex_encode C (bls_sig_to_bytes C s)) = Inr s"
  using assms by (simp add: bls_signature_from_string_def hex_laws_def bls_sign_laws_def)

lemma sign_by_bls_verifies:
  assumes "hex_laws C" and "bls_sign_laws C"
  shows "verify_bls_with_pk C msg (sign_by_bls C w msg) (bls_sk_to_pk C (bls_private_key w))"
  using assms bls_string_roundtrip [OF assms]
  by (simp add: verify_bls_with_pk_def sign_by_bls_def bls_sign_laws_def)

lemma recover_pubkey_sign:
  assumes "hex_laws C" and "ecdsa_laws C"
  shows "recover_pubkey C msg (sign C w msg) = Some (Inr (secp_public_key C (secret_key w)))"
proof -
  obtain rid s where rs:
    "sign_ecdsa_recoverable C (secret_key w) (hasher_hash C msg) = (rid, s)"
    by fastforce
  have r: "rid < 4" "length s = 64" "compact_ok C s rid"
    "recover_ecdsa C (hasher_hash C msg) s rid = Some (secp_public_key C (secret_key w))"
    using assms(2) rs unfolding ecdsa_laws_def by (force split: prod.splits)+
  have u: "u8_from_str_radix16 C (fmt_02x (27 + rid)) = Some (word_of_nat (27 + rid))"
    using assms(2) r(1) unfolding ecdsa_laws_def by auto
  have l: "length (hex_encode C s) = 128" and d: "hex_decode C (hex_encode C s) = Some s"
    using assms(1) r(2) by (auto simp: hex_laws_def)
  have n: "unat (word_of_nat (27 + rid) :: byte) = 27 + rid"
    using r(1) by (simp only: unat_of_nat) simp
  have f: "length (fmt_02x (27 + rid)) = 2" by (simp add: fmt_02x_def)
  show ?thesis
    using r l d u n f by (simp add: recover_pubkey_def sign_def rs Let_def)
qed

text \<open>Wallets built by the code: the address and the public keys belong to the secret key.\<close>

definition wallet_wf :: "('x) crypto_scheme \<Rightarrow> wallet \<Rightarrow> bool" where
  "wallet_wf C w \<longleftrightarrow>
     public_key w = secp_public_key C (secret_key w) \<and>
     w_address w = public_key_to_address C (public_key w) \<and>
     bls_public_key w = bls_sk_to_pk C (bls_private_key w)"

lemma wallet_of_secret_wf: "wallet_of_secret C sk = Some w \<Longrightarrow> wallet_wf C w"
  by (auto simp: wallet_of_secret_def wallet_wf_def split: option.splits)

definition registered :: "bls_registry \<Rightarrow> wallet \<Rightarrow> bool" where
  "registered reg w \<longleftrightarrow> get_bls_pub_key reg (w_address w) = Some (bls_public_key w)"

lemma register_wallet_registered: "registered (register_wallet w reg) w"
  by (simp add: registered_def register_wallet_def register_trusted_bls_pub_key_def
      get_bls_pub_key_def table_simps)

lemma new_deterministic_ok:
  "new_deterministic C seed index reg = Some (w, reg') \<Longrightarrow> wallet_wf C w \<and> registered reg' w"
  by (auto simp: new_deterministic_def register_wallet_registered wallet_of_secret_wf
      split: option.splits)

end
