(* ===== verification/Transaction.thy ===== *)
theory Transaction
  imports Wallet
begin

text \<open>
  \<^verbatim>\<open>src/src/blockchain/transaction.rs\<close>: the signed transaction, its construction, its
  verification and its size.  The JSON text of a transaction (serde_json) and the clock are
  parameters.
\<close>

record transaction =
  tx_from :: address
  tx_to :: address
  tx_amount :: int
  tx_fee :: real
  tx_irrecoverable_cost :: real
  tx_hash :: string
  tx_signature :: string
  tx_timestamp :: nat
  tx_data :: bytes

record tx_env = crypto +
  tx_json :: "transaction \<Rightarrow> string"

definition unsigned_tx :: "transaction \<Rightarrow> transaction" where
  "unsigned_tx t = t\<lparr>tx_hash := '''', tx_signature := '''', tx_data := []\<rparr>"

definition tx_digest :: "('x) tx_env_scheme \<Rightarrow> transaction \<Rightarrow> bytes" where
  "tx_digest C t = hasher_hash C (as_bytes (tx_json C (unsigned_tx t)))"

definition with_costs ::
  "('x) tx_env_scheme \<Rightarrow> nat \<Rightarrow> address \<Rightarrow> int \<Rightarrow> real \<Rightarrow> real \<Rightarrow> wallet \<Rightarrow> transaction" where
  "with_costs C now to amount fee irrecoverable_cost w =
     (let t = \<lparr>tx_from = w_address w, tx_to = to, tx_amount = amount, tx_fee = fee,
               tx_irrecoverable_cost = irrecoverable_cost, tx_hash = '''', tx_signature = '''',
               tx_timestamp = now, tx_data = []\<rparr>;
          hash = hasher_hash C (as_bytes (tx_json C t))
      in t\<lparr>tx_hash := hex_encode C hash, tx_signature := sign C w hash\<rparr>)"

definition with_fee ::
  "('x) tx_env_scheme \<Rightarrow> nat \<Rightarrow> address \<Rightarrow> int \<Rightarrow> real \<Rightarrow> wallet \<Rightarrow> transaction" where
  "with_fee C now to amount fee w = with_costs C now to amount fee fee w"

definition transaction_new ::
  "('x) tx_env_scheme \<Rightarrow> nat \<Rightarrow> address \<Rightarrow> int \<Rightarrow> wallet \<Rightarrow> transaction" where
  "transaction_new C now to amount w = with_fee C now to amount 1 w"

definition tx_verify :: "('x) tx_env_scheme \<Rightarrow> transaction \<Rightarrow> bool run" where
  "tx_verify C t =
     (let hash = tx_digest C t in
      if tx_hash t \<noteq> hex_encode C hash then Some False
      else verify_by_address C hash (tx_signature t) (tx_from t))"

definition tx_bytes :: "transaction \<Rightarrow> nat" where
  "tx_bytes t = length (tx_hash t) + 8 + 8 + 8 + 8 + length (tx_from t) + length (tx_to t)
     + length (tx_signature t) + length (tx_data t)"

section \<open>Lemmas\<close>

lemma unsigned_tx_update [simp]:
  "unsigned_tx (t\<lparr>tx_hash := h\<rparr>) = unsigned_tx t"
  "unsigned_tx (t\<lparr>tx_signature := s\<rparr>) = unsigned_tx t"
  "unsigned_tx (t\<lparr>tx_data := d\<rparr>) = unsigned_tx t"
  by (simp_all add: unsigned_tx_def)

lemma tx_from_with_costs [simp]: "tx_from (with_costs C now to a f c w) = w_address w"
  by (simp add: with_costs_def Let_def)

lemma verify_by_address_sign:
  assumes "hex_laws C" and "ecdsa_laws C" and "wallet_wf C w"
  shows "verify_by_address C msg (sign C w msg) (w_address w) = Some True"
  using assms recover_pubkey_sign [OF assms(1,2)]
  by (simp add: verify_by_address_def wallet_wf_def)

lemma tx_digest_with_costs:
  "tx_hash (with_costs C now to a f c w) = hex_encode C (tx_digest C (with_costs C now to a f c w))
   \<and> tx_signature (with_costs C now to a f c w) = sign C w (tx_digest C (with_costs C now to a f c w))"
  by (simp add: with_costs_def Let_def tx_digest_def unsigned_tx_def)

lemma tx_verify_with_costs:
  assumes "hex_laws C" and "ecdsa_laws C" and "wallet_wf C w"
  shows "tx_verify C (with_costs C now to a f c w) = Some True"
  using tx_digest_with_costs [of C now to a f c w] verify_by_address_sign [OF assms]
  by (simp add: tx_verify_def Let_def)

lemma tx_verify_hash: "tx_verify C t = Some True \<Longrightarrow> tx_hash t = hex_encode C (tx_digest C t)"
  by (auto simp: tx_verify_def Let_def split: if_splits)

lemma tx_verify_data: "tx_verify C (t\<lparr>tx_data := d\<rparr>) = tx_verify C t"
  by (simp add: tx_verify_def tx_digest_def Let_def)

end
