(* ===== verification/Rust_Text.thy ===== *)
theory Rust_Text
  imports Prelude "HOL-Library.Sublist"
begin

text \<open>
  The part of Rust's text library that the consensus client uses: UTF-8 validation, trimming,
  splitting, stripping of prefixes and suffixes, reading and printing of unsigned integers.
  Text is its UTF-8 bytes, as everywhere in the development, so a white-space character
  outside ASCII is a sequence of two or three of them.
\<close>

section \<open>UTF-8\<close>

definition utf8_cont :: "nat \<Rightarrow> bool" where
  "utf8_cont b \<longleftrightarrow> 0x80 \<le> b \<and> b \<le> 0xBF"

definition utf8_lead3 :: "nat \<Rightarrow> nat \<Rightarrow> bool" where
  "utf8_lead3 a b \<longleftrightarrow>
     a = 0xE0 \<and> 0xA0 \<le> b \<and> b \<le> 0xBF \<or>
     0xE1 \<le> a \<and> a \<le> 0xEC \<and> utf8_cont b \<or>
     a = 0xED \<and> 0x80 \<le> b \<and> b \<le> 0x9F \<or>
     0xEE \<le> a \<and> a \<le> 0xEF \<and> utf8_cont b"

definition utf8_lead4 :: "nat \<Rightarrow> nat \<Rightarrow> bool" where
  "utf8_lead4 a b \<longleftrightarrow>
     a = 0xF0 \<and> 0x90 \<le> b \<and> b \<le> 0xBF \<or>
     0xF1 \<le> a \<and> a \<le> 0xF3 \<and> utf8_cont b \<or>
     a = 0xF4 \<and> 0x80 \<le> b \<and> b \<le> 0x8F"

fun utf8_valid :: "nat list \<Rightarrow> bool" where
  "utf8_valid [] = True"
| "utf8_valid (a # r) =
    (if a < 0x80 then utf8_valid r
     else (case r of
        [] \<Rightarrow> False
      | b # r2 \<Rightarrow>
          if 0xC2 \<le> a \<and> a \<le> 0xDF then utf8_cont b \<and> utf8_valid r2
          else (case r2 of
              [] \<Rightarrow> False
            | c # r3 \<Rightarrow>
                if utf8_lead3 a b then utf8_cont c \<and> utf8_valid r3
                else (case r3 of
                    [] \<Rightarrow> False
                  | d # r4 \<Rightarrow> utf8_lead4 a b \<and> utf8_cont c \<and> utf8_cont d \<and> utf8_valid r4))))"

definition from_utf8 :: "bytes \<Rightarrow> string option" where
  "from_utf8 bs = (if utf8_valid (map unat bs) then Some (map (\<lambda>b. char_of (unat b)) bs) else None)"

section \<open>Trimming and splitting\<close>

text \<open>The encodings of the characters with the Unicode property \<open>White_Space\<close>.\<close>

definition white_space :: "string list" where
  "white_space = [[CHR 0x09], [CHR 0x0A], [CHR 0x0B], [CHR 0x0C], [CHR 0x0D], [CHR 0x20],
     [CHR 0xC2, CHR 0x85], [CHR 0xC2, CHR 0xA0],
     [CHR 0xE1, CHR 0x9A, CHR 0x80],
     [CHR 0xE2, CHR 0x80, CHR 0x80], [CHR 0xE2, CHR 0x80, CHR 0x81],
     [CHR 0xE2, CHR 0x80, CHR 0x82], [CHR 0xE2, CHR 0x80, CHR 0x83],
     [CHR 0xE2, CHR 0x80, CHR 0x84], [CHR 0xE2, CHR 0x80, CHR 0x85],
     [CHR 0xE2, CHR 0x80, CHR 0x86], [CHR 0xE2, CHR 0x80, CHR 0x87],
     [CHR 0xE2, CHR 0x80, CHR 0x88], [CHR 0xE2, CHR 0x80, CHR 0x89],
     [CHR 0xE2, CHR 0x80, CHR 0x8A],
     [CHR 0xE2, CHR 0x80, CHR 0xA8], [CHR 0xE2, CHR 0x80, CHR 0xA9],
     [CHR 0xE2, CHR 0x80, CHR 0xAF],
     [CHR 0xE2, CHR 0x81, CHR 0x9F],
     [CHR 0xE3, CHR 0x80, CHR 0x80]]"

function strip_tokens :: "string list \<Rightarrow> string \<Rightarrow> string" where
  "strip_tokens ws s =
    (case find (\<lambda>w. w \<noteq> [] \<and> prefix w s) ws of
       None \<Rightarrow> s
     | Some w \<Rightarrow> strip_tokens ws (drop (length w) s))"
  by pat_completeness auto
termination
proof (relation "measure (\<lambda>(ws, s). length s)", goal_cases)
  case (2 ws s w)
  then have "w \<noteq> []" and "prefix w s" by (auto simp: find_Some_iff)
  then show ?case by (cases w; cases s) auto
qed simp

declare strip_tokens.simps [simp del]

definition trim :: "string \<Rightarrow> string" where
  "trim s = rev (strip_tokens (map rev white_space) (rev (strip_tokens white_space s)))"

definition trim_matches :: "char \<Rightarrow> string \<Rightarrow> string" where
  "trim_matches c s = rev (dropWhile (\<lambda>x. x = c) (rev (dropWhile (\<lambda>x. x = c) s)))"

definition strip_prefix :: "string \<Rightarrow> string \<Rightarrow> string option" where
  "strip_prefix p s = (if prefix p s then Some (drop (length p) s) else None)"

definition strip_suffix :: "string \<Rightarrow> string \<Rightarrow> string option" where
  "strip_suffix p s = (if suffix p s then Some (take (length s - length p) s) else None)"

fun split_on :: "char \<Rightarrow> string \<Rightarrow> string list" where
  "split_on c [] = [[]]"
| "split_on c (x # xs) =
    (if x = c then [] # split_on c xs
     else (case split_on c xs of [] \<Rightarrow> [[x]] | y # ys \<Rightarrow> (x # y) # ys))"

definition split_once :: "char \<Rightarrow> string \<Rightarrow> (string \<times> string) option" where
  "split_once c s =
    (if c \<in> set s then Some (takeWhile (\<lambda>x. x \<noteq> c) s, tl (dropWhile (\<lambda>x. x \<noteq> c) s)) else None)"

definition rsplit_once :: "char \<Rightarrow> string \<Rightarrow> (string \<times> string) option" where
  "rsplit_once c s = map_option (\<lambda>(a, b). (rev b, rev a)) (split_once c (rev s))"

fun split_once_str :: "string \<Rightarrow> string \<Rightarrow> (string \<times> string) option" where
  "split_once_str p [] = (if p = [] then Some ([], []) else None)"
| "split_once_str p (x # xs) =
    (if prefix p (x # xs) then Some ([], drop (length p) (x # xs))
     else map_option (\<lambda>(a, b). (x # a, b)) (split_once_str p xs))"

fun join_with :: "string \<Rightarrow> string list \<Rightarrow> string" where
  "join_with sep [] = []"
| "join_with sep [s] = s"
| "join_with sep (s # t # ts) = s @ sep @ join_with sep (t # ts)"

definition ascii_lower :: "char \<Rightarrow> char" where
  "ascii_lower c = (let n = of_char c :: nat in if 65 \<le> n \<and> n \<le> 90 then char_of (n + 32) else c)"

definition to_ascii_lowercase :: "string \<Rightarrow> string" where
  "to_ascii_lowercase s = map ascii_lower s"

section \<open>Reading and printing unsigned integers\<close>

definition digit_val :: "char \<Rightarrow> nat" where
  "digit_val c = (let n = of_char c in
     if 48 \<le> n \<and> n \<le> 57 then n - 48
     else if 97 \<le> n \<and> n \<le> 122 then n - 87
     else if 65 \<le> n \<and> n \<le> 90 then n - 55
     else 36)"

definition is_ascii_hexdigit :: "char \<Rightarrow> bool" where
  "is_ascii_hexdigit c \<longleftrightarrow> digit_val c < 16"

fun parse_digits :: "nat \<Rightarrow> nat \<Rightarrow> nat \<Rightarrow> string \<Rightarrow> nat option" where
  "parse_digits radix bnd acc [] = Some acc"
| "parse_digits radix bnd acc (c # cs) =
    (if digit_val c < radix \<and> acc * radix + digit_val c < bnd
     then parse_digits radix bnd (acc * radix + digit_val c) cs else None)"

text \<open>\<open>from_str_radix\<close>: a leading plus sign is accepted unless it is the whole text.\<close>

definition from_str_radix :: "nat \<Rightarrow> nat \<Rightarrow> string \<Rightarrow> nat option" where
  "from_str_radix radix bnd s =
    (case s of
       [] \<Rightarrow> None
     | c # r \<Rightarrow> if c = CHR ''+'' \<and> r \<noteq> [] then parse_digits radix bnd 0 r else parse_digits radix bnd 0 s)"

definition parse_u64 :: "string \<Rightarrow> nat option" where
  "parse_u64 s = from_str_radix 10 (2 ^ 64) s"

definition parse_u128 :: "string \<Rightarrow> nat option" where
  "parse_u128 s = from_str_radix 10 (2 ^ 128) s"

definition digit_char :: "nat \<Rightarrow> char" where
  "digit_char d = char_of (48 + d)"

fun show_nat :: "nat \<Rightarrow> string" where
  "show_nat n = (if n < 10 then [digit_char n] else show_nat (n div 10) @ [digit_char (n mod 10)])"

declare show_nat.simps [simp del]

definition show_bool :: "bool \<Rightarrow> string" where
  "show_bool b = (if b then ''true'' else ''false'')"

section \<open>Laws\<close>

lemma of_char_digit: "d < 10 \<Longrightarrow> of_char (digit_char d) = (48 + d :: nat)"
  by (simp add: digit_char_def)

lemma digit_val_digit [simp]: "d < 10 \<Longrightarrow> digit_val (digit_char d) = d"
  by (simp add: digit_val_def of_char_digit Let_def)

definition is_digit :: "char \<Rightarrow> bool" where
  "is_digit c \<longleftrightarrow> of_char c \<in> {48..57 :: nat}"

lemma is_digit_char [simp]: "d < 10 \<Longrightarrow> is_digit (digit_char d)"
  by (simp add: is_digit_def of_char_digit)

lemma show_nat_digits: "c \<in> set (show_nat n) \<Longrightarrow> is_digit c"
proof (induction n rule: show_nat.induct)
  case (1 n)
  then show ?case by (cases "n < 10") (auto simp: show_nat.simps [of n])
qed

lemma show_nat_not_Nil [simp]: "show_nat n \<noteq> []"
  by (simp add: show_nat.simps [of n])

lemma parse_digits_append:
  "parse_digits radix bnd acc (xs @ ys) =
    (case parse_digits radix bnd acc xs of None \<Rightarrow> None | Some a \<Rightarrow> parse_digits radix bnd a ys)"
  by (induction xs arbitrary: acc) auto

lemma parse_digits_show: "n < bnd \<Longrightarrow> parse_digits 10 bnd 0 (show_nat n) = Some n"
proof (induction n rule: show_nat.induct)
  case (1 n)
  show ?case
  proof (cases "n < 10")
    case True
    with 1 show ?thesis by (simp add: show_nat.simps [of n])
  next
    case False
    with 1 have "parse_digits 10 bnd 0 (show_nat (n div 10)) = Some (n div 10)" by auto
    with False 1 show ?thesis by (simp add: show_nat.simps [of n] parse_digits_append)
  qed
qed

text \<open>Printing and reading back a \<open>u64\<close> is the identity.\<close>

lemma parse_show_u64: "n < 2 ^ 64 \<Longrightarrow> parse_u64 (show_nat n) = Some n"
proof -
  assume n: "n < 2 ^ 64"
  obtain c r where s: "show_nat n = c # r" by (cases "show_nat n") auto
  then have "is_digit c" using show_nat_digits [of c n] by simp
  then have "c \<noteq> CHR ''+''" by (auto simp: is_digit_def)
  with s parse_digits_show [OF n] show ?thesis
    by (simp add: parse_u64_def from_str_radix_def)
qed

lemma show_nat_inject: "show_nat m = show_nat n \<longleftrightarrow> m = n"
proof
  assume e: "show_nat m = show_nat n"
  have "Some m = parse_digits 10 (Suc (max m n)) 0 (show_nat m)"
    by (rule parse_digits_show [symmetric]) (simp add: less_Suc_eq_le)
  also have "\<dots> = Some n"
    unfolding e by (rule parse_digits_show) (simp add: less_Suc_eq_le)
  finally show "m = n" by simp
qed simp

lemma parse_digits_less: "parse_digits radix bnd acc s = Some n \<Longrightarrow> acc < bnd \<Longrightarrow> n < bnd"
  by (induction s arbitrary: acc) (auto split: if_splits)

lemma parse_u64_less: "parse_u64 s = Some n \<Longrightarrow> n < 2 ^ 64"
  unfolding parse_u64_def from_str_radix_def
  by (auto split: list.splits if_splits simp del: parse_digits.simps dest!: parse_digits_less)

text \<open>Text that begins and ends outside white space is not trimmed.\<close>

lemma strip_tokens_id:
  assumes "\<And>w. w \<in> set ws \<Longrightarrow> w \<noteq> [] \<Longrightarrow> \<not> prefix w s"
  shows "strip_tokens ws s = s"
proof -
  have "find (\<lambda>w. w \<noteq> [] \<and> prefix w s) ws = None" using assms by (auto simp: find_None_iff)
  then show ?thesis by (simp add: strip_tokens.simps)
qed

definition printable :: "char \<Rightarrow> bool" where
  "printable c \<longleftrightarrow> of_char c \<in> {33..126 :: nat}"

lemma printable_hd: "w \<in> set white_space \<Longrightarrow> prefix w s \<Longrightarrow> s \<noteq> [] \<Longrightarrow> \<not> printable (hd s)"
  unfolding white_space_def prefix_def printable_def by auto

lemma printable_last:
  assumes "w \<in> set (map rev white_space)" and "prefix w s" and "s \<noteq> []"
  shows "\<not> printable (hd s)"
  using assms unfolding white_space_def prefix_def printable_def by auto

lemma trim_id:
  assumes "s = [] \<or> printable (hd s) \<and> printable (last s)"
  shows "trim s = s"
proof (cases "s = []")
  case True
  have "find (\<lambda>w. w \<noteq> [] \<and> prefix w []) ws = None" for ws :: "string list"
    by (auto simp: find_None_iff)
  with True show ?thesis by (simp add: trim_def strip_tokens.simps)
next
  case False
  with assms have p: "printable (hd s)" "printable (hd (rev s))" by (auto simp: hd_rev)
  have "strip_tokens white_space s = s"
    using p False by (intro strip_tokens_id) (auto dest: printable_hd)
  moreover have "strip_tokens (map rev white_space) (rev s) = rev s"
    using p False by (intro strip_tokens_id) (auto dest!: printable_last simp del: set_map)
  ultimately show ?thesis by (simp add: trim_def)
qed

lemma is_digit_printable: "is_digit c \<Longrightarrow> printable c"
  by (auto simp: is_digit_def printable_def)

lemma trim_show_nat [simp]: "trim (show_nat n) = show_nat n"
  by (rule trim_id) (auto intro!: is_digit_printable show_nat_digits [of _ n])

text \<open>Splitting undoes joining when no part holds the separator.\<close>

lemma split_on_not_Nil [simp]: "split_on c s \<noteq> []"
  by (cases s) (auto split: list.splits)

lemma split_on_append:
  "c \<notin> set s \<Longrightarrow> split_on c (s @ c # t) = s # split_on c t"
  by (induction s) auto

lemma split_on_fresh: "c \<notin> set s \<Longrightarrow> split_on c s = [s]"
  by (induction s) auto

lemma split_join:
  assumes "ts \<noteq> []" and "\<And>t. t \<in> set ts \<Longrightarrow> c \<notin> set t"
  shows "split_on c (join_with [c] ts) = ts"
  using assms
proof (induction "[c]" ts rule: join_with.induct)
  case (3 s t ts)
  then show ?case by (simp add: split_on_append)
qed (auto simp: split_on_fresh)

lemma split_once_append: "c \<notin> set s \<Longrightarrow> split_once c (s @ c # t) = Some (s, t)"
  unfolding split_once_def by (induction s) auto

section \<open>Trimming is idempotent and commutes with lower case\<close>

lemma strip_tokens_fixed: "w \<in> set ws \<Longrightarrow> w \<noteq> [] \<Longrightarrow> \<not> prefix w (strip_tokens ws s)"
proof (induction ws s rule: strip_tokens.induct)
  case (1 ws s)
  show ?case
  proof (cases "find (\<lambda>w. w \<noteq> [] \<and> prefix w s) ws")
    case None
    then have "\<not> prefix w s" using "1.prems" by (auto simp: find_None_iff)
    with None show ?thesis by (simp add: strip_tokens.simps [of ws s])
  next
    case (Some v)
    with 1 show ?thesis by (simp add: strip_tokens.simps [of ws s])
  qed
qed

lemma strip_tokens_suffix: "suffix (strip_tokens ws s) s"
proof (induction ws s rule: strip_tokens.induct)
  case (1 ws s)
  show ?case
  proof (cases "find (\<lambda>w. w \<noteq> [] \<and> prefix w s) ws")
    case (Some v)
    with 1 have "suffix (strip_tokens ws s) (drop (length v) s)" by (simp add: strip_tokens.simps [of ws s])
    then show ?thesis using suffix_drop suffix_order.trans by blast
  qed (simp add: strip_tokens.simps [of ws s])
qed

lemma trim_trim [simp]: "trim (trim s) = trim s"
proof -
  let ?u = "strip_tokens white_space s"
  let ?t = "strip_tokens (map rev white_space) (rev ?u)"
  have t: "trim s = rev ?t" by (simp add: trim_def)
  have "prefix (rev ?t) ?u"
    using strip_tokens_suffix [of "map rev white_space" "rev ?u"] by (simp add: suffix_to_prefix)
  then have "strip_tokens white_space (rev ?t) = rev ?t"
    by (intro strip_tokens_id) (meson prefix_order.trans strip_tokens_fixed)
  moreover have "strip_tokens (map rev white_space) ?t = ?t"
    by (intro strip_tokens_id) (rule strip_tokens_fixed)
  ultimately show ?thesis by (simp add: trim_def [of "rev ?t"] t)
qed

definition caseless :: "char \<Rightarrow> bool" where
  "caseless c \<longleftrightarrow> (let n = of_char c :: nat in \<not> (65 \<le> n \<and> n \<le> 90) \<and> \<not> (97 \<le> n \<and> n \<le> 122))"

lemma of_char_ascii_lower:
  "of_char (ascii_lower c) = (let n = of_char c :: nat in if 65 \<le> n \<and> n \<le> 90 then n + 32 else n)"
  by (simp add: ascii_lower_def Let_def)

lemma ascii_lower_caseless: "caseless c \<Longrightarrow> ascii_lower d = c \<longleftrightarrow> d = c"
proof
  assume c: "caseless c" and "ascii_lower d = c"
  then have "of_char (ascii_lower d) = (of_char c :: nat)" by simp
  with c show "d = c"
    unfolding of_char_ascii_lower caseless_def Let_def by (auto split: if_splits)
qed (auto simp: caseless_def ascii_lower_def Let_def)

lemma ascii_lower_idem [simp]: "ascii_lower (ascii_lower c) = ascii_lower c"
  by (simp add: ascii_lower_def Let_def)

lemma to_ascii_lowercase_idem [simp]: "to_ascii_lowercase (to_ascii_lowercase s) = to_ascii_lowercase s"
  by (simp add: to_ascii_lowercase_def)

lemma prefix_lower:
  "list_all caseless w \<Longrightarrow> prefix w (map ascii_lower s) \<longleftrightarrow> prefix w s"
proof (induction w arbitrary: s)
  case (Cons c w)
  then show ?case by (cases s) (auto simp: ascii_lower_caseless eq_commute [of _ "ascii_lower _"])
qed simp

lemma strip_tokens_lower:
  assumes "\<And>w. w \<in> set ws \<Longrightarrow> list_all caseless w"
  shows "strip_tokens ws (map ascii_lower s) = map ascii_lower (strip_tokens ws s)"
  using assms
proof (induction ws s rule: strip_tokens.induct)
  case (1 ws s)
  have f: "find (\<lambda>w. w \<noteq> [] \<and> prefix w (map ascii_lower s)) ws = find (\<lambda>w. w \<noteq> [] \<and> prefix w s) ws"
    using 1(2) by (intro find_cong) (auto simp: prefix_lower)
  show ?case
  proof (cases "find (\<lambda>w. w \<noteq> [] \<and> prefix w s) ws")
    case (Some v)
    with 1 show ?thesis
      by (simp add: strip_tokens.simps [of ws s] strip_tokens.simps [of ws "map ascii_lower s"] f drop_map)
  qed (simp add: strip_tokens.simps [of ws s] strip_tokens.simps [of ws "map ascii_lower s"] f)
qed

lemma white_space_caseless: "list_all (list_all caseless) white_space"
  by (simp add: white_space_def caseless_def)

lemma trim_lower: "trim (to_ascii_lowercase s) = to_ascii_lowercase (trim s)"
proof -
  have "\<And>w. w \<in> set white_space \<Longrightarrow> list_all caseless w"
    "\<And>w. w \<in> set (map rev white_space) \<Longrightarrow> list_all caseless w"
    using white_space_caseless by (auto simp: list_all_iff)
  then show ?thesis
    unfolding trim_def to_ascii_lowercase_def by (simp only: strip_tokens_lower rev_map)
qed

end
