(* ===== verification/Path_Evidence.thy ===== *)
theory Path_Evidence
  imports Transaction Rust_Text
begin

text \<open>
  \<^verbatim>\<open>src/src/blockchain/path.rs\<close>: the two-sided signed hops a transaction collects while it
  is relayed, the receipt cache that stops a receiver from signing two histories of one
  transaction, the aggregated record stored in a block, and its verification with and
  without the process-wide verdict cache.
\<close>

section \<open>Data\<close>

record path =
  hop_from :: address
  hop_to :: address
  hop_prefix :: string
  sender_signature :: string
  receiver_signature :: "string option"

record transaction_paths =
  tp_transaction :: transaction
  tp_chain_id :: nat
  tp_epoch :: nat
  tp_paths :: "path list"

record aggregated_signed_paths =
  asp_chain_id :: nat
  asp_epoch :: nat
  asp_signature :: string
  asp_paths :: "address list"

record path_caches =
  receipt_commitments :: "(string, string) hash_map"
  receipt_conflicts :: "(string, nat) hash_map"
  path_verdicts :: "(string, bool) hash_map"

definition DEFAULT_TOPOSTAKE_CHAIN_ID :: nat where
  "DEFAULT_TOPOSTAKE_CHAIN_ID = 7032030"

definition TOPOSTAKE_TX_PATH_DOMAIN :: bytes where
  "TOPOSTAKE_TX_PATH_DOMAIN = as_bytes ''TOPOSTAKE_TX_PATH_V1''"

section \<open>Statements that are signed\<close>

definition hash_identity :: "('x) crypto_scheme \<Rightarrow> address \<Rightarrow> bytes" where
  "hash_identity C identity = hasher_hash C (as_bytes identity)"

definition edge_statement :: "('x) crypto_scheme \<Rightarrow> bytes \<Rightarrow> address \<Rightarrow> address \<Rightarrow> bytes" where
  "edge_statement C pre from to =
     TOPOSTAKE_TX_PATH_DOMAIN @ pre @ hash_identity C from @ hash_identity C to"

definition chain_value_for_nodes ::
  "('x) crypto_scheme \<Rightarrow> string \<Rightarrow> nat \<Rightarrow> nat \<Rightarrow> address list \<Rightarrow> nat \<Rightarrow> bytes" where
  "chain_value_for_nodes C hash chain_id epoch nodes node_idx =
     (let tx_hash_bytes = (case hex_decode C hash of
             Some b \<Rightarrow> b | None \<Rightarrow> hasher_hash C (as_bytes hash)) in
      if nodes = [] then
        hasher_hash C (TOPOSTAKE_TX_PATH_DOMAIN @ to_be_bytes chain_id @ to_be_bytes epoch
          @ tx_hash_bytes)
      else
        let capped_idx = min node_idx (length nodes - 1);
            initial = TOPOSTAKE_TX_PATH_DOMAIN @ to_be_bytes chain_id @ tx_hash_bytes
              @ to_be_bytes epoch @ hash_identity C (hd nodes)
        in foldl (\<lambda>chain node. hasher_hash C (chain @ hash_identity C node))
             (hasher_hash C initial) (drop 1 (take (capped_idx + 1) nodes)))"

definition receipt_cache_key :: "string \<Rightarrow> nat \<Rightarrow> nat \<Rightarrow> address \<Rightarrow> string" where
  "receipt_cache_key hash chain_id epoch receiver =
     hash @ '':'' @ show_nat chain_id @ '':'' @ show_nat epoch @ '':'' @ receiver"

definition has_repeated_nodes :: "address list \<Rightarrow> bool" where
  "has_repeated_nodes nodes = any_seen [] nodes"

section \<open>Paths in flight\<close>

definition new_with_epoch_and_chain_id :: "transaction \<Rightarrow> nat \<Rightarrow> nat \<Rightarrow> transaction_paths" where
  "new_with_epoch_and_chain_id t epoch chain_id =
     \<lparr>tp_transaction = t, tp_chain_id = chain_id, tp_epoch = epoch, tp_paths = []\<rparr>"

definition new_with_epoch :: "transaction \<Rightarrow> nat \<Rightarrow> transaction_paths" where
  "new_with_epoch t epoch = new_with_epoch_and_chain_id t epoch DEFAULT_TOPOSTAKE_CHAIN_ID"

definition transaction_paths_new :: "transaction \<Rightarrow> transaction_paths" where
  "transaction_paths_new t = new_with_epoch t 0"

definition new_with_paths :: "transaction \<Rightarrow> path list \<Rightarrow> transaction_paths" where
  "new_with_paths t ps =
     \<lparr>tp_transaction = t, tp_chain_id = DEFAULT_TOPOSTAKE_CHAIN_ID, tp_epoch = 0, tp_paths = ps\<rparr>"

definition node_sequence :: "transaction_paths \<Rightarrow> address list" where
  "node_sequence tp = tx_from (tp_transaction tp) # map hop_to (tp_paths tp)"

definition has_pending_hop :: "transaction_paths \<Rightarrow> bool" where
  "has_pending_hop tp = (tp_paths tp \<noteq> [] \<and> receiver_signature (last (tp_paths tp)) = None)"

definition has_repeated_identities :: "transaction_paths \<Rightarrow> bool" where
  "has_repeated_identities tp = any_seen [] (node_sequence tp)"

definition current_tail :: "transaction_paths \<Rightarrow> address" where
  "current_tail tp =
     (if tp_paths tp = [] then tx_from (tp_transaction tp) else hop_to (last (tp_paths tp)))"

definition chain_value_for_node_index ::
  "('x) crypto_scheme \<Rightarrow> transaction_paths \<Rightarrow> nat \<Rightarrow> bytes" where
  "chain_value_for_node_index C tp node_idx =
     chain_value_for_nodes C (tx_hash (tp_transaction tp)) (tp_chain_id tp) (tp_epoch tp)
       (node_sequence tp) node_idx"

definition chain_value_for_tail :: "('x) crypto_scheme \<Rightarrow> transaction_paths \<Rightarrow> bytes" where
  "chain_value_for_tail C tp = chain_value_for_node_index C tp (length (tp_paths tp))"

definition append_outgoing_hop ::
  "('x) crypto_scheme \<Rightarrow> transaction_paths \<Rightarrow> address \<Rightarrow> wallet \<Rightarrow> bool \<times> transaction_paths" where
  "append_outgoing_hop C tp to sender =
     (if has_pending_hop tp then (False, tp)
      else let from = current_tail tp in
        if from \<noteq> w_address sender then (False, tp)
        else if to \<in> set (node_sequence tp) then (False, tp)
        else let pre = chain_value_for_tail C tp;
                 message = edge_statement C pre from to
             in (True, tp\<lparr>tp_paths := tp_paths tp @
                  [\<lparr>hop_from = from, hop_to = to, hop_prefix = hex_encode C pre,
                    sender_signature = sign_by_bls C sender message,
                    receiver_signature = None\<rparr>]\<rparr>))"

definition verify_hop ::
  "('x) crypto_scheme \<Rightarrow> bls_registry \<Rightarrow> transaction_paths \<Rightarrow> nat \<Rightarrow> bool \<Rightarrow> bool" where
  "verify_hop C reg tp idx require_receiver =
     (if length (tp_paths tp) \<le> idx then False
      else let hop = tp_paths tp ! idx;
               expected_prefix = chain_value_for_node_index C tp idx;
               nodes = node_sequence tp
        in if hex_encode C expected_prefix \<noteq> hop_prefix hop then False
           else if nodes ! idx \<noteq> hop_from hop \<or> nodes ! (idx + 1) \<noteq> hop_to hop then False
           else let message = edge_statement C expected_prefix (hop_from hop) (hop_to hop) in
             case get_bls_pub_key reg (hop_from hop) of
               None \<Rightarrow> False
             | Some sender_pk \<Rightarrow>
                 if \<not> verify_bls_with_pk C message (sender_signature hop) sender_pk then False
                 else if require_receiver then
                   (case receiver_signature hop of
                      None \<Rightarrow> False
                    | Some rsig \<Rightarrow>
                        (case get_bls_pub_key reg (hop_to hop) of
                           None \<Rightarrow> False
                         | Some receiver_pk \<Rightarrow> verify_bls_with_pk C message rsig receiver_pk))
                 else True)"

definition verify_pending_sender_signature ::
  "('x) tx_env_scheme \<Rightarrow> bls_registry \<Rightarrow> transaction_paths \<Rightarrow> bool run" where
  "verify_pending_sender_signature C reg tp =
     (if tp_paths tp = [] then tx_verify C (tp_transaction tp)
      else Some (verify_hop C reg tp (length (tp_paths tp) - 1) False))"

text \<open>The loop of \<open>verify_completed_hops\<close>, from the hop with index \<open>idx\<close>.\<close>

fun verify_hops_from ::
  "('x) crypto_scheme \<Rightarrow> bls_registry \<Rightarrow> transaction_paths \<Rightarrow> nat \<Rightarrow> path list \<Rightarrow> bool" where
  "verify_hops_from C reg tp idx [] = True"
| "verify_hops_from C reg tp idx (hop # hops) =
     (if receiver_signature hop = None then False
      else if \<not> verify_hop C reg tp idx True then False
      else verify_hops_from C reg tp (idx + 1) hops)"

definition verify_completed_hops ::
  "('x) crypto_scheme \<Rightarrow> bls_registry \<Rightarrow> transaction_paths \<Rightarrow> bool" where
  "verify_completed_hops C reg tp = verify_hops_from C reg tp 0 (tp_paths tp)"

definition complete_pending_hop ::
  "('x) tx_env_scheme \<Rightarrow> bls_registry \<Rightarrow> path_caches \<Rightarrow> transaction_paths \<Rightarrow> wallet
    \<Rightarrow> (bool \<times> transaction_paths \<times> path_caches) run" where
  "complete_pending_hop C reg K tp receiver =
     (if tp_paths tp = [] then Some (tx_from (tp_transaction tp) = w_address receiver, tp, K)
      else let hop = last (tp_paths tp) in
        if hop_to hop \<noteq> w_address receiver then Some (False, tp, K)
        else if receiver_signature hop \<noteq> None then Some (True, tp, K)
        else case verify_pending_sender_signature C reg tp of
          None \<Rightarrow> None
        | Some False \<Rightarrow> Some (False, tp, K)
        | Some True \<Rightarrow>
            (case hex_decode C (hop_prefix hop) of
               None \<Rightarrow> Some (False, tp, K)
             | Some pre \<Rightarrow>
                 let message = edge_statement C pre (hop_from hop) (hop_to hop);
                     key = receipt_cache_key (tx_hash (tp_transaction tp)) (tp_chain_id tp)
                             (tp_epoch tp) (hop_to hop);
                     commitment = hex_encode C (hasher_hash C message);
                     signed = tp\<lparr>tp_paths := butlast (tp_paths tp) @
                       [hop\<lparr>receiver_signature := Some (sign_by_bls C receiver message)\<rparr>]\<rparr>
                 in case map_of (receipt_commitments K) key of
                      Some existing \<Rightarrow>
                        if existing \<noteq> commitment then
                          Some (False, tp, K\<lparr>receipt_conflicts :=
                            hm_add key 1 (receipt_conflicts K)\<rparr>)
                        else Some (True, signed, K)
                    | None \<Rightarrow>
                        Some (True, signed, K\<lparr>receipt_commitments :=
                          hm_insert key commitment (receipt_commitments K)\<rparr>)))"

definition append_completed_hop ::
  "('x) tx_env_scheme \<Rightarrow> bls_registry \<Rightarrow> path_caches \<Rightarrow> transaction_paths \<Rightarrow> address \<Rightarrow> wallet
    \<Rightarrow> wallet \<Rightarrow> (bool \<times> transaction_paths \<times> path_caches) run" where
  "append_completed_hop C reg K tp to sender receiver =
     (case append_outgoing_hop C tp to sender of
        (False, tp') \<Rightarrow> Some (False, tp', K)
      | (True, tp') \<Rightarrow> complete_pending_hop C reg K tp' receiver)"

definition tp_verify ::
  "('x) tx_env_scheme \<Rightarrow> bls_registry \<Rightarrow> transaction_paths \<Rightarrow> address \<Rightarrow> bool run" where
  "tp_verify C reg tp current_address =
     (case tx_verify C (tp_transaction tp) of
        None \<Rightarrow> None
      | Some False \<Rightarrow> Some False
      | Some True \<Rightarrow>
          if has_repeated_identities tp then Some False
          else if tp_paths tp = [] then Some (current_address = tx_from (tp_transaction tp))
          else if current_tail tp \<noteq> current_address then Some False
          else Some (verify_completed_hops C reg tp))"

definition verify_last ::
  "('x) tx_env_scheme \<Rightarrow> bls_registry \<Rightarrow> transaction_paths \<Rightarrow> address \<Rightarrow> bool run" where
  "verify_last C reg tp current_address =
     (case tx_verify C (tp_transaction tp) of
        None \<Rightarrow> None
      | Some False \<Rightarrow> Some False
      | Some True \<Rightarrow>
          if tp_paths tp = [] then Some (current_address = tx_from (tp_transaction tp))
          else if hop_to (last (tp_paths tp)) \<noteq> current_address then Some False
          else verify_pending_sender_signature C reg tp)"

definition clear_receipt_cache_for_tests :: "path_caches \<Rightarrow> path_caches" where
  "clear_receipt_cache_for_tests K =
     K\<lparr>receipt_commitments := [], receipt_conflicts := [], path_verdicts := []\<rparr>"

definition conflicting_receipt_count :: "path_caches \<Rightarrow> string \<Rightarrow> nat \<Rightarrow> address \<Rightarrow> nat" where
  "conflicting_receipt_count K hash epoch receiver =
     hm_get_or 0 (receipt_conflicts K)
       (receipt_cache_key hash DEFAULT_TOPOSTAKE_CHAIN_ID epoch receiver)"

section \<open>The record of a block\<close>

text \<open>The loop that parses both signatures of every hop; \<open>None\<close> is an early return.\<close>

fun hop_signatures :: "('x) crypto_scheme \<Rightarrow> path list \<Rightarrow> bytes list option" where
  "hop_signatures C [] = Some []"
| "hop_signatures C (hop # hops) =
     (case bls_signature_from_string C (sender_signature hop) of
        Inl _ \<Rightarrow> None
      | Inr s \<Rightarrow>
          (case receiver_signature hop of
             None \<Rightarrow> None
           | Some rsig \<Rightarrow>
               (case bls_signature_from_string C rsig of
                  Inl _ \<Rightarrow> None
                | Inr r \<Rightarrow> map_option (\<lambda>ss. s # r # ss) (hop_signatures C hops))))"

definition from_transaction_paths ::
  "('x) crypto_scheme \<Rightarrow> bls_registry \<Rightarrow> transaction_paths \<Rightarrow> aggregated_signed_paths run" where
  "from_transaction_paths C reg tp =
     (let full_nodes = node_sequence tp;
          record_with = (\<lambda>s ps. \<lparr>asp_chain_id = tp_chain_id tp, asp_epoch = tp_epoch tp,
                                  asp_signature = s, asp_paths = ps\<rparr>);
          non_proposer_nodes = take (length full_nodes - 1) full_nodes
      in if full_nodes = [] then Some (record_with '''' [])
         else if length full_nodes = 1 then Some (record_with '''' [])
         else if \<not> verify_completed_hops C reg tp then Some (record_with '''' non_proposer_nodes)
         else case hop_signatures C (tp_paths tp) of
           None \<Rightarrow> Some (record_with '''' non_proposer_nodes)
         | Some signatures \<Rightarrow>
             map_option (\<lambda>s. record_with s non_proposer_nodes) (bls_aggregated_sign C signatures))"

definition full_path :: "aggregated_signed_paths \<Rightarrow> address \<Rightarrow> address list" where
  "full_path asp miner =
     (if asp_paths asp \<noteq> [] \<and> last (asp_paths asp) = miner then asp_paths asp
      else asp_paths asp @ [miner])"

definition verification_cache_key :: "aggregated_signed_paths \<Rightarrow> string \<Rightarrow> address \<Rightarrow> string" where
  "verification_cache_key asp hash miner =
     hash @ ''|'' @ show_nat (asp_chain_id asp) @ ''|'' @ show_nat (asp_epoch asp) @ ''|'' @ miner
       @ ''|'' @ asp_signature asp @ ''|'' @ join_with ''>'' (asp_paths asp)"

text \<open>The loop over the hops: messages and keys, or \<open>None\<close> at an unregistered identity.\<close>

fun hop_statements ::
  "('x) crypto_scheme \<Rightarrow> bls_registry \<Rightarrow> string \<Rightarrow> nat \<Rightarrow> nat \<Rightarrow> address list \<Rightarrow> nat \<Rightarrow> nat
    \<Rightarrow> (bytes list \<times> bytes list) option" where
  "hop_statements C reg hash chain_id epoch nodes idx 0 = Some ([], [])"
| "hop_statements C reg hash chain_id epoch nodes idx (Suc n) =
     (let pre = chain_value_for_nodes C hash chain_id epoch nodes idx;
          message = edge_statement C pre (nodes ! idx) (nodes ! (idx + 1))
      in case get_bls_pub_key reg (nodes ! idx) of
           None \<Rightarrow> None
         | Some sender_pk \<Rightarrow>
             (case get_bls_pub_key reg (nodes ! (idx + 1)) of
                None \<Rightarrow> None
              | Some receiver_pk \<Rightarrow>
                  map_option (\<lambda>(ms, pks). (message # message # ms, sender_pk # receiver_pk # pks))
                    (hop_statements C reg hash chain_id epoch nodes (idx + 1) n)))"

text \<open>The part behind the cache lookup: \<open>None\<close> is an early \<open>return false\<close>.\<close>

definition aggregate_verdict ::
  "('x) crypto_scheme \<Rightarrow> bls_registry \<Rightarrow> aggregated_signed_paths \<Rightarrow> string \<Rightarrow> address
    \<Rightarrow> bool option" where
  "aggregate_verdict C reg asp hash miner =
     (let full_nodes = full_path asp miner in
      case bls_signature_from_string C (asp_signature asp) of
        Inl _ \<Rightarrow> None
      | Inr signature \<Rightarrow>
          (case hop_statements C reg hash (asp_chain_id asp) (asp_epoch asp) full_nodes 0
                  (length full_nodes - 1) of
             None \<Rightarrow> None
           | Some (messages, pks) \<Rightarrow>
               Some (bls_aggregated_verify_parsed C messages pks signature)))"

definition verify_at_epoch_with_cache ::
  "('x) tx_env_scheme \<Rightarrow> bls_registry \<Rightarrow> path_caches \<Rightarrow> aggregated_signed_paths \<Rightarrow> transaction
    \<Rightarrow> address \<Rightarrow> nat \<Rightarrow> bool \<Rightarrow> (bool \<times> path_caches) run" where
  "verify_at_epoch_with_cache C reg K asp t miner epoch use_cache =
     (if asp_epoch asp \<noteq> epoch then Some (False, K)
      else if tx_from t = miner \<and> asp_paths asp = [] then
        map_option (\<lambda>b. (b, K)) (tx_verify C t)
      else if asp_paths asp = [] then Some (False, K)
      else if asp_signature asp = '''' then Some (False, K)
      else case tx_verify C t of
        None \<Rightarrow> None
      | Some False \<Rightarrow> Some (False, K)
      | Some True \<Rightarrow>
          let full_nodes = full_path asp miner in
          if hd full_nodes \<noteq> tx_from t then Some (False, K)
          else if has_repeated_nodes full_nodes then Some (False, K)
          else if length full_nodes - 1 = 0 then Some (tx_from t = full_nodes ! 0, K)
          else let cache_key = verification_cache_key asp (tx_hash t) miner in
            case (if use_cache then map_of (path_verdicts K) cache_key else None) of
              Some cached \<Rightarrow> Some (cached, K)
            | None \<Rightarrow>
                (case aggregate_verdict C reg asp (tx_hash t) miner of
                   None \<Rightarrow> Some (False, K)
                 | Some valid \<Rightarrow>
                     Some (valid, if use_cache
                       then K\<lparr>path_verdicts := hm_insert cache_key valid (path_verdicts K)\<rparr>
                       else K)))"

definition verify_at_epoch ::
  "('x) tx_env_scheme \<Rightarrow> bls_registry \<Rightarrow> path_caches \<Rightarrow> aggregated_signed_paths \<Rightarrow> transaction
    \<Rightarrow> address \<Rightarrow> nat \<Rightarrow> (bool \<times> path_caches) run" where
  "verify_at_epoch C reg K asp t miner epoch =
     verify_at_epoch_with_cache C reg K asp t miner epoch True"

definition verify_at_epoch_uncached ::
  "('x) tx_env_scheme \<Rightarrow> bls_registry \<Rightarrow> aggregated_signed_paths \<Rightarrow> transaction
    \<Rightarrow> address \<Rightarrow> nat \<Rightarrow> bool run" where
  "verify_at_epoch_uncached C reg asp t miner epoch =
     map_option fst (verify_at_epoch_with_cache C reg
       \<lparr>receipt_commitments = [], receipt_conflicts = [], path_verdicts = []\<rparr>
       asp t miner epoch False)"

definition asp_bytes :: "aggregated_signed_paths \<Rightarrow> nat" where
  "asp_bytes asp = sum_list (map length (asp_paths asp)) + length (asp_signature asp)"

definition asp_has_repeated_identities :: "aggregated_signed_paths \<Rightarrow> bool" where
  "asp_has_repeated_identities asp = has_repeated_nodes (asp_paths asp)"

end
