(* ===== verification/Sample_Env.thy ===== *)
theory Sample_Env
  imports Path_Evidence
begin

text \<open>
  A concrete instance of the library parameters, on which the hypotheses about them hold
  together.  Hexadecimal text is the real one; the digest is the identity; a BLS signature
  is the key followed by the message and an aggregate is the concatenation.
\<close>

section \<open>Hexadecimal text\<close>

fun hex_enc :: "bytes \<Rightarrow> string" where
  "hex_enc [] = []"
| "hex_enc (b # bs) = hex_digit (unat b div 16) # hex_digit (unat b mod 16) # hex_enc bs"

definition hex_val :: "char \<Rightarrow> nat option" where
  "hex_val c = (let n = of_char c :: nat in
     if 48 \<le> n \<and> n \<le> 57 then Some (n - 48)
     else if 97 \<le> n \<and> n \<le> 102 then Some (n - 87) else None)"

fun hex_dec :: "string \<Rightarrow> bytes option" where
  "hex_dec [] = Some []"
| "hex_dec [c] = None"
| "hex_dec (c # d # cs) =
     (case (hex_val c, hex_val d, hex_dec cs) of
        (Some x, Some y, Some bs) \<Rightarrow> Some (word_of_nat (16 * x + y) # bs)
      | _ \<Rightarrow> None)"

lemma hex_val_digit: "n < 16 \<Longrightarrow> hex_val (hex_digit n) = Some n"
  by (simp add: hex_val_def hex_digit_def Let_def)

lemma length_hex_enc: "length (hex_enc bs) = 2 * length bs"
  by (induction bs) auto

lemma hex_dec_enc: "hex_dec (hex_enc bs) = Some bs"
proof (induction bs)
  case (Cons b bs)
  have "unat b < 256" using unsigned_less [of b, where ?'a = nat] by simp
  then have "unat b div 16 < 16" by simp
  then have "hex_val (hex_digit (unat b div 16)) = Some (unat b div 16)"
    "hex_val (hex_digit (unat b mod 16)) = Some (unat b mod 16)"
    by (simp_all add: hex_val_digit)
  with Cons show ?case by simp
qed simp

section \<open>The instance\<close>

definition sample_with :: "'x \<Rightarrow> 'x tx_env_scheme" where
  "sample_with x = \<lparr>
     sha3_256 = (\<lambda>x. x),
     hex_encode = hex_enc,
     hex_decode = hex_dec,
     u8_from_str_radix16 = (\<lambda>s. map_option hd (hex_dec s)),
     secp_from_slice = Some,
     secp_from_str = hex_dec,
     secp_public_key = (\<lambda>sk. take 64 (sk @ replicate 64 0)),
     serialize_uncompressed = (\<lambda>pk. 4 # pk),
     sign_ecdsa_recoverable = (\<lambda>sk d. (0, take 64 (sk @ replicate 64 0))),
     compact_ok = (\<lambda>s rid. True),
     recover_ecdsa = (\<lambda>d s rid. Some s),
     bls_key_gen = Some,
     bls_sk_to_pk = (\<lambda>sk. sk),
     bls_sign = (\<lambda>sk m. sk @ m),
     bls_sig_to_bytes = (\<lambda>s. s),
     bls_sig_from_bytes = Some,
     bls_verify = (\<lambda>s m pk. s = pk @ m),
     bls_add_signature = (\<lambda>a s. Some (a @ s)),
     bls_aggregate_verify = (\<lambda>agg ms pks. agg = concat (map2 (@) pks ms)),
     tx_json = (\<lambda>t. tx_from t @ tx_to t), \<dots> = x\<rparr>"

abbreviation sample_env :: tx_env where
  "sample_env \<equiv> sample_with ()"

lemma sample_hex_laws: "hex_laws (sample_with x)"
  by (simp add: hex_laws_def sample_with_def hex_dec_enc length_hex_enc)

lemma hex_dec_fmt_02x: "v < 256 \<Longrightarrow> hex_dec (fmt_02x v) = Some [word_of_nat v]"
  by (simp add: fmt_02x_def hex_val_digit)

lemma sample_ecdsa_laws: "ecdsa_laws (sample_with x)"
  by (auto simp: ecdsa_laws_def sample_with_def hex_dec_fmt_02x min_def)

lemma sample_bls_sign_laws: "bls_sign_laws (sample_with x)"
  by (simp add: bls_sign_laws_def sample_with_def)

lemma sample_add_signatures: "add_signatures (sample_with x) s ss = Some (concat (s # ss))"
  by (induction ss arbitrary: s) (simp_all add: sample_with_def)

lemma sample_all_verify:
  "all_verify (sample_with x) ss ms ps \<Longrightarrow> concat ss = concat (map2 (@) ps ms)"
  by (induction "sample_with x" ss ms ps rule: all_verify.induct) (auto simp: sample_with_def)

lemma sample_bls_aggregate_laws: "bls_aggregate_laws (sample_with x)"
  unfolding bls_aggregate_laws_def
proof (intro allI impI)
  fix s ss ms ps
  assume "all_verify (sample_with x) (s # ss) ms ps"
  from sample_all_verify [OF this]
  show "\<exists>agg. add_signatures (sample_with x) s ss = Some agg
      \<and> bls_aggregate_verify (sample_with x) agg ms ps"
    unfolding sample_add_signatures by (simp add: sample_with_def)
qed

lemmas sample_laws =
  sample_hex_laws sample_ecdsa_laws sample_bls_sign_laws sample_bls_aggregate_laws

section \<open>Wallets of the instance\<close>

definition sample_wallet :: "byte \<Rightarrow> wallet" where
  "sample_wallet n = the (wallet_of_secret sample_env (replicate 20 n))"

definition sample_registry :: bls_registry where
  "sample_registry = fold register_wallet (map sample_wallet [1, 2, 3, 4]) []"

definition no_caches :: path_caches where
  "no_caches = \<lparr>receipt_commitments = [], receipt_conflicts = [], path_verdicts = []\<rparr>"

definition sample_tx :: transaction where
  "sample_tx = with_costs sample_env 0 ''b'' 5 1 1 (sample_wallet 1)"

lemma sample_wallet_wf: "wallet_wf (sample_with x) (sample_wallet n)"
proof -
  have "wallet_of_secret (sample_with x) (replicate 20 n) = Some (sample_wallet n)"
    by (simp add: sample_wallet_def wallet_of_secret_def sample_with_def public_key_to_address_def
        hasher_hash_def)
  then show ?thesis by (rule wallet_of_secret_wf)
qed

lemma sample_address: "w_address (sample_wallet n) =
  ''0x'' @ hex_enc (replicate 8 n @ replicate 44 0)"
  by (simp add: sample_wallet_def wallet_of_secret_def sample_with_def public_key_to_address_def
      hasher_hash_def)

lemma sample_address_inj: "w_address (sample_wallet m) = w_address (sample_wallet n) \<longleftrightarrow> m = n"
proof
  assume "w_address (sample_wallet m) = w_address (sample_wallet n)"
  then have "hex_enc (replicate 8 m @ replicate 44 0) = hex_enc (replicate 8 n @ replicate 44 0)"
    unfolding sample_address by simp
  then have "replicate 8 m @ replicate 44 0 = replicate 8 n @ replicate 44 (0 :: byte)"
    by (metis hex_dec_enc option.inject)
  then show "m = n" by simp
qed simp

lemma sample_registered:
  "n \<in> {1, 2, 3, 4} \<Longrightarrow> registered sample_registry (sample_wallet n)"
  by (auto simp: registered_def sample_registry_def get_bls_pub_key_def register_wallet_def
      register_trusted_bls_pub_key_def table_simps sample_address_inj)

lemma sample_tx_verify: "tx_verify (sample_with x) sample_tx = Some True"
proof -
  have eq: "sample_tx = with_costs (sample_with x) 0 ''b'' 5 1 1 (sample_wallet 1)"
    by (simp add: sample_tx_def with_costs_def sign_def hasher_hash_def sample_with_def)
  show ?thesis
    unfolding eq by (intro tx_verify_with_costs sample_laws sample_wallet_wf)
qed

end
