(* ===== verification/Path_Properties.thy ===== *)
theory Path_Properties
  imports Sample_Env
begin

text \<open>
  Properties of the path evidence of \<^theory_text>\<open>Path_Evidence\<close>: hops appended by the code keep
  identities distinct and histories linked, a receiver never signs two histories of one
  transaction, an honestly relayed transaction yields a record that verifies, and what a
  successful verification establishes.
\<close>

section \<open>Chain values depend on the prefix only\<close>

lemma chain_value_append:
  assumes "i < length xs"
  shows "chain_value_for_nodes C h c e (xs @ ys) i = chain_value_for_nodes C h c e xs i"
proof -
  have m: "min i (length (xs @ ys) - 1) = i" "min i (length xs - 1) = i"
    using assms by auto
  have "xs \<noteq> []" using assms by auto
  then show ?thesis
    using assms by (simp only: chain_value_for_nodes_def Let_def m) (simp add: hd_append)
qed

lemma node_sequence_snoc [simp]:
  "node_sequence (tp\<lparr>tp_paths := ps @ [h]\<rparr>) = node_sequence (tp\<lparr>tp_paths := ps\<rparr>) @ [hop_to h]"
  by (simp add: node_sequence_def)

lemma length_node_sequence [simp]: "length (node_sequence tp) = Suc (length (tp_paths tp))"
  by (simp add: node_sequence_def)

lemma node_sequence_tail: "node_sequence tp ! length (tp_paths tp) = current_tail tp"
  by (cases "tp_paths tp" rule: rev_cases)
    (simp_all add: current_tail_def node_sequence_def nth_append)

lemma has_pending_hop_nth:
  "has_pending_hop tp \<longleftrightarrow>
    tp_paths tp \<noteq> [] \<and> receiver_signature (tp_paths tp ! (length (tp_paths tp) - 1)) = None"
  by (auto simp: has_pending_hop_def last_conv_nth)

lemma chain_value_for_node_index_snoc:
  "i \<le> length (tp_paths tp) \<Longrightarrow>
    chain_value_for_node_index C (tp\<lparr>tp_paths := tp_paths tp @ [h]\<rparr>) i
      = chain_value_for_node_index C tp i"
  by (simp add: chain_value_for_node_index_def chain_value_append)

lemma chain_value_same_nodes:
  assumes "map hop_to ps = map hop_to (tp_paths tp)"
  shows "chain_value_for_node_index C (tp\<lparr>tp_paths := ps\<rparr>) i = chain_value_for_node_index C tp i"
  using assms by (simp add: chain_value_for_node_index_def node_sequence_def)

section \<open>Relaying as a step relation\<close>

text \<open>
  Any node may try to append a hop or to complete the pending one, with any wallet and in
  any order; the receipt cache is shared.
\<close>

inductive relay_step ::
  "('x) tx_env_scheme \<Rightarrow> bls_registry \<Rightarrow> transaction_paths \<times> path_caches
    \<Rightarrow> transaction_paths \<times> path_caches \<Rightarrow> bool" for C reg where
  append: "append_outgoing_hop C tp to w = (b, tp') \<Longrightarrow> relay_step C reg (tp, K) (tp', K)"
| complete: "complete_pending_hop C reg K tp w = Some (b, tp', K')
    \<Longrightarrow> relay_step C reg (tp, K) (tp', K')"

inductive relay_reach ::
  "('x) tx_env_scheme \<Rightarrow> bls_registry \<Rightarrow> transaction_paths \<times> path_caches
    \<Rightarrow> transaction_paths \<times> path_caches \<Rightarrow> bool" for C reg where
  here: "relay_reach C reg s s"
| step: "relay_reach C reg s t \<Longrightarrow> relay_step C reg t u \<Longrightarrow> relay_reach C reg s u"

inductive_cases relay_stepE: "relay_step C reg (tp, K) (tp', K')"

text \<open>
  The shape every reachable path has: no repeated identity, each hop starts where the
  previous one ended, only the last hop may lack its receipt, and every prefix is the
  chain value at its position.
\<close>

definition path_shape :: "('x) crypto_scheme \<Rightarrow> transaction_paths \<Rightarrow> bool" where
  "path_shape C tp \<longleftrightarrow>
     distinct (node_sequence tp) \<and>
     (\<forall>i < length (tp_paths tp). hop_from (tp_paths tp ! i) = node_sequence tp ! i) \<and>
     (\<forall>i < length (tp_paths tp) - 1. receiver_signature (tp_paths tp ! i) \<noteq> None) \<and>
     (\<forall>i < length (tp_paths tp).
        hop_prefix (tp_paths tp ! i) = hex_encode C (chain_value_for_node_index C tp i))"

lemma path_shape_new: "path_shape C (new_with_epoch_and_chain_id t e c)"
  by (simp add: path_shape_def new_with_epoch_and_chain_id_def node_sequence_def)

lemma append_outgoing_hop_success:
  assumes "append_outgoing_hop C tp to w = (True, tp')"
  shows "\<not> has_pending_hop tp" "current_tail tp = w_address w" "to \<notin> set (node_sequence tp)"
    "tp' = tp\<lparr>tp_paths := tp_paths tp @
       [\<lparr>hop_from = current_tail tp, hop_to = to,
         hop_prefix = hex_encode C (chain_value_for_tail C tp),
         sender_signature = sign_by_bls C w
           (edge_statement C (chain_value_for_tail C tp) (current_tail tp) to),
         receiver_signature = None\<rparr>]\<rparr>"
  using assms by (auto simp: append_outgoing_hop_def Let_def split: if_splits)

lemma append_outgoing_hop_failure: "append_outgoing_hop C tp to w = (False, tp') \<Longrightarrow> tp' = tp"
  by (auto simp: append_outgoing_hop_def Let_def split: if_splits)

lemma nth_node_sequence_snoc:
  "i \<le> length (tp_paths tp) \<Longrightarrow>
    (node_sequence tp @ [x]) ! i = node_sequence tp ! i"
  by (simp add: nth_append)

lemma path_shape_append:
  assumes "path_shape C tp" and "append_outgoing_hop C tp to w = (b, tp')"
  shows "path_shape C tp'"
proof (cases b)
  case True
  have "append_outgoing_hop C tp to w = (True, tp')" using assms(2) True by simp
  note ok = append_outgoing_hop_success [OF this]
  let ?n = "length (tp_paths tp)"
  note tail = node_sequence_tail [of tp]
  have rcv: "i < ?n \<Longrightarrow> receiver_signature (tp_paths tp ! i) \<noteq> None" for i
    using assms(1) ok(1) unfolding path_shape_def has_pending_hop_nth
    by (cases "i = ?n - 1") auto
  show ?thesis
    using assms(1) ok(3) rcv unfolding path_shape_def ok(4)
    by (auto simp: less_Suc_eq nth_append tail chain_value_for_node_index_snoc
        chain_value_for_tail_def)
next
  case False
  with assms(2) have "tp' = tp" by (simp add: append_outgoing_hop_failure)
  with assms(1) show ?thesis by simp
qed

text \<open>Completing a hop only fills in the receipt of the last hop.\<close>

lemma complete_pending_hop_cases:
  assumes "complete_pending_hop C reg K tp w = Some (b, tp', K')"
  obtains (unchanged) "tp' = tp"
  | (signed) msg where "tp_paths tp \<noteq> []" "b"
      "tp' = tp\<lparr>tp_paths := butlast (tp_paths tp) @
         [last (tp_paths tp)\<lparr>receiver_signature := Some (sign_by_bls C w msg)\<rparr>]\<rparr>"
  using assms
  by (auto simp: complete_pending_hop_def Let_def split: if_splits option.splits bool.splits)

lemma path_shape_receipt:
  assumes "path_shape C tp" and "tp_paths tp \<noteq> []"
  shows "path_shape C (tp\<lparr>tp_paths := butlast (tp_paths tp) @
    [last (tp_paths tp)\<lparr>receiver_signature := r\<rparr>]\<rparr>)"
proof -
  let ?h = "last (tp_paths tp)" and ?ps = "tp_paths tp"
  let ?q = "butlast ?ps @ [?h\<lparr>receiver_signature := r\<rparr>]"
  have to: "map hop_to ?q = map hop_to ?ps"
    using assms(2) by (metis (no_types, lifting) append_butlast_last_id list.simps(8,9)
        map_append path.ext_inject path.surjective path.update_convs(5))
  have len: "length ?q = length ?ps" using assms(2) by simp
  have nodes: "node_sequence (tp\<lparr>tp_paths := ?q\<rparr>) = node_sequence tp"
    using to by (simp add: node_sequence_def)
  have hop: "hop_from (?q ! i) = hop_from (?ps ! i) \<and> hop_prefix (?q ! i) = hop_prefix (?ps ! i)"
    if "i < length ?ps" for i
    using that assms(2) by (cases "i = length ?ps - 1")
      (auto simp: nth_append nth_butlast last_conv_nth)
  have rs: "receiver_signature (?q ! i) = receiver_signature (?ps ! i)"
    if "i < length ?ps - 1" for i
    using that by (auto simp: nth_append nth_butlast)
  show ?thesis
    using assms(1) hop rs len unfolding path_shape_def nodes chain_value_same_nodes [OF to]
    by auto
qed

lemma path_shape_complete:
  assumes "path_shape C tp" and "complete_pending_hop C reg K tp w = Some (b, tp', K')"
  shows "path_shape C tp'"
  using assms(2)
proof (cases rule: complete_pending_hop_cases)
  case (signed msg)
  then show ?thesis using path_shape_receipt [OF assms(1)] by auto
qed (use assms(1) in simp)

lemma relay_step_shape: "relay_step C reg (tp, K) (tp', K') \<Longrightarrow> path_shape C tp \<Longrightarrow> path_shape C tp'"
  by (erule relay_stepE) (auto intro: path_shape_append path_shape_complete)

lemma relay_reach_shape: "relay_reach C reg s t \<Longrightarrow> path_shape C (fst s) \<Longrightarrow> path_shape C (fst t)"
  by (induction rule: relay_reach.induct) (auto simp: split_paired_all dest: relay_step_shape)

text \<open>
  Whatever hops are attempted by whatever wallets in whatever order, a path that
  started empty never repeats an identity, its hops are linked head to tail from the
  transaction's sender, and every hop but the last carries its receipt.
\<close>

theorem relayed_paths_well_formed:
  assumes "relay_reach C reg (new_with_epoch_and_chain_id t epoch chain_id, K) (tp, K')"
  shows "\<not> has_repeated_identities tp
    \<and> (\<forall>i < length (tp_paths tp). hop_from (tp_paths tp ! i) = node_sequence tp ! i)
    \<and> (\<forall>i < length (tp_paths tp) - 1. receiver_signature (tp_paths tp ! i) \<noteq> None)"
proof -
  have "path_shape C tp"
    using relay_reach_shape [OF assms] by (simp add: path_shape_new)
  then show ?thesis
    by (simp add: path_shape_def has_repeated_identities_def any_seen_iff)
qed

lemma relayed_paths_well_formed_witness:
  "let tp = snd (append_outgoing_hop sample_env (new_with_epoch_and_chain_id sample_tx 5 7)
       (w_address (sample_wallet 2)) (sample_wallet 1))
   in length (tp_paths tp) = 1 \<and> \<not> has_repeated_identities tp
    \<and> hop_from (tp_paths tp ! 0) = node_sequence tp ! 0"
proof -
  let ?r = "append_outgoing_hop sample_env (new_with_epoch_and_chain_id sample_tx 5 7)
       (w_address (sample_wallet 2)) (sample_wallet 1)"
  have "length (tp_paths (snd ?r)) = 1"
    by (simp add: append_outgoing_hop_def has_pending_hop_def current_tail_def node_sequence_def
        new_with_epoch_and_chain_id_def sample_tx_def sample_address_inj Let_def)
  moreover have "relay_reach sample_env sample_registry
      (new_with_epoch_and_chain_id sample_tx 5 7, no_caches) (snd ?r, no_caches)"
    by (intro relay_reach.step [OF relay_reach.here] relay_step.append [where b = "fst ?r"]) simp
  from relayed_paths_well_formed [OF this] calculation show ?thesis by (simp add: Let_def)
qed

section \<open>One receipt per transaction and receiver\<close>

lemma complete_keeps_commitments:
  assumes "complete_pending_hop C reg K tp w = Some (b, tp', K')"
    and "map_of (receipt_commitments K) key = Some c"
  shows "map_of (receipt_commitments K') key = Some c"
  using assms
  by (auto simp: complete_pending_hop_def Let_def table_simps
      split: if_splits option.splits bool.splits)

lemma relay_reach_keeps_commitments:
  "relay_reach C reg s t \<Longrightarrow> map_of (receipt_commitments (snd s)) key = Some c
    \<Longrightarrow> map_of (receipt_commitments (snd t)) key = Some c"
  by (induction rule: relay_reach.induct)
    (auto simp: split_paired_all elim!: relay_stepE dest: complete_keeps_commitments)

definition receipt_message :: "('x) crypto_scheme \<Rightarrow> transaction_paths \<Rightarrow> bytes option" where
  "receipt_message C tp =
     map_option (\<lambda>pre. edge_statement C pre (hop_from (last (tp_paths tp)))
       (hop_to (last (tp_paths tp)))) (hex_decode C (hop_prefix (last (tp_paths tp))))"

definition receipt_key :: "transaction_paths \<Rightarrow> string" where
  "receipt_key tp = receipt_cache_key (tx_hash (tp_transaction tp)) (tp_chain_id tp) (tp_epoch tp)
     (hop_to (last (tp_paths tp)))"

lemma complete_signs_committed:
  assumes "complete_pending_hop C reg K tp w = Some (True, tp', K')" and "has_pending_hop tp"
  shows "\<exists>msg. receipt_message C tp = Some msg
    \<and> map_of (receipt_commitments K') (receipt_key tp) = Some (hex_encode C (hasher_hash C msg))"
  using assms
  by (auto simp: complete_pending_hop_def Let_def has_pending_hop_def receipt_message_def
      receipt_key_def table_simps split: if_splits option.splits bool.splits)

text \<open>
  A receiver never acknowledges two different histories of one transaction.  If a
  pending hop was signed and, after any further activity, another pending hop with the
  same transaction, chain, epoch and receiver is signed too, then both receipts cover
  statements with the same commitment.
\<close>

theorem receipts_do_not_equivocate:
  assumes "has_pending_hop tp" and "has_pending_hop tp2"
    and "complete_pending_hop C reg K tp w = Some (True, tp', K')"
    and "relay_reach C reg (tpa, K') (tpb, K2)"
    and "complete_pending_hop C reg K2 tp2 w2 = Some (True, tp2', K2')"
    and "receipt_key tp2 = receipt_key tp"
  shows "\<exists>m m2. receipt_message C tp = Some m \<and> receipt_message C tp2 = Some m2
    \<and> hex_encode C (hasher_hash C m) = hex_encode C (hasher_hash C m2)"
proof -
  obtain m where m: "receipt_message C tp = Some m"
    "map_of (receipt_commitments K') (receipt_key tp) = Some (hex_encode C (hasher_hash C m))"
    using complete_signs_committed [OF assms(3,1)] by auto
  then have "map_of (receipt_commitments K2) (receipt_key tp) = Some (hex_encode C (hasher_hash C m))"
    using relay_reach_keeps_commitments [OF assms(4)] by simp
  then have "map_of (receipt_commitments K2') (receipt_key tp) = Some (hex_encode C (hasher_hash C m))"
    by (rule complete_keeps_commitments [OF assms(5)])
  with complete_signs_committed [OF assms(5,2)] m(1) assms(6) show ?thesis by auto
qed

lemma complete_again:
  assumes "complete_pending_hop C reg K tp w = Some (True, tp', K')" and "has_pending_hop tp"
  shows "complete_pending_hop C reg K' tp w = Some (True, tp', K')"
  using assms
  by (auto simp: complete_pending_hop_def Let_def has_pending_hop_def table_simps
      split: if_splits option.splits bool.splits)

section \<open>Honest relaying\<close>

text \<open>Every wallet of a route in turn receives the hop of its predecessor.\<close>

fun honest_relay ::
  "('x) tx_env_scheme \<Rightarrow> bls_registry \<Rightarrow> path_caches \<Rightarrow> transaction_paths \<Rightarrow> wallet \<Rightarrow> wallet list
    \<Rightarrow> (bool \<times> transaction_paths \<times> path_caches) run" where
  "honest_relay C reg K tp sender [] = Some (True, tp, K)"
| "honest_relay C reg K tp sender (w # ws) =
     (case append_completed_hop C reg K tp (w_address w) sender w of
        Some (True, tp', K') \<Rightarrow> honest_relay C reg K' tp' w ws
      | r \<Rightarrow> r)"

definition path_good :: "('x) crypto_scheme \<Rightarrow> bls_registry \<Rightarrow> transaction_paths \<Rightarrow> bool" where
  "path_good C reg tp \<longleftrightarrow>
     distinct (node_sequence tp) \<and> (\<forall>i < length (tp_paths tp). verify_hop C reg tp i True)"

definition honest_wallet :: "('x) crypto_scheme \<Rightarrow> bls_registry \<Rightarrow> wallet \<Rightarrow> bool" where
  "honest_wallet C reg w \<longleftrightarrow> wallet_wf C w \<and> registered reg w"

abbreviation tp_receipt_key :: "transaction_paths \<Rightarrow> address \<Rightarrow> string" where
  "tp_receipt_key tp a \<equiv>
     receipt_cache_key (tx_hash (tp_transaction tp)) (tp_chain_id tp) (tp_epoch tp) a"

lemma verify_hop_True_receipt:
  "verify_hop C reg tp i True \<Longrightarrow>
    i < length (tp_paths tp) \<and> receiver_signature (tp_paths tp ! i) \<noteq> None"
  by (auto simp: verify_hop_def Let_def split: if_splits option.splits)

lemma verify_hop_snoc:
  assumes "i < length (tp_paths tp)"
  shows "verify_hop C reg (tp\<lparr>tp_paths := tp_paths tp @ [h]\<rparr>) i r = verify_hop C reg tp i r"
  using assms
  by (simp add: verify_hop_def Let_def chain_value_for_node_index_snoc nth_append)

lemma honest_signature:
  assumes "hex_laws C" "bls_sign_laws C" "honest_wallet C reg w"
  shows "get_bls_pub_key reg (w_address w) = Some (bls_public_key w)"
    and "verify_bls_with_pk C msg (sign_by_bls C w msg) (bls_public_key w)"
  using assms sign_by_bls_verifies [OF assms(1,2), of msg w]
  by (auto simp: honest_wallet_def registered_def wallet_wf_def)

text \<open>The hop that an honest sender appends and an honest receiver signs verifies.\<close>

definition signed_hop ::
  "('x) crypto_scheme \<Rightarrow> transaction_paths \<Rightarrow> wallet \<Rightarrow> wallet \<Rightarrow> string option \<Rightarrow> path" where
  "signed_hop C tp u w r =
     \<lparr>hop_from = w_address u, hop_to = w_address w, hop_prefix = hex_encode C (chain_value_for_tail C tp),
      sender_signature = sign_by_bls C u
        (edge_statement C (chain_value_for_tail C tp) (w_address u) (w_address w)),
      receiver_signature = r\<rparr>"

abbreviation hop_receipt :: "('x) crypto_scheme \<Rightarrow> transaction_paths \<Rightarrow> wallet \<Rightarrow> wallet \<Rightarrow> string" where
  "hop_receipt C tp u w \<equiv>
     sign_by_bls C w (edge_statement C (chain_value_for_tail C tp) (w_address u) (w_address w))"

lemma hop_to_signed_hop [simp]: "hop_to (signed_hop C tp u w r) = w_address w"
  by (simp add: signed_hop_def)

lemma signed_hop_good:
  assumes laws: "hex_laws C" "bls_sign_laws C"
    and good: "path_good C reg tp" and tail: "current_tail tp = w_address u"
    and hon: "honest_wallet C reg u" "honest_wallet C reg w"
    and fresh: "w_address w \<notin> set (node_sequence tp)"
  shows "path_good C reg
    (tp\<lparr>tp_paths := tp_paths tp @ [signed_hop C tp u w (Some (hop_receipt C tp u w))]\<rparr>)"
proof -
  let ?h = "signed_hop C tp u w (Some (hop_receipt C tp u w))" and ?n = "length (tp_paths tp)"
  have nth: "node_sequence tp ! ?n = w_address u"
    using tail by (simp add: node_sequence_tail)
  note sig = honest_signature [OF laws]
  have "verify_hop C reg (tp\<lparr>tp_paths := tp_paths tp @ [?h]\<rparr>) ?n True"
    using nth sig [OF hon(1)] sig [OF hon(2)]
    by (simp add: verify_hop_def Let_def signed_hop_def chain_value_for_node_index_snoc nth_append
        chain_value_for_tail_def)
  then show ?thesis
    using good fresh verify_hop_snoc [of _ tp C reg ?h True]
    by (auto simp: path_good_def less_Suc_eq)
qed

lemma path_good_no_pending: "path_good C reg tp \<Longrightarrow> \<not> has_pending_hop tp"
proof
  let ?n = "length (tp_paths tp)"
  assume "path_good C reg tp" and "has_pending_hop tp"
  then have "verify_hop C reg tp (?n - 1) True"
    and "receiver_signature (tp_paths tp ! (?n - 1)) = None"
    by (simp_all add: has_pending_hop_nth path_good_def)
  then show False using verify_hop_True_receipt by blast
qed

text \<open>Whatever the receipt cache says, a hop that is appended and then completed is good.\<close>

lemma completed_hop_good:
  assumes laws: "hex_laws C" "bls_sign_laws C"
    and good: "path_good C reg tp" and hon: "honest_wallet C reg u" "honest_wallet C reg w"
    and app: "append_outgoing_hop C tp (w_address w) u = (True, tp1)"
    and comp: "complete_pending_hop C reg K tp1 w = Some (True, tp2, K')"
  shows "path_good C reg tp2" "tp_transaction tp2 = tp_transaction tp" "tp_epoch tp2 = tp_epoch tp"
    "node_sequence tp2 = node_sequence tp @ [w_address w]"
proof -
  note ok = append_outgoing_hop_success [OF app]
  have "hex_decode C (hex_encode C (chain_value_for_tail C tp)) = Some (chain_value_for_tail C tp)"
    using laws(1) by (simp add: hex_laws_def)
  then have tp2: "tp2 = tp\<lparr>tp_paths := tp_paths tp @ [signed_hop C tp u w (Some (hop_receipt C tp u w))]\<rparr>"
    using comp unfolding ok(4) ok(2)
    by (auto simp: complete_pending_hop_def Let_def signed_hop_def
        split: if_splits option.splits bool.splits)
  show "path_good C reg tp2"
    unfolding tp2 by (rule signed_hop_good [OF laws good ok(2) hon ok(3)])
  show "tp_transaction tp2 = tp_transaction tp" "tp_epoch tp2 = tp_epoch tp"
    "node_sequence tp2 = node_sequence tp @ [w_address w]"
    by (simp_all add: tp2)
qed

lemma honest_hop:
  assumes laws: "hex_laws C" "bls_sign_laws C"
    and good: "path_good C reg tp" and tail: "current_tail tp = w_address u"
    and hon: "honest_wallet C reg u" "honest_wallet C reg w"
    and fresh: "w_address w \<notin> set (node_sequence tp)"
    and nokey: "map_of (receipt_commitments K) (tp_receipt_key tp (w_address w)) = None"
  shows "\<exists>h c. append_completed_hop C reg K tp (w_address w) u w
      = Some (True, tp\<lparr>tp_paths := tp_paths tp @ [h]\<rparr>,
          K\<lparr>receipt_commitments := hm_insert (tp_receipt_key tp (w_address w)) c (receipt_commitments K)\<rparr>)
    \<and> hop_to h = w_address w \<and> path_good C reg (tp\<lparr>tp_paths := tp_paths tp @ [h]\<rparr>)"
proof -
  let ?n = "length (tp_paths tp)" and ?pre = "chain_value_for_tail C tp"
  let ?msg = "edge_statement C ?pre (w_address u) (w_address w)"
  let ?tp = "tp\<lparr>tp_paths := tp_paths tp @ [signed_hop C tp u w None]\<rparr>"
  let ?h = "signed_hop C tp u w (Some (hop_receipt C tp u w))"
  have app: "append_outgoing_hop C tp (w_address w) u = (True, ?tp)"
    using path_good_no_pending [OF good] tail fresh
    by (simp add: append_outgoing_hop_def Let_def signed_hop_def)
  have nth: "node_sequence tp ! ?n = w_address u"
    using tail by (simp add: node_sequence_tail)
  have dec: "hex_decode C (hex_encode C ?pre) = Some ?pre"
    using laws(1) by (simp add: hex_laws_def)
  have "verify_hop C reg ?tp ?n False"
    using nth honest_signature [OF laws hon(1)]
    by (simp add: verify_hop_def Let_def signed_hop_def chain_value_for_node_index_snoc nth_append
        chain_value_for_tail_def)
  with dec nokey have "complete_pending_hop C reg K ?tp w = Some (True, tp\<lparr>tp_paths := tp_paths tp @ [?h]\<rparr>,
      K\<lparr>receipt_commitments := hm_insert (tp_receipt_key tp (w_address w))
        (hex_encode C (hasher_hash C ?msg)) (receipt_commitments K)\<rparr>)"
    by (simp add: complete_pending_hop_def verify_pending_sender_signature_def Let_def)
      (simp add: signed_hop_def Let_def)
  with app signed_hop_good [OF laws good tail hon fresh] show ?thesis
    by (intro exI [of _ ?h] exI [of _ "hex_encode C (hasher_hash C ?msg)"])
      (simp add: append_completed_hop_def)
qed

lemma receipt_key_inj: "receipt_cache_key h c e a = receipt_cache_key h c e b \<longleftrightarrow> a = b"
  by (simp add: receipt_cache_key_def)

lemma honest_relay_good:
  assumes "hex_laws C" "bls_sign_laws C"
    and "path_good C reg tp" and "current_tail tp = w_address u"
    and "honest_wallet C reg u" and "\<forall>w \<in> set ws. honest_wallet C reg w"
    and "distinct (node_sequence tp @ map w_address ws)"
    and "\<forall>w \<in> set ws. map_of (receipt_commitments K) (tp_receipt_key tp (w_address w)) = None"
  shows "\<exists>ps K'. honest_relay C reg K tp u ws = Some (True, tp\<lparr>tp_paths := ps\<rparr>, K')
    \<and> path_good C reg (tp\<lparr>tp_paths := ps\<rparr>)
    \<and> node_sequence (tp\<lparr>tp_paths := ps\<rparr>) = node_sequence tp @ map w_address ws"
  using assms(3-)
proof (induction ws arbitrary: tp K u)
  case Nil
  then show ?case by (intro exI [of _ "tp_paths tp"]) simp
next
  case (Cons w ws)
  have "\<exists>h c. append_completed_hop C reg K tp (w_address w) u w
      = Some (True, tp\<lparr>tp_paths := tp_paths tp @ [h]\<rparr>,
          K\<lparr>receipt_commitments := hm_insert (tp_receipt_key tp (w_address w)) c (receipt_commitments K)\<rparr>)
    \<and> hop_to h = w_address w \<and> path_good C reg (tp\<lparr>tp_paths := tp_paths tp @ [h]\<rparr>)"
    using Cons.prems by (intro honest_hop [OF assms(1,2)]) auto
  then obtain h c where hc: "append_completed_hop C reg K tp (w_address w) u w
      = Some (True, tp\<lparr>tp_paths := tp_paths tp @ [h]\<rparr>,
          K\<lparr>receipt_commitments := hm_insert (tp_receipt_key tp (w_address w)) c (receipt_commitments K)\<rparr>)"
    "hop_to h = w_address w" "path_good C reg (tp\<lparr>tp_paths := tp_paths tp @ [h]\<rparr>)"
    by blast
  have "\<exists>ps K'. honest_relay C reg
        (K\<lparr>receipt_commitments := hm_insert (tp_receipt_key tp (w_address w)) c (receipt_commitments K)\<rparr>)
        (tp\<lparr>tp_paths := tp_paths tp @ [h]\<rparr>) w ws
      = Some (True, tp\<lparr>tp_paths := tp_paths tp @ [h], tp_paths := ps\<rparr>, K')
    \<and> path_good C reg (tp\<lparr>tp_paths := tp_paths tp @ [h], tp_paths := ps\<rparr>)
    \<and> node_sequence (tp\<lparr>tp_paths := tp_paths tp @ [h], tp_paths := ps\<rparr>)
        = node_sequence (tp\<lparr>tp_paths := tp_paths tp @ [h]\<rparr>) @ map w_address ws"
    using Cons.prems hc
    by (intro Cons.IH) (auto simp: current_tail_def table_simps receipt_key_inj rev_image_eqI)
  with hc show ?case by auto
qed

lemma path_good_completed: "path_good C reg tp \<Longrightarrow> verify_completed_hops C reg tp"
proof -
  assume good: "path_good C reg tp"
  have "verify_hops_from C reg tp (length (tp_paths tp) - length hs) hs"
    if "drop (length (tp_paths tp) - length hs) (tp_paths tp) = hs"
      and "length hs \<le> length (tp_paths tp)" for hs
    using that
  proof (induction hs)
    case (Cons h hs)
    let ?i = "length (tp_paths tp) - length (h # hs)"
    have i: "?i < length (tp_paths tp)" "Suc ?i = length (tp_paths tp) - length hs"
      using Cons.prems by auto
    then have h: "h = tp_paths tp ! ?i" and d: "drop (Suc ?i) (tp_paths tp) = hs"
      using Cons.prems(1) by (metis Cons_nth_drop_Suc list.inject)+
    have "verify_hop C reg tp ?i True" using good i by (simp add: path_good_def)
    with Cons.IH Cons.prems d i h verify_hop_True_receipt show ?case by fastforce
  qed simp
  from this [of "tp_paths tp"] show ?thesis by (simp add: verify_completed_hops_def)
qed

section \<open>Aggregation of a good path verifies\<close>

lemma verify_bls_with_pkD:
  "verify_bls_with_pk C m sg pk \<Longrightarrow> \<exists>s. bls_signature_from_string C sg = Inr s \<and> bls_verify C s m pk"
  by (auto simp: verify_bls_with_pk_def split: sum.splits)

text \<open>What a completed hop provides: both parsed signatures, both keys, one message.\<close>

lemma verify_hop_parts:
  assumes "verify_hop C reg tp i True"
  defines "m \<equiv> edge_statement C (chain_value_for_node_index C tp i) (node_sequence tp ! i)
    (node_sequence tp ! Suc i)"
  shows "\<exists>s r p q rsig. bls_signature_from_string C (sender_signature (tp_paths tp ! i)) = Inr s
    \<and> receiver_signature (tp_paths tp ! i) = Some rsig \<and> bls_signature_from_string C rsig = Inr r
    \<and> get_bls_pub_key reg (node_sequence tp ! i) = Some p
    \<and> get_bls_pub_key reg (node_sequence tp ! Suc i) = Some q
    \<and> bls_verify C s m p \<and> bls_verify C r m q"
proof -
  have nodes: "node_sequence tp ! i = hop_from (tp_paths tp ! i)"
    "node_sequence tp ! Suc i = hop_to (tp_paths tp ! i)"
    using assms(1) by (auto simp: verify_hop_def Let_def split: if_splits)
  from assms(1) obtain p q rsig where
    "get_bls_pub_key reg (hop_from (tp_paths tp ! i)) = Some p"
    "get_bls_pub_key reg (hop_to (tp_paths tp ! i)) = Some q"
    "receiver_signature (tp_paths tp ! i) = Some rsig"
    "verify_bls_with_pk C m (sender_signature (tp_paths tp ! i)) p"
    "verify_bls_with_pk C m rsig q"
    unfolding m_def nodes by (auto simp: verify_hop_def Let_def split: if_splits option.splits)
  then show ?thesis by (auto simp: nodes dest!: verify_bls_with_pkD)
qed

lemma hop_signatures_statements:
  assumes "path_good C reg tp" and "i + n = length (tp_paths tp)"
  shows "\<exists>ss ms pks. hop_signatures C (drop i (tp_paths tp)) = Some ss
    \<and> hop_statements C reg (tx_hash (tp_transaction tp)) (tp_chain_id tp) (tp_epoch tp)
        (node_sequence tp) i n = Some (ms, pks)
    \<and> all_verify C ss ms pks \<and> (0 < n \<longrightarrow> ss \<noteq> [])"
  using assms(2)
proof (induction n arbitrary: i)
  case (Suc n)
  have i: "i < length (tp_paths tp)" using Suc.prems by simp
  then have good: "verify_hop C reg tp i True" using assms(1) by (simp add: path_good_def)
  have d: "drop i (tp_paths tp) = tp_paths tp ! i # drop (i + 1) (tp_paths tp)"
    using i by (simp add: Cons_nth_drop_Suc)
  obtain ss ms pks where IH: "hop_signatures C (drop (i + 1) (tp_paths tp)) = Some ss"
    "hop_statements C reg (tx_hash (tp_transaction tp)) (tp_chain_id tp) (tp_epoch tp)
       (node_sequence tp) (i + 1) n = Some (ms, pks)" "all_verify C ss ms pks"
    using Suc.IH [of "i + 1"] Suc.prems by auto
  with verify_hop_parts [OF good] show ?case
    by (auto simp: d Let_def chain_value_for_node_index_def)
qed simp

lemma from_transaction_paths_good:
  assumes "bls_aggregate_laws C" and "path_good C reg tp" and "tp_paths tp \<noteq> []"
  shows "\<exists>agg ms pks. from_transaction_paths C reg tp =
      Some \<lparr>asp_chain_id = tp_chain_id tp, asp_epoch = tp_epoch tp,
        asp_signature = ''0x'' @ hex_encode C (bls_sig_to_bytes C agg),
        asp_paths = butlast (node_sequence tp)\<rparr>
    \<and> hop_statements C reg (tx_hash (tp_transaction tp)) (tp_chain_id tp) (tp_epoch tp)
        (node_sequence tp) 0 (length (tp_paths tp)) = Some (ms, pks)
    \<and> bls_aggregate_verify C agg ms pks"
proof -
  obtain ss ms pks where ss: "hop_signatures C (tp_paths tp) = Some ss"
    "hop_statements C reg (tx_hash (tp_transaction tp)) (tp_chain_id tp) (tp_epoch tp)
       (node_sequence tp) 0 (length (tp_paths tp)) = Some (ms, pks)"
    "all_verify C ss ms pks" "ss \<noteq> []"
    using hop_signatures_statements [OF assms(2), of 0 "length (tp_paths tp)"] assms(3) by auto
  obtain s ss' where c: "ss = s # ss'" using ss(4) by (cases ss) auto
  obtain agg where agg: "add_signatures C s ss' = Some agg" "bls_aggregate_verify C agg ms pks"
    using assms(1) ss(3) c unfolding bls_aggregate_laws_def by blast
  have "node_sequence tp \<noteq> []" by (simp add: node_sequence_def)
  with assms(3) ss(1) agg(1) path_good_completed [OF assms(2)]
  have "from_transaction_paths C reg tp =
      Some \<lparr>asp_chain_id = tp_chain_id tp, asp_epoch = tp_epoch tp,
        asp_signature = ''0x'' @ hex_encode C (bls_sig_to_bytes C agg),
        asp_paths = butlast (node_sequence tp)\<rparr>"
    by (simp add: from_transaction_paths_def Let_def c butlast_conv_take)
  with ss(2) agg(2) show ?thesis by blast
qed

lemma full_path_butlast:
  assumes "distinct ns" and "2 \<le> length ns"
  shows "full_path \<lparr>asp_chain_id = c, asp_epoch = e, asp_signature = s, asp_paths = butlast ns\<rparr> (last ns) = ns"
proof -
  have "ns \<noteq> []" using assms(2) by auto
  then have ns: "ns = butlast ns @ [last ns]" by simp
  have "0 < length (butlast ns)" using assms(2) by simp
  then have ne: "butlast ns \<noteq> []" unfolding length_greater_0_conv .
  have "last ns \<notin> set (butlast ns)"
    using assms(1) ns by (metis disjoint_insert(2) distinct_append list.simps(15))
  then have "last (butlast ns) \<noteq> last ns" using ne last_in_set by metis
  with ne show ?thesis by (simp add: full_path_def ns [symmetric])
qed

lemma hop_statements_length:
  "hop_statements C reg h c e ns i n = Some (ms, pks) \<Longrightarrow> length ms = 2 * n \<and> length pks = 2 * n"
  by (induction n arbitrary: i ms pks)
    (auto simp: Let_def split: option.splits)

text \<open>The verdict behind the pre-checks, as one condition.\<close>

definition evidence_ok ::
  "('x) tx_env_scheme \<Rightarrow> bls_registry \<Rightarrow> aggregated_signed_paths \<Rightarrow> transaction \<Rightarrow> address \<Rightarrow> bool" where
  "evidence_ok C reg asp t miner \<longleftrightarrow>
     asp_signature asp \<noteq> '''' \<and> hd (full_path asp miner) = tx_from t
     \<and> distinct (full_path asp miner)
     \<and> (length (full_path asp miner) = 1 \<or> aggregate_verdict C reg asp (tx_hash t) miner = Some True)"

lemma full_path_not_Nil [simp]: "full_path asp miner \<noteq> []"
  by (auto simp: full_path_def)

lemma full_path_last [simp]: "last (full_path asp miner) = miner"
  by (auto simp: full_path_def)

lemma verify_uncached_eq:
  "verify_at_epoch_uncached C reg asp t miner epoch =
    (if asp_epoch asp \<noteq> epoch then Some False
     else if asp_paths asp = [] then (if tx_from t = miner then tx_verify C t else Some False)
     else if asp_signature asp = '''' then Some False
     else map_option (\<lambda>b. b \<and> evidence_ok C reg asp t miner) (tx_verify C t))"
proof -
  have one: "length (full_path asp miner) - 1 = 0 \<longleftrightarrow> length (full_path asp miner) = 1"
    by (cases "full_path asp miner") auto
  have hd0: "full_path asp miner ! 0 = hd (full_path asp miner)"
    by (simp add: hd_conv_nth)
  show ?thesis
    unfolding verify_at_epoch_uncached_def verify_at_epoch_with_cache_def evidence_ok_def
      has_repeated_nodes_def any_seen_iff Let_def one hd0
    by (auto split: option.splits bool.splits)
qed

text \<open>A good path of an authentic transaction aggregates into a record that verifies at its tail.\<close>

lemma good_path_evidence:
  assumes laws: "hex_laws C" "bls_sign_laws C" "bls_aggregate_laws C"
    and good: "path_good C reg tp" and tx: "tx_verify C (tp_transaction tp) = Some True"
  shows "\<exists>asp. from_transaction_paths C reg tp = Some asp
    \<and> full_path asp (current_tail tp) = node_sequence tp
    \<and> (tp_paths tp \<noteq> [] \<longrightarrow> asp_paths asp = butlast (node_sequence tp) \<and> asp_signature asp \<noteq> '''')
    \<and> verify_at_epoch_uncached C reg asp (tp_transaction tp) (current_tail tp) (tp_epoch tp) = Some True"
proof (cases "tp_paths tp = []")
  case True
  with tx show ?thesis
    by (simp add: from_transaction_paths_def node_sequence_def Let_def full_path_def current_tail_def
        verify_uncached_eq)
next
  case False
  obtain agg ms pks where agg: "from_transaction_paths C reg tp = Some \<lparr>asp_chain_id = tp_chain_id tp,
      asp_epoch = tp_epoch tp, asp_signature = ''0x'' @ hex_encode C (bls_sig_to_bytes C agg),
      asp_paths = butlast (node_sequence tp)\<rparr>"
    "hop_statements C reg (tx_hash (tp_transaction tp)) (tp_chain_id tp) (tp_epoch tp) (node_sequence tp)
      0 (length (tp_paths tp)) = Some (ms, pks)" "bls_aggregate_verify C agg ms pks"
    using from_transaction_paths_good [OF laws(3) good False] by blast
  define asp where "asp = \<lparr>asp_chain_id = tp_chain_id tp, asp_epoch = tp_epoch tp,
      asp_signature = ''0x'' @ hex_encode C (bls_sig_to_bytes C agg),
      asp_paths = butlast (node_sequence tp)\<rparr>"
  have ne: "butlast (node_sequence tp) \<noteq> []" and hd: "hd (node_sequence tp) = tx_from (tp_transaction tp)"
    using False by (simp_all add: node_sequence_def)
  have tail: "current_tail tp = last (node_sequence tp)"
    using False by (simp add: current_tail_def node_sequence_def last_map)
  have full: "full_path asp (current_tail tp) = node_sequence tp"
    unfolding asp_def tail using good False
    by (intro full_path_butlast) (auto simp: path_good_def Suc_le_eq)
  have verdict: "aggregate_verdict C reg asp (tx_hash (tp_transaction tp)) (current_tail tp) = Some True"
    using agg(2,3) bls_string_roundtrip [OF laws(1,2), of agg] full
    by (simp add: aggregate_verdict_def Let_def)
      (simp add: asp_def bls_aggregated_verify_parsed_def)
  have "verify_at_epoch_uncached C reg asp (tp_transaction tp) (current_tail tp) (tp_epoch tp) = Some True"
    using verdict full good tx ne hd
    by (simp add: verify_uncached_eq evidence_ok_def path_good_def) (simp add: asp_def)
  with agg(1) full show ?thesis unfolding asp_def by auto
qed

lemma honest_evidence:
  assumes laws: "hex_laws C" "ecdsa_laws C" "bls_sign_laws C" "bls_aggregate_laws C"
    and wallets: "\<forall>w \<in> set (u # ws). honest_wallet C reg w" "distinct (map w_address (u # ws))"
    and route: "ws \<noteq> []"
    and t: "t = with_costs C now to amount fee cost u"
    and fresh: "\<forall>w \<in> set ws. map_of (receipt_commitments K)
        (receipt_cache_key (tx_hash t) chain_id epoch (w_address w)) = None"
  shows "\<exists>tp K' asp.
      honest_relay C reg K (new_with_epoch_and_chain_id t epoch chain_id) u ws = Some (True, tp, K')
    \<and> from_transaction_paths C reg tp = Some asp
    \<and> full_path asp (w_address (last ws)) = map w_address (u # ws)
    \<and> asp_paths asp = w_address u # map w_address (butlast ws)
    \<and> asp_signature asp \<noteq> ''''
    \<and> verify_at_epoch_uncached C reg asp t (w_address (last ws)) epoch = Some True"
proof -
  let ?tp0 = "new_with_epoch_and_chain_id t epoch chain_id"
  have init: "path_good C reg ?tp0" "current_tail ?tp0 = w_address u" "tp_transaction ?tp0 = t"
    "tp_chain_id ?tp0 = chain_id" "tp_epoch ?tp0 = epoch" "node_sequence ?tp0 = [w_address u]"
    by (auto simp: path_good_def new_with_epoch_and_chain_id_def node_sequence_def current_tail_def t)
  obtain ps K' where tp: "honest_relay C reg K ?tp0 u ws = Some (True, ?tp0\<lparr>tp_paths := ps\<rparr>, K')"
    "path_good C reg (?tp0\<lparr>tp_paths := ps\<rparr>)"
    "node_sequence (?tp0\<lparr>tp_paths := ps\<rparr>) = map w_address (u # ws)"
    using honest_relay_good [OF laws(1,3) init(1,2), of ws K] wallets fresh init by auto
  have ne: "ps \<noteq> []" using arg_cong [OF tp(3), of length] route by auto
  have "last (node_sequence (?tp0\<lparr>tp_paths := ps\<rparr>)) = current_tail (?tp0\<lparr>tp_paths := ps\<rparr>)"
    using ne by (simp add: current_tail_def node_sequence_def last_map)
  then have tail: "current_tail (?tp0\<lparr>tp_paths := ps\<rparr>) = w_address (last ws)"
    unfolding tp(3) using route by (simp add: last_map)
  have "tx_verify C (tp_transaction (?tp0\<lparr>tp_paths := ps\<rparr>)) = Some True"
    using wallets(1) laws init(3) unfolding t
    by (simp add: honest_wallet_def tx_verify_with_costs)
  from good_path_evidence [OF laws(1,3,4) tp(2) this] ne tp(1,3) tail init route show ?thesis
    by (intro exI [of _ "?tp0\<lparr>tp_paths := ps\<rparr>"] exI [of _ K']) (auto simp: map_butlast)
qed

text \<open>
  C4.  Honest relaying produces evidence that verifies.  A transaction signed by the first
  wallet and relayed along any route of distinct registered wallets is accepted hop by
  hop, aggregates into a record, and that record verifies at its epoch for the last wallet
  as proposer; the verified route is the route it took.
\<close>

theorem honest_evidence_verifies:
  assumes laws: "hex_laws C" "ecdsa_laws C" "bls_sign_laws C" "bls_aggregate_laws C"
    and wallets: "\<forall>w \<in> set (u # ws). honest_wallet C reg w" "distinct (map w_address (u # ws))"
    and route: "ws \<noteq> []"
    and t: "t = with_costs C now to amount fee cost u"
    and fresh: "\<forall>w \<in> set ws. map_of (receipt_commitments K)
        (receipt_cache_key (tx_hash t) chain_id epoch (w_address w)) = None"
  shows "\<exists>tp K' asp.
      honest_relay C reg K (new_with_epoch_and_chain_id t epoch chain_id) u ws = Some (True, tp, K')
    \<and> from_transaction_paths C reg tp = Some asp
    \<and> full_path asp (w_address (last ws)) = map w_address (u # ws)
    \<and> verify_at_epoch_uncached C reg asp t (w_address (last ws)) epoch = Some True"
  using honest_evidence [OF assms] by blast

lemma honest_evidence_verifies_witness:
  "\<exists>tp K' asp.
      honest_relay sample_env sample_registry no_caches (new_with_epoch_and_chain_id sample_tx 5 7)
        (sample_wallet 1) (map sample_wallet [2, 3, 4]) = Some (True, tp, K')
    \<and> from_transaction_paths sample_env sample_registry tp = Some asp
    \<and> full_path asp (w_address (last (map sample_wallet [2, 3, 4])))
        = map w_address (sample_wallet 1 # map sample_wallet [2, 3, 4])
    \<and> verify_at_epoch_uncached sample_env sample_registry asp sample_tx
        (w_address (last (map sample_wallet [2, 3, 4]))) 5 = Some True"
  by (rule honest_evidence_verifies [OF sample_laws])
    (auto simp: honest_wallet_def sample_wallet_wf sample_registered sample_address_inj
      no_caches_def sample_tx_def)

lemma receipts_do_not_equivocate_witness:
  "\<exists>tp K. has_pending_hop tp
    \<and> map_option fst (complete_pending_hop sample_env sample_registry K tp (sample_wallet 2)) = Some True
    \<and> (\<exists>m m2. receipt_message sample_env tp = Some m \<and> receipt_message sample_env tp = Some m2
    \<and> hex_encode sample_env (hasher_hash sample_env m) = hex_encode sample_env (hasher_hash sample_env m2))"
proof -
  let ?t = "new_with_epoch_and_chain_id sample_tx 5 7"
  obtain h c where hop: "append_completed_hop sample_env sample_registry no_caches ?t
      (w_address (sample_wallet 2)) (sample_wallet 1) (sample_wallet 2) = Some (True, h, c)"
    using honest_hop [where C = sample_env and tp = ?t and u = "sample_wallet 1"
        and w = "sample_wallet 2" and reg = sample_registry and K = no_caches, OF sample_laws(1,3)]
    by (auto simp: path_good_def node_sequence_def new_with_epoch_and_chain_id_def current_tail_def
        honest_wallet_def sample_wallet_wf sample_registered sample_tx_def sample_address_inj
        no_caches_def)
  then obtain tp where app: "append_outgoing_hop sample_env ?t (w_address (sample_wallet 2))
      (sample_wallet 1) = (True, tp)"
    and comp: "complete_pending_hop sample_env sample_registry no_caches tp (sample_wallet 2)
      = Some (True, h, c)"
    by (auto simp: append_completed_hop_def split: prod.splits bool.splits)
  have pend: "has_pending_hop tp"
    using append_outgoing_hop_success(4) [OF app] by (simp add: has_pending_hop_def)
  show ?thesis
    using receipts_do_not_equivocate [OF pend pend comp relay_reach.here complete_again [OF comp pend]]
      pend comp by (intro exI [of _ tp] exI [of _ no_caches]) auto
qed



end
