(* ===== verification/Block.thy ===== *)
theory Block
  imports Path_Properties
begin

text \<open>
  \<^verbatim>\<open>src/src/blockchain/block.rs\<close>: headers, bodies, the Merkle root over transaction hashes
  and over path records, block construction and verification, and the path counters.  The
  JSON texts of headers and path records and the clock are parameters.
\<close>

section \<open>Data\<close>

record header =
  hd_index :: nat
  hd_epoch :: nat
  hd_slot :: nat
  hd_hash :: string
  hd_parent_hash :: string
  hd_timestamp :: nat
  hd_merkle_root :: string
  hd_path_root :: string
  hd_miner :: address

record body =
  body_transactions :: "transaction list"
  body_paths :: "aggregated_signed_paths list"

record block =
  blk_header :: header
  blk_body :: body

datatype block_error = InvalidBlock | InvalidBlockPath | InvalidBlockTransactions | JSONError

record block_env = tx_env +
  path_json :: "aggregated_signed_paths \<Rightarrow> string"
  header_json :: "header \<Rightarrow> string"

section \<open>Headers\<close>

definition get_hash :: "('x) block_env_scheme \<Rightarrow> header \<Rightarrow> string" where
  "get_hash C h = hex_encode C (hasher_hash C (as_bytes (header_json C (h\<lparr>hd_hash := ''''\<rparr>))))"

definition header_new ::
  "('x) block_env_scheme \<Rightarrow> nat \<Rightarrow> nat \<Rightarrow> nat \<Rightarrow> nat \<Rightarrow> string \<Rightarrow> string \<Rightarrow> address \<Rightarrow> string \<Rightarrow> header" where
  "header_new C now index epoch slot merkle_root path_root miner parent_hash =
     (let h = \<lparr>hd_index = index, hd_epoch = epoch, hd_slot = slot, hd_hash = '''',
               hd_parent_hash = parent_hash, hd_timestamp = now, hd_merkle_root = merkle_root,
               hd_path_root = path_root, hd_miner = miner\<rparr>
      in h\<lparr>hd_hash := get_hash C h\<rparr>)"

definition header_bytes :: "header \<Rightarrow> nat" where
  "header_bytes h = 8 + 8 + 8 + 8 + length (hd_hash h) + length (hd_parent_hash h)
     + length (hd_merkle_root h) + length (hd_path_root h) + length (hd_miner h)"

section \<open>Merkle root\<close>

text \<open>One pass of the loop over \<open>chunks(2)\<close>; \<open>unwrap\<close> panics on text that is not hexadecimal.\<close>

fun merkle_level :: "('x) crypto_scheme \<Rightarrow> string list \<Rightarrow> string list run" where
  "merkle_level C [] = Some []"
| "merkle_level C [a] = None"
| "merkle_level C (a # b # rest) =
     (case hex_decode C a of
        None \<Rightarrow> None
      | Some x \<Rightarrow>
          (case hex_decode C b of
             None \<Rightarrow> None
           | Some y \<Rightarrow>
               map_option (\<lambda>hs. hex_encode C (hasher_hash C (x @ y)) # hs) (merkle_level C rest)))"

definition pad_leaves :: "string list \<Rightarrow> string list" where
  "pad_leaves leaves = (if length leaves mod 2 \<noteq> 0 then leaves @ [last leaves] else leaves)"

lemma merkle_level_length: "merkle_level C ls = Some next \<Longrightarrow> 2 * length next = length ls"
  by (induction C ls arbitrary: "next" rule: merkle_level.induct) (auto split: option.splits)

lemma length_pad_leaves: "length (pad_leaves ls) \<le> length ls + 1"
  by (simp add: pad_leaves_def)

function cal_merkle_root :: "('x) crypto_scheme \<Rightarrow> string list \<Rightarrow> string run" where
  "cal_merkle_root C leaves =
     (if 1 < length leaves then
        (case merkle_level C (pad_leaves leaves) of
           None \<Rightarrow> None
         | Some next_level \<Rightarrow> cal_merkle_root C next_level)
      else Some (case leaves of [] \<Rightarrow> '''' | l # _ \<Rightarrow> l))"
  by pat_completeness auto
termination
proof (relation "measure (\<lambda>(C, leaves). length leaves)")
  fix C :: "('x) crypto_scheme" and leaves next_level
  assume "1 < length leaves" and "merkle_level C (pad_leaves leaves) = Some next_level"
  then show "((C, next_level), C, leaves) \<in> measure (\<lambda>(C, leaves). length leaves)"
    using merkle_level_length [of C "pad_leaves leaves" next_level] length_pad_leaves [of leaves]
    by simp
qed simp

declare cal_merkle_root.simps [simp del]

definition cal_path_root ::
  "('x) block_env_scheme \<Rightarrow> aggregated_signed_paths list \<Rightarrow> string run" where
  "cal_path_root C paths =
     cal_merkle_root C (map (\<lambda>p. hex_encode C (hasher_hash C (as_bytes (path_json C p)))) paths)"

section \<open>Blocks\<close>

fun all_tx_verify :: "('x) tx_env_scheme \<Rightarrow> transaction list \<Rightarrow> bool run" where
  "all_tx_verify C [] = Some True"
| "all_tx_verify C (t # ts) =
     (case tx_verify C t of
        None \<Rightarrow> None
      | Some False \<Rightarrow> Some False
      | Some True \<Rightarrow> all_tx_verify C ts)"

definition block_new ::
  "('x) block_env_scheme \<Rightarrow> nat \<Rightarrow> nat \<Rightarrow> nat \<Rightarrow> nat \<Rightarrow> string \<Rightarrow> body \<Rightarrow> wallet
    \<Rightarrow> (block_error + block) run" where
  "block_new C now index epoch slot parent_hash b w =
     (if length (body_transactions b) < length (body_paths b) then Some (Inl InvalidBlock)
      else case all_tx_verify C (body_transactions b) of
        None \<Rightarrow> None
      | Some False \<Rightarrow> Some (Inl InvalidBlockTransactions)
      | Some True \<Rightarrow>
          (case cal_merkle_root C (map tx_hash (body_transactions b)) of
             None \<Rightarrow> None
           | Some merkle_root \<Rightarrow>
               (case cal_path_root C (body_paths b) of
                  None \<Rightarrow> None
                | Some path_root \<Rightarrow>
                    Some (Inr \<lparr>blk_header = header_new C now index epoch slot merkle_root path_root
                                 (w_address w) parent_hash,
                               blk_body = b\<rparr>))))"

definition verify_base :: "('x) block_env_scheme \<Rightarrow> block \<Rightarrow> bool run" where
  "verify_base C b =
     (if length (body_transactions (blk_body b)) < length (body_paths (blk_body b)) then Some False
      else case all_tx_verify C (body_transactions (blk_body b)) of
        None \<Rightarrow> None
      | Some False \<Rightarrow> Some False
      | Some True \<Rightarrow>
          (case cal_merkle_root C (map tx_hash (body_transactions (blk_body b))) of
             None \<Rightarrow> None
           | Some tx_root \<Rightarrow>
               if tx_root \<noteq> hd_merkle_root (blk_header b) then Some False
               else case cal_path_root C (body_paths (blk_body b)) of
                 None \<Rightarrow> None
               | Some path_root \<Rightarrow>
                   if path_root \<noteq> hd_path_root (blk_header b) then Some False
                   else Some (hd_hash (blk_header b) = get_hash C (blk_header b))))"

definition block_verify :: "('x) block_env_scheme \<Rightarrow> block \<Rightarrow> bool run" where
  "block_verify C b = verify_base C b"

definition verify_path_evidence ::
  "('x) tx_env_scheme \<Rightarrow> bls_registry \<Rightarrow> path_caches \<Rightarrow> block \<Rightarrow> nat \<Rightarrow> (bool \<times> path_caches) run" where
  "verify_path_evidence C reg K b i =
     (if length (body_transactions (blk_body b)) \<le> i then Some (False, K)
      else if length (body_paths (blk_body b)) \<le> i then Some (False, K)
      else verify_at_epoch C reg K (body_paths (blk_body b) ! i)
             (body_transactions (blk_body b) ! i) (hd_miner (blk_header b)) (hd_epoch (blk_header b)))"

definition gen_genesis_block ::
  "('x) block_env_scheme \<Rightarrow> bls_registry \<Rightarrow> nat \<Rightarrow> wallet \<Rightarrow> block run" where
  "gen_genesis_block C reg now miner =
     (let t = transaction_new C now ''000'' 50 miner in
      case from_transaction_paths C reg (transaction_paths_new t) of
        None \<Rightarrow> None
      | Some p \<Rightarrow>
          (case block_new C now 0 0 0 '''' \<lparr>body_transactions = [t], body_paths = [p]\<rparr> miner of
             Some (Inr b) \<Rightarrow> Some b
           | _ \<Rightarrow> None))"

definition get_all_paths :: "block \<Rightarrow> address list list" where
  "get_all_paths b = map (\<lambda>p. full_path p (hd_miner (blk_header b))) (body_paths (blk_body b))"

definition count_node_paths_map :: "block \<Rightarrow> (address, nat) hash_map" where
  "count_node_paths_map b =
     foldl (\<lambda>counts x. foldl (\<lambda>counts p. hm_add p 1 counts) counts
       (full_path x (hd_miner (blk_header b)))) [] (body_paths (blk_body b))"

definition count_node_paths :: "block \<Rightarrow> address \<Rightarrow> nat" where
  "count_node_paths b a = hm_get_or 0 (count_node_paths_map b) a"

definition count_all_paths :: "block \<Rightarrow> nat" where
  "count_all_paths b =
     foldl (\<lambda>counts x. foldl (\<lambda>counts y. counts + 1) counts (full_path x (hd_miner (blk_header b))))
       0 (body_paths (blk_body b))"

definition body_bytes :: "body \<Rightarrow> nat" where
  "body_bytes b = sum_list (map tx_bytes (body_transactions b)) + sum_list (map asp_bytes (body_paths b))"

definition block_bytes :: "block \<Rightarrow> nat" where
  "block_bytes b = header_bytes (blk_header b) + body_bytes (blk_body b)"

section \<open>Merkle roots never panic on hexadecimal leaves\<close>

lemma merkle_level_total:
  assumes "hex_laws C" and "\<forall>l \<in> set ls. hex_decode C l \<noteq> None" and "even (length ls)"
  shows "\<exists>next. merkle_level C ls = Some next \<and> (\<forall>l \<in> set next. hex_decode C l \<noteq> None)"
  using assms
proof (induction C ls rule: merkle_level.induct)
  case (3 C a b rest)
  then obtain x y where xy: "hex_decode C a = Some x" "hex_decode C b = Some y" by auto
  with "3.IH" [OF xy] "3.prems" obtain hs where
    "merkle_level C rest = Some hs" "\<forall>l \<in> set hs. hex_decode C l \<noteq> None" by auto
  with xy "3.prems"(1) show ?case by (auto simp: hex_laws_def)
qed auto

lemma even_pad_leaves: "even (length (pad_leaves ls))"
  by (simp add: pad_leaves_def even_iff_mod_2_eq_zero) presburger

lemma set_pad_leaves: "set (pad_leaves ls) \<subseteq> set ls \<or> ls = []"
  by (auto simp: pad_leaves_def)

lemma merkle_root_total:
  assumes "hex_laws C" and "\<forall>l \<in> set ls. hex_decode C l \<noteq> None"
  shows "\<exists>root. cal_merkle_root C ls = Some root"
  using assms
proof (induction C ls rule: cal_merkle_root.induct)
  case (1 C ls)
  show ?case
  proof (cases "1 < length ls")
    case True
    have "\<forall>l \<in> set (pad_leaves ls). hex_decode C l \<noteq> None"
      using "1.prems"(2) set_pad_leaves [of ls] True by auto
    from merkle_level_total [OF "1.prems"(1) this even_pad_leaves] obtain next_level
      where n: "merkle_level C (pad_leaves ls) = Some next_level"
        "\<forall>l \<in> set next_level. hex_decode C l \<noteq> None"
      by blast
    with "1.IH" [OF True n(1) "1.prems"(1) n(2)] True show ?thesis
      by (subst cal_merkle_root.simps) simp
  qed (simp add: cal_merkle_root.simps)
qed

lemma all_tx_verify_hashes:
  "all_tx_verify C ts = Some True \<Longrightarrow> t \<in> set ts \<Longrightarrow> tx_verify C t = Some True"
  by (induction ts) (auto split: option.splits bool.splits)

lemma verified_hashes_decode:
  assumes "hex_laws C" and "all_tx_verify C ts = Some True"
  shows "\<forall>l \<in> set (map tx_hash ts). hex_decode C l \<noteq> None"
proof
  fix l assume "l \<in> set (map tx_hash ts)"
  then obtain t where "t \<in> set ts" and l: "l = tx_hash t" by auto
  then have "l = hex_encode C (tx_digest C t)"
    using all_tx_verify_hashes [OF assms(2)] tx_verify_hash by blast
  with assms(1) show "hex_decode C l \<noteq> None" by (simp add: hex_laws_def)
qed

lemma cal_path_root_total: "hex_laws C \<Longrightarrow> \<exists>r. cal_path_root C ps = Some r"
  unfolding cal_path_root_def by (rule merkle_root_total) (auto simp: hex_laws_def)

text \<open>
  Construction and verification agree.  For transactions that verify and no more
  path records than transactions, a block can be built, and the block that is built passes
  its own verification and carries the given index, epoch, slot, parent and proposer.
\<close>

theorem new_block_verifies:
  assumes "hex_laws C" and "all_tx_verify C (body_transactions b) = Some True"
    and "length (body_paths b) \<le> length (body_transactions b)"
  shows "\<exists>blk. block_new C now index epoch slot parent b w = Some (Inr blk)
    \<and> block_verify C blk = Some True \<and> blk_body blk = b
    \<and> hd_index (blk_header blk) = index \<and> hd_epoch (blk_header blk) = epoch
    \<and> hd_slot (blk_header blk) = slot \<and> hd_parent_hash (blk_header blk) = parent
    \<and> hd_miner (blk_header blk) = w_address w"
proof -
  obtain m where m: "cal_merkle_root C (map tx_hash (body_transactions b)) = Some m"
    using merkle_root_total [OF assms(1) verified_hashes_decode [OF assms(1,2)]] by blast
  obtain p where p: "cal_path_root C (body_paths b) = Some p"
    using cal_path_root_total [OF assms(1)] by blast
  show ?thesis
    using assms(2,3) m p
    by (simp add: block_new_def block_verify_def verify_base_def header_new_def get_hash_def Let_def)
qed

definition sample_block_env :: block_env where
  "sample_block_env = sample_with (block_env.fields (\<lambda>p. concat (asp_paths p)) (\<lambda>h. show_nat (hd_index h)))"

lemma new_block_verifies_witness:
  "\<exists>blk. block_new sample_block_env 9 3 1 2 ''p'' \<lparr>body_transactions = [sample_tx, sample_tx, sample_tx],
      body_paths = []\<rparr> (sample_wallet 2) = Some (Inr blk)
    \<and> block_verify sample_block_env blk = Some True
    \<and> blk_body blk = \<lparr>body_transactions = [sample_tx, sample_tx, sample_tx], body_paths = []\<rparr>
    \<and> hd_index (blk_header blk) = 3 \<and> hd_epoch (blk_header blk) = 1
    \<and> hd_slot (blk_header blk) = 2 \<and> hd_parent_hash (blk_header blk) = ''p''
    \<and> hd_miner (blk_header blk) = w_address (sample_wallet 2)"
  by (rule new_block_verifies) (simp_all add: sample_block_env_def sample_hex_laws sample_tx_verify)

lemma sample_block:
  "\<exists>blk. block_verify sample_block_env blk = Some True
    \<and> body_transactions (blk_body blk) = [sample_tx, sample_tx, sample_tx]"
proof -
  let ?b = "\<lparr>body_transactions = [sample_tx, sample_tx, sample_tx], body_paths = []\<rparr>"
  have all: "all_tx_verify sample_block_env (body_transactions ?b) = Some True"
    by (simp add: sample_block_env_def sample_tx_verify)
  have hex: "hex_laws sample_block_env" by (simp add: sample_block_env_def sample_hex_laws)
  obtain m p where mp: "cal_merkle_root sample_block_env (map tx_hash (body_transactions ?b)) = Some m"
    "cal_path_root sample_block_env [] = Some p"
    using merkle_root_total [OF hex verified_hashes_decode [OF hex all]] cal_path_root_total [OF hex]
    by blast
  then have "block_verify sample_block_env
      \<lparr>blk_header = header_new sample_block_env 0 1 0 0 m p '''' '''', blk_body = ?b\<rparr> = Some True"
    using all by (simp add: block_verify_def verify_base_def header_new_def get_hash_def Let_def)
  then show ?thesis by (metis block.select_convs(2) body.select_convs(1))
qed

section \<open>Duplicated last transaction\<close>

lemma pad_leaves_odd: "odd (length ls) \<Longrightarrow> pad_leaves ls = ls @ [last ls]"
  by (simp add: pad_leaves_def odd_iff_mod_2_eq_one)

lemma pad_leaves_even: "even (length ls) \<Longrightarrow> pad_leaves ls = ls"
  by (simp add: pad_leaves_def even_iff_mod_2_eq_zero)

lemma merkle_root_duplicate:
  assumes "odd (length ls)" and "1 < length ls"
  shows "cal_merkle_root C (ls @ [last ls]) = cal_merkle_root C ls"
proof -
  have "ls \<noteq> []" using assms(2) by auto
  with assms show ?thesis
    by (subst (1 2) cal_merkle_root.simps) (simp add: pad_leaves_odd pad_leaves_even)
qed

lemma all_tx_verify_append:
  "all_tx_verify C ts = Some True \<Longrightarrow> all_tx_verify C (ts @ us) = all_tx_verify C us"
  by (induction ts) (auto split: option.splits bool.splits)

text \<open>
  C36.  The block hash does not commit to the number of transactions.  Repeating the last
  transaction of a valid block that has an odd number of them, at least three, gives a
  different body under the same header that verifies as well.
\<close>

theorem duplicated_transaction_verifies:
  assumes "block_verify C b = Some True"
    and "odd (length (body_transactions (blk_body b)))"
    and "1 < length (body_transactions (blk_body b))"
    and "b' = b\<lparr>blk_body := (blk_body b)\<lparr>body_transactions :=
      body_transactions (blk_body b) @ [last (body_transactions (blk_body b))]\<rparr>\<rparr>"
  shows "block_verify C b' = Some True \<and> blk_header b' = blk_header b
    \<and> length (body_transactions (blk_body b')) = length (body_transactions (blk_body b)) + 1"
proof -
  let ?ts = "body_transactions (blk_body b)"
  have ne: "?ts \<noteq> []" using assms(3) by auto
  have all: "all_tx_verify C ?ts = Some True"
    using assms(1) by (auto simp: block_verify_def verify_base_def split: if_splits option.splits bool.splits)
  then have "all_tx_verify C (?ts @ [last ?ts]) = Some True"
    using ne all_tx_verify_hashes [OF all, of "last ?ts"] by (simp add: all_tx_verify_append)
  moreover have "cal_merkle_root C (map tx_hash (?ts @ [last ?ts])) = cal_merkle_root C (map tx_hash ?ts)"
    using merkle_root_duplicate [of "map tx_hash ?ts" C] assms(2,3) ne by (simp add: last_map)
  ultimately show ?thesis
    using assms(1) all unfolding assms(4)
    by (auto simp: block_verify_def verify_base_def split: if_splits option.splits)
qed

lemma duplicated_transaction_verifies_witness:
  "\<exists>b b'. block_verify sample_block_env b = Some True \<and> block_verify sample_block_env b' = Some True
    \<and> blk_header b' = blk_header b \<and> length (body_transactions (blk_body b)) = 3
    \<and> length (body_transactions (blk_body b')) = 4"
proof -
  obtain b where b: "block_verify sample_block_env b = Some True"
    "body_transactions (blk_body b) = [sample_tx, sample_tx, sample_tx]"
    using sample_block by blast
  from duplicated_transaction_verifies [OF b(1) _ _ HOL.refl] b show ?thesis
    by (intro exI [of _ b] exI) auto
qed

section \<open>Path counters\<close>

lemma get_foldl_add:
  "hm_get_or 0 (foldl (\<lambda>m p. hm_add p (Suc 0) m) m xs) a = hm_get_or 0 m a + count_list xs a"
  by (induction xs arbitrary: m) (auto simp: table_simps)

lemma get_foldl_paths:
  "hm_get_or 0 (foldl (\<lambda>m x. foldl (\<lambda>m p. hm_add p (Suc 0) m) m (f x)) m xs) a
    = hm_get_or 0 m a + sum_list (map (\<lambda>x. count_list (f x) a) xs)"
  by (induction xs arbitrary: m) (auto simp: get_foldl_add)

lemma foldl_count: "foldl (\<lambda>c y. Suc c) n xs = n + length xs"
  by (induction xs arbitrary: n) auto

lemma foldl_count_paths:
  "foldl (\<lambda>c x. foldl (\<lambda>c y. Suc c) c (f x)) n xs = n + sum_list (map (\<lambda>x. length (f x)) xs)"
  by (induction xs arbitrary: n) (auto simp: foldl_count)

lemma count_node_paths_eq:
  "count_node_paths b a = sum_list (map (\<lambda>p. count_list p a) (get_all_paths b))"
  by (simp add: count_node_paths_def count_node_paths_map_def get_foldl_paths get_all_paths_def
      table_simps o_def)

lemma count_all_paths_eq: "count_all_paths b = sum_list (map length (get_all_paths b))"
  by (simp add: count_all_paths_def foldl_count_paths get_all_paths_def o_def)

section \<open>Sample blocks\<close>

definition sample_blk :: "nat \<Rightarrow> string \<Rightarrow> transaction list \<Rightarrow> block" where
  "sample_blk i parent ts =
     \<lparr>blk_header = header_new sample_block_env 0 i 0 i (case map tx_hash ts of [] \<Rightarrow> '''' | h # _ \<Rightarrow> h)
        '''' ''m'' parent,
      blk_body = \<lparr>body_transactions = ts, body_paths = []\<rparr>\<rparr>"

definition sample_hash :: "nat \<Rightarrow> string" where
  "sample_hash i = hex_enc (as_bytes (show_nat i))"

lemma sample_blk_hash: "hd_hash (blk_header (sample_blk i parent ts)) = sample_hash i"
  by (simp add: sample_blk_def header_new_def get_hash_def Let_def sample_hash_def sample_block_env_def
      hasher_hash_def sample_with_def block_env.fields_def)

lemma sample_blk_verify:
  "ts = [] \<or> ts = [sample_tx] \<Longrightarrow> block_verify sample_block_env (sample_blk i parent ts) = Some True"
  by (auto simp: sample_blk_def block_verify_def verify_base_def cal_merkle_root.simps cal_path_root_def
      header_new_def get_hash_def Let_def sample_block_env_def sample_tx_verify)

lemma sample_blk_fields [simp]:
  "hd_index (blk_header (sample_blk i parent ts)) = i"
  "hd_epoch (blk_header (sample_blk i parent ts)) = 0"
  "hd_slot (blk_header (sample_blk i parent ts)) = i"
  "hd_parent_hash (blk_header (sample_blk i parent ts)) = parent"
  "hd_miner (blk_header (sample_blk i parent ts)) = ''m''"
  "body_transactions (blk_body (sample_blk i parent ts)) = ts"
  by (simp_all add: sample_blk_def header_new_def Let_def)

lemma as_bytes_inj: "as_bytes s = as_bytes t \<longleftrightarrow> s = t"
proof -
  have "inj (of_char :: char \<Rightarrow> byte)"
  proof (rule injI)
    fix c d :: char
    assume "(of_char c :: byte) = of_char d"
    then have "unat (of_char c :: byte) = unat (of_char d :: byte)" by simp
    moreover have "unat (of_char e :: byte) = of_char e" for e
      by (cases e) (simp add: unsigned_of_nat)
    ultimately show "c = d" by simp
  qed
  then show ?thesis by (simp add: as_bytes_def inj_map_eq_map)
qed

lemma sample_hash_inj: "sample_hash i = sample_hash j \<longleftrightarrow> show_nat i = show_nat j"
  unfolding sample_hash_def by (metis as_bytes_inj hex_dec_enc option.inject)

end
