(* ===== verification/Chain.thy ===== *)
theory Chain
  imports Block
begin

text \<open>
  \<^verbatim>\<open>src/src/blockchain/mod.rs\<close>: the chain kept in memory, its transaction index, appending
  with its ordered checks, pruning to the most recent blocks, and the views of the last
  slot and the last epoch.
\<close>

section \<open>Definitions\<close>

record blockchain =
  blocks :: "block list"
  transaction_index :: "string set"
  max_blocks_in_memory :: nat

datatype chain_error =
    ChainInvalidBlock
  | ParentHashMismatch
  | IndexMismatch
  | EpochError
  | SlotError
  | DuplicateBlocksReceived
  | TransactionExists
  | IndexTooSmall

abbreviation block_txs :: "block \<Rightarrow> transaction list" where
  "block_txs b \<equiv> body_transactions (blk_body b)"

definition tx_hashes :: "block \<Rightarrow> string set" where
  "tx_hashes b = set (map tx_hash (block_txs b))"

definition blockchain_new :: "block \<Rightarrow> blockchain" where
  "blockchain_new genesis =
     \<lparr>blocks = [genesis], transaction_index = tx_hashes genesis, max_blocks_in_memory = 100\<rparr>"

definition pop_block :: "blockchain \<Rightarrow> (block \<times> blockchain) option" where
  "pop_block bc =
     (if blocks bc = [] then None
      else let b = last (blocks bc) in
        Some (b, bc\<lparr>blocks := butlast (blocks bc),
                    transaction_index := transaction_index bc - tx_hashes b\<rparr>))"

definition get_block :: "blockchain \<Rightarrow> nat \<Rightarrow> block option" where
  "get_block bc height = List.find (\<lambda>b. hd_index (blk_header b) = height) (blocks bc)"

definition exist_transaction :: "blockchain \<Rightarrow> string \<Rightarrow> bool" where
  "exist_transaction bc h \<longleftrightarrow> h \<in> transaction_index bc"

definition get_last_block :: "blockchain \<Rightarrow> block run" where
  "get_last_block bc = (if blocks bc = [] then None else Some (last (blocks bc)))"

definition get_last_hash :: "blockchain \<Rightarrow> string run" where
  "get_last_hash bc = map_option (\<lambda>b. hd_hash (blk_header b)) (get_last_block bc)"

definition get_last_index :: "blockchain \<Rightarrow> nat run" where
  "get_last_index bc = map_option (\<lambda>b. hd_index (blk_header b)) (get_last_block bc)"

definition get_last_epoch_slot :: "blockchain \<Rightarrow> (nat \<times> nat) run" where
  "get_last_epoch_slot bc =
     map_option (\<lambda>b. (hd_epoch (blk_header b), hd_slot (blk_header b))) (get_last_block bc)"

definition get_last_slot_block :: "blockchain \<Rightarrow> block list run" where
  "get_last_slot_block bc =
     map_option (\<lambda>(epoch, slot). rev (takeWhile
       (\<lambda>b. hd_slot (blk_header b) = slot \<and> hd_epoch (blk_header b) = epoch) (rev (blocks bc))))
       (get_last_epoch_slot bc)"

definition get_last_epoch_block :: "blockchain \<Rightarrow> block list run" where
  "get_last_epoch_block bc =
     map_option (\<lambda>(epoch, slot). rev (takeWhile
       (\<lambda>b. hd_epoch (blk_header b) = epoch) (rev (blocks bc))))
       (get_last_epoch_slot bc)"

definition push_block :: "blockchain \<Rightarrow> block \<Rightarrow> blockchain" where
  "push_block bc b =
     bc\<lparr>blocks := blocks bc @ [b], transaction_index := transaction_index bc \<union> tx_hashes b\<rparr>"

definition prune :: "blockchain \<Rightarrow> blockchain" where
  "prune bc =
     (if max_blocks_in_memory bc < length (blocks bc) then bc\<lparr>blocks := tl (blocks bc)\<rparr> else bc)"

definition add_block ::
  "('x) block_env_scheme \<Rightarrow> blockchain \<Rightarrow> block \<Rightarrow> (chain_error + blockchain) run" where
  "add_block C bc b =
     (if blocks bc = [] then
        (case block_verify C b of
           None \<Rightarrow> None
         | Some False \<Rightarrow> Some (Inl ChainInvalidBlock)
         | Some True \<Rightarrow> Some (Inr (push_block bc b)))
      else let lst = blk_header (last (blocks bc)); hdr = blk_header b in
        if hd_index hdr < hd_index lst + 1 then Some (Inl IndexTooSmall)
        else case block_verify C b of
          None \<Rightarrow> None
        | Some False \<Rightarrow> Some (Inl ChainInvalidBlock)
        | Some True \<Rightarrow>
            if hd_hash lst = hd_hash hdr then Some (Inl DuplicateBlocksReceived)
            else if hd_hash lst \<noteq> hd_parent_hash hdr then Some (Inl ParentHashMismatch)
            else if hd_index lst + 1 \<noteq> hd_index hdr then Some (Inl IndexMismatch)
            else if hd_epoch hdr < hd_epoch lst then Some (Inl EpochError)
            else if hd_epoch lst = hd_epoch hdr \<and> hd_slot hdr < hd_slot lst
              then Some (Inl SlotError)
            else if list_ex (\<lambda>t. exist_transaction bc (tx_hash t)) (block_txs b)
              then Some (Inl TransactionExists)
            else Some (Inr (prune (push_block bc b))))"

section \<open>What a successful append guarantees\<close>

definition follows :: "block \<Rightarrow> block \<Rightarrow> bool" where
  "follows a b \<longleftrightarrow>
     hd_parent_hash (blk_header b) = hd_hash (blk_header a)
     \<and> hd_index (blk_header b) = hd_index (blk_header a) + 1
     \<and> hd_epoch (blk_header a) \<le> hd_epoch (blk_header b)
     \<and> (hd_epoch (blk_header a) = hd_epoch (blk_header b)
         \<longrightarrow> hd_slot (blk_header a) \<le> hd_slot (blk_header b))"

definition chain_inv :: "blockchain \<Rightarrow> bool" where
  "chain_inv bc \<longleftrightarrow>
     successively follows (blocks bc)
     \<and> (\<forall>b \<in> set (blocks bc). tx_hashes b \<subseteq> transaction_index bc)
     \<and> sorted_wrt (\<lambda>a b. tx_hashes a \<inter> tx_hashes b = {}) (blocks bc)"

lemma add_block_Ok:
  assumes "add_block C bc b = Some (Inr bc')" and "blocks bc \<noteq> []"
  shows "follows (last (blocks bc)) b" "block_verify C b = Some True"
    "tx_hashes b \<inter> transaction_index bc = {}" "bc' = prune (push_block bc b)"
  using assms
  by (auto simp: add_block_def Let_def follows_def tx_hashes_def exist_transaction_def list_ex_iff
      split: if_splits option.splits bool.splits)

lemma blocks_prune_push:
  "blocks (prune (push_block bc b)) =
     (if max_blocks_in_memory bc \<le> length (blocks bc) then tl (blocks bc @ [b]) else blocks bc @ [b])"
  by (auto simp: prune_def push_block_def not_less_eq_eq)

lemma index_prune_push [simp]:
  "transaction_index (prune (push_block bc b)) = transaction_index bc \<union> tx_hashes b"
  "max_blocks_in_memory (prune (push_block bc b)) = max_blocks_in_memory bc"
  by (simp_all add: prune_def push_block_def)

lemma last_prune_push:
  "blocks bc \<noteq> [] \<Longrightarrow>
    blocks (prune (push_block bc b)) \<noteq> [] \<and> last (blocks (prune (push_block bc b))) = b"
  by (cases "blocks bc") (auto simp: blocks_prune_push)

lemma chain_inv_push:
  assumes "chain_inv bc" "blocks bc \<noteq> []" "follows (last (blocks bc)) b"
    "tx_hashes b \<inter> transaction_index bc = {}"
  shows "chain_inv (push_block bc b)"
  using assms
  by (auto simp: chain_inv_def push_block_def successively_append_iff sorted_wrt_append)

lemma chain_inv_prune: "chain_inv bc \<Longrightarrow> chain_inv (prune bc)"
  by (cases "blocks bc") (auto simp: chain_inv_def prune_def successively_Cons)

lemma chain_inv_add_block:
  assumes "chain_inv bc" and "add_block C bc b = Some (Inr bc')"
  shows "chain_inv bc'"
proof (cases "blocks bc = []")
  case True
  with assms show ?thesis
    by (auto simp: add_block_def chain_inv_def push_block_def split: option.splits bool.splits)
next
  case False
  with add_block_Ok [OF assms(2)] chain_inv_push [OF assms(1)] show ?thesis
    by (simp add: chain_inv_prune)
qed

lemma chain_inv_pop_block:
  assumes "chain_inv bc" and "pop_block bc = Some (b, bc')"
  shows "chain_inv bc'"
proof -
  obtain xs where xs: "blocks bc = xs @ [b]"
    and bc': "bc' = bc\<lparr>blocks := xs, transaction_index := transaction_index bc - tx_hashes b\<rparr>"
    using assms(2) by (cases "blocks bc" rule: rev_cases) (auto simp: pop_block_def Let_def)
  show ?thesis
    using assms(1) unfolding chain_inv_def bc' xs
    by (auto simp: successively_append_iff sorted_wrt_append)
qed

section \<open>Whole histories\<close>

text \<open>Candidate blocks arrive one after the other; refused ones leave the chain unchanged.\<close>

fun accept_all ::
  "('x) block_env_scheme \<Rightarrow> blockchain \<Rightarrow> block list \<Rightarrow> (blockchain \<times> block list) run" where
  "accept_all C bc [] = Some (bc, [])"
| "accept_all C bc (b # bs) =
     (case add_block C bc b of
        None \<Rightarrow> None
      | Some (Inl e) \<Rightarrow> accept_all C bc bs
      | Some (Inr bc') \<Rightarrow> map_option (\<lambda>(bc'', acc). (bc'', b # acc)) (accept_all C bc' bs))"

lemma accept_all_history:
  assumes "accept_all C bc bs = Some (bc', acc)" and "blocks bc \<noteq> []"
  shows "successively follows (last (blocks bc) # acc)
    \<and> (\<forall>b \<in> set acc. block_verify C b = Some True \<and> tx_hashes b \<inter> transaction_index bc = {})
    \<and> sorted_wrt (\<lambda>a b. tx_hashes a \<inter> tx_hashes b = {}) acc
    \<and> transaction_index bc' = transaction_index bc \<union> \<Union> (tx_hashes ` set acc)"
  using assms
proof (induction bs arbitrary: bc acc)
  case (Cons b bs)
  show ?case
  proof (cases "add_block C bc b")
    case (Some r)
    show ?thesis
    proof (cases r)
      case (Inr bc1)
      with Some Cons.prems obtain acc1 where
        r: "accept_all C bc1 bs = Some (bc', acc1)" "acc = b # acc1"
        by (auto split: option.splits)
      note ok = add_block_Ok [OF Some [unfolded Inr] Cons.prems(2)]
      from Cons.IH [OF r(1)] last_prune_push [OF Cons.prems(2), of b] ok r(2)
      show ?thesis by (auto simp: Int_Un_distrib successively_Cons)
    qed (use Some Cons in auto)
  qed (use Cons.prems in simp)
qed simp

lemma add_block_bounded:
  assumes "add_block C bc b = Some (Inr bc')" and "blocks bc \<noteq> []"
    and "length (blocks bc) \<le> max (max_blocks_in_memory bc) 1"
  shows "length (blocks bc') \<le> max (max_blocks_in_memory bc') 1"
  using add_block_Ok(4) [OF assms(1,2)] assms(3) by (auto simp: blocks_prune_push)

lemma accept_all_bounded:
  assumes "accept_all C bc bs = Some (bc', acc)" and "blocks bc \<noteq> []"
    and "length (blocks bc) \<le> max (max_blocks_in_memory bc) 1"
  shows "length (blocks bc') \<le> max (max_blocks_in_memory bc) 1"
  using assms
proof (induction bs arbitrary: bc acc)
  case (Cons b bs)
  show ?case
  proof (cases "add_block C bc b")
    case (Some r)
    show ?thesis
    proof (cases r)
      case (Inr bc1)
      with Some Cons.prems obtain acc1 where r: "accept_all C bc1 bs = Some (bc', acc1)"
        by (auto split: option.splits)
      note ok = add_block_Ok(4) [OF Some [unfolded Inr] Cons.prems(2)]
      have ne: "blocks bc1 \<noteq> []" and m: "max_blocks_in_memory bc1 = max_blocks_in_memory bc"
        using last_prune_push [OF Cons.prems(2), of b] ok by auto
      from Cons.IH [OF r ne] add_block_bounded [OF Some [unfolded Inr] Cons.prems(2,3)] m
      show ?thesis by simp
    qed (use Some Cons in auto)
  qed (use Cons.prems in simp)
qed simp


section \<open>Appending and removing\<close>

text \<open>
  Removing the block just appended restores the chain, as long as appending did not
  have to drop an old block.
\<close>

theorem pop_after_add:
  assumes "add_block C bc b = Some (Inr bc')" and "blocks bc \<noteq> []"
    and "length (blocks bc) < max_blocks_in_memory bc"
  shows "pop_block bc' = Some (b, bc)"
proof -
  have "bc' = push_block bc b"
    using add_block_Ok(4) [OF assms(1,2)] assms(3) by (simp add: prune_def push_block_def)
  moreover have "(transaction_index bc \<union> tx_hashes b) - tx_hashes b = transaction_index bc"
    using add_block_Ok(3) [OF assms(1,2)] by auto
  ultimately show ?thesis by (simp add: pop_block_def push_block_def Let_def)
qed

section \<open>The last epoch\<close>

lemma follows_epochs: "successively follows bs \<Longrightarrow> sorted (map (\<lambda>b. hd_epoch (blk_header b)) bs)"
proof (induction bs)
  case (Cons b bs)
  then show ?case
    by (cases bs) (auto simp: follows_def)
qed simp

lemma sorted_le_last:
  fixes f :: "'a \<Rightarrow> nat"
  shows "sorted (map f xs) \<Longrightarrow> y \<in> set xs \<Longrightarrow> f y \<le> f (last xs)"
  by (induction xs) auto

lemma takeWhile_eq_filter:
  fixes f :: "'a \<Rightarrow> nat"
  assumes "sorted_wrt (\<lambda>a b. f b \<le> f a) ys" and "\<forall>y \<in> set ys. f y \<le> c"
  shows "takeWhile (\<lambda>x. f x = c) ys = filter (\<lambda>x. f x = c) ys"
  using assms
proof (induction ys)
  case (Cons y ys)
  show ?case
  proof (cases "f y = c")
    case False
    then have "\<forall>x \<in> set ys. f x \<noteq> c" using Cons.prems by fastforce
    with False show ?thesis by (simp add: filter_empty_conv)
  qed (use Cons in simp)
qed simp

lemma takeWhile_last_sorted:
  fixes f :: "'a \<Rightarrow> nat"
  assumes "sorted (map f xs)"
  shows "rev (takeWhile (\<lambda>x. f x = f (last xs)) (rev xs)) = filter (\<lambda>x. f x = f (last xs)) xs"
proof -
  have "sorted_wrt (\<lambda>a b. f b \<le> f a) (rev xs)"
    using assms by (simp add: sorted_wrt_rev sorted_wrt_map)
  moreover have "\<forall>y \<in> set (rev xs). f y \<le> f (last xs)"
    using sorted_le_last [OF assms] by simp
  ultimately show ?thesis by (simp add: takeWhile_eq_filter rev_filter)
qed

text \<open>
  On a linked chain the blocks returned for the last epoch are exactly the blocks in
  memory that carry the epoch of the last block, in order.
\<close>

theorem last_epoch_blocks_exact:
  assumes "chain_inv bc" and "blocks bc \<noteq> []"
  shows "get_last_epoch_block bc = Some (filter
    (\<lambda>b. hd_epoch (blk_header b) = hd_epoch (blk_header (last (blocks bc)))) (blocks bc))"
proof -
  have "sorted (map (\<lambda>b. hd_epoch (blk_header b)) (blocks bc))"
    using assms(1) by (simp add: chain_inv_def follows_epochs)
  from takeWhile_last_sorted [OF this] assms(2) show ?thesis
    by (simp add: get_last_epoch_block_def get_last_epoch_slot_def get_last_block_def)
qed

section \<open>Concrete chains\<close>

definition sample_chain :: blockchain where
  "sample_chain = blockchain_new (sample_blk 0 '''' [])"

abbreviation sample_next :: block where
  "sample_next \<equiv> sample_blk 1 (sample_hash 0) [sample_tx]"

lemma sample_hash_01: "sample_hash 0 \<noteq> sample_hash 1" "sample_hash 1 \<noteq> sample_hash 2"
  by (simp_all add: sample_hash_inj show_nat_inject)

lemma sample_add_block:
  "add_block sample_block_env sample_chain sample_next
    = Some (Inr (prune (push_block sample_chain sample_next)))"
  using sample_hash_01
  by (simp add: add_block_def sample_chain_def blockchain_new_def Let_def sample_blk_verify
      sample_blk_hash exist_transaction_def tx_hashes_def)

lemma sample_add_again:
  "add_block sample_block_env (prune (push_block sample_chain sample_next))
      (sample_blk 2 (sample_hash 1) [sample_tx])
    = Some (Inl TransactionExists)"
  using sample_hash_01
  by (simp add: add_block_def sample_chain_def blockchain_new_def push_block_def prune_def Let_def
      sample_blk_verify sample_blk_hash exist_transaction_def tx_hashes_def)


lemma pop_after_add_witness:
  "pop_block (prune (push_block sample_chain sample_next)) = Some (sample_next, sample_chain)"
  by (rule pop_after_add [OF sample_add_block]) (simp_all add: sample_chain_def blockchain_new_def)

lemma last_epoch_blocks_exact_witness:
  "get_last_epoch_block sample_chain = Some (filter
    (\<lambda>b. hd_epoch (blk_header b) = hd_epoch (blk_header (last (blocks sample_chain))))
    (blocks sample_chain))"
  by (rule last_epoch_blocks_exact)
    (simp_all add: sample_chain_def blockchain_new_def chain_inv_def)

end
