(* ===== verification/Consensus_Base.thy ===== *)
theory Consensus_Base
  imports Chain "HOL-Library.Multiset"
begin

text \<open>
  \<^verbatim>\<open>src/src/consensus/mod.rs\<close>: validators, errors, balance deltas, the combination of
  RANDAO seeds, and the interface every consensus engine implements.
\<close>

section \<open>Definitions\<close>

datatype consensus_type = POS | TopoStake | POW | MINOTAUR

fun consensus_type_name :: "consensus_type \<Rightarrow> string" where
  "consensus_type_name POS = ''pos''"
| "consensus_type_name TopoStake = ''topostake''"
| "consensus_type_name POW = ''pow''"
| "consensus_type_name MINOTAUR = ''minotaur''"

record validator =
  v_address :: address
  v_stake :: real
  v_hash_power :: real

datatype validator_error = ValidatorJSONError | NOValidatorError | NoWinner

record balance_delta =
  bd_address :: address
  bd_amount :: real

record randao_seed =
  rs_address :: address
  rs_seed :: bytes
  rs_signature :: string

definition randao_seed_new ::
  "('x) crypto_scheme \<Rightarrow> bytes \<Rightarrow> wallet \<Rightarrow> randao_seed" where
  "randao_seed_new C seed w = \<lparr>rs_address = w_address w, rs_seed = seed, rs_signature = sign C w seed\<rparr>"

definition xor_bytes :: "bytes \<Rightarrow> bytes \<Rightarrow> bytes" where
  "xor_bytes a b = map2 Bit_Operations.xor a b"

fun combine_seeds_from ::
  "('x) crypto_scheme \<Rightarrow> validator list \<Rightarrow> bytes \<Rightarrow> randao_seed list \<Rightarrow> bytes run" where
  "combine_seeds_from C vs result [] = Some result"
| "combine_seeds_from C vs result (s # ss) =
     (if \<not> list_ex (\<lambda>v. v_address v = rs_address s) vs then combine_seeds_from C vs result ss
      else case verify_by_address C (rs_seed s) (rs_signature s) (rs_address s) of
        None \<Rightarrow> None
      | Some True \<Rightarrow> combine_seeds_from C vs (xor_bytes result (rs_seed s)) ss
      | Some False \<Rightarrow> combine_seeds_from C vs result ss)"

definition combine_seed ::
  "('x) crypto_scheme \<Rightarrow> validator list \<Rightarrow> randao_seed list \<Rightarrow> bytes run" where
  "combine_seed C vs seeds =
     map_option (hasher_hash C) (combine_seeds_from C vs (replicate 32 0) seeds)"

section \<open>The interface of a consensus engine\<close>

text \<open>
  What the simulation relies on when it asks an engine for a proposer: an elected proposer
  is one of the validators it passed in, and nobody is elected from an empty list.
\<close>

locale proposer_election =
  fixes elect :: "'st \<Rightarrow> validator list \<Rightarrow> bytes \<Rightarrow> ('st \<times> (validator_error + validator)) run"
  assumes elect_member: "elect st vs seed = Some (st', Inr v) \<Longrightarrow> v \<in> set vs"
    and elect_empty: "elect st [] seed = Some (st', r) \<Longrightarrow> \<exists>e. r = Inl e"
begin

lemma elected_address:
  "elect st vs seed = Some (st', Inr v) \<Longrightarrow> v_address v \<in> v_address ` set vs"
  using elect_member by blast

lemma elected_nonempty: "elect st vs seed = Some (st', Inr v) \<Longrightarrow> vs \<noteq> []"
  using elect_member by fastforce

end

text \<open>
  Each engine walks over its candidates, accumulates a weight per candidate and stops at the
  first one whose accumulated weight passes the random draw.  The engines differ in the
  weight and in the comparison.
\<close>

locale weighted_scan =
  fixes passes :: "real \<Rightarrow> real \<Rightarrow> bool"
    and weight :: "'v \<Rightarrow> real"
    and scan :: "real \<Rightarrow> real \<Rightarrow> 'v list \<Rightarrow> 'v option"
  assumes scan_Nil: "scan draw acc [] = None"
    and scan_Cons: "scan draw acc (v # vs) =
      (if passes draw (acc + weight v) then Some v else scan draw (acc + weight v) vs)"
begin

lemma scan_Some:
  "scan draw acc vs = Some v \<Longrightarrow> \<exists>i < length vs. v = vs ! i
     \<and> passes draw (acc + sum_list (map weight (take (Suc i) vs)))
     \<and> (\<forall>j < i. \<not> passes draw (acc + sum_list (map weight (take (Suc j) vs))))"
proof (induction vs arbitrary: acc)
  case Nil
  then show ?case by (simp add: scan_Nil)
next
  case (Cons x vs)
  show ?case
  proof (cases "passes draw (acc + weight x)")
    case True
    with Cons.prems show ?thesis by (intro exI [of _ 0]) (simp add: scan_Cons)
  next
    case False
    with Cons.prems have "scan draw (acc + weight x) vs = Some v" by (simp add: scan_Cons)
    from Cons.IH [OF this] obtain i where i: "i < length vs" "v = vs ! i"
      "passes draw (acc + weight x + sum_list (map weight (take (Suc i) vs)))"
      "\<forall>j < i. \<not> passes draw (acc + weight x + sum_list (map weight (take (Suc j) vs)))"
      by blast
    with False show ?thesis
      by (intro exI [of _ "Suc i"]) (auto simp: add.assoc less_Suc_eq_0_disj)
  qed
qed

lemma scan_None:
  "scan draw acc vs = None \<Longrightarrow> vs \<noteq> [] \<Longrightarrow> \<not> passes draw (acc + sum_list (map weight vs))"
proof (induction vs arbitrary: acc)
  case (Cons x vs)
  then have x: "\<not> passes draw (acc + weight x)" "scan draw (acc + weight x) vs = None"
    by (auto simp: scan_Cons split: if_splits)
  then show ?case using Cons.IH [OF x(2)] by (cases "vs = []") (simp_all add: add.assoc)
qed simp

lemma scan_member: "scan draw acc vs = Some v \<Longrightarrow> v \<in> set vs"
  using scan_Some by fastforce

lemma scan_succeeds:
  assumes "vs \<noteq> []" and "passes draw (acc + sum_list (map weight vs))"
  obtains v where "scan draw acc vs = Some v"
  using scan_None [OF _ assms(1)] assms(2) by (cases "scan draw acc vs") auto

end

text \<open>
  When the comparison is strict and no weight is negative, the candidate at position \<open>i\<close> is
  chosen exactly for the draws in its half-open interval of the accumulated weights.
\<close>

locale strict_scan = weighted_scan "\<lambda>draw acc. draw < acc" weight scan
  for weight :: "'v \<Rightarrow> real" and scan :: "real \<Rightarrow> real \<Rightarrow> 'v list \<Rightarrow> 'v option"
begin

lemma prefix_mono:
  assumes "\<And>v. v \<in> set vs \<Longrightarrow> 0 \<le> weight v" and "i \<le> j"
  shows "sum_list (map weight (take i vs)) \<le> sum_list (map weight (take j vs))"
proof -
  have "take j vs = take i vs @ take (j - i) (drop i vs)"
    using assms(2) by (metis le_add_diff_inverse take_add)
  moreover have "0 \<le> sum_list (map weight (take (j - i) (drop i vs)))"
    using assms(1) by (intro sum_list_nonneg_map) (meson in_set_dropD in_set_takeD)
  ultimately show ?thesis by simp
qed

lemma scan_interval:
  assumes "\<And>v. v \<in> set vs \<Longrightarrow> 0 \<le> weight v" and "distinct vs" and "i < length vs" and "0 \<le> draw"
  shows "scan draw 0 vs = Some (vs ! i)
    \<longleftrightarrow> sum_list (map weight (take i vs)) \<le> draw \<and> draw < sum_list (map weight (take (Suc i) vs))"
    (is "?chosen \<longleftrightarrow> ?F i \<le> draw \<and> draw < ?F (Suc i)")
proof
  assume ?chosen
  from scan_Some [OF this] obtain k where k: "k < length vs" "vs ! i = vs ! k"
    "draw < ?F (Suc k)" "\<forall>j < k. \<not> draw < ?F (Suc j)"
    by auto
  then have "k = i" using assms(2,3) by (simp add: nth_eq_iff_index_eq)
  with k show "?F i \<le> draw \<and> draw < ?F (Suc i)"
    using assms(4) by (cases i) (auto simp: not_less)
next
  assume r: "?F i \<le> draw \<and> draw < ?F (Suc i)"
  then have "draw < ?F (length vs)"
    using prefix_mono [of vs "Suc i" "length vs"] assms(1,3) by force
  then obtain v where v: "scan draw 0 vs = Some v"
    using scan_succeeds [of vs draw 0] assms(3) by (cases vs) auto
  from scan_Some [OF v] obtain k where k: "k < length vs" "v = vs ! k"
    "draw < ?F (Suc k)" "\<forall>j < k. \<not> draw < ?F (Suc j)"
    by auto
  have "\<not> i < k" using r k(4) by blast
  moreover have "\<not> k < i" using r k(3) prefix_mono [of vs "Suc k" i] assms(1) by force
  ultimately show ?chosen using v k(2) by simp
qed

end

text \<open>
  The engines without propagation rewards pay the proposer of a block its base reward and
  all fees, when the proposer is among the validators.
\<close>

locale proposer_reward =
  fixes reward :: "real \<Rightarrow> block \<Rightarrow> validator list \<Rightarrow> balance_delta list"
  assumes reward_member: "hd_miner (blk_header b) \<in> v_address ` set vs \<Longrightarrow> reward base b vs =
      [\<lparr>bd_address = hd_miner (blk_header b),
        bd_amount = base + sum_list (map tx_fee (body_transactions (blk_body b)))\<rparr>]"
    and reward_stranger: "hd_miner (blk_header b) \<notin> v_address ` set vs \<Longrightarrow> reward base b vs = []"
begin

lemma reward_total:
  "sum_list (map bd_amount (reward base b vs))
    = (if hd_miner (blk_header b) \<in> v_address ` set vs
       then base + sum_list (map tx_fee (body_transactions (blk_body b))) else 0)"
  by (cases "hd_miner (blk_header b) \<in> v_address ` set vs") (auto simp: reward_member reward_stranger)

lemma reward_receivers: "bd_address ` set (reward base b vs) \<subseteq> v_address ` set vs"
  by (cases "hd_miner (blk_header b) \<in> v_address ` set vs") (auto simp: reward_member reward_stranger)

end

section \<open>Seeds\<close>

definition seed_counts :: "('x) crypto_scheme \<Rightarrow> validator list \<Rightarrow> randao_seed \<Rightarrow> bool" where
  "seed_counts C vs s \<longleftrightarrow> list_ex (\<lambda>v. v_address v = rs_address s) vs
     \<and> verify_by_address C (rs_seed s) (rs_signature s) (rs_address s) = Some True"

definition seed_panics :: "('x) crypto_scheme \<Rightarrow> validator list \<Rightarrow> randao_seed \<Rightarrow> bool" where
  "seed_panics C vs s \<longleftrightarrow> list_ex (\<lambda>v. v_address v = rs_address s) vs
     \<and> verify_by_address C (rs_seed s) (rs_signature s) (rs_address s) = None"

lemma combine_seeds_from_eq:
  "combine_seeds_from C vs r ss =
     (if list_ex (seed_panics C vs) ss then None
      else Some (foldl xor_bytes r (map rs_seed (filter (seed_counts C vs) ss))))"
  by (induction ss arbitrary: r) (auto simp: seed_panics_def seed_counts_def split: option.splits bool.splits)

lemma xor_bytes_commute: "xor_bytes (xor_bytes r a) b = xor_bytes (xor_bytes r b) a"
proof (rule nth_equalityI)
  show "length (xor_bytes (xor_bytes r a) b) = length (xor_bytes (xor_bytes r b) a)"
    by (simp add: xor_bytes_def)
qed (simp add: xor_bytes_def ac_simps)

lemma foldl_xor_perm: "mset xs = mset ys \<Longrightarrow> foldl xor_bytes r xs = foldl xor_bytes r ys"
  unfolding foldl_conv_fold
  by (rule fun_cong [OF fold_multiset_equiv]) (auto simp: fun_eq_iff xor_bytes_commute)

text \<open>
  The combined seed depends only on which valid seeds were received.  Reordering the
  received seeds, and adding or dropping seeds that are not from a validator or not
  correctly signed, leaves it unchanged.
\<close>

theorem combined_seed_depends_on_valid_seeds:
  assumes "mset (filter (seed_counts C vs) ss) = mset (filter (seed_counts C vs) ss')"
    and "\<not> list_ex (seed_panics C vs) ss" and "\<not> list_ex (seed_panics C vs) ss'"
  shows "combine_seed C vs ss = combine_seed C vs ss'"
proof -
  have "mset (map rs_seed (filter (seed_counts C vs) ss))
      = mset (map rs_seed (filter (seed_counts C vs) ss'))"
    unfolding mset_map assms(1) ..
  from foldl_xor_perm [OF this, of "replicate 32 0"] assms(2,3) show ?thesis
    by (simp add: combine_seed_def combine_seeds_from_eq)
qed

lemma combined_seed_depends_on_valid_seeds_witness:
  "let s = (\<lambda>n. randao_seed_new sample_env (replicate 32 n) (sample_wallet n));
       vs = map (\<lambda>n. \<lparr>v_address = w_address (sample_wallet n), v_stake = 1, v_hash_power = 1\<rparr>) [1, 2]
   in combine_seed sample_env vs [s 1, s 2, s 3] = combine_seed sample_env vs [s 2, s 1]"
proof -
  let ?s = "\<lambda>n. randao_seed_new sample_env (replicate 32 n) (sample_wallet n)"
  let ?vs = "map (\<lambda>n. \<lparr>v_address = w_address (sample_wallet n), v_stake = 1, v_hash_power = 1\<rparr>) [1, 2]"
  have ver: "verify_by_address sample_env (rs_seed (?s n)) (rs_signature (?s n)) (rs_address (?s n))
      = Some True" for n
    by (simp add: randao_seed_new_def verify_by_address_sign sample_laws sample_wallet_wf)
  have "combine_seed sample_env ?vs [?s 1, ?s 2, ?s 3] = combine_seed sample_env ?vs [?s 2, ?s 1]"
    by (rule combined_seed_depends_on_valid_seeds)
      (simp_all add: seed_counts_def seed_panics_def ver, simp_all add: randao_seed_new_def
        sample_address_inj)
  then show ?thesis by (simp add: Let_def)
qed

end
