(* ===== verification/Node_State.thy ===== *)
theory Node_State
  imports Consensus_Base "HOL-Library.Product_Lexorder"
begin

text \<open>
  \<^verbatim>\<open>src/src/network/message.rs\<close> and \<^verbatim>\<open>src/src/network/node.rs\<close>: the messages of the
  simulated network and the node that handles them.  A node keeps its own chain and a
  mempool of relayed transactions; it produces blocks, relays transactions hop by hop,
  follows slots, goes offline and synchronises its chain with others.

  A handler takes the node and a message and returns the node and the messages it sends,
  each with its destination; delivery is the business of the network.  The random numbers
  of the node's generator (rand) are a field of the environment, the clock and the fresh
  RANDAO seed are arguments.  The flag that schedules outages is owned by the world state
  and may change while a handler runs, so a handler receives the sequence of values it
  reads.  Logging is not modelled.
\<close>

section \<open>Messages\<close>

record slot_manager =
  sm_randao_seeds :: "randao_seed list"
  sm_slot_duration :: nat
  sm_current_epoch :: nat
  sm_current_slot :: nat
  sm_next_seed :: bytes
  sm_start_timestamp :: nat

datatype message =
    SendBlock block address
  | SendTransactionPaths transaction_paths address
  | GenerateBlock
  | GenerateTransactionPaths address
  | SendRandaoSeed
  | ReceiveRandaoSeed randao_seed
  | BecomeValidator "(address, real) hash_map"
  | ReceiveBecomeValidator validator
  | UpdateSlot slot_manager
  | PrintBlockchain
  | RequestBlockSync nat address
  | ResponseBlockSync "block list" address
  | UpdateValidatorStake address real
  | UpdateAccountBalance address real
  | UpdateNodeBalance real
  | BlockProductionFailed nat nat string

datatype destination = ToNode address | ToWorld

type_synonym outbox = "(destination \<times> message) list"

section \<open>Nodes\<close>

datatype relay_profile = Active | Normal | Lazy | Mixed

datatype node_type = Honest | Selfish | Sybil | Unstable

record neighbor =
  nb_index :: nat
  nb_address :: address

text \<open>What a Sybil node uses of the nodes it controls.\<close>

record sybil_identity =
  sy_index :: nat
  sy_wallet :: wallet
  sy_hash_power :: real

record 'g node =
  nd_index :: nat
  nd_epoch :: nat
  nd_slot :: nat
  nd_wallet :: wallet
  nd_blockchain :: blockchain
  nd_neighbors :: "neighbor list"
  nd_cache :: "(string, transaction_paths) hash_map"
  nd_type :: node_type
  nd_sybils :: "sybil_identity list"
  nd_is_online :: bool
  nd_scheduled_last :: bool
  nd_offline_until :: "nat option"
  nd_offline_probability :: real
  nd_sync_in_progress :: bool
  nd_transaction_fee :: real
  nd_balance :: real
  nd_max_tx_per_block :: nat
  nd_max_mempool_size :: nat
  nd_hash_power :: real
  nd_delay :: nat
  nd_relay_profile :: relay_profile
  nd_forward_attempts :: nat
  nd_rng :: 'g

text \<open>The library functions a node adds to those of a block: the biased coin and the metadata text.\<close>

record 'g node_env = block_env +
  draw_bool :: "'g \<Rightarrow> real \<Rightarrow> bool \<times> 'g"
  tx_metadata :: "nat \<Rightarrow> nat \<Rightarrow> bytes"

text \<open>\<open>gen_bool\<close> panics on a probability outside the unit interval.\<close>

definition gen_bool :: "('g, 'x) node_env_scheme \<Rightarrow> 'g \<Rightarrow> real \<Rightarrow> (bool \<times> 'g) run" where
  "gen_bool C g p = (if 0 \<le> p \<and> p \<le> 1 then Some (draw_bool C g p) else None)"

definition node_with_wallet ::
  "nat \<Rightarrow> nat \<Rightarrow> nat \<Rightarrow> blockchain \<Rightarrow> wallet \<Rightarrow> nat \<Rightarrow> 'g \<Rightarrow> 'g node" where
  "node_with_wallet index epoch slot bc w max_tx g =
     \<lparr>nd_index = index, nd_epoch = epoch, nd_slot = slot, nd_wallet = w, nd_blockchain = bc,
      nd_neighbors = [], nd_cache = [], nd_type = Honest, nd_sybils = [], nd_is_online = True,
      nd_scheduled_last = True, nd_offline_until = None, nd_offline_probability = 1 / 10,
      nd_sync_in_progress = False, nd_transaction_fee = 0, nd_balance = 0,
      nd_max_tx_per_block = max_tx, nd_max_mempool_size = max_tx, nd_hash_power = 1,
      nd_delay = 50, nd_relay_profile = Normal, nd_forward_attempts = 0, nd_rng = g\<rparr>"

definition node_wallet ::
  "('x) crypto_scheme \<Rightarrow> bytes \<Rightarrow> nat \<Rightarrow> nat \<Rightarrow> bls_registry \<Rightarrow> (wallet \<times> bls_registry) run" where
  "node_wallet C fresh_key wallet_seed index reg =
     (if wallet_seed = 0 then wallet_new C fresh_key reg
      else new_deterministic C wallet_seed index reg)"

definition node_new ::
  "('x) crypto_scheme \<Rightarrow> bytes \<Rightarrow> nat \<Rightarrow> nat \<Rightarrow> nat \<Rightarrow> blockchain \<Rightarrow> nat \<Rightarrow> nat \<Rightarrow> 'g \<Rightarrow> bls_registry
    \<Rightarrow> ('g node \<times> bls_registry) run" where
  "node_new C fresh_key index epoch slot bc max_tx wallet_seed g reg =
     map_option (\<lambda>(w, reg'). (node_with_wallet index epoch slot bc w max_tx g, reg'))
       (node_wallet C fresh_key wallet_seed index reg)"

text \<open>
  The identities of a Sybil node are numbered from \<open>index * 1000\<close>; the arithmetic is on 32
  bits and panics when it overflows in a checked build.
\<close>

fun sybil_identities ::
  "('x) crypto_scheme \<Rightarrow> (nat \<Rightarrow> bytes) \<Rightarrow> nat \<Rightarrow> nat \<Rightarrow> nat \<Rightarrow> nat \<Rightarrow> bls_registry
    \<Rightarrow> (sybil_identity list \<times> bls_registry) run" where
  "sybil_identities C fresh_key index wallet_seed i 0 reg = Some ([], reg)"
| "sybil_identities C fresh_key index wallet_seed i (Suc n) reg =
     (if 2 ^ 32 \<le> index * 1000 + i then None
      else case node_wallet C (fresh_key i) wallet_seed (index * 1000 + i) reg of
        None \<Rightarrow> None
      | Some (w, reg') \<Rightarrow>
          map_option (\<lambda>(ss, reg''). (\<lparr>sy_index = index * 1000 + i, sy_wallet = w, sy_hash_power = 1\<rparr> # ss, reg''))
            (sybil_identities C fresh_key index wallet_seed (i + 1) n reg'))"

definition new_with_sybil_nodes ::
  "('x) crypto_scheme \<Rightarrow> bytes \<Rightarrow> (nat \<Rightarrow> bytes) \<Rightarrow> nat \<Rightarrow> nat \<Rightarrow> nat \<Rightarrow> blockchain \<Rightarrow> nat \<Rightarrow> nat \<Rightarrow> nat
    \<Rightarrow> 'g \<Rightarrow> bls_registry \<Rightarrow> ('g node \<times> bls_registry) run" where
  "new_with_sybil_nodes C fresh_key sybil_key index epoch slot bc fake_node_num max_tx wallet_seed g reg =
     (case sybil_identities C sybil_key index wallet_seed 0 fake_node_num reg of
        None \<Rightarrow> None
      | Some (ss, reg') \<Rightarrow>
          map_option (\<lambda>(w, reg''). ((node_with_wallet index epoch slot bc w max_tx g)
              \<lparr>nd_type := Sybil, nd_sybils := ss\<rparr>, reg''))
            (node_wallet C fresh_key wallet_seed index reg'))"

definition clamp_unit :: "real \<Rightarrow> real" where
  "clamp_unit p = (if p < 0 then 0 else if 1 < p then 1 else p)"

definition set_node_type :: "'g node \<Rightarrow> node_type \<Rightarrow> 'g node" where
  "set_node_type nd t = nd\<lparr>nd_type := t\<rparr>"

definition set_offline_probability :: "'g node \<Rightarrow> real \<Rightarrow> 'g node" where
  "set_offline_probability nd p = nd\<lparr>nd_offline_probability := clamp_unit p\<rparr>"

definition set_hash_power :: "'g node \<Rightarrow> real \<Rightarrow> 'g node" where
  "set_hash_power nd x = nd\<lparr>nd_hash_power := x\<rparr>"

text \<open>
  The delay, the relay profile and the generator of an identity of a Sybil node are set
  with those of the node, but only the node's own are ever read.
\<close>

definition set_tx_propagation_delay :: "'g node \<Rightarrow> nat \<Rightarrow> 'g node" where
  "set_tx_propagation_delay nd d = nd\<lparr>nd_delay := d\<rparr>"

definition set_relay_profile :: "'g node \<Rightarrow> relay_profile \<Rightarrow> 'g node" where
  "set_relay_profile nd profile = nd\<lparr>nd_relay_profile := profile\<rparr>"

definition set_failure_seed :: "(64 word \<Rightarrow> 'g) \<Rightarrow> 'g node \<Rightarrow> 64 word \<Rightarrow> 'g node" where
  "set_failure_seed seed_from_u64 nd seed =
     nd\<lparr>nd_rng := seed_from_u64 (xor seed (push_bit 32 (of_nat (nd_index nd))))\<rparr>"

definition set_transaction_fee :: "'g node \<Rightarrow> real \<Rightarrow> 'g node" where
  "set_transaction_fee nd fee = nd\<lparr>nd_transaction_fee := fee\<rparr>"

definition set_balance :: "'g node \<Rightarrow> real \<Rightarrow> 'g node" where
  [simp]: "set_balance nd x = nd\<lparr>nd_balance := x\<rparr>"

definition get_address :: "'g node \<Rightarrow> address" where
  "get_address nd = w_address (nd_wallet nd)"

definition deduct_balance :: "'g node \<Rightarrow> real \<Rightarrow> bool \<times> 'g node" where
  "deduct_balance nd amount =
     (if amount \<le> nd_balance nd then (True, nd\<lparr>nd_balance := nd_balance nd - amount\<rparr>) else (False, nd))"

fun relay_forward_probability :: "relay_profile \<Rightarrow> real" where
  "relay_forward_probability Active = 1"
| "relay_forward_probability Normal = 3 / 4"
| "relay_forward_probability Mixed = 3 / 4"
| "relay_forward_probability Lazy = 1 / 4"

definition should_forward_relay_path ::
  "('g, 'x) node_env_scheme \<Rightarrow> relay_profile \<Rightarrow> 'g \<Rightarrow> (bool \<times> 'g) run" where
  "should_forward_relay_path C profile g = gen_bool C g (relay_forward_probability profile)"

section \<open>Producing blocks\<close>

text \<open>Highest fee first, then earliest creation; the sort is stable.\<close>

definition pack_order :: "transaction_paths \<Rightarrow> real \<times> nat" where
  "pack_order p = (- tx_fee (tp_transaction p), tx_timestamp (tp_transaction p))"

definition eligible_paths ::
  "blockchain \<Rightarrow> (string, transaction_paths) hash_map \<Rightarrow> transaction_paths list" where
  "eligible_paths bc cache =
     filter (\<lambda>p. \<not> exist_transaction bc (tx_hash (tp_transaction p))) (hm_values cache)"

definition paths_to_pack ::
  "blockchain \<Rightarrow> (string, transaction_paths) hash_map \<Rightarrow> nat \<Rightarrow> transaction_paths list" where
  "paths_to_pack bc cache max_tx = take max_tx (sort_key pack_order (eligible_paths bc cache))"

definition remove_hashes ::
  "string list \<Rightarrow> (string, transaction_paths) hash_map \<Rightarrow> (string, transaction_paths) hash_map" where
  "remove_hashes hs cache = foldl (\<lambda>m h. hm_remove h m) cache hs"

definition generate_block ::
  "('x) block_env_scheme \<Rightarrow> bls_registry \<Rightarrow> nat \<Rightarrow> 'g node \<Rightarrow> nat \<Rightarrow> nat
    \<Rightarrow> ((block_error + block) \<times> 'g node) run" where
  "generate_block C reg now nd epoch slot =
     (let to_pack = paths_to_pack (nd_blockchain nd) (nd_cache nd) (nd_max_tx_per_block nd);
          nd' = nd\<lparr>nd_cache := remove_hashes (map (\<lambda>p. tx_hash (tp_transaction p)) to_pack) (nd_cache nd)\<rparr>
      in case those (map (from_transaction_paths C reg) to_pack) of
           None \<Rightarrow> None
         | Some paths \<Rightarrow>
             (case (get_last_index (nd_blockchain nd), get_last_hash (nd_blockchain nd)) of
                (Some last_index, Some last_hash) \<Rightarrow>
                  (case block_new C now (last_index + 1) epoch slot last_hash
                          \<lparr>body_transactions = map tp_transaction to_pack, body_paths = paths\<rparr>
                          (nd_wallet nd) of
                     None \<Rightarrow> None
                   | Some (Inl e) \<Rightarrow> Some (Inl e, nd')
                   | Some (Inr b) \<Rightarrow>
                       (case add_block C (nd_blockchain nd) b of
                          None \<Rightarrow> None
                        | Some (Inl e) \<Rightarrow> Some (Inl InvalidBlock, nd')
                        | Some (Inr bc') \<Rightarrow> Some (Inr b, nd'\<lparr>nd_blockchain := bc'\<rparr>)))
              | _ \<Rightarrow> None))"

definition to_neighbors :: "'g node \<Rightarrow> message \<Rightarrow> outbox" where
  "to_neighbors nd m = map (\<lambda>n. (ToNode (nb_address n), m)) (nd_neighbors nd)"

text \<open>
  The report of the block rate subtracts the time of the previous block, and panics in a
  checked build when the clock went back.
\<close>

definition on_generate_block ::
  "('x) block_env_scheme \<Rightarrow> bls_registry \<Rightarrow> nat \<Rightarrow> 'g node \<Rightarrow> ('g node \<times> outbox) run" where
  "on_generate_block C reg now nd =
     (if nd_sync_in_progress nd then Some (nd, [])
      else case get_last_block (nd_blockchain nd) of
        None \<Rightarrow> None
      | Some last_block \<Rightarrow>
          (case generate_block C reg now nd (nd_epoch nd) (nd_slot nd) of
             None \<Rightarrow> None
           | Some (Inl e, nd') \<Rightarrow> Some (nd', [])
           | Some (Inr b, nd') \<Rightarrow>
               if hd_timestamp (blk_header b) < hd_timestamp (blk_header last_block) then None
               else Some (nd', to_neighbors nd' (SendBlock b (get_address nd'))
                                 @ [(ToWorld, SendBlock b (get_address nd'))])))"

section \<open>Receiving blocks\<close>

definition on_send_block ::
  "('x) block_env_scheme \<Rightarrow> 'g node \<Rightarrow> block \<Rightarrow> address \<Rightarrow> ('g node \<times> outbox) run" where
  "on_send_block C nd b from =
     (case add_block C (nd_blockchain nd) b of
        None \<Rightarrow> None
      | Some (Inl ParentHashMismatch) \<Rightarrow>
          (case get_last_index (nd_blockchain nd) of
             None \<Rightarrow> None
           | Some last_index \<Rightarrow>
               if nd_sync_in_progress nd then Some (nd, [])
               else Some (nd\<lparr>nd_sync_in_progress := True\<rparr>,
                          [(ToWorld, RequestBlockSync last_index (get_address nd))]))
      | Some (Inl e) \<Rightarrow> Some (nd, [])
      | Some (Inr bc') \<Rightarrow>
          Some (nd\<lparr>nd_blockchain := bc',
                   nd_cache := remove_hashes (map tx_hash (block_txs b)) (nd_cache nd)\<rparr>,
                map (\<lambda>n. (ToNode (nb_address n), SendBlock b (get_address nd)))
                  (filter (\<lambda>n. from \<noteq> nb_address n) (nd_neighbors nd))))"

section \<open>Relaying transactions\<close>

text \<open>The hops a Sybil node invents between its own identities.\<close>

fun forge_hops ::
  "('x) tx_env_scheme \<Rightarrow> bls_registry \<Rightarrow> path_caches \<Rightarrow> transaction_paths \<Rightarrow> wallet
    \<Rightarrow> sybil_identity list \<Rightarrow> (transaction_paths \<times> wallet \<times> path_caches) run" where
  "forge_hops C reg K tp w [] = Some (tp, w, K)"
| "forge_hops C reg K tp w (s # ss) =
     (case append_outgoing_hop C tp (w_address (sy_wallet s)) w of
        (False, tp') \<Rightarrow> forge_hops C reg K tp' w ss
      | (True, tp') \<Rightarrow>
          (case complete_pending_hop C reg K tp' (sy_wallet s) of
             None \<Rightarrow> None
           | Some (done_ok, tp'', K') \<Rightarrow>
               forge_hops C reg K' tp'' (if done_ok then sy_wallet s else w) ss))"

text \<open>The plain fan-out: one new hop for each neighbour for which it can be appended.\<close>

definition send_paths ::
  "('x) crypto_scheme \<Rightarrow> transaction_paths \<Rightarrow> wallet \<Rightarrow> address \<Rightarrow> neighbor list \<Rightarrow> outbox" where
  "send_paths C tp w self_address ns =
     concat (map (\<lambda>n. case append_outgoing_hop C tp (nb_address n) w of
         (False, _) \<Rightarrow> []
       | (True, tp') \<Rightarrow> [(ToNode (nb_address n), SendTransactionPaths tp' self_address)]) ns)"

text \<open>The fan-out of a relaying node; \<open>online i\<close> is the availability read before neighbour \<open>i\<close>.\<close>

fun relay_paths ::
  "('g, 'x) node_env_scheme \<Rightarrow> relay_profile \<Rightarrow> transaction_paths \<Rightarrow> wallet \<Rightarrow> address \<Rightarrow> (nat \<Rightarrow> bool)
    \<Rightarrow> nat \<Rightarrow> neighbor list \<Rightarrow> 'g \<Rightarrow> nat \<Rightarrow> ('g \<times> nat \<times> outbox) run" where
  "relay_paths C profile tp w from online i [] g attempts = Some (g, attempts, [])"
| "relay_paths C profile tp w from online i (n # ns) g attempts =
     (if \<not> online i then Some (g, attempts, [])
      else if from = nb_address n then relay_paths C profile tp w from online (i + 1) ns g attempts
      else case should_forward_relay_path C profile g of
        None \<Rightarrow> None
      | Some (False, g') \<Rightarrow> relay_paths C profile tp w from online (i + 1) ns g' attempts
      | Some (True, g') \<Rightarrow>
          (case append_outgoing_hop C tp (nb_address n) w of
             (False, _) \<Rightarrow> relay_paths C profile tp w from online (i + 1) ns g' attempts
           | (True, tp') \<Rightarrow>
               map_option (\<lambda>(g'', a, out).
                   (g'', a, (ToNode (nb_address n), SendTransactionPaths tp' (w_address w)) # out))
                 (relay_paths C profile tp w from online (i + 1) ns g' (attempts + 1))))"

definition relay_onward ::
  "('g, 'x) node_env_scheme \<Rightarrow> 'g node \<Rightarrow> transaction_paths \<Rightarrow> address \<Rightarrow> (nat \<Rightarrow> bool) \<Rightarrow> 'g
    \<Rightarrow> ('g node \<times> outbox) run" where
  "relay_onward C nd tp from online g =
     map_option (\<lambda>(g', a, out). (nd\<lparr>nd_rng := g', nd_forward_attempts := a\<rparr>, out))
       (relay_paths C (nd_relay_profile nd) tp (nd_wallet nd) from online 0 (nd_neighbors nd) g
         (nd_forward_attempts nd))"

definition forward_cached ::
  "('g, 'x) node_env_scheme \<Rightarrow> bls_registry \<Rightarrow> (nat \<Rightarrow> bool) \<Rightarrow> path_caches \<Rightarrow> 'g node
    \<Rightarrow> transaction_paths \<Rightarrow> address \<Rightarrow> (path_caches \<times> 'g node \<times> outbox) run" where
  "forward_cached C reg online K nd tp from =
     (case nd_type nd of
        Selfish \<Rightarrow>
          (case gen_bool C (nd_rng nd) (1 / 2) of
             None \<Rightarrow> None
           | Some (True, g) \<Rightarrow> Some (K, nd\<lparr>nd_rng := g\<rparr>, [])
           | Some (False, g) \<Rightarrow> map_option (Pair K) (relay_onward C nd tp from online g))
      | Sybil \<Rightarrow>
          (case forge_hops C reg K tp (nd_wallet nd) (nd_sybils nd) of
             None \<Rightarrow> None
           | Some (fake, w, K') \<Rightarrow>
               Some (K', nd, send_paths C fake w (get_address nd)
                 (filter (\<lambda>n. from \<noteq> nb_address n) (nd_neighbors nd))))
      | _ \<Rightarrow> map_option (Pair K) (relay_onward C nd tp from online (nd_rng nd)))"

definition on_send_transaction_paths ::
  "('g, 'x) node_env_scheme \<Rightarrow> bls_registry \<Rightarrow> (nat \<Rightarrow> bool) \<Rightarrow> path_caches \<Rightarrow> 'g node
    \<Rightarrow> transaction_paths \<Rightarrow> address \<Rightarrow> (path_caches \<times> 'g node \<times> outbox) run" where
  "on_send_transaction_paths C reg online K nd tp from =
     (let h = tx_hash (tp_transaction tp) in
      if exist_transaction (nd_blockchain nd) h then Some (K, nd, [])
      else if map_of (nd_cache nd) h \<noteq> None then Some (K, nd, [])
      else case complete_pending_hop C reg K tp (nd_wallet nd) of
        None \<Rightarrow> None
      | Some (False, tp', K') \<Rightarrow> Some (K', nd, [])
      | Some (True, tp', K') \<Rightarrow>
          forward_cached C reg online K'
            (nd\<lparr>nd_cache := hm_insert (tx_hash (tp_transaction tp')) tp' (nd_cache nd)\<rparr>) tp' from)"

definition node_transaction :: "('g, 'x) node_env_scheme \<Rightarrow> nat \<Rightarrow> 'g node \<Rightarrow> address \<Rightarrow> transaction" where
  "node_transaction C now nd to =
     (with_fee C now to 0 (nd_transaction_fee nd) (nd_wallet nd))
       \<lparr>tx_data := tx_metadata C (nd_epoch nd) (nd_slot nd)\<rparr>"

definition announce_cached ::
  "('x) tx_env_scheme \<Rightarrow> bls_registry \<Rightarrow> path_caches \<Rightarrow> 'g node \<Rightarrow> transaction_paths
    \<Rightarrow> (path_caches \<times> outbox) run" where
  "announce_cached C reg K nd tp =
     (case nd_type nd of
        Sybil \<Rightarrow>
          map_option (\<lambda>(fake, w, K'). (K', send_paths C fake w (get_address nd) (nd_neighbors nd)))
            (forge_hops C reg K tp (nd_wallet nd) (nd_sybils nd))
      | _ \<Rightarrow> Some (K, send_paths C tp (nd_wallet nd) (get_address nd) (nd_neighbors nd)))"

text \<open>
  A new transaction costs twice its fee; the new balance is announced to the world state
  before the mempool decides whether to keep the transaction.
\<close>

definition on_generate_transaction_paths ::
  "('g, 'x) node_env_scheme \<Rightarrow> bls_registry \<Rightarrow> nat \<Rightarrow> path_caches \<Rightarrow> 'g node \<Rightarrow> address
    \<Rightarrow> (path_caches \<times> 'g node \<times> outbox) run" where
  "on_generate_transaction_paths C reg now K nd to =
     (case deduct_balance nd (2 * nd_transaction_fee nd) of
        (False, nd') \<Rightarrow> Some (K, nd', [])
      | (True, nd') \<Rightarrow>
          let told = (ToWorld, UpdateAccountBalance (get_address nd') (nd_balance nd'));
              t = node_transaction C now nd' to;
              tp = new_with_epoch t (nd_epoch nd')
          in if nd_max_mempool_size nd' \<le> length (nd_cache nd') \<and> map_of (nd_cache nd') (tx_hash t) = None
             then Some (K, nd', [told])
             else let nd'' = nd'\<lparr>nd_cache := hm_insert (tx_hash t) tp (nd_cache nd')\<rparr> in
               map_option (\<lambda>(K', out). (K', nd'', told # out)) (announce_cached C reg K nd'' tp))"

section \<open>Randomness, stake and slots\<close>

definition on_send_randao_seed :: "('x) crypto_scheme \<Rightarrow> bytes \<Rightarrow> 'g node \<Rightarrow> 'g node \<times> outbox" where
  "on_send_randao_seed C seed nd =
     (nd, [(ToWorld, ReceiveRandaoSeed (randao_seed_new C seed (nd_wallet nd)))])"

definition announce_validator :: "address \<Rightarrow> real \<Rightarrow> real \<Rightarrow> destination \<times> message" where
  "announce_validator a stake hp =
     (ToWorld, ReceiveBecomeValidator \<lparr>v_address = a, v_stake = stake, v_hash_power = hp\<rparr>)"

definition on_become_validator :: "'g node \<Rightarrow> (address, real) hash_map \<Rightarrow> 'g node \<times> outbox" where
  "on_become_validator nd stake_map =
     (let my_stake = hm_get_or (nd_balance nd) stake_map (get_address nd);
          nd' = set_balance nd my_stake
      in case nd_type nd of
           Sybil \<Rightarrow>
             let stake = my_stake / real (length (nd_sybils nd) + 1) in
             (nd', announce_validator (get_address nd) stake (nd_hash_power nd)
                # map (\<lambda>s. announce_validator (w_address (sy_wallet s)) stake (sy_hash_power s))
                    (nd_sybils nd))
         | _ \<Rightarrow> (nd', [announce_validator (get_address nd) my_stake (nd_hash_power nd)]))"

text \<open>
  The request sent after an outage names the number of blocks in memory less one; the
  subtraction panics on an empty chain in a checked build.
\<close>

definition recovery_requests :: "'g node \<Rightarrow> outbox run" where
  "recovery_requests nd =
     (if blocks (nd_blockchain nd) = [] then None
      else Some (to_neighbors nd
        (RequestBlockSync (length (blocks (nd_blockchain nd)) - 1) (get_address nd))))"

definition recover_unstable :: "'g node \<Rightarrow> ('g node \<times> outbox) run" where
  "recover_unstable nd =
     (case nd_offline_until nd of
        Some until \<Rightarrow>
          if \<not> nd_is_online nd \<and> until \<le> nd_epoch nd then
            map_option (Pair (nd\<lparr>nd_is_online := True, nd_offline_until := None\<rparr>)) (recovery_requests nd)
          else Some (nd, [])
      | None \<Rightarrow> Some (nd, []))"

definition maybe_go_offline :: "('g, 'x) node_env_scheme \<Rightarrow> nat \<Rightarrow> 'g node \<Rightarrow> 'g node run" where
  "maybe_go_offline C old_epoch nd =
     (if nd_is_online nd \<and> nd_epoch nd \<noteq> old_epoch \<and> nd_offline_until nd = None then
        map_option (\<lambda>(b, g). if b
            then nd\<lparr>nd_rng := g, nd_is_online := False, nd_offline_until := Some (nd_epoch nd + 1)\<rparr>
            else nd\<lparr>nd_rng := g\<rparr>)
          (gen_bool C (nd_rng nd) (nd_offline_probability nd))
      else Some nd)"

definition on_update_slot ::
  "('g, 'x) node_env_scheme \<Rightarrow> bool \<Rightarrow> 'g node \<Rightarrow> slot_manager \<Rightarrow> ('g node \<times> outbox) run" where
  "on_update_slot C scheduled_online nd sm =
     (let nd' = nd\<lparr>nd_slot := sm_current_slot sm, nd_epoch := sm_current_epoch sm\<rparr> in
      case (if scheduled_online \<and> \<not> nd_scheduled_last nd' then recovery_requests nd' else Some []) of
        None \<Rightarrow> None
      | Some out \<Rightarrow>
          let nd'' = nd'\<lparr>nd_scheduled_last := scheduled_online\<rparr> in
          if nd_type nd'' \<noteq> Unstable then Some (nd'', out)
          else case recover_unstable nd'' of
            None \<Rightarrow> None
          | Some (nd3, out') \<Rightarrow>
              map_option (\<lambda>nd4. (nd4, out @ out')) (maybe_go_offline C (nd_epoch nd) nd3))"

section \<open>Synchronising chains\<close>

definition snapshot_chain :: "blockchain \<Rightarrow> block list \<Rightarrow> blockchain" where
  "snapshot_chain bc bs = bc\<lparr>blocks := bs, transaction_index := \<Union> (set (map tx_hashes bs))\<rparr>"

definition all_hashes :: "block list \<Rightarrow> string list" where
  "all_hashes bs = concat (map (\<lambda>b. map tx_hash (block_txs b)) bs)"

definition replace_local_chain_with_snapshot :: "'g node \<Rightarrow> block list \<Rightarrow> 'g node" where
  "replace_local_chain_with_snapshot nd bs =
     nd\<lparr>nd_blockchain := snapshot_chain (nd_blockchain nd) bs,
        nd_cache := remove_hashes (all_hashes bs) (nd_cache nd),
        nd_sync_in_progress := False\<rparr>"

definition blocks_since :: "blockchain \<Rightarrow> nat \<Rightarrow> block list" where
  "blocks_since bc requested =
     (case blocks bc of
        [] \<Rightarrow> []
      | b # _ \<Rightarrow>
          if hd_index (blk_header b) \<le> requested
          then drop (requested - hd_index (blk_header b)) (blocks bc)
          else blocks bc)"

definition on_request_block_sync :: "'g node \<Rightarrow> nat \<Rightarrow> address \<Rightarrow> 'g node \<times> outbox" where
  "on_request_block_sync nd requested from =
     (if nd_sync_in_progress nd then (nd, [])
      else if from = ''world_state'' then
        (nd, [(ToWorld, ResponseBlockSync (blocks (nd_blockchain nd)) (get_address nd))])
      else let bs = blocks_since (nd_blockchain nd) requested in
        if bs = [] \<or> from = '''' then (nd, [])
        else case List.find (\<lambda>n. nb_address n = from) (nd_neighbors nd) of
          None \<Rightarrow> (nd, [])
        | Some n \<Rightarrow> (nd, [(ToNode (nb_address n), ResponseBlockSync bs (get_address nd))]))"

text \<open>
  The first position at which the received blocks leave the local chain: a block with a
  known index and another hash, or a block beyond the local chain.
\<close>

datatype fork_point = NoFork | Diverged nat nat | AppendFrom nat

fun find_fork :: "block list \<Rightarrow> nat \<Rightarrow> nat \<Rightarrow> block list \<Rightarrow> fork_point" where
  "find_fork local current_index i [] = NoFork"
| "find_fork local current_index i (b # bs) =
     (case List.find (\<lambda>l. hd_index (blk_header l) = hd_index (blk_header b)) local of
        Some l \<Rightarrow>
          if hd_hash (blk_header l) \<noteq> hd_hash (blk_header b) then Diverged i (hd_index (blk_header b))
          else find_fork local current_index (i + 1) bs
      | None \<Rightarrow>
          if current_index < hd_index (blk_header b) then AppendFrom i
          else find_fork local current_index (i + 1) bs)"

text \<open>
  Dropping the local blocks from an index on.  An index before the first local block, or
  one whose distance from it exceeds the number of blocks, panics.
\<close>

definition truncate_from :: "blockchain \<Rightarrow> nat \<Rightarrow> blockchain run" where
  "truncate_from bc index =
     (let local_start = (case blocks bc of [] \<Rightarrow> 0 | b # _ \<Rightarrow> hd_index (blk_header b)) in
      if index < local_start \<or> length (blocks bc) < index - local_start then None
      else let k = index - local_start in
        Some (bc\<lparr>blocks := take k (blocks bc),
                 transaction_index := transaction_index bc - set (all_hashes (drop k (blocks bc)))\<rparr>))"

fun append_synced ::
  "('x) block_env_scheme \<Rightarrow> blockchain \<Rightarrow> block list \<Rightarrow> (blockchain \<times> block list) run" where
  "append_synced C bc [] = Some (bc, [])"
| "append_synced C bc (b # bs) =
     (case add_block C bc b of
        None \<Rightarrow> None
      | Some (Inl e) \<Rightarrow> Some (bc, [])
      | Some (Inr bc') \<Rightarrow> map_option (\<lambda>(bc'', acc). (bc'', b # acc)) (append_synced C bc' bs))"

definition resolve_fork ::
  "('x) block_env_scheme \<Rightarrow> blockchain \<Rightarrow> nat \<Rightarrow> block list \<Rightarrow> (blockchain \<times> block list) run" where
  "resolve_fork C bc current_index bs =
     (case find_fork (blocks bc) current_index 0 bs of
        NoFork \<Rightarrow> Some (bc, [])
      | AppendFrom i \<Rightarrow> append_synced C bc (drop i bs)
      | Diverged i index \<Rightarrow>
          (case truncate_from bc index of
             None \<Rightarrow> None
           | Some bc' \<Rightarrow> append_synced C bc' (drop i bs)))"

text \<open>
  The closing report of a synchronisation asks for the last index of the chain and panics
  on an empty one; it is evaluated at the default log level.
\<close>

definition on_response_block_sync ::
  "('x) block_env_scheme \<Rightarrow> 'g node \<Rightarrow> block list \<Rightarrow> address \<Rightarrow> ('g node \<times> outbox) run" where
  "on_response_block_sync C nd bs from =
     (if bs = [] then Some (nd, [])
      else if from = ''world_state'' then Some (replace_local_chain_with_snapshot nd bs, [])
      else case get_last_index (nd_blockchain nd) of
        None \<Rightarrow> None
      | Some current_index \<Rightarrow>
          if hd_index (blk_header (last bs)) \<le> current_index then Some (nd, [])
          else if current_index + 1 < hd_index (blk_header (hd bs)) then
            Some (replace_local_chain_with_snapshot nd bs, [])
          else (case resolve_fork C (nd_blockchain nd) current_index bs of
              None \<Rightarrow> None
            | Some (bc', acc) \<Rightarrow>
                if blocks bc' = [] then None
                else Some (nd\<lparr>nd_blockchain := bc',
                     nd_cache := remove_hashes (all_hashes acc) (nd_cache nd),
                     nd_sync_in_progress := False\<rparr>, [])))"

section \<open>The message loop\<close>

text \<open>
  One turn of \<open>run\<close>.  The first read of the outage flag decides whether the message is
  handled at all; \<open>UpdateSlot\<close> always is.
\<close>

fun is_update_slot :: "message \<Rightarrow> bool" where
  "is_update_slot (UpdateSlot sm) = True"
| "is_update_slot _ = False"

definition node_handle ::
  "('g, 'x) node_env_scheme \<Rightarrow> bls_registry \<Rightarrow> nat \<Rightarrow> bytes \<Rightarrow> (nat \<Rightarrow> bool) \<Rightarrow> path_caches \<Rightarrow> 'g node
    \<Rightarrow> message \<Rightarrow> (path_caches \<times> 'g node \<times> outbox) run" where
  "node_handle C reg now seed online K nd m =
     (if (\<not> nd_is_online nd \<or> \<not> online 0) \<and> \<not> is_update_slot m then
        Some (K, nd, case m of
            GenerateBlock \<Rightarrow> [(ToWorld, BlockProductionFailed (nd_index nd) (nd_slot nd) ''node_offline'')]
          | _ \<Rightarrow> [])
      else case m of
        SendBlock b from \<Rightarrow> map_option (Pair K) (on_send_block C nd b from)
      | SendTransactionPaths tp from \<Rightarrow>
          on_send_transaction_paths C reg (\<lambda>i. online (i + 1)) K nd tp from
      | GenerateBlock \<Rightarrow> map_option (Pair K) (on_generate_block C reg now nd)
      | GenerateTransactionPaths to \<Rightarrow> on_generate_transaction_paths C reg now K nd to
      | SendRandaoSeed \<Rightarrow> Some (K, on_send_randao_seed C seed nd)
      | BecomeValidator stake_map \<Rightarrow> Some (K, on_become_validator nd stake_map)
      | UpdateNodeBalance x \<Rightarrow> Some (K, set_balance nd x, [])
      | UpdateSlot sm \<Rightarrow> map_option (Pair K) (on_update_slot C (online 1) nd sm)
      | RequestBlockSync i from \<Rightarrow> Some (K, on_request_block_sync nd i from)
      | ResponseBlockSync bs from \<Rightarrow> map_option (Pair K) (on_response_block_sync C nd bs from)
      | _ \<Rightarrow> Some (K, nd, []))"

end
