(* ===== verification/Topo_Formulas.thy ===== *)
theory Topo_Formulas
  imports Prelude
begin

text \<open>
  The closed formulas of \<^verbatim>\<open>src/src/consensus/topostake.rs\<close>: the depth parameters \<open>lambda\<close>
  and \<open>r\<close>, the path budget, the split of a budget over the relay positions, the credit
  weight of a transaction, the propagation bonus and the saturated contribution.  A 64-bit
  float is a \<^typ>\<open>real\<close>: the laws below are laws of the formulas, not of their rounding.
\<close>

section \<open>Definitions\<close>

definition lambda_for_depth :: "nat \<Rightarrow> real" where
  "lambda_for_depth depth = (2 * real depth + 1) / (3 * real depth + 1)"

definition r_for_depth :: "nat \<Rightarrow> real" where
  "r_for_depth depth = real depth / (2 * real depth + 1)"

definition path_budget_for_depth :: "nat \<Rightarrow> nat \<Rightarrow> real" where
  "path_budget_for_depth depth path_length =
     (if path_length < 2 then 0
      else min (real depth) (real path_length) / real path_length
             * lambda_for_depth depth ^ (path_length - 1))"

definition alpha_for_depth :: "nat \<Rightarrow> nat \<Rightarrow> nat \<Rightarrow> real" where
  "alpha_for_depth depth position path_length =
     (if path_length < 2 \<or> position = 0 \<or> path_length \<le> position then 0
      else (1 - r_for_depth depth) * r_for_depth depth ^ (position - 1)
             / (1 - r_for_depth depth ^ (path_length - 1)))"

definition gamma_for_depth :: "nat \<Rightarrow> nat \<Rightarrow> nat \<Rightarrow> real" where
  "gamma_for_depth depth position path_length =
     path_budget_for_depth depth path_length * alpha_for_depth depth position path_length"

definition transaction_credit_weight :: "real \<Rightarrow> real \<Rightarrow> real" where
  "transaction_credit_weight irrecoverable_cost reference_cost =
     (if irrecoverable_cost \<le> 0 \<or> reference_cost \<le> 0 then 0
      else min (irrecoverable_cost / reference_cost) 1)"

definition propagation_bonus :: "real \<Rightarrow> real \<Rightarrow> real \<Rightarrow> real" where
  "propagation_bonus score_to_stake bonus_cap zeta =
     (if score_to_stake \<le> 0 \<or> bonus_cap \<le> 0 \<or> zeta \<le> 0 then 0
      else bonus_cap * score_to_stake / (zeta + score_to_stake))"

definition saturated_contribution :: "real \<Rightarrow> real \<Rightarrow> real \<Rightarrow> real" where
  "saturated_contribution raw normalized_stake saturation_k =
     (if raw \<le> 0 \<or> normalized_stake \<le> 0 then 0
      else normalized_stake * ln (1 + raw / (saturation_k * normalized_stake)))"

section \<open>Depth parameters\<close>

lemma lambda_bounds [unit_interval]: "0 < lambda_for_depth d" "lambda_for_depth d \<le> 1"
  by (simp_all add: lambda_for_depth_def)

lemma lambda_less_one: "0 < d \<Longrightarrow> lambda_for_depth d < 1"
  by (simp add: lambda_for_depth_def)

lemma r_bounds [unit_interval]: "0 \<le> r_for_depth d" "r_for_depth d < 1"
  by (simp_all add: r_for_depth_def divide_less_eq)

lemma r_pos: "0 < d \<Longrightarrow> 0 < r_for_depth d"
  by (simp add: r_for_depth_def)

lemma lambda_r: "lambda_for_depth d * (1 + r_for_depth d) = 1"
proof -
  have "1 + r_for_depth d = (3 * real d + 1) / (2 * real d + 1)"
    by (simp add: r_for_depth_def add_divide_eq_iff)
  moreover have "2 * real d + 1 \<noteq> 0" and "3 * real d + 1 \<noteq> 0" by auto
  ultimately show ?thesis by (simp add: lambda_for_depth_def)
qed

lemma r_power_less_one: "0 < n \<Longrightarrow> r_for_depth d ^ n < 1"
  using r_bounds [of d] power_decreasing [of 1 n "r_for_depth d"] by auto

section \<open>Path budgets\<close>

lemma budget_nonneg [unit_interval]: "0 \<le> path_budget_for_depth d m"
  by (simp add: path_budget_for_depth_def less_imp_le [OF lambda_bounds(1)])

lemma budget_pos: "0 < d \<Longrightarrow> 2 \<le> m \<Longrightarrow> 0 < path_budget_for_depth d m"
  by (simp add: path_budget_for_depth_def lambda_bounds)

lemma budget_step:
  assumes "2 \<le> m"
  shows "path_budget_for_depth d (Suc m) \<le> lambda_for_depth d * path_budget_for_depth d m"
proof -
  have ratio: "min (real d) (real (Suc m)) / real (Suc m) \<le> min (real d) (real m) / real m"
    using assms by (cases "d \<le> m") (auto simp: min_def field_simps)
  have "path_budget_for_depth d (Suc m)
      = min (real d) (real (Suc m)) / real (Suc m) * lambda_for_depth d ^ m"
    using assms by (simp add: path_budget_for_depth_def)
  also have "\<dots> \<le> min (real d) (real m) / real m * lambda_for_depth d ^ m"
    by (rule mult_right_mono [OF ratio]) (simp add: less_imp_le [OF lambda_bounds(1)])
  also have "\<dots> = lambda_for_depth d * path_budget_for_depth d m"
    using assms by (simp add: path_budget_for_depth_def power_eq_if)
  finally show ?thesis .
qed

lemma budget_antimono:
  assumes "2 \<le> m" and "m \<le> n"
  shows "path_budget_for_depth d n \<le> path_budget_for_depth d m"
  using assms(2,1)
proof (induction rule: dec_induct)
  case (step k)
  have "lambda_for_depth d * path_budget_for_depth d k \<le> 1 * path_budget_for_depth d k"
    by (rule mult_right_mono) (simp_all add: unit_interval)
  with step budget_step [of k d] show ?case by simp
qed simp

lemma budget_le_one [unit_interval]: "path_budget_for_depth d m \<le> 1"
proof (cases "2 \<le> m")
  case True
  have "lambda_for_depth d ^ (m - 1) \<le> 1"
    by (rule power_le_one) (simp_all add: unit_interval less_imp_le)
  moreover have "min (real d) (real m) / real m \<le> 1"
    using True by (simp add: field_simps)
  ultimately have "min (real d) (real m) / real m * lambda_for_depth d ^ (m - 1) \<le> 1 * 1"
    by (intro mult_mono) (simp_all add: less_imp_le [OF lambda_bounds(1)])
  then show ?thesis by (simp add: path_budget_for_depth_def)
qed (simp add: path_budget_for_depth_def)

section \<open>Shares of a budget\<close>

lemma alpha_nonneg [unit_interval]: "0 \<le> alpha_for_depth d p m"
  using r_bounds [of d] r_power_less_one [of "m - 1" d]
  by (auto simp: alpha_for_depth_def intro!: divide_nonneg_nonneg)

lemma gamma_nonneg [unit_interval]: "0 \<le> gamma_for_depth d p m"
  by (simp add: gamma_for_depth_def unit_interval)

lemma sum_alpha:
  assumes "2 \<le> m"
  shows "(\<Sum>p = 1..<m. alpha_for_depth d p m) = 1"
proof -
  let ?r = "r_for_depth d"
  have den: "?r ^ (m - 1) < 1" and ne: "?r \<noteq> 1"
    using assms r_power_less_one [of "m - 1" d] r_bounds [of d] by auto
  have "(\<Sum>p = 1..<m. alpha_for_depth d p m)
      = (\<Sum>p = 1..<m. (1 - ?r) * ?r ^ (p - 1) / (1 - ?r ^ (m - 1)))"
    using assms by (intro sum.cong) (auto simp: alpha_for_depth_def)
  also have "\<dots> = (1 - ?r) * (\<Sum>p = 1..<m. ?r ^ (p - 1)) / (1 - ?r ^ (m - 1))"
    by (simp add: sum_distrib_left sum_divide_distrib)
  also have "(\<Sum>p = 1..<m. ?r ^ (p - 1)) = (\<Sum>p < m - 1. ?r ^ p)"
    using assms sum.shift_bounds_Suc_ivl [of "\<lambda>p. ?r ^ (p - 1)" 0 "m - 1"]
    by (simp add: atLeast0LessThan)
  also have "(1 - ?r) * (\<Sum>p < m - 1. ?r ^ p) = 1 - ?r ^ (m - 1)"
    by (rule one_diff_power_eq [symmetric])
  finally show ?thesis using den by simp
qed

lemma sum_gamma_list:
  "(\<Sum>p\<leftarrow>[1..<m]. gamma_for_depth d p m) = path_budget_for_depth d m"
proof (cases "2 \<le> m")
  case True
  then show ?thesis
    by (simp add: interv_sum_list_conv_sum_set_nat gamma_for_depth_def sum_alpha
        flip: sum_distrib_left del: One_nat_def)
next
  case False
  then have "m = 0 \<or> m = 1" by auto
  then show ?thesis by (auto simp: path_budget_for_depth_def)
qed

lemma alpha_step:
  assumes "2 \<le> m" and "p < m"
  shows "alpha_for_depth d p (Suc m) \<le> alpha_for_depth d p m"
proof (cases "p = 0")
  case False
  let ?r = "r_for_depth d"
  have "?r ^ m \<le> ?r ^ (m - 1)"
    using r_bounds [of d] by (intro power_decreasing) auto
  moreover have "?r ^ (m - 1) < 1" and "?r ^ m < 1"
    using assms r_power_less_one [of _ d] by auto
  ultimately have "(1 - ?r) * ?r ^ (p - 1) / (1 - ?r ^ m)
      \<le> (1 - ?r) * ?r ^ (p - 1) / (1 - ?r ^ (m - 1))"
    using r_bounds [of d] by (intro divide_left_mono) auto
  with assms False show ?thesis by (simp add: alpha_for_depth_def)
qed (simp add: alpha_for_depth_def)

lemma alpha_ratio:
  assumes "2 \<le> m" and "0 < p" and "Suc p < m"
  shows "alpha_for_depth d (Suc p) m = r_for_depth d * alpha_for_depth d p m"
  using assms by (simp add: alpha_for_depth_def power_eq_if)

lemma gamma_step:
  assumes "2 \<le> m" and "p < m"
  shows "gamma_for_depth d p (Suc m) \<le> gamma_for_depth d p m"
  unfolding gamma_for_depth_def
  using assms by (intro mult_mono budget_antimono alpha_step) (auto simp: unit_interval)

lemma gamma_split_le:
  assumes "2 \<le> m" and "0 < p" and "p < m"
  shows "gamma_for_depth d p (Suc m) + gamma_for_depth d (Suc p) (Suc m) \<le> gamma_for_depth d p m"
proof -
  let ?l = "lambda_for_depth d" and ?r = "r_for_depth d"
  let ?B = "path_budget_for_depth d" and ?a = "alpha_for_depth d p"
  have "gamma_for_depth d p (Suc m) + gamma_for_depth d (Suc p) (Suc m)
      = ?B (Suc m) * ((1 + ?r) * ?a (Suc m))"
    using assms by (simp add: gamma_for_depth_def alpha_ratio algebra_simps)
  also have "\<dots> \<le> ?l * ?B m * ((1 + ?r) * ?a (Suc m))"
    using assms budget_step by (intro mult_right_mono) (auto simp: unit_interval)
  also have "\<dots> = ?l * (1 + ?r) * (?B m * ?a (Suc m))"
    by (simp only: mult_ac)
  also have "\<dots> = ?B m * ?a (Suc m)" by (simp add: lambda_r)
  also have "\<dots> \<le> ?B m * ?a m"
    using assms by (intro mult_left_mono alpha_step) (auto simp: unit_interval)
  finally show ?thesis by (simp add: gamma_for_depth_def)
qed

lemma gamma_longer:
  assumes "2 \<le> m" and "p < m"
  shows "gamma_for_depth d p (m + k) \<le> gamma_for_depth d p m"
proof (induction k)
  case (Suc k)
  from assms gamma_step [of "m + k" p d] Suc show ?case by simp
qed simp

lemma gamma_shift:
  assumes "2 \<le> m" and "0 < p" and "p < m"
  shows "gamma_for_depth d (p + k) (m + k) \<le> gamma_for_depth d p m"
proof (induction k)
  case (Suc k)
  have "gamma_for_depth d (Suc (p + k)) (Suc (m + k)) \<le> gamma_for_depth d (p + k) (m + k)"
    using gamma_split_le [of "m + k" "p + k" d] gamma_nonneg [of d "p + k" "Suc (m + k)"] assms by simp
  with Suc show ?case by simp
qed simp

lemma gamma_pos: "0 < d \<Longrightarrow> 2 \<le> m \<Longrightarrow> 0 < p \<Longrightarrow> p < m \<Longrightarrow> 0 < gamma_for_depth d p m"
  using r_bounds [of d] r_pos [of d] r_power_less_one [of "m - 1" d] budget_pos [of d m]
  by (simp add: gamma_for_depth_def alpha_for_depth_def)

lemma padding_sum_le:
  assumes "2 \<le> m" and "0 < p" and "p < m"
  shows "(\<Sum>j \<le> k. gamma_for_depth d (p + j) (m + k)) \<le> gamma_for_depth d p m"
proof (induction k)
  case (Suc k)
  let ?g = "gamma_for_depth d"
  have "(\<Sum>j \<le> Suc k. ?g (p + j) (m + Suc k))
      = (\<Sum>j < k. ?g (p + j) (Suc (m + k)))
        + (?g (p + k) (Suc (m + k)) + ?g (Suc (p + k)) (Suc (m + k)))"
    by (simp add: lessThan_Suc_atMost [symmetric])
  also have "\<dots> \<le> (\<Sum>j < k. ?g (p + j) (m + k)) + ?g (p + k) (m + k)"
    using assms by (intro add_mono sum_mono gamma_step gamma_split_le) auto
  also have "\<dots> = (\<Sum>j \<le> k. ?g (p + j) (m + k))"
    by (simp add: lessThan_Suc_atMost [symmetric])
  finally show ?case using Suc.IH by linarith
qed simp

text \<open>
  C3.  Padding a path never pays.  A relayer at position \<open>p\<close> of a path with \<open>m\<close> hops that
  inserts \<open>k\<close> further identities of its own right behind it collects, over all its
  positions together, at most the share it had before.
\<close>

theorem padding_never_profits:
  assumes "2 \<le> m" and "0 < p" and "p < m"
  shows "(\<Sum>j \<le> k. gamma_for_depth d (p + j) (m + k)) \<le> gamma_for_depth d p m"
  by (rule padding_sum_le [OF assms])

lemma padding_never_profits_witness:
  "(\<Sum>j \<le> 3. gamma_for_depth 4 (1 + j) (3 + 3)) \<le> gamma_for_depth 4 1 3"
  by (rule padding_never_profits) simp_all

text \<open>
  The shares handed out along a path of any length are exactly the budget of that
  path, which never exceeds the whole relay fee.
\<close>

theorem gamma_sums_to_budget:
  "(\<Sum>p\<leftarrow>[1..<m]. gamma_for_depth d p m) = path_budget_for_depth d m
   \<and> 0 \<le> path_budget_for_depth d m \<and> path_budget_for_depth d m \<le> 1"
  by (simp add: sum_gamma_list unit_interval del: One_nat_def)

text \<open>
  Longer routes have strictly smaller budgets: for a positive target depth and routes
  with at least one relayer, the budget of a route shrinks with every hop added to it.
\<close>

theorem budget_strictly_decreasing:
  assumes "0 < d" and "2 \<le> m" and "m < n"
  shows "path_budget_for_depth d n < path_budget_for_depth d m"
proof -
  have "path_budget_for_depth d (Suc m) \<le> lambda_for_depth d * path_budget_for_depth d m"
    using assms by (intro budget_step) simp
  also have "\<dots> < 1 * path_budget_for_depth d m"
    using assms by (intro mult_strict_right_mono lambda_less_one budget_pos) auto
  finally have "path_budget_for_depth d (Suc m) < path_budget_for_depth d m" by simp
  moreover have "path_budget_for_depth d n \<le> path_budget_for_depth d (Suc m)"
    using assms by (intro budget_antimono) auto
  ultimately show ?thesis by linarith
qed

lemma budget_strictly_decreasing_witness:
  "path_budget_for_depth 4 7 < path_budget_for_depth 4 2"
  by (rule budget_strictly_decreasing) simp_all

section \<open>Credit weight and bonus\<close>

lemma credit_weight_bounds [unit_interval]:
  "0 \<le> transaction_credit_weight c q" "transaction_credit_weight c q \<le> 1"
  by (auto simp: transaction_credit_weight_def)

lemma bonus_nonneg [unit_interval]: "0 \<le> propagation_bonus x c z"
  by (auto simp: propagation_bonus_def intro!: divide_nonneg_pos)

lemma bonus_le_cap: "0 \<le> c \<Longrightarrow> propagation_bonus x c z \<le> c"
  by (auto simp: propagation_bonus_def divide_le_eq algebra_simps)

lemma bonus_mono:
  assumes "x \<le> y"
  shows "propagation_bonus x c z \<le> propagation_bonus y c z"
proof (cases "0 < x \<and> 0 < c \<and> 0 < z")
  case True
  have "c * x * (z + y) \<le> c * y * (z + x)"
    using True assms by (simp add: algebra_simps mult_left_mono)
  with True assms show ?thesis
    by (simp add: propagation_bonus_def divide_le_eq le_divide_eq algebra_simps
        pos_divide_le_eq pos_le_divide_eq)
next
  case False
  then have "propagation_bonus x c z = 0" by (auto simp: propagation_bonus_def)
  then show ?thesis by (simp add: unit_interval)
qed

lemma bonus_perspective:
  assumes "0 < s" and "0 \<le> x"
  shows "s * propagation_bonus (x / s) c z
    = (if 0 < c \<and> 0 < z \<and> 0 < x then c * (s * x / (z * s + x)) else 0)"
  using assms by (auto simp: propagation_bonus_def divide_simps algebra_simps)

text \<open>The function \<open>s x / (z s + x)\<close> is superadditive on positive arguments.\<close>

lemma harmonic_superadditive:
  fixes s t x y z :: real
  assumes "0 < s" "0 < t" "0 \<le> x" "0 \<le> y" "0 < z"
  shows "s * x / (z * s + x) + t * y / (z * t + y)
    \<le> (s + t) * (x + y) / (z * (s + t) + (x + y))"
proof -
  let ?a = "z * s + x" and ?b = "z * t + y"
  have ab: "0 < ?a" "0 < ?b" using assms by (auto intro: add_pos_nonneg)
  have "(s + t) * (x + y) * (?a * ?b)
      - (s * x * ?b + t * y * ?a) * (?a + ?b) = z * (s * y - t * x)\<^sup>2"
    by (simp add: algebra_simps power2_eq_square)
  then have "(s * x * ?b + t * y * ?a) * (?a + ?b) \<le> (s + t) * (x + y) * (?a * ?b)"
    using assms(5) zero_le_power2 [of "s * y - t * x"]
    by (smt (verit) mult_nonneg_nonneg)
  then have "(s * x * ?b + t * y * ?a) / (?a * ?b) \<le> (s + t) * (x + y) / (?a + ?b)"
    using ab by (simp add: divide_le_eq le_divide_eq pos_divide_le_eq pos_le_divide_eq
        mult.commute mult.left_commute)
  moreover have "s * x / ?a + t * y / ?b = (s * x * ?b + t * y * ?a) / (?a * ?b)"
    using ab by (simp add: add_divide_eq_iff divide_add_eq_iff field_simps)
  ultimately show ?thesis by (simp add: algebra_simps)
qed

section \<open>Saturated contribution\<close>

lemma saturated_nonneg [unit_interval]:
  "0 < k \<Longrightarrow> 0 \<le> saturated_contribution raw s k"
  by (auto simp: saturated_contribution_def intro!: mult_nonneg_nonneg)

lemma saturated_le_raw:
  assumes "0 < k" and "0 \<le> raw"
  shows "saturated_contribution raw s k \<le> raw / k"
proof (cases "0 < raw \<and> 0 < s")
  case True
  have "ln (1 + raw / (k * s)) \<le> raw / (k * s)"
    using assms True by (intro ln_add_one_self_le_self) simp
  then have "s * ln (1 + raw / (k * s)) \<le> s * (raw / (k * s))"
    using True by (intro mult_left_mono) auto
  with assms True show ?thesis by (simp add: saturated_contribution_def)
qed (use assms in \<open>auto simp: saturated_contribution_def not_less\<close>)

text \<open>The code's cutoff at a zero contribution agrees with the logarithm there.\<close>

lemma saturated_eq:
  "0 \<le> x \<Longrightarrow> 0 < s \<Longrightarrow> saturated_contribution x s k = s * ln (1 + x / (k * s))"
  by (auto simp: saturated_contribution_def)

text \<open>The tangent bound behind concavity: \<open>ln\<close> of a ratio to the weighted mean.\<close>

lemma ln_weighted_mean:
  fixes s t a b :: real
  assumes "0 < s" "0 < t" "0 < a" "0 < b"
  shows "s * ln a + t * ln b \<le> (s + t) * ln ((s * a + t * b) / (s + t))"
proof -
  define m where "m = (s * a + t * b) / (s + t)"
  have p: "0 < s * a + t * b" using assms by (simp add: add_pos_pos)
  then have m: "0 < m" using assms by (simp add: m_def)
  have sm: "(s + t) * m = s * a + t * b" using assms by (simp add: m_def)
  have "ln (a / m) \<le> a / m - 1" and "ln (b / m) \<le> b / m - 1"
    using assms m by (auto intro!: ln_le_minus_one divide_pos_pos)
  then have "s * ln (a / m) + t * ln (b / m) \<le> s * (a / m - 1) + t * (b / m - 1)"
    using assms by (intro add_mono mult_left_mono) auto
  also have "\<dots> = (s * a + t * b) / m - (s + t)"
    by (simp add: algebra_simps add_divide_distrib)
  also have "\<dots> = 0" using m by (simp flip: sm)
  finally have "s * (ln a - ln m) + t * (ln b - ln m) \<le> 0"
    using assms m by (simp add: ln_div)
  then show ?thesis unfolding m_def [symmetric] by (simp add: algebra_simps)
qed

lemma saturated_superadditive:
  assumes "0 < k" "0 < s" "0 < t" "0 \<le> x" "0 \<le> y"
  shows "saturated_contribution x s k + saturated_contribution y t k
    \<le> saturated_contribution (x + y) (s + t) k"
proof -
  have "0 < 1 + x / (k * s)" and "0 < 1 + y / (k * t)"
    using assms by (auto intro!: add_pos_nonneg)
  then have "s * ln (1 + x / (k * s)) + t * ln (1 + y / (k * t))
      \<le> (s + t) * ln ((s * (1 + x / (k * s)) + t * (1 + y / (k * t))) / (s + t))"
    using assms by (intro ln_weighted_mean) auto
  also have "(s * (1 + x / (k * s)) + t * (1 + y / (k * t))) / (s + t)
      = 1 + (x + y) / (k * (s + t))"
  proof -
    have "s * (1 + x / (k * s)) + t * (1 + y / (k * t)) = (s + t) + (x + y) / k"
      using assms by (simp add: algebra_simps add_divide_distrib)
    then show ?thesis using assms by (simp add: add_divide_distrib)
  qed
  finally show ?thesis using assms by (simp add: saturated_eq)
qed

text \<open>
  Splitting an identity never raises its epoch credit: two validators that share a
  stake and the contribution earned with it get together at most the saturated
  contribution of the undivided validator.
\<close>

theorem splitting_never_raises_contribution:
  assumes "0 < k" "0 < s" "0 < t" "0 \<le> x" "0 \<le> y"
  shows "saturated_contribution x s k + saturated_contribution y t k
      \<le> saturated_contribution (x + y) (s + t) k
    \<and> saturated_contribution (x + y) (s + t) k \<le> (x + y) / k"
  using assms by (simp add: saturated_superadditive saturated_le_raw)

lemma splitting_never_raises_contribution_witness:
  "saturated_contribution 1 (1/4) 1 + saturated_contribution 3 (1/4) 1
      \<le> saturated_contribution (1 + 3) (1/4 + 1/4) 1
    \<and> saturated_contribution (1 + 3) (1/4 + 1/4) 1 \<le> (1 + 3) / 1"
  by (rule splitting_never_raises_contribution) simp_all

end
