(* ===== verification/Topo_Consensus.thy ===== *)
theory Topo_Consensus
  imports Topo_Formulas Consensus_Base
begin

text \<open>
  The TopoStake engine of \<^verbatim>\<open>src/src/consensus/topostake.rs\<close>: its configuration, the state with
  scores, pending score roots, frozen proposer weights and pending rewards, and every
  operation on it.

  Verification of a path record is the argument \<open>ver\<close>; the engine calls
  \<open>verify_at_epoch\<close>, whose cached and uncached verdicts are related in \<open>Path_Cache\<close>.
  The random draw \<open>gen_range(0.0..total)\<close> of the seeded generator is the argument
  \<open>gen_range\<close>.  Epoch and block numbers are natural numbers.
\<close>

section \<open>Configuration\<close>

record topostake_config =
  protocol_version :: string
  target_depth :: nat
  beta :: real
  saturation_k :: real
  score_cost_reference :: real
  score_floor_kappa :: real
  bonus_zeta :: real
  eta :: real
  bonus_cap :: real
  proposer_fee_ratio :: real
  reward_settlement_depth :: nat
  score_activation_delay_epochs :: nat
  max_path_hops :: nat
  evidence_work_limit :: nat
  challenge_work_limit :: nat

text \<open>The embedded JSON document read by \<open>TopoStakeConfig::default\<close>.\<close>

definition topostake_config_default :: topostake_config where
  "topostake_config_default = \<lparr>
     protocol_version = ''frozen-v1'', target_depth = 4, beta = 8 / 10, saturation_k = 1,
     score_cost_reference = 1 / 100000, score_floor_kappa = 1, bonus_zeta = 1, eta = 1 / 2,
     bonus_cap = 1, proposer_fee_ratio = 1 / 2, reward_settlement_depth = 2,
     score_activation_delay_epochs = 2, max_path_hops = 16, evidence_work_limit = 4096,
     challenge_work_limit = 1024\<rparr>"

text \<open>The white space that \<open>trim\<close> removes, for ASCII text.\<close>

definition is_white :: "char \<Rightarrow> bool" where
  "is_white c \<longleftrightarrow> of_char c \<in> {9, 10, 11, 12, 13, 32 :: nat}"

definition config_validate :: "topostake_config \<Rightarrow> string + unit" where
  "config_validate c =
     (if list_all is_white (protocol_version c) then Inl ''protocol_version must not be empty''
      else if target_depth c < 1 then Inl ''target_depth must be >= 1''
      else if \<not> (0 < beta c \<and> beta c \<le> 1) then Inl ''beta must satisfy 0 < beta <= 1''
      else if saturation_k c \<le> 0 then Inl ''saturation_k must be > 0''
      else if score_cost_reference c \<le> 0 then Inl ''score_cost_reference must be > 0''
      else if score_floor_kappa c \<le> 0 then Inl ''score_floor_kappa must be > 0''
      else if bonus_zeta c \<le> 0 then Inl ''bonus_zeta must be > 0''
      else if \<not> (0 \<le> proposer_fee_ratio c \<and> proposer_fee_ratio c < 1)
        then Inl ''proposer_fee_ratio must satisfy 0 <= theta < 1''
      else if eta c < 0 then Inl ''eta must be >= 0''
      else if bonus_cap c < 0 then Inl ''bonus_cap must be >= 0''
      else if 1 + 1 / 2 ^ 52 < eta c * bonus_cap c then Inl ''eta * bonus_cap must be <= 1''
      else if score_activation_delay_epochs c < 1
        then Inl ''score_activation_delay_epochs must be >= 1''
      else if max_path_hops c < 2 then Inl ''max_path_hops must be >= 2''
      else if evidence_work_limit c < max_path_hops c
        then Inl ''evidence_work_limit must cover at least one maximum path''
      else if challenge_work_limit c = 0 then Inl ''challenge_work_limit must be > 0''
      else Inr ())"

section \<open>State\<close>

record pending_reward_batch =
  settle_at_block :: nat
  batch_rewards :: "balance_delta list"

record pending_score_root =
  produced_epoch :: nat
  activates_at_epoch :: nat
  root_scores :: "(address, real) hash_map"

record reward_plan =
  plan_rewards :: "balance_delta list"
  plan_proposer_reward :: real
  plan_relay_reward :: real
  plan_burned_relay_fee :: real
  plan_total_fee :: real

record topo_state =
  config :: topostake_config
  base_reward :: real
  score_history :: "(address, real) hash_map"
  active_score_history :: "(address, real) hash_map"
  active_score_epoch :: "nat option"
  next_epoch :: nat
  pending_score_roots :: "pending_score_root list"
  normalized_score :: "(address, real) hash_map"
  epoch_stake_snapshot :: "(address, real) hash_map"
  unnormalized_proposer_weights :: "(address, real) hash_map"
  frozen_proposer_weights :: "(address, real) hash_map"
  epoch_bonuses :: "(address, real) hash_map"
  pending_rewards :: "pending_reward_batch list"

type_synonym path_verifier = "aggregated_signed_paths \<Rightarrow> transaction \<Rightarrow> address \<Rightarrow> nat \<Rightarrow> bool"

definition topo_new :: "real \<Rightarrow> topostake_config \<Rightarrow> string + topo_state" where
  "topo_new base cfg =
     (case config_validate cfg of
        Inl e \<Rightarrow> Inl e
      | Inr _ \<Rightarrow> Inr \<lparr>
          config = cfg, base_reward = base, score_history = [], active_score_history = [],
          active_score_epoch = None, next_epoch = 0, pending_score_roots = [],
          normalized_score = [], epoch_stake_snapshot = [], unnormalized_proposer_weights = [],
          frozen_proposer_weights = [], epoch_bonuses = [], pending_rewards = []\<rparr>)"

definition path_budget :: "topostake_config \<Rightarrow> nat \<Rightarrow> real" where
  "path_budget cfg path_length = path_budget_for_depth (target_depth cfg) path_length"

definition gamma :: "topostake_config \<Rightarrow> nat \<Rightarrow> nat \<Rightarrow> real" where
  "gamma cfg position path_length = gamma_for_depth (target_depth cfg) position path_length"

section \<open>Proposer weights\<close>

definition normalize_map :: "(address, real) hash_map \<Rightarrow> (address, real) hash_map" where
  "normalize_map m =
     (let s = sum_list (hm_values m) in
      if s \<le> 0 then map (\<lambda>(k, v). (k, 0)) m else map (\<lambda>(k, v). (k, v / s)) m)"

definition normalized_stake :: "validator list \<Rightarrow> (address, real) hash_map" where
  "normalized_stake vs = normalize_map (hm_collect (map (\<lambda>v. (v_address v, max (v_stake v) 0)) vs))"

definition positive_score :: "(address, real) hash_map \<Rightarrow> validator \<Rightarrow> real" where
  "positive_score scores v = max (hm_get_or 0 scores (v_address v)) 0"

definition damped_score_for_active_set ::
  "(address, real) hash_map \<Rightarrow> validator list \<Rightarrow> real \<Rightarrow> (address, real) hash_map" where
  "damped_score_for_active_set scores vs kappa =
     (let denominator = kappa + sum_list (map (positive_score scores) vs) in
      hm_collect (map (\<lambda>v. (v_address v, positive_score scores v / denominator)) vs))"

definition validator_bonus ::
  "topostake_config \<Rightarrow> (address, real) hash_map \<Rightarrow> (address, real) hash_map \<Rightarrow> validator \<Rightarrow> real" where
  "validator_bonus cfg stakes scores v =
     (let s_hat = hm_get_or 0 stakes (v_address v); c_hat = hm_get_or 0 scores (v_address v) in
      if 0 < s_hat then propagation_bonus (c_hat / s_hat) (bonus_cap cfg) (bonus_zeta cfg) else 0)"

definition validator_weight ::
  "topostake_config \<Rightarrow> (address, real) hash_map \<Rightarrow> (address, real) hash_map \<Rightarrow> validator \<Rightarrow> real" where
  "validator_weight cfg stakes scores v =
     hm_get_or 0 stakes (v_address v) * (1 + eta cfg * validator_bonus cfg stakes scores v)"

definition freeze_proposer_weights :: "topo_state \<Rightarrow> validator list \<Rightarrow> topo_state" where
  "freeze_proposer_weights st vs =
     (let stakes = normalized_stake vs;
          scores = damped_score_for_active_set (active_score_history st) vs
                     (score_floor_kappa (config st));
          bonuses = foldl (\<lambda>m v. hm_insert (v_address v) (validator_bonus (config st) stakes scores v) m)
                      [] vs;
          unnormalized = foldl (\<lambda>m v. hm_insert (v_address v)
                      (validator_weight (config st) stakes scores v) m) [] vs
      in st\<lparr>normalized_score := scores,
            epoch_stake_snapshot := hm_collect (map (\<lambda>v. (v_address v, v_stake v)) vs),
            epoch_bonuses := bonuses,
            unnormalized_proposer_weights := unnormalized,
            frozen_proposer_weights := normalize_map unnormalized\<rparr>)"

fun scan_weights ::
  "(address, real) hash_map \<Rightarrow> real \<Rightarrow> real \<Rightarrow> validator list \<Rightarrow> validator option" where
  "scan_weights weights random_value acc [] = None"
| "scan_weights weights random_value acc (v # vs) =
     (let acc' = acc + hm_get_or 0 weights (v_address v) in
      if random_value \<le> acc' then Some v else scan_weights weights random_value acc' vs)"

definition select_with_frozen_weights ::
  "(bytes \<Rightarrow> real \<Rightarrow> real) \<Rightarrow> topo_state \<Rightarrow> validator list \<Rightarrow> bytes
    \<Rightarrow> topo_state \<times> (validator_error + validator)" where
  "select_with_frozen_weights gen_range st vs seed =
     (if vs = [] then (st, Inl NOValidatorError)
      else let st' = (if frozen_proposer_weights st = [] then freeze_proposer_weights st vs else st);
               weights = frozen_proposer_weights st';
               total_weight = sum_list (map (\<lambda>v. hm_get_or 0 weights (v_address v)) vs)
        in if total_weight \<le> 0 then (st', Inl NOValidatorError)
           else (st', case scan_weights weights (gen_range seed total_weight) 0 vs of
                        Some v \<Rightarrow> Inr v
                      | None \<Rightarrow> Inr (last vs)))"

definition topo_select_proposer ::
  "(bytes \<Rightarrow> real \<Rightarrow> real) \<Rightarrow> topo_state \<Rightarrow> validator list \<Rightarrow> bytes
    \<Rightarrow> (topo_state \<times> (validator_error + validator)) run" where
  "topo_select_proposer gen_range st vs seed = Some (select_with_frozen_weights gen_range st vs seed)"

section \<open>Evidence of a block\<close>

definition valid_path_record ::
  "topostake_config \<Rightarrow> path_verifier \<Rightarrow> aggregated_signed_paths \<Rightarrow> transaction \<Rightarrow> address \<Rightarrow> nat \<Rightarrow> bool" where
  "valid_path_record cfg ver p t miner epoch \<longleftrightarrow>
     length (full_path p miner) - 1 \<le> max_path_hops cfg \<and> ver p t miner epoch"

text \<open>The route of the transaction with index \<open>idx\<close>, when its record is present and valid.\<close>

definition valid_route ::
  "topostake_config \<Rightarrow> path_verifier \<Rightarrow> block \<Rightarrow> nat \<Rightarrow> transaction \<Rightarrow> address list option" where
  "valid_route cfg ver b idx t =
     (if length (body_paths (blk_body b)) \<le> idx then None
      else let p = body_paths (blk_body b) ! idx; miner = hd_miner (blk_header b) in
        if \<not> valid_path_record cfg ver p t miner (hd_epoch (blk_header b)) then None
        else let full = full_path p miner in
          if length full - 1 < 2 then None else Some full)"

section \<open>Rewards\<close>

definition pay_position ::
  "topostake_config \<Rightarrow> address set \<Rightarrow> real \<Rightarrow> address list \<Rightarrow> real \<times> balance_delta list \<Rightarrow> nat
    \<Rightarrow> real \<times> balance_delta list" where
  "pay_position cfg vset relay_budget full acc position =
     (let relayer = full ! position in
      if relayer \<notin> vset then acc
      else let amount = relay_budget * gamma cfg position (length full - 1) in
        if 0 < amount
        then (fst acc + amount, snd acc @ [\<lparr>bd_address = relayer, bd_amount = amount\<rparr>])
        else acc)"

definition pay_transaction ::
  "topostake_config \<Rightarrow> path_verifier \<Rightarrow> address set \<Rightarrow> block
    \<Rightarrow> balance_delta list \<times> real \<times> real \<Rightarrow> nat \<times> transaction \<Rightarrow> balance_delta list \<times> real \<times> real" where
  "pay_transaction cfg ver vset b acc it =
     (let (rewards, relay_reward, burned) = acc; (idx, t) = it;
          relay_budget = (1 - proposer_fee_ratio cfg) * tx_fee t
      in case valid_route cfg ver b idx t of
           None \<Rightarrow> (rewards, relay_reward, burned + relay_budget)
         | Some full \<Rightarrow>
             (let (paid, rewards') = foldl (pay_position cfg vset relay_budget full) (0, rewards)
                    [1..<length full - 1]
              in (rewards', relay_reward + paid, burned + max (relay_budget - paid) 0)))"

definition compute_block_rewards ::
  "path_verifier \<Rightarrow> topo_state \<Rightarrow> block \<Rightarrow> validator list \<Rightarrow> reward_plan" where
  "compute_block_rewards ver st b vs =
     (let cfg = config st; vset = set (map v_address vs); txs = body_transactions (blk_body b);
          total_fee = sum_list (map tx_fee txs);
          proposer_reward = base_reward st + proposer_fee_ratio cfg * total_fee;
          (rewards, relay_reward, burned) =
            foldl (pay_transaction cfg ver vset b)
              ([\<lparr>bd_address = hd_miner (blk_header b), bd_amount = proposer_reward\<rparr>], 0, 0)
              (enumerate 0 txs)
      in \<lparr>plan_rewards = rewards, plan_proposer_reward = proposer_reward,
          plan_relay_reward = relay_reward, plan_burned_relay_fee = burned,
          plan_total_fee = total_fee\<rparr>)"

fun pop_matured :: "nat \<Rightarrow> pending_reward_batch list \<Rightarrow> balance_delta list
    \<Rightarrow> balance_delta list \<times> pending_reward_batch list" where
  "pop_matured now [] matured = (matured, [])"
| "pop_matured now (batch # q) matured =
     (if settle_at_block batch \<le> now then pop_matured now q (matured @ batch_rewards batch)
      else (matured, batch # q))"

definition settle_matured_rewards :: "topo_state \<Rightarrow> nat \<Rightarrow> topo_state \<times> balance_delta list" where
  "settle_matured_rewards st current_block_index =
     (let (matured, q) = pop_matured current_block_index (pending_rewards st) []
      in (st\<lparr>pending_rewards := q\<rparr>, matured))"

definition topo_distribute_rewards ::
  "path_verifier \<Rightarrow> topo_state \<Rightarrow> block \<Rightarrow> validator list \<Rightarrow> topo_state \<times> balance_delta list" where
  "topo_distribute_rewards ver st b vs =
     (let plan = compute_block_rewards ver st b vs;
          st' = (if plan_rewards plan \<noteq> [] then
            st\<lparr>pending_rewards := pending_rewards st @
               [\<lparr>settle_at_block = hd_index (blk_header b) + reward_settlement_depth (config st),
                 batch_rewards = plan_rewards plan\<rparr>]\<rparr> else st)
      in settle_matured_rewards st' (hd_index (blk_header b)))"

section \<open>Scores\<close>

definition credit_position ::
  "topostake_config \<Rightarrow> address set \<Rightarrow> transaction \<Rightarrow> address list \<Rightarrow> (address, real) hash_map \<Rightarrow> nat
    \<Rightarrow> (address, real) hash_map" where
  "credit_position cfg vset t full raw position =
     (let relayer = full ! position in
      if relayer \<in> vset then
        hm_add relayer (transaction_credit_weight (tx_irrecoverable_cost t) (score_cost_reference cfg)
          * gamma cfg position (length full - 1)) raw
      else raw)"

definition credit_transaction ::
  "topostake_config \<Rightarrow> path_verifier \<Rightarrow> address set \<Rightarrow> block \<Rightarrow> (address, real) hash_map
    \<Rightarrow> nat \<times> transaction \<Rightarrow> (address, real) hash_map" where
  "credit_transaction cfg ver vset b raw it =
     (let (idx, t) = it in
      case valid_route cfg ver b idx t of
        None \<Rightarrow> raw
      | Some full \<Rightarrow> foldl (credit_position cfg vset t full) raw [1..<length full - 1])"

definition raw_epoch_contribution ::
  "topostake_config \<Rightarrow> path_verifier \<Rightarrow> block list \<Rightarrow> validator list \<Rightarrow> (address, real) hash_map" where
  "raw_epoch_contribution cfg ver bs vs =
     foldl (\<lambda>raw b. foldl (credit_transaction cfg ver (set (map v_address vs)) b) raw
       (enumerate 0 (body_transactions (blk_body b)))) [] bs"

definition next_score ::
  "topo_state \<Rightarrow> (address, real) hash_map \<Rightarrow> (address, real) hash_map \<Rightarrow> address \<Rightarrow> real" where
  "next_score st stakes raw a =
     beta (config st) * saturated_contribution (hm_get_or 0 raw a) (hm_get_or 0 stakes a)
         (saturation_k (config st))
     + (1 - beta (config st)) * hm_get_or 0 (score_history st) a"

definition update_scores_from_epoch ::
  "path_verifier \<Rightarrow> topo_state \<Rightarrow> block list \<Rightarrow> validator list \<Rightarrow> topo_state" where
  "update_scores_from_epoch ver st bs vs =
     (let stakes = normalized_stake vs; raw = raw_epoch_contribution (config st) ver bs vs in
      st\<lparr>score_history :=
        foldl (\<lambda>m v. hm_insert (v_address v) (next_score st stakes raw (v_address v)) m) [] vs\<rparr>)"

definition enqueue_score_root :: "topo_state \<Rightarrow> nat \<Rightarrow> topo_state" where
  "enqueue_score_root st epoch =
     st\<lparr>pending_score_roots := pending_score_roots st @
       [\<lparr>produced_epoch = epoch,
         activates_at_epoch = epoch + score_activation_delay_epochs (config st),
         root_scores = score_history st\<rparr>]\<rparr>"

fun pop_roots :: "nat \<Rightarrow> pending_score_root list \<Rightarrow> nat option \<times> (address, real) hash_map
    \<Rightarrow> (nat option \<times> (address, real) hash_map) \<times> pending_score_root list" where
  "pop_roots target [] active = (active, [])"
| "pop_roots target (sr # q) active =
     (if activates_at_epoch sr \<le> target
      then pop_roots target q (Some (produced_epoch sr), root_scores sr)
      else (active, sr # q))"

definition activate_score_roots_for_epoch :: "topo_state \<Rightarrow> nat \<Rightarrow> topo_state" where
  "activate_score_roots_for_epoch st target =
     (let ((e, scores), q) = pop_roots target (pending_score_roots st)
            (active_score_epoch st, active_score_history st)
      in st\<lparr>active_score_epoch := e, active_score_history := scores, pending_score_roots := q\<rparr>)"

definition topo_on_epoch_end ::
  "path_verifier \<Rightarrow> topo_state \<Rightarrow> block list \<Rightarrow> validator list \<Rightarrow> topo_state" where
  "topo_on_epoch_end ver st bs vs =
     (let produced = next_epoch st;
          st1 = update_scores_from_epoch ver st bs vs;
          st2 = enqueue_score_root st1 produced;
          st3 = st2\<lparr>next_epoch := produced + 1\<rparr>;
          st4 = activate_score_roots_for_epoch st3 (produced + 1)
      in freeze_proposer_weights st4 vs)"

section \<open>Reported metrics\<close>

record metrics_snapshot =
  ms_depth :: "nat option"
  ms_beta :: "real option"
  ms_eta :: "real option"
  ms_bonus_cap :: "real option"
  ms_saturation_k :: "real option"
  ms_proposer_fee_ratio :: "real option"
  ms_score_floor_kappa :: "real option"
  ms_bonus_zeta :: "real option"
  ms_score_cost_reference :: "real option"
  ms_active_score_epoch :: "nat option"
  ms_latest_score_epoch :: "nat option"
  ms_score_history :: "(address, real) hash_map"
  ms_latest_score_history :: "(address, real) hash_map"
  ms_normalized_score :: "(address, real) hash_map"
  ms_bonuses :: "(address, real) hash_map"
  ms_unnormalized_proposer_weights :: "(address, real) hash_map"
  ms_normalized_proposer_weights :: "(address, real) hash_map"

definition topo_metrics_snapshot :: "topo_state \<Rightarrow> metrics_snapshot" where
  "topo_metrics_snapshot st = \<lparr>
     ms_depth = Some (target_depth (config st)), ms_beta = Some (beta (config st)),
     ms_eta = Some (eta (config st)), ms_bonus_cap = Some (bonus_cap (config st)),
     ms_saturation_k = Some (saturation_k (config st)),
     ms_proposer_fee_ratio = Some (proposer_fee_ratio (config st)),
     ms_score_floor_kappa = Some (score_floor_kappa (config st)),
     ms_bonus_zeta = Some (bonus_zeta (config st)),
     ms_score_cost_reference = Some (score_cost_reference (config st)),
     ms_active_score_epoch = active_score_epoch st,
     ms_latest_score_epoch = (if next_epoch st = 0 then None else Some (next_epoch st - 1)),
     ms_score_history = active_score_history st, ms_latest_score_history = score_history st,
     ms_normalized_score = normalized_score st, ms_bonuses = epoch_bonuses st,
     ms_unnormalized_proposer_weights = unnormalized_proposer_weights st,
     ms_normalized_proposer_weights = frozen_proposer_weights st\<rparr>"

end
