(* ===== verification/Topo_Properties.thy ===== *)
theory Topo_Properties
  imports Topo_Consensus
begin

text \<open>
  Properties of the TopoStake engine: conservation and delayed settlement of rewards,
  delayed activation of score roots, the bounds of frozen proposer weights, election, and
  the effect of splitting a validator.
\<close>

section \<open>The two queues\<close>

interpretation rewards_queue: maturity_queue settle_at_block
  "\<lambda>b acc. acc @ batch_rewards b" pop_matured
  by unfold_locales simp_all

interpretation roots_queue: maturity_queue activates_at_epoch
  "\<lambda>sr acc. (Some (produced_epoch sr), root_scores sr)" pop_roots
  by unfold_locales simp_all

lemma fold_append_rewards:
  "fold (\<lambda>b acc. acc @ batch_rewards b) bs acc = acc @ concat (map batch_rewards bs)"
  by (induction bs arbitrary: acc) auto

section \<open>Conservation of fees\<close>

lemma pay_positions:
  assumes "0 \<le> budget"
  shows "\<exists>ds. foldl (pay_position cfg vset budget full) (paid, rewards) ps = (paid + sum_list (map bd_amount ds), rewards @ ds)
    \<and> 0 \<le> sum_list (map bd_amount ds)
    \<and> sum_list (map bd_amount ds) \<le> budget * (\<Sum>p\<leftarrow>ps. gamma cfg p (length full - 1))
    \<and> (\<forall>d \<in> set ds. bd_address d \<in> vset \<and> 0 < bd_amount d)"
proof (induction ps arbitrary: paid rewards)
  case Nil
  show ?case by (intro exI [of _ "[]"]) simp
next
  case (Cons p ps)
  let ?a = "budget * gamma cfg p (length full - 1)"
  have a: "0 \<le> ?a" using assms by (simp add: gamma_def unit_interval)
  show ?case
  proof (cases "full ! p \<in> vset \<and> 0 < ?a")
    case True
    let ?d = "\<lparr>bd_address = full ! p, bd_amount = ?a\<rparr>"
    obtain ds where ds: "foldl (pay_position cfg vset budget full) (paid + ?a, rewards @ [?d]) ps
        = (paid + ?a + sum_list (map bd_amount ds), (rewards @ [?d]) @ ds)"
      "0 \<le> sum_list (map bd_amount ds)"
      "sum_list (map bd_amount ds) \<le> budget * (\<Sum>p\<leftarrow>ps. gamma cfg p (length full - 1))"
      "\<forall>d \<in> set ds. bd_address d \<in> vset \<and> 0 < bd_amount d"
      using Cons.IH by blast
    have "pay_position cfg vset budget full (paid, rewards) p = (paid + ?a, rewards @ [?d])"
      using True by (simp add: pay_position_def Let_def)
    with ds a True show ?thesis
      by (intro exI [of _ "?d # ds"]) (auto simp: algebra_simps)
  next
    case False
    then have "pay_position cfg vset budget full (paid, rewards) p = (paid, rewards)"
      by (auto simp: pay_position_def Let_def)
    with Cons.IH [of paid rewards] a show ?thesis by (auto simp: algebra_simps)
  qed
qed

lemma budget_all_positions: "(\<Sum>p\<leftarrow>[1..<m]. gamma cfg p m) = path_budget cfg m"
  unfolding gamma_def path_budget_def by (rule sum_gamma_list)

text \<open>One transaction: what is paid to relayers and what is burned is its relay budget.\<close>

lemma pay_transaction_conserves:
  assumes "0 \<le> tx_fee t" and "proposer_fee_ratio cfg \<le> 1"
  shows "\<exists>ds r b'. pay_transaction cfg ver vset b (rewards, relay, burned) (i, t)
      = (rewards @ ds, relay + r, burned + b')
    \<and> r + b' = (1 - proposer_fee_ratio cfg) * tx_fee t \<and> 0 \<le> r \<and> 0 \<le> b'
    \<and> r = sum_list (map bd_amount ds)
    \<and> (\<forall>d \<in> set ds. bd_address d \<in> vset \<and> 0 < bd_amount d)"
proof (cases "valid_route cfg ver b i t")
  case None
  then show ?thesis
    using assms
    by (intro exI [of _ "[]"] exI [of _ 0] exI [of _ "(1 - proposer_fee_ratio cfg) * tx_fee t"])
      (simp add: pay_transaction_def Let_def)
next
  case (Some full)
  let ?B = "(1 - proposer_fee_ratio cfg) * tx_fee t"
  have B: "0 \<le> ?B" using assms by simp
  obtain ds where ds: "foldl (pay_position cfg vset ?B full) (0, rewards) [1..<length full - 1]
      = (0 + sum_list (map bd_amount ds), rewards @ ds)"
    "0 \<le> sum_list (map bd_amount ds)"
    "sum_list (map bd_amount ds) \<le> ?B * (\<Sum>p\<leftarrow>[1..<length full - 1]. gamma cfg p (length full - 1))"
    "\<forall>d \<in> set ds. bd_address d \<in> vset \<and> 0 < bd_amount d"
    using pay_positions [OF B] by blast
  have "?B * (\<Sum>p\<leftarrow>[1..<length full - 1]. gamma cfg p (length full - 1)) \<le> ?B * 1"
    unfolding budget_all_positions path_budget_def
    using B by (intro mult_left_mono) (simp_all add: unit_interval)
  with ds(3) have le: "sum_list (map bd_amount ds) \<le> ?B" by simp
  show ?thesis
    using Some ds le
    by (intro exI [of _ ds] exI [of _ "sum_list (map bd_amount ds)"]
        exI [of _ "?B - sum_list (map bd_amount ds)"]) (simp add: pay_transaction_def Let_def)
qed

lemma pay_all_conserves:
  assumes "\<forall>t \<in> snd ` set its. 0 \<le> tx_fee t" and "proposer_fee_ratio cfg \<le> 1"
  shows "\<exists>ds r b'. foldl (pay_transaction cfg ver vset b) (rewards, relay, burned) its
      = (rewards @ ds, relay + r, burned + b')
    \<and> r + b' = (1 - proposer_fee_ratio cfg) * sum_list (map (tx_fee \<circ> snd) its)
    \<and> 0 \<le> r \<and> 0 \<le> b' \<and> r = sum_list (map bd_amount ds)
    \<and> (\<forall>d \<in> set ds. bd_address d \<in> vset \<and> 0 < bd_amount d)"
  using assms(1)
proof (induction its arbitrary: rewards relay burned)
  case Nil
  show ?case by (intro exI [of _ "[]"] exI [of _ 0]) simp
next
  case (Cons it its)
  obtain i t where it: "it = (i, t)" by fastforce
  have "0 \<le> tx_fee t" using Cons.prems it by simp
  from pay_transaction_conserves [OF this assms(2), of ver vset b rewards relay burned i]
  obtain ds r b1 where s: "pay_transaction cfg ver vset b (rewards, relay, burned) it
      = (rewards @ ds, relay + r, burned + b1)"
    "r + b1 = (1 - proposer_fee_ratio cfg) * tx_fee t" "0 \<le> r" "0 \<le> b1"
    "r = sum_list (map bd_amount ds)" "\<forall>d \<in> set ds. bd_address d \<in> vset \<and> 0 < bd_amount d"
    unfolding it by blast
  have rest: "\<forall>t \<in> snd ` set its. 0 \<le> tx_fee t" using Cons.prems by simp
  from Cons.IH [OF rest, of "rewards @ ds" "relay + r" "burned + b1"]
  obtain ds' r' b1' where s': "foldl (pay_transaction cfg ver vset b)
      (rewards @ ds, relay + r, burned + b1) its
      = ((rewards @ ds) @ ds', (relay + r) + r', (burned + b1) + b1')"
    "r' + b1' = (1 - proposer_fee_ratio cfg) * sum_list (map (tx_fee \<circ> snd) its)"
    "0 \<le> r'" "0 \<le> b1'" "r' = sum_list (map bd_amount ds')"
    "\<forall>d \<in> set ds'. bd_address d \<in> vset \<and> 0 < bd_amount d"
    by blast
  show ?case
  proof (rule exI [of _ "ds @ ds'"], rule exI [of _ "r + r'"], rule exI [of _ "b1 + b1'"])
    have "r + r' + (b1 + b1') = (1 - proposer_fee_ratio cfg) * (tx_fee t + sum_list (map (tx_fee \<circ> snd) its))"
      using s(2) s'(2) by (simp add: algebra_simps)
    with s s' show "foldl (pay_transaction cfg ver vset b) (rewards, relay, burned) (it # its)
        = (rewards @ (ds @ ds'), relay + (r + r'), burned + (b1 + b1'))
      \<and> r + r' + (b1 + b1') = (1 - proposer_fee_ratio cfg) * sum_list (map (tx_fee \<circ> snd) (it # its))
      \<and> 0 \<le> r + r' \<and> 0 \<le> b1 + b1' \<and> r + r' = sum_list (map bd_amount (ds @ ds'))
      \<and> (\<forall>d \<in> set (ds @ ds'). bd_address d \<in> vset \<and> 0 < bd_amount d)"
      by (auto simp: it add.assoc)
  qed
qed

text \<open>
  C2.  No fee is created or lost.  For a validated configuration and non-negative fees,
  the balance deltas of a block plus the burned relay fees are the base reward plus all
  fees; the proposer gets the base reward and its share of the fees, relayers and the burn
  get the rest, and every other delta is a positive amount for a validator.
\<close>

theorem block_rewards_conserve_fees:
  assumes "config_validate (config st) = Inr ()"
    and "\<forall>t \<in> set (body_transactions (blk_body b)). 0 \<le> tx_fee t"
  shows "let plan = compute_block_rewards ver st b vs; F = plan_total_fee plan;
      theta = proposer_fee_ratio (config st) in
    F = sum_list (map tx_fee (body_transactions (blk_body b)))
    \<and> plan_proposer_reward plan = base_reward st + theta * F
    \<and> plan_relay_reward plan + plan_burned_relay_fee plan = (1 - theta) * F
    \<and> 0 \<le> plan_relay_reward plan \<and> 0 \<le> plan_burned_relay_fee plan
    \<and> sum_list (map bd_amount (plan_rewards plan)) + plan_burned_relay_fee plan = base_reward st + F
    \<and> (\<exists>ds. plan_rewards plan
          = \<lparr>bd_address = hd_miner (blk_header b), bd_amount = plan_proposer_reward plan\<rparr> # ds
        \<and> (\<forall>d \<in> set ds. bd_address d \<in> set (map v_address vs) \<and> 0 < bd_amount d))"
proof -
  let ?txs = "body_transactions (blk_body b)" and ?th = "proposer_fee_ratio (config st)"
  let ?p = "base_reward st + ?th * sum_list (map tx_fee ?txs)"
  have th: "?th \<le> 1" using assms(1) by (auto simp: config_validate_def split: if_splits)
  have fees: "\<forall>t \<in> snd ` set (enumerate 0 ?txs). 0 \<le> tx_fee t"
    using assms(2) by (auto simp: in_set_enumerate_eq)
  have m: "map (tx_fee \<circ> snd) (enumerate 0 ?txs) = map tx_fee ?txs"
    by (metis map_map map_snd_enumerate)
  from pay_all_conserves [OF fees th, of ver "set (map v_address vs)" b
      "[\<lparr>bd_address = hd_miner (blk_header b), bd_amount = ?p\<rparr>]" 0 0]
  obtain ds r b' where f: "foldl (pay_transaction (config st) ver (set (map v_address vs)) b)
      ([\<lparr>bd_address = hd_miner (blk_header b), bd_amount = ?p\<rparr>], 0, 0) (enumerate 0 ?txs)
      = ([\<lparr>bd_address = hd_miner (blk_header b), bd_amount = ?p\<rparr>] @ ds, 0 + r, 0 + b')"
    "r + b' = (1 - ?th) * sum_list (map tx_fee ?txs)" "0 \<le> r" "0 \<le> b'"
    "r = sum_list (map bd_amount ds)"
    "\<forall>d \<in> set ds. bd_address d \<in> set (map v_address vs) \<and> 0 < bd_amount d"
    unfolding m by blast
  then show ?thesis
    by (simp add: compute_block_rewards_def Let_def algebra_simps)
qed

section \<open>Settlement\<close>

text \<open>Blocks are rewarded one after the other.\<close>

fun distribute_all ::
  "path_verifier \<Rightarrow> topo_state \<Rightarrow> (block \<times> validator list) list \<Rightarrow> topo_state \<times> balance_delta list" where
  "distribute_all ver st [] = (st, [])"
| "distribute_all ver st ((b, vs) # rest) =
     (let (st', out) = topo_distribute_rewards ver st b vs;
          (st'', outs) = distribute_all ver st' rest
      in (st'', out @ outs))"

definition block_plan :: "path_verifier \<Rightarrow> topo_state \<Rightarrow> block \<times> validator list \<Rightarrow> balance_delta list" where
  "block_plan ver st bv = plan_rewards (compute_block_rewards ver st (fst bv) (snd bv))"

definition block_batch ::
  "path_verifier \<Rightarrow> topo_state \<Rightarrow> block \<times> validator list \<Rightarrow> pending_reward_batch" where
  "block_batch ver st bv = \<lparr>settle_at_block = hd_index (blk_header (fst bv))
     + reward_settlement_depth (config st), batch_rewards = block_plan ver st bv\<rparr>"

lemma foldl_pay_keeps_head:
  "\<exists>ds. fst (foldl (pay_transaction cfg ver vset b) acc its) = fst acc @ ds"
proof (induction its arbitrary: acc)
  case (Cons it its)
  have pos: "\<exists>ds. snd (foldl (pay_position cfg vset budget full) a ps) = snd a @ ds" for budget full a ps
    by (induction ps arbitrary: a) (auto simp: pay_position_def Let_def, (metis append.assoc snd_conv)+)
  have "\<exists>ds. fst (pay_transaction cfg ver vset b acc it) = fst acc @ ds"
    using pos [of _ _ "(0, fst acc)"]
    by (auto simp: pay_transaction_def Let_def split: option.splits prod.splits) (metis snd_conv)
  then show ?case using Cons.IH [of "pay_transaction cfg ver vset b acc it"] by auto
qed simp

lemma block_plan_not_empty: "block_plan ver st bv \<noteq> []"
proof -
  have "fst (foldl (pay_transaction cfg ver vset b) ([x], r) its) \<noteq> []" for cfg vset b x r its
    using foldl_pay_keeps_head [of cfg ver vset b "([x], r)" its] by auto
  then show ?thesis
    by (auto simp: block_plan_def compute_block_rewards_def Let_def split: prod.splits) (metis fst_conv)
qed

lemma plan_pending_update [simp]:
  "compute_block_rewards ver (st\<lparr>pending_rewards := q\<rparr>) b vs = compute_block_rewards ver st b vs"
  by (simp add: compute_block_rewards_def)

lemma distribute_step:
  assumes "sorted (map settle_at_block (pending_rewards st @ [block_batch ver st (b, vs)]))"
  shows "topo_distribute_rewards ver st b vs =
    (st\<lparr>pending_rewards := filter (\<lambda>x. hd_index (blk_header b) < settle_at_block x)
       (pending_rewards st @ [block_batch ver st (b, vs)])\<rparr>,
     concat (map batch_rewards (filter (\<lambda>x. settle_at_block x \<le> hd_index (blk_header b))
       (pending_rewards st @ [block_batch ver st (b, vs)]))))"
proof -
  have ne: "plan_rewards (compute_block_rewards ver st b vs) \<noteq> []"
    using block_plan_not_empty [of ver st "(b, vs)"] by (simp add: block_plan_def)
  have batch: "\<lparr>settle_at_block = hd_index (blk_header b) + reward_settlement_depth (config st),
      batch_rewards = plan_rewards (compute_block_rewards ver st b vs)\<rparr> = block_batch ver st (b, vs)"
    by (simp add: block_batch_def block_plan_def)
  show ?thesis
    using rewards_queue.pop_sorted [OF assms, of "hd_index (blk_header b)" "[]"] ne
    unfolding topo_distribute_rewards_def settle_matured_rewards_def Let_def
    by (simp add: batch fold_append_rewards del: filter_append)
qed

lemma distribute_all_snoc:
  "distribute_all ver st (xs @ [(b, vs)]) =
     (let (st', outs) = distribute_all ver st xs; (st'', out) = topo_distribute_rewards ver st' b vs
      in (st'', outs @ out))"
  by (induction ver st xs rule: distribute_all.induct) (simp_all add: Let_def split: prod.splits)

lemma filter_le_split:
  fixes f :: "'a \<Rightarrow> nat"
  assumes "sorted (map f xs)" and "i \<le> j"
  shows "filter (\<lambda>x. f x \<le> i) xs @ filter (\<lambda>x. i < f x \<and> f x \<le> j) xs = filter (\<lambda>x. f x \<le> j) xs"
  using assms
proof (induction xs)
  case (Cons x xs)
  show ?case
  proof (cases "f x \<le> i")
    case False
    then have "filter (\<lambda>y. f y \<le> i) xs = []" using Cons.prems(1) by (auto simp: filter_empty_conv)
    moreover have "filter (\<lambda>y. i < f y \<and> f y \<le> j) xs = filter (\<lambda>y. f y \<le> j) xs"
      using False Cons.prems(1) by (intro filter_cong) auto
    ultimately show ?thesis using False by simp
  qed (use Cons in auto)
qed simp

lemma distribute_all_eq:
  assumes "pending_rewards st = []" and "xs \<noteq> []"
    and "sorted (map (\<lambda>bv. hd_index (blk_header (fst bv))) xs)"
  shows "distribute_all ver st xs =
    (st\<lparr>pending_rewards := filter (\<lambda>x. hd_index (blk_header (fst (last xs))) < settle_at_block x)
        (map (block_batch ver st) xs)\<rparr>,
     concat (map batch_rewards (filter (\<lambda>x. settle_at_block x \<le> hd_index (blk_header (fst (last xs))))
        (map (block_batch ver st) xs))))"
  using assms(2,3)
proof (induction xs rule: rev_induct)
  case (snoc bv xs)
  obtain b vs where bv: "bv = (b, vs)" by fastforce
  let ?i = "hd_index (blk_header b)" and ?f = "settle_at_block"
  let ?q = "map (block_batch ver st) xs"
  have s: "sorted (map ?f (?q @ [block_batch ver st (b, vs)]))"
    using snoc.prems(2) by (auto simp: bv sorted_append block_batch_def comp_def sorted_map)
  show ?case
  proof (cases "xs = []")
    case True
    have e: "pending_rewards st = []" by (rule assms(1))
    show ?thesis
      using s e distribute_step [of st ver b vs]
      by (simp add: True bv block_batch_def Let_def)
  next
    case False
    let ?l = "hd_index (blk_header (fst (last xs)))"
    let ?st = "st\<lparr>pending_rewards := filter (\<lambda>x. ?l < ?f x) ?q\<rparr>"
    have le: "?l \<le> ?i" using snoc.prems(2) False by (auto simp: bv sorted_append)
    have "sorted (map (\<lambda>bv. hd_index (blk_header (fst bv))) xs)"
      using snoc.prems(2) by (simp add: sorted_append)
    note IH = snoc.IH [OF False this]
    have batch: "block_batch ver ?st (b, vs) = block_batch ver st (b, vs)"
      by (simp add: block_batch_def block_plan_def)
    let ?n = "block_batch ver st (b, vs)"
    have sq: "sorted (map ?f ?q)" and qn: "\<forall>x \<in> set ?q. ?f x \<le> ?f ?n"
      using s by (auto simp: sorted_append)
    have s2: "sorted (map ?f (filter (\<lambda>x. ?l < ?f x) ?q @ [?n]))"
      using sq qn by (auto simp: sorted_append sorted_filter)
    have step: "topo_distribute_rewards ver ?st b vs =
        (st\<lparr>pending_rewards := filter (\<lambda>x. ?i < ?f x) (filter (\<lambda>x. ?l < ?f x) ?q @ [?n])\<rparr>,
         concat (map batch_rewards (filter (\<lambda>x. ?f x \<le> ?i) (filter (\<lambda>x. ?l < ?f x) ?q @ [?n]))))"
      using distribute_step [of ?st ver b vs] s2 by (simp add: batch del: filter_filter filter_append)
    have rest: "filter (\<lambda>x. ?l < ?f x \<and> ?i < ?f x) ?q = filter (\<lambda>x. ?i < ?f x) ?q"
      using le by (intro filter_cong) auto
    have "concat (map batch_rewards (filter (\<lambda>x. ?f x \<le> ?l) ?q))
        @ concat (map batch_rewards (filter (\<lambda>x. ?l < ?f x \<and> ?f x \<le> ?i) ?q))
        = concat (map batch_rewards (filter (\<lambda>x. ?f x \<le> ?i) ?q))"
      using arg_cong [OF filter_le_split [OF sq le], of "\<lambda>xs. concat (map batch_rewards xs)"]
      by (simp only: map_append concat_append)
    then have out: "concat (map batch_rewards (filter (\<lambda>x. ?f x \<le> ?l) ?q))
        @ concat (map batch_rewards (filter (\<lambda>x. ?l < ?f x \<and> ?f x \<le> ?i) ?q)) @ zs
        = concat (map batch_rewards (filter (\<lambda>x. ?f x \<le> ?i) ?q)) @ zs" for zs
      by (simp only: append_assoc [symmetric])
    show ?thesis
      unfolding bv distribute_all_snoc IH Let_def prod.case step
      by (simp add: rest out del: filter_map)
  qed
qed simp

text \<open>
  C26.  Rewards are settled exactly once, in order, and not before their depth.  After a
  sequence of blocks with non-decreasing indices, what has been paid out is exactly the
  planned rewards of the blocks that lie at least the settlement depth below the last one,
  and the plans of all other blocks are still pending.
\<close>

theorem rewards_settle_exactly_once:
  assumes "pending_rewards st = []" and "xs \<noteq> []"
    and "sorted (map (\<lambda>bv. hd_index (blk_header (fst bv))) xs)"
  shows "let now = hd_index (blk_header (fst (last xs)));
      matured = (\<lambda>bv. hd_index (blk_header (fst bv)) + reward_settlement_depth (config st) \<le> now);
      (st', paid) = distribute_all ver st xs in
    paid = concat (map (block_plan ver st) (filter matured xs))
    \<and> pending_rewards st' = map (block_batch ver st) (filter (\<lambda>bv. \<not> matured bv) xs)"
  unfolding distribute_all_eq [OF assms]
  by (simp add: Let_def filter_map comp_def block_batch_def not_le)

section \<open>Activation of score roots\<close>

fun run_epochs ::
  "path_verifier \<Rightarrow> topo_state \<Rightarrow> (block list \<times> validator list) list \<Rightarrow> topo_state" where
  "run_epochs ver st [] = st"
| "run_epochs ver st ((bs, vs) # es) = run_epochs ver (topo_on_epoch_end ver st bs vs) es"

lemma run_epochs_snoc:
  "run_epochs ver st (es @ [(bs, vs)]) = topo_on_epoch_end ver (run_epochs ver st es) bs vs"
  by (induction ver st es rule: run_epochs.induct) simp_all

text \<open>The scores produced in epoch \<open>e\<close> of a run.\<close>

definition produced_scores ::
  "path_verifier \<Rightarrow> topo_state \<Rightarrow> (block list \<times> validator list) list \<Rightarrow> nat \<Rightarrow> (address, real) hash_map" where
  "produced_scores ver st es e = score_history (run_epochs ver st (take (Suc e) es))"

lemma freeze_fields [simp]:
  "config (freeze_proposer_weights st vs) = config st"
  "score_history (freeze_proposer_weights st vs) = score_history st"
  "active_score_epoch (freeze_proposer_weights st vs) = active_score_epoch st"
  "active_score_history (freeze_proposer_weights st vs) = active_score_history st"
  "next_epoch (freeze_proposer_weights st vs) = next_epoch st"
  "pending_score_roots (freeze_proposer_weights st vs) = pending_score_roots st"
  by (simp_all add: freeze_proposer_weights_def Let_def)

definition score_root_of ::
  "path_verifier \<Rightarrow> topo_state \<Rightarrow> (block list \<times> validator list) list \<Rightarrow> nat \<Rightarrow> pending_score_root" where
  "score_root_of ver st es e = \<lparr>produced_epoch = e,
     activates_at_epoch = e + score_activation_delay_epochs (config st),
     root_scores = produced_scores ver st es e\<rparr>"

definition activation_state ::
  "path_verifier \<Rightarrow> topo_state \<Rightarrow> (block list \<times> validator list) list \<Rightarrow> topo_state \<Rightarrow> bool" where
  "activation_state ver st es cur \<longleftrightarrow>
     (let n = length es; d = score_activation_delay_epochs (config st) in
      config cur = config st \<and> next_epoch cur = n
      \<and> active_score_epoch cur = (if n < d then None else Some (n - d))
      \<and> active_score_history cur = (if n < d then [] else produced_scores ver st es (n - d))
      \<and> pending_score_roots cur = map (score_root_of ver st es) [Suc n - d..<n])"

lemma score_roots_prefix:
  "j \<le> length es \<Longrightarrow> map (score_root_of ver st (es @ [x])) [i..<j] = map (score_root_of ver st es) [i..<j]"
  by (auto simp: score_root_of_def produced_scores_def)

lemma activation_step:
  assumes inv: "activation_state ver st es cur"
    and d: "1 \<le> score_activation_delay_epochs (config st)"
    and cur: "cur = run_epochs ver st es"
  shows "activation_state ver st (es @ [(bs, vs)]) (topo_on_epoch_end ver cur bs vs)"
proof -
  let ?d = "score_activation_delay_epochs (config st)" and ?n = "length es"
  let ?es = "es @ [(bs, vs)]" and ?new = "topo_on_epoch_end ver cur bs vs"
  let ?root = "score_root_of ver st ?es"
  let ?st1 = "update_scores_from_epoch ver cur bs vs"
  have c: "config cur = config st" "next_epoch cur = ?n"
    "active_score_epoch cur = (if ?n < ?d then None else Some (?n - ?d))"
    "active_score_history cur = (if ?n < ?d then [] else produced_scores ver st es (?n - ?d))"
    "pending_score_roots cur = map (score_root_of ver st es) [Suc ?n - ?d..<?n]"
    using inv by (simp_all add: activation_state_def Let_def)
  have u: "config ?st1 = config cur" "pending_score_roots ?st1 = pending_score_roots cur"
    "active_score_epoch ?st1 = active_score_epoch cur"
    "active_score_history ?st1 = active_score_history cur"
    by (simp_all add: update_scores_from_epoch_def Let_def)
  have hist: "score_history ?new = score_history ?st1"
    by (simp add: topo_on_epoch_end_def Let_def enqueue_score_root_def
        activate_score_roots_for_epoch_def split: prod.splits)
  have "produced_scores ver st ?es ?n = score_history ?new"
    by (simp add: produced_scores_def run_epochs_snoc cur)
  then have root: "\<lparr>produced_epoch = ?n, activates_at_epoch = ?n + ?d, root_scores = score_history ?st1\<rparr>
      = ?root ?n"
    by (simp add: score_root_of_def hist)
  have q: "pending_score_roots cur @ [?root ?n] = map ?root [Suc ?n - ?d..<Suc ?n]"
    unfolding c(5) score_roots_prefix [OF order_refl, symmetric, of _ _ _ _ "(bs, vs)"]
    using d by (subst upt_Suc_append) auto
  obtain a p r where pop: "pop_roots (Suc ?n) (map ?root [Suc ?n - ?d..<Suc ?n])
      (active_score_epoch cur, active_score_history cur) = ((a, p), r)"
    by (metis surj_pair)
  have new: "config ?new = config st" "next_epoch ?new = Suc ?n" "active_score_epoch ?new = a"
    "active_score_history ?new = p" "pending_score_roots ?new = r"
    using pop root c(1,2) u unfolding q [symmetric]
    by (simp_all add: topo_on_epoch_end_def Let_def enqueue_score_root_def
        activate_score_roots_for_epoch_def)
  have due: "activates_at_epoch (?root e) = e + ?d" for e by (simp add: score_root_of_def)
  show ?thesis
  proof (cases "Suc ?n < ?d")
    case True
    then have "pop_roots (Suc ?n) (map ?root [Suc ?n - ?d..<Suc ?n])
        (active_score_epoch cur, active_score_history cur)
        = ((None, []), map ?root [Suc ?n - ?d..<Suc ?n])"
      using c(3,4) by (subst roots_queue.pop_none_due) (auto simp: due)
    with pop new True show ?thesis by (simp add: activation_state_def Let_def)
  next
    case False
    then have "[Suc ?n - ?d..<Suc ?n] = (Suc ?n - ?d) # [Suc (Suc ?n - ?d)..<Suc ?n]"
      using d by (subst upt_rec) auto
    moreover have "pop_roots (Suc ?n) (map ?root [Suc (Suc ?n - ?d)..<Suc ?n]) x
        = (x, map ?root [Suc (Suc ?n - ?d)..<Suc ?n])" for x
      using False by (subst roots_queue.pop_none_due) (auto simp: due)
    ultimately have "((a, p), r) = ((Some (Suc ?n - ?d), produced_scores ver st ?es (Suc ?n - ?d)),
        map ?root [Suc (Suc ?n) - ?d..<Suc ?n])"
      using pop False by (simp add: due Suc_diff_le del: upt_Suc) (simp add: score_root_of_def)
    with new False show ?thesis by (simp add: activation_state_def Let_def)
  qed
qed

lemma config_validateD:
  assumes "config_validate c = Inr u"
  shows "1 \<le> target_depth c" "0 < beta c" "beta c \<le> 1" "0 < saturation_k c"
    "0 < score_cost_reference c" "0 < score_floor_kappa c" "0 < bonus_zeta c"
    "0 \<le> proposer_fee_ratio c" "proposer_fee_ratio c < 1" "0 \<le> eta c" "0 \<le> bonus_cap c"
    "1 \<le> score_activation_delay_epochs c" "2 \<le> max_path_hops c"
  using assms unfolding config_validate_def by (auto split: if_split_asm)

lemma topo_newD:
  assumes "topo_new base cfg = Inr st"
  shows "config_validate cfg = Inr ()" "config st = cfg" "next_epoch st = 0"
    "active_score_epoch st = None" "active_score_history st = []" "pending_score_roots st = []"
    "score_history st = []" "pending_rewards st = []" "frozen_proposer_weights st = []"
  using assms by (auto simp: topo_new_def split: sum.splits)

lemma activation_run:
  assumes "topo_new base cfg = Inr st"
  shows "activation_state ver st es (run_epochs ver st es)"
proof (induction es rule: rev_induct)
  case Nil
  then show ?case
    using config_validateD(12) [OF topo_newD(1) [OF assms]] topo_newD [OF assms]
    by (simp add: activation_state_def Let_def)
next
  case (snoc e es)
  obtain bs vs where e: "e = (bs, vs)" by fastforce
  have "1 \<le> score_activation_delay_epochs (config st)"
    using config_validateD(12) [OF topo_newD(1) [OF assms]] topo_newD(2) [OF assms] by simp
  from activation_step [OF snoc.IH this HOL.refl, of bs vs] show ?case
    by (simp add: e run_epochs_snoc)
qed

text \<open>
  C27.  Scores take effect after exactly the configured delay.  After \<open>n\<close> epochs of any
  blocks and validator sets, the scores behind the proposer weights are those produced in
  epoch \<open>n - delay\<close>, and none before the delay has passed; the roots of the epochs in
  between are queued.
\<close>

theorem scores_activate_after_delay:
  assumes "topo_new base cfg = Inr st"
  shows "let n = length es; d = score_activation_delay_epochs cfg; cur = run_epochs ver st es in
    1 \<le> d \<and> next_epoch cur = n
    \<and> active_score_epoch cur = (if n < d then None else Some (n - d))
    \<and> active_score_history cur = (if n < d then [] else produced_scores ver st es (n - d))
    \<and> map produced_epoch (pending_score_roots cur) = [Suc n - d..<n]"
proof -
  show ?thesis
    using activation_run [OF assms, of ver es] topo_newD(2) [OF assms]
      config_validateD(12) [OF topo_newD(1) [OF assms]]
    by (simp add: activation_state_def Let_def comp_def score_root_of_def)
qed

section \<open>Frozen proposer weights\<close>

definition total_stake :: "validator list \<Rightarrow> real" where
  "total_stake vs = sum_list (map (\<lambda>v. max (v_stake v) 0) vs)"

definition stake_share :: "validator list \<Rightarrow> validator \<Rightarrow> real" where
  "stake_share vs v = max (v_stake v) 0 / total_stake vs"

lemma normalized_stake_eq:
  assumes "distinct (map v_address vs)" and "0 < total_stake vs"
  shows "normalized_stake vs = map (\<lambda>v. (v_address v, stake_share vs v)) vs"
proof -
  have "hm_collect (map (\<lambda>v. (v_address v, max (v_stake v) 0)) vs)
      = map (\<lambda>v. (v_address v, max (v_stake v) 0)) vs"
    using assms(1) by (intro hm_collect_distinct) (simp add: comp_def)
  with assms(2) show ?thesis
    by (simp add: normalized_stake_def normalize_map_def hm_values_def comp_def Let_def
        stake_share_def total_stake_def)
qed

lemma stake_share_nonneg: "0 \<le> total_stake vs \<Longrightarrow> 0 \<le> stake_share vs v"
  by (simp add: stake_share_def)

lemma sum_stake_share: "0 < total_stake vs \<Longrightarrow> (\<Sum>v\<leftarrow>vs. stake_share vs v) = 1"
  unfolding stake_share_def sum_list_div by (simp add: total_stake_def)

definition active_scores :: "topo_state \<Rightarrow> validator list \<Rightarrow> (address, real) hash_map" where
  "active_scores st vs =
     damped_score_for_active_set (active_score_history st) vs (score_floor_kappa (config st))"

definition raw_weight :: "topo_state \<Rightarrow> validator list \<Rightarrow> validator \<Rightarrow> real" where
  "raw_weight st vs v = validator_weight (config st) (normalized_stake vs) (active_scores st vs) v"

definition max_bonus :: "topo_state \<Rightarrow> real" where
  "max_bonus st = eta (config st) * bonus_cap (config st)"

lemma max_bonus_nonneg: "config_validate (config st) = Inr () \<Longrightarrow> 0 \<le> max_bonus st"
  by (simp add: max_bonus_def config_validateD)

lemma raw_weight_bounds:
  assumes "config_validate (config st) = Inr ()" "distinct (map v_address vs)"
    "0 < total_stake vs" "v \<in> set vs"
  shows "stake_share vs v \<le> raw_weight st vs v"
    "raw_weight st vs v \<le> (1 + max_bonus st) * stake_share vs v"
proof -
  let ?b = "validator_bonus (config st) (normalized_stake vs) (active_scores st vs) v"
  note c = config_validateD(10,11) [OF assms(1)]
  have share: "hm_get_or 0 (normalized_stake vs) (v_address v) = stake_share vs v"
    using assms by (simp add: normalized_stake_eq hm_get_or_map)
  have b: "0 \<le> ?b" "?b \<le> bonus_cap (config st)"
    using c by (auto simp: validator_bonus_def Let_def unit_interval bonus_le_cap)
  have s: "0 \<le> stake_share vs v" using assms(3) by (simp add: stake_share_nonneg)
  have w: "raw_weight st vs v = stake_share vs v * (1 + eta (config st) * ?b)"
    by (simp add: raw_weight_def validator_weight_def share)
  have "0 \<le> eta (config st) * ?b" "eta (config st) * ?b \<le> max_bonus st"
    using b c by (auto simp: max_bonus_def intro: mult_left_mono)
  with s show "stake_share vs v \<le> raw_weight st vs v"
    "raw_weight st vs v \<le> (1 + max_bonus st) * stake_share vs v"
    unfolding w by (auto simp: mult.commute [of "1 + max_bonus st"] intro!: mult_left_mono
        simp: mult_le_cancel_left1)
qed

lemma frozen_weights_eq:
  assumes "config_validate (config st) = Inr ()" "distinct (map v_address vs)" "0 < total_stake vs"
  defines "W \<equiv> sum_list (map (raw_weight st vs) vs)"
  shows "frozen_proposer_weights (freeze_proposer_weights st vs)
      = map (\<lambda>v. (v_address v, raw_weight st vs v / W)) vs" and "1 \<le> W"
proof -
  have "sum_list (map (stake_share vs) vs) \<le> W"
    unfolding W_def using raw_weight_bounds(1) [OF assms(1-3)] by (intro sum_list_map_mono)
  then show one: "1 \<le> W" using sum_stake_share [OF assms(3)] by simp
  have "foldl (\<lambda>m v. hm_insert (v_address v) (raw_weight st vs v) m) [] vs
      = map (\<lambda>v. (v_address v, raw_weight st vs v)) vs"
    using foldl_insert_distinct [of "[]" v_address vs] assms(2) by simp
  with one show "frozen_proposer_weights (freeze_proposer_weights st vs)
      = map (\<lambda>v. (v_address v, raw_weight st vs v / W)) vs"
    by (simp add: freeze_proposer_weights_def Let_def raw_weight_def [abs_def] active_scores_def
        normalize_map_def hm_values_def comp_def W_def)
qed

abbreviation frozen_weight :: "topo_state \<Rightarrow> validator list \<Rightarrow> validator \<Rightarrow> real" where
  "frozen_weight st vs v \<equiv>
     hm_get_or 0 (frozen_proposer_weights (freeze_proposer_weights st vs)) (v_address v)"

lemma frozen_weight_eq:
  assumes "config_validate (config st) = Inr ()" "distinct (map v_address vs)" "0 < total_stake vs"
    "v \<in> set vs"
  shows "frozen_weight st vs v = raw_weight st vs v / sum_list (map (raw_weight st vs) vs)"
  unfolding frozen_weights_eq(1) [OF assms(1-3)] by (rule hm_get_or_map [OF assms(2,4)])

text \<open>
  C21.  Frozen weights are a probability distribution that follows stake.  For a validated
  configuration, distinct validators and positive total stake, the frozen weights sum to
  one and each lies within the factor \<open>1 + eta * cap\<close> of the validator's stake share.
\<close>

theorem frozen_weights_distribution:
  assumes "config_validate (config st) = Inr ()" "distinct (map v_address vs)" "0 < total_stake vs"
  shows "(\<Sum>v\<leftarrow>vs. frozen_weight st vs v) = 1
    \<and> (\<forall>v \<in> set vs. stake_share vs v / (1 + max_bonus st) \<le> frozen_weight st vs v
         \<and> frozen_weight st vs v \<le> (1 + max_bonus st) * stake_share vs v)"
proof -
  let ?W = "sum_list (map (raw_weight st vs) vs)"
  note W1 = frozen_weights_eq(2) [OF assms] and c0 = max_bonus_nonneg [OF assms(1)]
  have "?W \<le> sum_list (map (\<lambda>v. (1 + max_bonus st) * stake_share vs v) vs)"
    using raw_weight_bounds(2) [OF assms] by (intro sum_list_map_mono)
  then have W2: "?W \<le> 1 + max_bonus st"
    using sum_stake_share [OF assms(3)] by (simp add: sum_list_mult)
  have "map (frozen_weight st vs) vs = map (\<lambda>v. raw_weight st vs v / ?W) vs"
    using frozen_weight_eq [OF assms] by simp
  then have "(\<Sum>v\<leftarrow>vs. frozen_weight st vs v) = 1"
    using W1 by (simp only: sum_list_div) simp
  moreover have "stake_share vs v / (1 + max_bonus st) \<le> frozen_weight st vs v
      \<and> frozen_weight st vs v \<le> (1 + max_bonus st) * stake_share vs v" if v: "v \<in> set vs" for v
  proof -
    have s: "0 \<le> stake_share vs v" using assms(3) by (simp add: stake_share_nonneg)
    note b = raw_weight_bounds [OF assms v]
    have "stake_share vs v / (1 + max_bonus st) \<le> raw_weight st vs v / ?W"
      using b(1) s W1 W2 c0 by (intro frac_le) auto
    moreover have "raw_weight st vs v / ?W \<le> raw_weight st vs v / 1"
      using b(1) s W1 by (intro divide_left_mono) auto
    ultimately show ?thesis using b(2) by (simp add: frozen_weight_eq [OF assms v])
  qed
  ultimately show ?thesis by blast
qed

lemma share_bound:
  fixes a c x y :: real
  assumes "0 \<le> a" "a \<le> 1" "0 \<le> c" "x \<le> (1 + c) * a" "1 - a \<le> y" "0 < x + y"
  shows "x / (x + y) \<le> a * (1 + c) / (1 + a * c)"
proof -
  have "x * (1 - a) \<le> (1 + c) * a * (1 - a)" using assms by (intro mult_right_mono) auto
  also have "\<dots> \<le> (1 + c) * a * y" using assms by (intro mult_left_mono) auto
  finally have "x * (1 + a * c) \<le> a * (1 + c) * (x + y)" by (simp add: algebra_simps)
  moreover have "0 < 1 + a * c" using assms by (simp add: add_pos_nonneg)
  ultimately show ?thesis using assms(6) by (simp add: frac_le_eq divide_le_0_iff)
qed

lemma sum_list_partition:
  fixes f :: "'a \<Rightarrow> real"
  shows "sum_list (map f xs)
    = sum_list (map f (filter A xs)) + sum_list (map f (filter (\<lambda>x. \<not> A x) xs))"
  by (induction xs) auto

text \<open>
  C20.  The advantage of any coalition is bounded by its stake.  Validators that together
  hold the stake share \<open>a\<close> are elected with frozen weight at most
  \<open>a (1 + c) / (1 + a c)\<close> with \<open>c = eta * cap\<close>, whatever the scores are.
\<close>

theorem coalition_weight_bound:
  assumes "config_validate (config st) = Inr ()" "distinct (map v_address vs)" "0 < total_stake vs"
  shows "let a = sum_list (map (stake_share vs) (filter A vs)); c = max_bonus st in
    sum_list (map (frozen_weight st vs) (filter A vs)) \<le> a * (1 + c) / (1 + a * c)"
proof -
  define c r s where "c = max_bonus st" and "r = raw_weight st vs" and "s = stake_share vs"
  define a x where "a = sum_list (map s (filter A vs))" and "x = sum_list (map r (filter A vs))"
  define B where "B = filter (\<lambda>v. \<not> A v) vs"
  define y where "y = sum_list (map r B)"
  have W: "sum_list (map r vs) = x + y" "0 < x + y"
    using frozen_weights_eq(2) [OF assms] sum_list_partition [of r vs A]
    by (simp_all add: x_def y_def r_def B_def)
  have sums: "a + sum_list (map s B) = 1"
    using sum_stake_share [OF assms(3)] sum_list_partition [of s vs A]
    by (simp add: a_def B_def s_def)
  have s0: "0 \<le> s v" for v using assms(3) by (simp add: s_def stake_share_nonneg)
  have b: "s v \<le> r v" "r v \<le> (1 + c) * s v" if "v \<in> set vs" for v
    using raw_weight_bounds [OF assms that] by (simp_all add: s_def r_def c_def)
  have "x \<le> sum_list (map (\<lambda>v. (1 + c) * s v) (filter A vs))"
    unfolding x_def using b(2) by (intro sum_list_map_mono) simp
  then have x: "x \<le> (1 + c) * a" by (simp only: sum_list_mult a_def)
  have "sum_list (map s B) \<le> y"
    unfolding y_def B_def using b(1) by (intro sum_list_map_mono) simp
  then have y: "1 - a \<le> y" using sums by simp
  have a: "0 \<le> a" "a \<le> 1"
    using sums sum_list_nonneg_map [of "filter A vs" s] sum_list_nonneg_map [of B s] s0
    by (simp_all add: a_def)
  have "map (frozen_weight st vs) (filter A vs) = map (\<lambda>v. r v / sum_list (map r vs)) (filter A vs)"
    using frozen_weight_eq [OF assms] by (simp add: r_def)
  then have "sum_list (map (frozen_weight st vs) (filter A vs)) = x / (x + y)"
    by (simp only: sum_list_div x_def [symmetric] W(1))
  moreover have "x / (x + y) \<le> a * (1 + c) / (1 + a * c)"
    using share_bound [OF a max_bonus_nonneg [OF assms(1), folded c_def] x y W(2)] .
  ultimately show ?thesis by (simp only: Let_def a_def s_def c_def)
qed

section \<open>Concrete instances\<close>

lemma config_default_valid: "config_validate topostake_config_default = Inr ()"
  by (simp add: config_validate_def topostake_config_default_def is_white_def)

definition sample_topo :: topo_state where
  "sample_topo = (case topo_new 1 topostake_config_default of Inr st \<Rightarrow> st)"

definition sample_validators :: "validator list" where
  "sample_validators =
     [\<lparr>v_address = ''m'', v_stake = 3, v_hash_power = 0\<rparr>, \<lparr>v_address = ''n'', v_stake = 1, v_hash_power = 0\<rparr>]"

lemma sample_topo_new: "topo_new 1 topostake_config_default = Inr sample_topo"
  by (simp add: sample_topo_def topo_new_def config_default_valid)

lemma sample_topo_config [simp]: "config sample_topo = topostake_config_default"
  using topo_newD(2) [OF sample_topo_new] .

lemma sample_topo_fields [simp]:
  "pending_rewards sample_topo = []" "active_score_history sample_topo = []"
  "frozen_proposer_weights sample_topo = []"
  using topo_newD [OF sample_topo_new] by simp_all

lemma sample_tx_fee [simp]: "tx_fee sample_tx = 1"
  by (simp add: sample_tx_def with_costs_def Let_def)

lemma block_rewards_conserve_fees_witness:
  "let plan = compute_block_rewards (\<lambda>_ _ _ _. True) sample_topo (sample_blk 1 '''' [sample_tx])
        sample_validators; F = plan_total_fee plan; theta = proposer_fee_ratio (config sample_topo) in
    F = sum_list (map tx_fee (body_transactions (blk_body (sample_blk 1 '''' [sample_tx]))))
    \<and> plan_proposer_reward plan = base_reward sample_topo + theta * F
    \<and> plan_relay_reward plan + plan_burned_relay_fee plan = (1 - theta) * F
    \<and> 0 \<le> plan_relay_reward plan \<and> 0 \<le> plan_burned_relay_fee plan
    \<and> sum_list (map bd_amount (plan_rewards plan)) + plan_burned_relay_fee plan = base_reward sample_topo + F
    \<and> (\<exists>ds. plan_rewards plan
          = \<lparr>bd_address = hd_miner (blk_header (sample_blk 1 '''' [sample_tx])),
             bd_amount = plan_proposer_reward plan\<rparr> # ds
        \<and> list_all (\<lambda>d. bd_address d \<in> set (map v_address sample_validators) \<and> 0 < bd_amount d) ds)"
  unfolding list_all_iff
  by (rule block_rewards_conserve_fees) (simp_all add: config_default_valid)

lemma rewards_settle_exactly_once_witness:
  "let xs = map (\<lambda>i. (sample_blk i '''' [sample_tx], sample_validators)) [1, 2, 3, 4, 5];
      ver = (\<lambda>_ _ _ _. True) in
    let now = hd_index (blk_header (fst (last xs)));
      matured = (\<lambda>bv. hd_index (blk_header (fst bv)) + reward_settlement_depth (config sample_topo) \<le> now);
      (st', paid) = distribute_all ver sample_topo xs in
    paid = concat (map (block_plan ver sample_topo) (filter matured xs))
    \<and> pending_rewards st' = map (block_batch ver sample_topo) (filter (\<lambda>bv. \<not> matured bv) xs)"
  unfolding Let_def [of "map _ _"] Let_def [of "\<lambda>_ _ _ _. True"]
  by (rule rewards_settle_exactly_once) simp_all

lemma scores_activate_after_delay_witness:
  "let es = replicate 5 ([sample_blk 1 '''' [sample_tx]], sample_validators);
      ver = (\<lambda>_ _ _ _. True) in
    let n = length es; d = score_activation_delay_epochs topostake_config_default;
      cur = run_epochs ver sample_topo es in
    1 \<le> d \<and> next_epoch cur = n
    \<and> active_score_epoch cur = (if n < d then None else Some (n - d))
    \<and> active_score_history cur = (if n < d then [] else produced_scores ver sample_topo es (n - d))
    \<and> map produced_epoch (pending_score_roots cur) = [Suc n - d..<n]"
  unfolding Let_def [of "replicate _ _"] Let_def [of "\<lambda>_ _ _ _. True"]
  by (rule scores_activate_after_delay [OF sample_topo_new])

lemma sample_validators_ok:
  "distinct (map v_address sample_validators)" "0 < total_stake sample_validators"
  by (simp_all add: sample_validators_def total_stake_def)

lemma frozen_weights_distribution_witness:
  "(\<Sum>v\<leftarrow>sample_validators. frozen_weight sample_topo sample_validators v) = 1
    \<and> list_all (\<lambda>v. stake_share sample_validators v / (1 + max_bonus sample_topo)
           \<le> frozen_weight sample_topo sample_validators v
         \<and> frozen_weight sample_topo sample_validators v
           \<le> (1 + max_bonus sample_topo) * stake_share sample_validators v) sample_validators"
  unfolding list_all_iff
  by (rule frozen_weights_distribution) (simp_all add: config_default_valid sample_validators_ok)

lemma coalition_weight_bound_witness:
  "let A = (\<lambda>v. v_address v = ''n'') in
    let a = sum_list (map (stake_share sample_validators) (filter A sample_validators));
      c = max_bonus sample_topo in
    sum_list (map (frozen_weight sample_topo sample_validators) (filter A sample_validators))
      \<le> a * (1 + c) / (1 + a * c)"
  unfolding Let_def [of "\<lambda>v. v_address v = ''n''"]
  by (rule coalition_weight_bound) (simp_all add: config_default_valid sample_validators_ok)

end
