(* ===== verification/Topo_Election.thy ===== *)
theory Topo_Election
  imports Topo_Properties
begin

text \<open>
  The election of a proposer by the TopoStake engine: it is inverse sampling of the frozen
  weights, and dividing a validator into several identities does not raise its chance.
\<close>

section \<open>The election interface\<close>

interpretation topo_scan: weighted_scan
  "\<lambda>draw acc. draw \<le> acc" "\<lambda>v. hm_get_or 0 weights (v_address v)" "scan_weights weights"
  for weights
  by unfold_locales (simp_all add: Let_def)

lemma select_member:
  assumes "select_with_frozen_weights gen_range st vs seed = (st', Inr v)"
  shows "v \<in> set vs"
  using assms
  by (auto simp: select_with_frozen_weights_def Let_def dest: topo_scan.scan_member
      split: if_splits option.splits)

interpretation topo_election: proposer_election "topo_select_proposer gen_range" for gen_range
proof
  show "v \<in> set vs" if "topo_select_proposer gen_range st vs seed = Some (st', Inr v)" for st vs seed st' v
    using that by (simp add: topo_select_proposer_def select_member)
  show "\<exists>e. r = Inl e" if "topo_select_proposer gen_range st [] seed = Some (st', r)" for st seed st' r
    using that by (auto simp: topo_select_proposer_def select_with_frozen_weights_def)
qed

section \<open>Inverse sampling\<close>

definition cumulative_weight :: "topo_state \<Rightarrow> validator list \<Rightarrow> nat \<Rightarrow> real" where
  "cumulative_weight st vs i = sum_list (map (frozen_weight st vs) (take i vs))"

lemma raw_weight_nonneg:
  assumes "config_validate (config st) = Inr ()" "distinct (map v_address vs)" "0 < total_stake vs"
    "v \<in> set vs"
  shows "0 \<le> raw_weight st vs v"
  using raw_weight_bounds(1) [OF assms] stake_share_nonneg [of vs v] assms(3) by simp

lemma frozen_weight_nonneg:
  assumes "config_validate (config st) = Inr ()" "distinct (map v_address vs)" "0 < total_stake vs"
    "v \<in> set vs"
  shows "0 \<le> frozen_weight st vs v"
  using raw_weight_nonneg [OF assms] frozen_weights_eq(2) [OF assms(1-3)]
  by (simp add: frozen_weight_eq [OF assms])

lemma sum_frozen_weights:
  assumes "config_validate (config st) = Inr ()" "distinct (map v_address vs)" "0 < total_stake vs"
  shows "(\<Sum>v\<leftarrow>vs. frozen_weight st vs v) = 1"
proof -
  have "map (frozen_weight st vs) vs
      = map (\<lambda>v. raw_weight st vs v / sum_list (map (raw_weight st vs) vs)) vs"
    using frozen_weight_eq [OF assms] by simp
  then show ?thesis
    using frozen_weights_eq(2) [OF assms] by (simp only: sum_list_div) simp
qed

lemma cumulative_weight_mono:
  assumes "config_validate (config st) = Inr ()" "distinct (map v_address vs)" "0 < total_stake vs"
    "i \<le> j"
  shows "cumulative_weight st vs i \<le> cumulative_weight st vs j"
proof -
  have "take j vs = take i vs @ take (j - i) (drop i vs)"
    using assms(4) by (metis le_add_diff_inverse take_add)
  moreover have "0 \<le> sum_list (map (frozen_weight st vs) (take (j - i) (drop i vs)))"
    by (intro sum_list_nonneg_map frozen_weight_nonneg [OF assms(1-3)])
      (meson in_set_dropD in_set_takeD)
  ultimately show ?thesis by (simp add: cumulative_weight_def)
qed

lemma select_fresh:
  assumes "config_validate (config st) = Inr ()" "distinct (map v_address vs)" "0 < total_stake vs"
    "frozen_proposer_weights st = []"
  shows "select_with_frozen_weights gen_range st vs seed
    = (freeze_proposer_weights st vs,
       case scan_weights (frozen_proposer_weights (freeze_proposer_weights st vs))
              (gen_range seed 1) 0 vs of
         Some v \<Rightarrow> Inr v | None \<Rightarrow> Inr (last vs))"
proof -
  have "vs \<noteq> []" using assms(3) by (auto simp: total_stake_def)
  then show ?thesis
    using sum_frozen_weights [OF assms(1-3)] assms(4)
    by (simp add: select_with_frozen_weights_def Let_def)
qed


section \<open>Splitting a validator\<close>

text \<open>The weight of a validator with stake share \<open>s\<close> and damped score \<open>x\<close>.\<close>

definition share_weight :: "topostake_config \<Rightarrow> real \<Rightarrow> real \<Rightarrow> real" where
  "share_weight cfg s x =
     s * (1 + eta cfg * (if 0 < s then propagation_bonus (x / s) (bonus_cap cfg) (bonus_zeta cfg) else 0))"

lemma share_weight_mono:
  assumes "0 \<le> eta cfg" "0 \<le> s" "x \<le> y"
  shows "share_weight cfg s x \<le> share_weight cfg s y"
proof (cases "s = 0")
  case False
  then have "x / s \<le> y / s" using assms by (simp add: divide_right_mono)
  with False assms show ?thesis
    by (auto simp: share_weight_def intro!: mult_left_mono bonus_mono)
qed (simp add: share_weight_def)

lemma share_weight_superadditive:
  assumes c: "config_validate cfg = Inr ()" and s: "0 \<le> s" "0 \<le> t" and x: "0 \<le> x" "0 \<le> y"
  shows "share_weight cfg s x + share_weight cfg t y \<le> share_weight cfg (s + t) (x + y)"
proof (cases "s = 0 \<or> t = 0")
  case True
  then show ?thesis
    using share_weight_mono [of cfg s x "x + y"] share_weight_mono [of cfg t y "x + y"]
      config_validateD(10) [OF c] s x
    by (auto simp: share_weight_def)
next
  case False
  let ?f = "\<lambda>s x. s * propagation_bonus (x / s) (bonus_cap cfg) (bonus_zeta cfg)"
  have pos: "0 < s" "0 < t" using False s by auto
  have "?f s x + ?f t y \<le> ?f (s + t) (x + y)"
  proof (cases "0 < bonus_cap cfg")
    case True
    have eq: "?f u z = bonus_cap cfg * (u * z / (bonus_zeta cfg * u + z))" if "0 < u" "0 \<le> z" for u z
      using bonus_perspective [OF that] True config_validateD(7) [OF c] that by auto
    show ?thesis
      using mult_left_mono [OF harmonic_superadditive [OF pos x config_validateD(7) [OF c]], of "bonus_cap cfg"]
        True pos x by (simp only: eq add_pos_pos add_nonneg_nonneg distrib_left) 
  qed (simp add: propagation_bonus_def)
  then have "eta cfg * (?f s x + ?f t y) \<le> eta cfg * ?f (s + t) (x + y)"
    using config_validateD(10) [OF c] by (rule mult_left_mono)
  with pos show ?thesis by (simp add: share_weight_def algebra_simps)
qed
definition score_total :: "topo_state \<Rightarrow> validator list \<Rightarrow> real" where
  "score_total st vs =
     score_floor_kappa (config st) + sum_list (map (positive_score (active_score_history st)) vs)"

lemma raw_weight_share:
  assumes "distinct (map v_address vs)" "0 < total_stake vs" "v \<in> set vs"
  shows "raw_weight st vs v = share_weight (config st) (stake_share vs v)
    (positive_score (active_score_history st) v / score_total st vs)"
proof -
  have "active_scores st vs
      = map (\<lambda>v. (v_address v, positive_score (active_score_history st) v / score_total st vs)) vs"
    using assms(1) unfolding active_scores_def damped_score_for_active_set_def Let_def score_total_def
    by (intro hm_collect_distinct) (simp add: comp_def)
  then have "hm_get_or 0 (active_scores st vs) (v_address v)
      = positive_score (active_score_history st) v / score_total st vs"
    using hm_get_or_map [OF assms(1,3)] by simp
  moreover have "hm_get_or 0 (normalized_stake vs) (v_address v) = stake_share vs v"
    unfolding normalized_stake_eq [OF assms(1,2)] by (rule hm_get_or_map [OF assms(1,3)])
  ultimately show ?thesis
    by (simp add: raw_weight_def validator_weight_def validator_bonus_def share_weight_def Let_def)
qed

text \<open>
  The validator set \<open>ps @ v # qs\<close> in which \<open>v\<close> divides its stake and its score between two
  identities \<open>v1\<close> and \<open>v2\<close>, everything else unchanged.
\<close>

definition split_identity ::
  "topo_state \<Rightarrow> topo_state \<Rightarrow> validator list \<Rightarrow> validator \<Rightarrow> validator list
    \<Rightarrow> validator \<Rightarrow> validator \<Rightarrow> bool" where
  "split_identity st st' ps v qs v1 v2 \<longleftrightarrow>
     config st' = config st
     \<and> (\<forall>u \<in> set ps \<union> set qs. positive_score (active_score_history st') u
          = positive_score (active_score_history st) u)
     \<and> 0 \<le> v_stake v1 \<and> 0 \<le> v_stake v2 \<and> v_stake v1 + v_stake v2 = v_stake v
     \<and> positive_score (active_score_history st') v1 + positive_score (active_score_history st') v2
         = positive_score (active_score_history st) v"

lemma ratio_mono:
  fixes x y z :: real
  assumes "0 \<le> x" "x \<le> y" "0 \<le> z" "0 < x + z"
  shows "x / (x + z) \<le> y / (y + z)"
proof -
  have "x * (y + z) \<le> y * (x + z)" using assms by (simp add: algebra_simps mult_right_mono)
  then show ?thesis using assms by (simp add: divide_le_eq le_divide_eq mult.commute)
qed

lemma positive_score_nonneg [simp]: "0 \<le> positive_score H v"
  by (simp add: positive_score_def)

text \<open>The unnormalised weights after a split: others keep theirs, the two parts lose.\<close>

lemma split_raw_weights:
  assumes valid: "config_validate (config st) = Inr ()"
    and split: "split_identity st st' ps v qs v1 v2"
    and dist: "distinct (map v_address (ps @ v # qs))" "distinct (map v_address (ps @ v1 # v2 # qs))"
    and total: "0 < total_stake (ps @ v # qs)"
  defines "r \<equiv> raw_weight st (ps @ v # qs)" and "r' \<equiv> raw_weight st' (ps @ v1 # v2 # qs)"
  shows "total_stake (ps @ v1 # v2 # qs) = total_stake (ps @ v # qs)"
    and "u \<in> set ps \<union> set qs \<Longrightarrow> r' u = r u" and "r' v1 + r' v2 \<le> r v"
proof -
  let ?vs = "ps @ v # qs" and ?vs' = "ps @ v1 # v2 # qs"
  let ?p = "positive_score (active_score_history st)" and ?p' = "positive_score (active_score_history st')"
  have st: "config st' = config st" "0 \<le> v_stake v1" "0 \<le> v_stake v2"
    "v_stake v = v_stake v1 + v_stake v2" "?p v = ?p' v1 + ?p' v2"
    and others: "u \<in> set ps \<union> set qs \<Longrightarrow> ?p' u = ?p u" for u
    using split by (auto simp: split_identity_def)
  show T: "total_stake ?vs' = total_stake ?vs"
    using st by (simp add: total_stake_def max_def)
  have m: "map ?p' ps = map ?p ps" "map ?p' qs = map ?p qs" using others by simp_all
  have D: "score_total st' ?vs' = score_total st ?vs" using st by (simp add: score_total_def m)
  have share: "stake_share ?vs v = stake_share ?vs' v1 + stake_share ?vs' v2"
    "stake_share ?vs' u = stake_share ?vs u" for u
    using st by (simp_all add: stake_share_def T add_divide_distrib max_absorb1)
  have total': "0 < total_stake ?vs'" using total T by simp
  show "r' u = r u" if "u \<in> set ps \<union> set qs"
    unfolding r_def r'_def using that others [OF that]
    by (auto simp: raw_weight_share [OF dist(1) total] raw_weight_share [OF dist(2) total'] D st share)
  have "0 < score_total st ?vs"
    unfolding score_total_def using config_validateD(6) [OF valid]
    by (intro add_pos_nonneg sum_list_nonneg_map) auto
  then show "r' v1 + r' v2 \<le> r v"
    unfolding r_def r'_def
    using share_weight_superadditive [OF valid, of "stake_share ?vs' v1" "stake_share ?vs' v2"
        "?p' v1 / score_total st ?vs" "?p' v2 / score_total st ?vs"] total'
    by (simp add: raw_weight_share [OF dist(2) total'] raw_weight_share [OF dist(1) total] D st share(1)
        stake_share_nonneg add_divide_distrib)
qed

text \<open>
  C24.  Dividing a validator into two identities never raises its chance of election.  When
  stake and score of a validator are divided between two identities and nothing else
  changes, the frozen weights of the two together are at most the weight of the original.
\<close>

theorem splitting_never_raises_weight:
  assumes valid: "config_validate (config st) = Inr ()"
    and split: "split_identity st st' ps v qs v1 v2"
    and dist: "distinct (map v_address (ps @ v # qs))" "distinct (map v_address (ps @ v1 # v2 # qs))"
    and total: "0 < total_stake (ps @ v # qs)"
  shows "frozen_weight st' (ps @ v1 # v2 # qs) v1 + frozen_weight st' (ps @ v1 # v2 # qs) v2
    \<le> frozen_weight st (ps @ v # qs) v"
proof -
  let ?vs = "ps @ v # qs" and ?vs' = "ps @ v1 # v2 # qs"
  let ?r = "raw_weight st ?vs" and ?r' = "raw_weight st' ?vs'"
  note raw = split_raw_weights [OF assms]
  let ?z = "sum_list (map ?r ps) + sum_list (map ?r qs)"
  have valid': "config_validate (config st') = Inr ()"
    using valid split by (simp add: split_identity_def)
  have total': "0 < total_stake ?vs'" using total raw(1) by simp
  have eqs: "map ?r' ps = map ?r ps" "map ?r' qs = map ?r qs" using raw(2) by simp_all
  have W: "sum_list (map ?r ?vs) = ?r v + ?z" "sum_list (map ?r' ?vs') = ?r' v1 + ?r' v2 + ?z"
    by (simp_all add: eqs)
  note nn = raw_weight_nonneg [OF valid dist(1) total] raw_weight_nonneg [OF valid' dist(2) total']
  have "0 \<le> ?z" using nn(1) by (intro add_nonneg_nonneg sum_list_nonneg_map) auto
  moreover have "0 < ?r' v1 + ?r' v2 + ?z"
    using frozen_weights_eq(2) [OF valid' dist(2) total'] W(2) by simp
  ultimately have "(?r' v1 + ?r' v2) / (?r' v1 + ?r' v2 + ?z) \<le> ?r v / (?r v + ?z)"
    using raw(3) nn(2) [of v1] nn(2) [of v2] by (intro ratio_mono) auto
  moreover have "frozen_weight st ?vs v = ?r v / (?r v + ?z)"
    by (subst frozen_weight_eq [OF valid dist(1) total]) (simp_all only: W, simp)
  moreover have "frozen_weight st' ?vs' u = ?r' u / (?r' v1 + ?r' v2 + ?z)" if "u \<in> {v1, v2}" for u
    using that by (subst frozen_weight_eq [OF valid' dist(2) total']) (auto simp only: W, auto)
  ultimately show ?thesis by (simp add: add_divide_distrib)
qed

section \<open>Concrete instances\<close>


lemma splitting_never_raises_weight_witness:
  "let v = \<lparr>v_address = ''v'', v_stake = 3, v_hash_power = 0\<rparr>;
      v1 = \<lparr>v_address = ''x'', v_stake = 1, v_hash_power = 0\<rparr>;
      v2 = \<lparr>v_address = ''y'', v_stake = 2, v_hash_power = 0\<rparr>;
      st = sample_topo\<lparr>active_score_history := [(''v'', 2)]\<rparr>;
      st' = sample_topo\<lparr>active_score_history := [(''x'', 1), (''y'', 1)]\<rparr> in
    frozen_weight st' (sample_validators @ v1 # v2 # []) v1
      + frozen_weight st' (sample_validators @ v1 # v2 # []) v2
      \<le> frozen_weight st (sample_validators @ v # []) v"
  unfolding Let_def
  by (rule splitting_never_raises_weight)
    (simp_all add: config_default_valid sample_validators_def total_stake_def split_identity_def
      positive_score_def hm_get_or_def)

end
