(* ===== verification/Metrics.thy ===== *)
theory Metrics
  imports Prelude "HOL-Library.Multiset"
begin

text \<open>
  \<^verbatim>\<open>src/src/metrics.rs\<close> and \<open>calculate_gini\<close> of \<^verbatim>\<open>src/src/network/mod.rs\<close>: the statistics an
  experiment reports.  A \<open>HashSet\<close> of addresses is a list without repetitions.  The lemmas
  identify the Gini coefficient with half the relative mean difference, and bound the
  Herfindahl index and the percentiles.
\<close>

section \<open>Definitions\<close>

definition calculate_tx_packing_delay :: "nat list \<Rightarrow> nat \<Rightarrow> real" where
  "calculate_tx_packing_delay timestamps block_timestamp =
     (if timestamps = [] then 0
      else sum_list (map (\<lambda>t. if t \<le> block_timestamp then real (block_timestamp - t) else 0) timestamps)
        / real (length timestamps))"

definition calculate_stake_concentration :: "real list \<Rightarrow> real" where
  "calculate_stake_concentration stakes =
     (if stakes = [] then 0
      else let total_stake = sum_list stakes in
        if total_stake \<le> 0 then 0
        else let shares = map (\<lambda>s. s / total_stake) stakes in sum_list (map (\<lambda>s. s * s) shares))"

definition calculate_hhi :: "real list \<Rightarrow> real" where
  "calculate_hhi vals = calculate_stake_concentration vals"

definition percentile_f64 :: "real list \<Rightarrow> real \<Rightarrow> real" where
  "percentile_f64 vals percentile =
     (if vals = [] then 0
      else let sorted_values = sort vals;
               p = (if percentile < 0 then 0 else if 1 < percentile then 1 else percentile);
               idx = nat \<lceil>real (length sorted_values - 1) * p\<rceil>
        in sorted_values ! min idx (length sorted_values - 1))"

definition share_for :: "address list \<Rightarrow> (address, real) hash_map \<Rightarrow> real" where
  "share_for addresses vals =
     (let total_value = sum_list (hm_values vals) in
      if total_value \<le> 0 then 0
      else sum_list (map (hm_get_or 0 vals) addresses) / total_value)"

record path_stats =
  ps_avg_length :: real
  ps_min_length :: nat
  ps_max_length :: nat
  ps_median_length :: nat

definition calculate_path_stats :: "address list list \<Rightarrow> path_stats" where
  "calculate_path_stats paths =
     (if paths = [] then
        \<lparr>ps_avg_length = 0, ps_min_length = 0, ps_max_length = 0, ps_median_length = 0\<rparr>
      else let lengths = map length paths in
        \<lparr>ps_avg_length = real (sum_list lengths) / real (length lengths),
         ps_min_length = Min (set lengths), ps_max_length = Max (set lengths),
         ps_median_length = sort lengths ! (length lengths div 2)\<rparr>)"

definition calculate_gini :: "real list \<Rightarrow> real" where
  "calculate_gini vals =
     (if vals = [] then 0
      else let n = real (length vals); sorted_values = sort vals; s = sum_list sorted_values in
        if s = 0 then 0
        else let cumsum = sum_list (map (\<lambda>(i, v). (real i + 1) * v) (enumerate 0 sorted_values));
                 gini = 2 * cumsum / (n * s) - (n + 1) / n
          in min (max gini 0) 1)"

section \<open>The Gini coefficient\<close>

definition mean_difference :: "real list \<Rightarrow> real" where
  "mean_difference xs = sum_list (map (\<lambda>x. sum_list (map (\<lambda>y. \<bar>x - y\<bar>) xs)) xs)"

definition rank_sum :: "nat \<Rightarrow> real list \<Rightarrow> real" where
  "rank_sum k xs = sum_list (map (\<lambda>(i, v). (real i + 1) * v) (enumerate k xs))"

lemma rank_sum_shift: "rank_sum (Suc k) xs = rank_sum k xs + sum_list xs"
  unfolding rank_sum_def by (induction xs arbitrary: k) (auto simp: algebra_simps)

lemma rank_sum_Cons: "rank_sum 0 (x # xs) = x + rank_sum 0 xs + sum_list xs"
  using rank_sum_shift [of 0 xs] by (simp add: rank_sum_def)

lemma sum_list_minus_const: "sum_list (map (\<lambda>y. y - x) ys) = sum_list ys - real (length ys) * (x::real)"
  by (induction ys) (auto simp: algebra_simps)

lemma mean_difference_Cons:
  "mean_difference (x # xs) = mean_difference xs + 2 * sum_list (map (\<lambda>y. \<bar>x - y\<bar>) xs)"
  unfolding mean_difference_def by (simp add: sum_list_addf abs_minus_commute)

lemma mean_difference_sorted:
  "sorted xs \<Longrightarrow> mean_difference xs = 2 * (2 * rank_sum 0 xs - (real (length xs) + 1) * sum_list xs)"
proof (induction xs)
  case (Cons x xs)
  then have "sum_list (map (\<lambda>y. \<bar>x - y\<bar>) xs) = sum_list (map (\<lambda>y. y - x) xs)"
    by (intro arg_cong [where f = sum_list] map_cong) auto
  with Cons show ?case
    by (simp add: mean_difference_Cons rank_sum_Cons sum_list_minus_const algebra_simps)
qed (simp add: mean_difference_def rank_sum_def)

lemma mean_difference_perm: "mset xs = mset ys \<Longrightarrow> mean_difference xs = mean_difference ys"
proof -
  assume eq: "mset xs = mset ys"
  have inner: "sum_list (map f xs) = sum_list (map f ys)" for f :: "real \<Rightarrow> real"
    using eq by (metis mset_map sum_mset_sum_list)
  show ?thesis unfolding mean_difference_def inner ..
qed

lemma mean_difference_nonneg: "0 \<le> mean_difference xs"
  unfolding mean_difference_def by (intro sum_list_nonneg_map) auto

lemma abs_diff_le_sum: "0 \<le> (x::real) \<Longrightarrow> 0 \<le> y \<Longrightarrow> \<bar>x - y\<bar> \<le> x + y"
  by linarith

lemma mean_difference_le:
  assumes "\<forall>x \<in> set xs. 0 \<le> x" and "xs \<noteq> []"
  shows "mean_difference xs \<le> 2 * (real (length xs) - 1) * sum_list xs"
  using assms
proof (induction xs)
  case (Cons x xs)
  show ?case
  proof (cases "xs = []")
    case False
    have "sum_list (map (\<lambda>y. \<bar>x - y\<bar>) xs) \<le> sum_list (map (\<lambda>y. x + y) xs)"
      using Cons.prems by (intro sum_list_map_mono abs_diff_le_sum) auto
    also have "\<dots> = real (length xs) * x + sum_list xs"
      by (induction xs) (auto simp: algebra_simps)
    finally have "mean_difference (x # xs) \<le> mean_difference xs + 2 * (real (length xs) * x + sum_list xs)"
      by (simp add: mean_difference_Cons)
    also have "\<dots> \<le> 2 * (real (length xs) - 1) * sum_list xs + 2 * (real (length xs) * x + sum_list xs)"
      using Cons.IH False Cons.prems by simp
    finally show ?thesis by (simp add: algebra_simps)
  qed (simp add: mean_difference_def)
qed simp

lemma gini_formula:
  assumes "vals \<noteq> []" and "sum_list vals \<noteq> 0"
  shows "calculate_gini vals =
    min (max (mean_difference vals / (2 * real (length vals) * sum_list vals)) 0) 1"
proof -
  let ?n = "real (length vals)" and ?s = "sum_list vals"
  have s: "sum_list (sort vals) = ?s" by (metis mset_sort sum_mset_sum_list)
  have m: "mean_difference vals = 2 * (2 * rank_sum 0 (sort vals) - (?n + 1) * ?s)"
    using mean_difference_sorted [of "sort vals"] mean_difference_perm [of "sort vals" vals] s by simp
  have n: "?n \<noteq> 0" using assms(1) by simp
  have "2 * rank_sum 0 (sort vals) / (?n * ?s) - (?n + 1) / ?n = mean_difference vals / (2 * ?n * ?s)"
    unfolding m using n assms(2) by (simp add: field_simps)
  then show ?thesis
    using assms by (simp add: calculate_gini_def s Let_def rank_sum_def)
qed

text \<open>
  C32.  The reported Gini coefficient is the textbook one.  For non-negative values that are
  not all zero it is the sum of all pairwise differences over twice the number of values
  times their sum; it lies between 0 and 1 - 1/n, so clamping never changes it, and does
  not depend on the order of the values.
\<close>

theorem gini_is_mean_difference:
  assumes "vals \<noteq> []" and "\<forall>v \<in> set vals. 0 \<le> v" and "sum_list vals \<noteq> 0"
  shows "calculate_gini vals
      = sum_list (map (\<lambda>x. sum_list (map (\<lambda>y. \<bar>x - y\<bar>) vals)) vals)
        / (2 * real (length vals) * sum_list vals)
    \<and> 0 \<le> calculate_gini vals \<and> calculate_gini vals \<le> 1 - 1 / real (length vals)"
proof -
  let ?n = "real (length vals)" and ?s = "sum_list vals"
  let ?g = "mean_difference vals / (2 * ?n * ?s)"
  have n: "0 < ?n" using assms(1) by simp
  have s: "0 < ?s" using sum_list_nonneg [of "vals"] assms(2,3) by fastforce
  have lo: "0 \<le> ?g" using mean_difference_nonneg n s by simp
  have "?g \<le> 2 * (?n - 1) * ?s / (2 * ?n * ?s)"
    using mean_difference_le [OF assms(2,1)] n s by (intro divide_right_mono) auto
  also have "\<dots> = 1 - 1 / ?n" using n s by (simp add: field_simps)
  finally have hi: "?g \<le> 1 - 1 / ?n" .
  moreover have "1 - 1 / ?n \<le> 1" using n by simp
  ultimately have "calculate_gini vals = ?g"
    unfolding gini_formula [OF assms(1,3)] using lo by linarith
  with lo hi show ?thesis by (simp add: mean_difference_def)
qed

lemma gini_is_mean_difference_witness:
  "calculate_gini [3, 1]
      = sum_list (map (\<lambda>x. sum_list (map (\<lambda>y. \<bar>x - y\<bar>) [3, 1])) [3, 1])
        / (2 * real (length [3, 1 :: real]) * sum_list [3, 1])
    \<and> 0 \<le> calculate_gini [3, 1] \<and> calculate_gini [3, 1] \<le> 1 - 1 / real (length [3, 1 :: real])
    \<and> sum_list (map (\<lambda>x. sum_list (map (\<lambda>y. \<bar>x - y\<bar>) [3, 1])) [3, 1])
        / (2 * real (length [3, 1 :: real]) * sum_list [3, 1]) = (1 / 4 :: real)"
  using gini_is_mean_difference [of "[3, 1]"] by simp

section \<open>Concentration and percentiles\<close>

lemma hhi_bounds:
  assumes "vals \<noteq> []" and "\<forall>v \<in> set vals. 0 \<le> v" and "0 < sum_list vals"
  shows "1 / real (length vals) \<le> calculate_hhi vals \<and> calculate_hhi vals \<le> 1"
proof -
  let ?n = "real (length vals)" and ?t = "sum_list vals"
  let ?sh = "map (\<lambda>s. s / ?t) vals"
  have n: "0 < ?n" using assms(1) by simp
  have one: "sum_list ?sh = 1" using assms(3) sum_list_div [of "\<lambda>x. x" ?t vals] by simp
  have hhi: "calculate_hhi vals = sum_list (map (\<lambda>s. s * s) ?sh)"
    using assms(1,3) by (simp add: calculate_hhi_def calculate_stake_concentration_def Let_def)
  have "sum_list (map (\<lambda>s. (s - c) * (s - c)) xs)
      = sum_list (map (\<lambda>s. s * s) xs) - 2 * c * sum_list xs + real (length xs) * c * c" for xs and c :: real
    by (induction xs) (auto simp: algebra_simps)
  from this [of "1 / ?n" ?sh] one n
  have "sum_list (map (\<lambda>s. (s - 1 / ?n) * (s - 1 / ?n)) ?sh) = calculate_hhi vals - 1 / ?n"
    unfolding hhi by (simp add: field_simps)
  moreover have "0 \<le> sum_list (map (\<lambda>s. (s - 1 / ?n) * (s - 1 / ?n)) ?sh)"
    by (intro sum_list_nonneg_map) simp
  moreover have "sum_list (map (\<lambda>s. s * s) ?sh) \<le> sum_list (map (\<lambda>s. s) ?sh)"
  proof (rule sum_list_map_mono)
    fix s
    assume "s \<in> set ?sh"
    then obtain v where v: "v \<in> set vals" "s = v / ?t" by auto
    have "v \<le> ?t" using member_le_sum_list_map [OF v(1), of "\<lambda>x. x"] assms(2) by simp
    with v assms(2,3) have "0 \<le> s" "s \<le> 1" by simp_all
    then show "s * s \<le> s" by (simp add: mult_left_le)
  qed
  ultimately show ?thesis using one hhi by simp
qed

lemma length_filter_le_nth:
  assumes "sorted xs" and "i < length xs"
  shows "Suc i \<le> length (filter (\<lambda>v. v \<le> xs ! i) xs)"
proof -
  have "\<forall>v \<in> set (take (Suc i) xs). v \<le> xs ! i"
    using assms by (auto simp: in_set_conv_nth sorted_iff_nth_mono)
  then have "length (filter (\<lambda>v. v \<le> xs ! i) (take (Suc i) xs)) = Suc i"
    using assms(2) by (simp add: filter_True)
  moreover have "filter (\<lambda>v. v \<le> xs ! i) xs = filter (\<lambda>v. v \<le> xs ! i) (take (Suc i) xs)
      @ filter (\<lambda>v. v \<le> xs ! i) (drop (Suc i) xs)"
    by (metis append_take_drop_id filter_append)
  ultimately show ?thesis by simp
qed

text \<open>At least the fraction \<open>p\<close> of the values does not exceed the percentile, which is one of them.\<close>

lemma percentile_covers:
  assumes "vals \<noteq> []" and "0 \<le> p" and "p \<le> 1"
  shows "percentile_f64 vals p \<in> set vals"
    "p * real (length vals) \<le> real (length (filter (\<lambda>v. v \<le> percentile_f64 vals p) vals))"
proof -
  let ?xs = "sort vals"
  let ?i = "min (nat \<lceil>real (length vals - 1) * p\<rceil>) (length vals - 1)"
  have eq: "percentile_f64 vals p = ?xs ! ?i"
    using assms by (simp add: percentile_f64_def Let_def)
  have i: "?i < length ?xs" using assms(1) by (simp add: min_less_iff_disj)
  show "percentile_f64 vals p \<in> set vals" unfolding eq using nth_mem [OF i] by simp
  have "real (length vals - 1) * p \<le> real (length vals - 1)"
    using assms by (simp add: mult_left_le)
  then have "real (length vals - 1) * p \<le> real ?i"
    by (simp add: min_def) linarith
  moreover have "p * real (length vals) \<le> real (length vals - 1) * p + 1"
    using assms by (cases "length vals") (simp_all add: algebra_simps)
  ultimately have "p * real (length vals) \<le> real (Suc ?i)" by simp
  also have "\<dots> \<le> real (length (filter (\<lambda>v. v \<le> ?xs ! ?i) ?xs))"
    using length_filter_le_nth [OF _ i] by (simp only: of_nat_le_iff) simp
  also have "\<dots> = real (length (filter (\<lambda>v. v \<le> ?xs ! ?i) vals))"
    by (metis mset_filter mset_sort size_mset)
  finally show "p * real (length vals) \<le> real (length (filter (\<lambda>v. v \<le> percentile_f64 vals p) vals))"
    unfolding eq .
qed

end
