(* ===== verification/World_Reports.thy ===== *)
theory World_Reports
  imports Topo_Election Metrics
begin

text \<open>
  The evaluation part of \<^verbatim>\<open>src/src/network/world_state.rs\<close>: the world state recomputes,
  from the blocks of an epoch and the engine's snapshot, the rewards, the contributions,
  the share of a coalition in them, and the bounds on the coalition's weight.  The lemmas
  relate the recomputed figures to the plans of the engine and to its frozen weights.
\<close>

section \<open>Definitions\<close>

text \<open>The route a report credits: the record is present, its evidence verifies, and it has a relayer.\<close>

definition report_route :: "path_verifier \<Rightarrow> block \<Rightarrow> nat \<Rightarrow> transaction \<Rightarrow> address list option" where
  "report_route ver b idx t =
     (if length (body_paths (blk_body b)) \<le> idx then None
      else let p = body_paths (blk_body b) ! idx; miner = hd_miner (blk_header b) in
        if \<not> ver p t miner (hd_epoch (blk_header b)) then None
        else let full = full_path p miner in
          if length full - 1 < 2 then None else Some full)"

definition contribute_position ::
  "nat \<Rightarrow> real \<Rightarrow> address set \<Rightarrow> transaction \<Rightarrow> address list \<Rightarrow> (address, real) hash_map \<Rightarrow> nat
    \<Rightarrow> (address, real) hash_map" where
  "contribute_position depth cost_reference vset t full raw position =
     (let relayer = full ! position in
      if relayer \<in> vset then
        hm_add relayer (transaction_credit_weight (tx_irrecoverable_cost t) cost_reference
          * gamma_for_depth depth position (length full - 1)) raw
      else raw)"

definition contribute_transaction ::
  "nat \<Rightarrow> real \<Rightarrow> path_verifier \<Rightarrow> address set \<Rightarrow> block \<Rightarrow> (address, real) hash_map \<Rightarrow> nat \<times> transaction
    \<Rightarrow> (address, real) hash_map" where
  "contribute_transaction depth cost_reference ver vset b raw it =
     (let (idx, t) = it in
      case report_route ver b idx t of
        None \<Rightarrow> raw
      | Some full \<Rightarrow> foldl (contribute_position depth cost_reference vset t full) raw [1..<length full - 1])"

definition world_raw_contribution ::
  "path_verifier \<Rightarrow> metrics_snapshot \<Rightarrow> block list \<Rightarrow> validator list \<Rightarrow> (address, real) hash_map" where
  "world_raw_contribution ver snap bs vs =
     foldl (\<lambda>raw b. foldl (contribute_transaction (unwrap_or 1 (ms_depth snap))
         (unwrap_or 1 (ms_score_cost_reference snap)) ver (set (map v_address vs)) b) raw
       (enumerate 0 (block_txs b))) [] bs"

record epoch_reward_report =
  er_proposer_by_address :: "(address, real) hash_map"
  er_relay_by_address :: "(address, real) hash_map"
  er_total_proposer_reward :: real
  er_total_relay_reward :: real
  er_burned_relay_fee :: real

definition report_position ::
  "nat \<Rightarrow> address set \<Rightarrow> real \<Rightarrow> address list \<Rightarrow> real \<times> (address, real) hash_map \<Rightarrow> nat
    \<Rightarrow> real \<times> (address, real) hash_map" where
  "report_position depth vset relay_budget full acc position =
     (let relayer = full ! position in
      if relayer \<notin> vset then acc
      else let amount = relay_budget * gamma_for_depth depth position (length full - 1) in
        if 0 < amount then (fst acc + amount, hm_add relayer amount (snd acc)) else acc)"

definition report_transaction ::
  "real \<Rightarrow> nat \<Rightarrow> path_verifier \<Rightarrow> address set \<Rightarrow> block \<Rightarrow> epoch_reward_report \<Rightarrow> nat \<times> transaction
    \<Rightarrow> epoch_reward_report" where
  "report_transaction theta depth ver vset b rep it =
     (let (idx, t) = it; relay_budget = (1 - theta) * tx_fee t in
      case report_route ver b idx t of
        None \<Rightarrow> rep\<lparr>er_burned_relay_fee := er_burned_relay_fee rep + relay_budget\<rparr>
      | Some full \<Rightarrow>
          (let (paid, relays) = foldl (report_position depth vset relay_budget full)
                 (0, er_relay_by_address rep) [1..<length full - 1]
           in rep\<lparr>er_relay_by_address := relays,
                  er_total_relay_reward := er_total_relay_reward rep + paid,
                  er_burned_relay_fee := er_burned_relay_fee rep + max (relay_budget - paid) 0\<rparr>))"

definition report_block ::
  "path_verifier \<Rightarrow> real \<Rightarrow> metrics_snapshot \<Rightarrow> address set \<Rightarrow> epoch_reward_report \<Rightarrow> block
    \<Rightarrow> epoch_reward_report" where
  "report_block ver base snap vset rep b =
     (let theta = unwrap_or 1 (ms_proposer_fee_ratio snap);
          total_fee = sum_list (map tx_fee (block_txs b));
          proposer_reward = (if ms_depth snap \<noteq> None then base + theta * total_fee else base + total_fee);
          rep' = rep\<lparr>er_proposer_by_address :=
                   hm_add (hd_miner (blk_header b)) proposer_reward (er_proposer_by_address rep),
                 er_total_proposer_reward := er_total_proposer_reward rep + proposer_reward\<rparr>
      in case ms_depth snap of
           None \<Rightarrow> rep'
         | Some depth \<Rightarrow> foldl (report_transaction theta depth ver vset b) rep' (enumerate 0 (block_txs b)))"

definition estimate_epoch_rewards ::
  "path_verifier \<Rightarrow> real \<Rightarrow> metrics_snapshot \<Rightarrow> block list \<Rightarrow> validator list \<Rightarrow> epoch_reward_report" where
  "estimate_epoch_rewards ver base snap bs vs =
     foldl (report_block ver base snap (set (map v_address vs)))
       \<lparr>er_proposer_by_address = [], er_relay_by_address = [], er_total_proposer_reward = 0,
        er_total_relay_reward = 0, er_burned_relay_fee = 0\<rparr> bs"

definition total_by_address :: "epoch_reward_report \<Rightarrow> (address, real) hash_map" where
  "total_by_address rep =
     foldl (\<lambda>m (a, x). hm_add a x m) (er_proposer_by_address rep) (er_relay_by_address rep)"

record organic_capture_report =
  oc_included_tx :: nat
  oc_valid_path_count :: nat
  oc_relay_reward :: real
  oc_adversary_relay_reward :: real
  oc_raw_contribution :: real
  oc_adversary_raw_contribution :: real

definition capture_position ::
  "nat \<Rightarrow> real \<Rightarrow> address set \<Rightarrow> address list \<Rightarrow> transaction \<Rightarrow> real \<Rightarrow> address list
    \<Rightarrow> organic_capture_report \<Rightarrow> nat \<Rightarrow> organic_capture_report" where
  "capture_position depth cost_reference vset adversarial t relay_budget full rep position =
     (let relayer = full ! position in
      if relayer \<notin> vset then rep
      else let g = gamma_for_depth depth position (length full - 1);
               reward = relay_budget * g;
               contribution = transaction_credit_weight (tx_irrecoverable_cost t) cost_reference * g;
               rep' = rep\<lparr>oc_relay_reward := oc_relay_reward rep + reward,
                          oc_raw_contribution := oc_raw_contribution rep + contribution\<rparr>
        in if relayer \<in> set adversarial
           then rep'\<lparr>oc_adversary_relay_reward := oc_adversary_relay_reward rep' + reward,
                     oc_adversary_raw_contribution := oc_adversary_raw_contribution rep' + contribution\<rparr>
           else rep')"

definition capture_transaction ::
  "real \<Rightarrow> nat \<Rightarrow> real \<Rightarrow> path_verifier \<Rightarrow> address set \<Rightarrow> address list \<Rightarrow> block
    \<Rightarrow> organic_capture_report \<Rightarrow> nat \<times> transaction \<Rightarrow> organic_capture_report" where
  "capture_transaction theta depth cost_reference ver vset adversarial b rep it =
     (let (idx, t) = it in
      if tx_from t \<in> set adversarial then rep
      else let rep' = rep\<lparr>oc_included_tx := oc_included_tx rep + 1\<rparr> in
        case report_route ver b idx t of
          None \<Rightarrow> rep'
        | Some full \<Rightarrow>
            foldl (capture_position depth cost_reference vset adversarial t ((1 - theta) * tx_fee t) full)
              (rep'\<lparr>oc_valid_path_count := oc_valid_path_count rep' + 1\<rparr>) [1..<length full - 1])"

definition no_capture :: organic_capture_report where
  "no_capture = \<lparr>oc_included_tx = 0, oc_valid_path_count = 0, oc_relay_reward = 0,
     oc_adversary_relay_reward = 0, oc_raw_contribution = 0, oc_adversary_raw_contribution = 0\<rparr>"

definition organic_capture ::
  "path_verifier \<Rightarrow> address list \<Rightarrow> metrics_snapshot \<Rightarrow> block list \<Rightarrow> validator list
    \<Rightarrow> organic_capture_report" where
  "organic_capture ver adversarial snap bs vs =
     (case ms_depth snap of
        None \<Rightarrow> no_capture
      | Some depth \<Rightarrow>
          foldl (\<lambda>rep b. foldl (capture_transaction (unwrap_or 1 (ms_proposer_fee_ratio snap)) depth
              (unwrap_or 1 (ms_score_cost_reference snap)) ver (set (map v_address vs)) adversarial b) rep
            (enumerate 0 (block_txs b))) no_capture bs)"

definition adversary_relay_reward_share :: "organic_capture_report \<Rightarrow> real" where
  "adversary_relay_reward_share rep =
     (if 0 < oc_relay_reward rep then oc_adversary_relay_reward rep / oc_relay_reward rep else 0)"

definition adversary_raw_contribution_share :: "organic_capture_report \<Rightarrow> real" where
  "adversary_raw_contribution_share rep =
     (if 0 < oc_raw_contribution rep then oc_adversary_raw_contribution rep / oc_raw_contribution rep else 0)"

subsection \<open>The bounds on a coalition\<close>

definition reported_weights :: "metrics_snapshot \<Rightarrow> validator list \<Rightarrow> (address, real) hash_map" where
  "reported_weights snap vs =
     (if ms_normalized_proposer_weights snap = [] then normalized_stake vs
      else ms_normalized_proposer_weights snap)"

definition real_stake_share :: "address list \<Rightarrow> validator list \<Rightarrow> real" where
  "real_stake_share adversarial vs =
     share_for adversarial (hm_collect (map (\<lambda>v. (v_address v, v_stake v)) vs))"

definition damped_score_mass :: "address list \<Rightarrow> metrics_snapshot \<Rightarrow> real" where
  "damped_score_mass adversarial snap = sum_list (map (hm_get_or 0 (ms_normalized_score snap)) adversarial)"

definition score_dependent_bound :: "address list \<Rightarrow> metrics_snapshot \<Rightarrow> validator list \<Rightarrow> real" where
  "score_dependent_bound adversarial snap vs =
     (let a = real_stake_share adversarial vs;
          coalition_bonus = (if 0 < a then propagation_bonus (damped_score_mass adversarial snap / a)
            (unwrap_or 0 (ms_bonus_cap snap)) (unwrap_or 1 (ms_bonus_zeta snap)) else 0);
          coalition_weight = a * (1 + unwrap_or 0 (ms_eta snap) * coalition_bonus)
      in if 0 < coalition_weight + 1 - a then coalition_weight / (coalition_weight + 1 - a) else 0)"

definition theoretical_bound :: "address list \<Rightarrow> metrics_snapshot \<Rightarrow> validator list \<Rightarrow> real" where
  "theoretical_bound adversarial snap vs =
     (let a = real_stake_share adversarial vs;
          c = unwrap_or 0 (ms_eta snap) * unwrap_or 0 (ms_bonus_cap snap)
      in if 0 < 1 + a * c then a * (1 + c) / (1 + a * c) else 0)"

definition bound_violation :: "address list \<Rightarrow> metrics_snapshot \<Rightarrow> validator list \<Rightarrow> bool" where
  "bound_violation adversarial snap vs \<longleftrightarrow>
     score_dependent_bound adversarial snap vs + 1 / 10 ^ 9
       < share_for adversarial (reported_weights snap vs)"

section \<open>Reported rewards\<close>

definition paid_to :: "address \<Rightarrow> balance_delta list \<Rightarrow> real" where
  "paid_to a ds = sum_list (map bd_amount (filter (\<lambda>d. bd_address d = a) ds))"

lemma paid_to_simps [simp]:
  "paid_to a [] = 0" "paid_to a (d # ds) = (if bd_address d = a then bd_amount d else 0) + paid_to a ds"
  "paid_to a (ds @ es) = paid_to a ds + paid_to a es"
  by (simp_all add: paid_to_def)

text \<open>No record of the block is longer than the engine accepts.\<close>

definition within_hops :: "topostake_config \<Rightarrow> block \<Rightarrow> bool" where
  "within_hops cfg b \<longleftrightarrow>
     list_all (\<lambda>p. length (full_path p (hd_miner (blk_header b))) - 1 \<le> max_path_hops cfg)
       (body_paths (blk_body b))"

lemma report_route_eq: "within_hops cfg b \<Longrightarrow> report_route ver b idx t = valid_route cfg ver b idx t"
  by (auto simp: report_route_def valid_route_def valid_path_record_def within_hops_def list_all_length
      Let_def)

lemma report_positions:
  assumes "hm_ok m"
  shows "\<exists>x ds m'. foldl (pay_position cfg vset budget full) (paid, rewards) ps = (x, rewards @ ds)
    \<and> foldl (report_position (target_depth cfg) vset budget full) (paid, m) ps = (x, m')
    \<and> hm_ok m' \<and> (\<forall>a. hm_get_or 0 m' a = hm_get_or 0 m a + paid_to a ds)"
  using assms
proof (induction ps arbitrary: paid rewards m)
  case (Cons p ps)
  let ?g = "budget * gamma_for_depth (target_depth cfg) p (length full - 1)"
  show ?case
  proof (cases "full ! p \<in> vset \<and> 0 < ?g")
    case True
    let ?d = "\<lparr>bd_address = full ! p, bd_amount = ?g\<rparr>"
    obtain x ds m' where "foldl (pay_position cfg vset budget full) (paid + ?g, rewards @ [?d]) ps
        = (x, (rewards @ [?d]) @ ds)"
      "foldl (report_position (target_depth cfg) vset budget full) (paid + ?g, hm_add (full ! p) ?g m) ps
        = (x, m')"
      "hm_ok m'" "\<And>a. hm_get_or 0 m' a = hm_get_or 0 (hm_add (full ! p) ?g m) a + paid_to a ds"
      using Cons.IH [OF hm_ok_add [OF Cons.prems, of "full ! p" ?g], of "paid + ?g" "rewards @ [?d]"] by blast
    moreover have "pay_position cfg vset budget full (paid, rewards) p = (paid + ?g, rewards @ [?d])"
      "report_position (target_depth cfg) vset budget full (paid, m) p = (paid + ?g, hm_add (full ! p) ?g m)"
      using True by (simp_all add: pay_position_def report_position_def gamma_def Let_def)
    ultimately show ?thesis
      by (intro exI [of _ x] exI [of _ "?d # ds"] exI [of _ m']) (simp add: table_simps)
  next
    case False
    then have "pay_position cfg vset budget full (paid, rewards) p = (paid, rewards)"
      "report_position (target_depth cfg) vset budget full (paid, m) p = (paid, m)"
      by (auto simp: pay_position_def report_position_def gamma_def Let_def)
    with Cons.IH [OF Cons.prems, of paid rewards] show ?thesis by simp
  qed
qed simp

text \<open>A report and the accumulated plan of a block agree up to what both had before.\<close>

definition agrees ::
  "epoch_reward_report \<Rightarrow> balance_delta list \<times> real \<times> real \<Rightarrow> epoch_reward_report
    \<Rightarrow> balance_delta list \<times> real \<times> real \<Rightarrow> bool" where
  "agrees rep0 acc0 rep acc \<longleftrightarrow>
     hm_ok (er_relay_by_address rep)
     \<and> er_proposer_by_address rep = er_proposer_by_address rep0
     \<and> er_total_proposer_reward rep = er_total_proposer_reward rep0
     \<and> er_total_relay_reward rep - er_total_relay_reward rep0 = fst (snd acc) - fst (snd acc0)
     \<and> er_burned_relay_fee rep - er_burned_relay_fee rep0 = snd (snd acc) - snd (snd acc0)
     \<and> (\<forall>a. hm_get_or 0 (er_relay_by_address rep) a - hm_get_or 0 (er_relay_by_address rep0) a
          = paid_to a (fst acc) - paid_to a (fst acc0))"

lemma agrees_refl: "hm_ok (er_relay_by_address rep) \<Longrightarrow> agrees rep acc rep acc"
  by (simp add: agrees_def)

lemma report_transaction_agrees:
  assumes "within_hops cfg b" and "agrees rep0 acc0 rep acc"
  shows "agrees rep0 acc0 (report_transaction (proposer_fee_ratio cfg) (target_depth cfg) ver vset b rep it)
    (pay_transaction cfg ver vset b acc it)"
proof -
  obtain idx t where it: "it = (idx, t)" by fastforce
  obtain rewards relay burned where acc: "acc = (rewards, relay, burned)" by (cases acc)
  note route = report_route_eq [OF assms(1), of ver idx t]
  show ?thesis
  proof (cases "valid_route cfg ver b idx t")
    case None
    with assms(2) show ?thesis
      by (simp add: report_transaction_def pay_transaction_def it acc route agrees_def)
  next
    case (Some full)
    from assms(2) have "hm_ok (er_relay_by_address rep)" by (simp add: agrees_def)
    from report_positions [OF this, of cfg vset "(1 - proposer_fee_ratio cfg) * tx_fee t" full 0 rewards
        "[1..<length full - 1]"]
    obtain x ds m' where
      "foldl (pay_position cfg vset ((1 - proposer_fee_ratio cfg) * tx_fee t) full) (0, rewards)
         [1..<length full - 1] = (x, rewards @ ds)"
      "foldl (report_position (target_depth cfg) vset ((1 - proposer_fee_ratio cfg) * tx_fee t) full)
         (0, er_relay_by_address rep) [1..<length full - 1] = (x, m')"
      "hm_ok m'" "\<forall>a. hm_get_or 0 m' a = hm_get_or 0 (er_relay_by_address rep) a + paid_to a ds"
      by blast
    with Some assms(2) show ?thesis
      by (simp add: report_transaction_def pay_transaction_def it acc route agrees_def algebra_simps)
  qed
qed

lemma report_transactions_agree:
  assumes "within_hops cfg b" and "agrees rep0 acc0 rep acc"
  shows "agrees rep0 acc0
    (foldl (report_transaction (proposer_fee_ratio cfg) (target_depth cfg) ver vset b) rep its)
    (foldl (pay_transaction cfg ver vset b) acc its)"
  using assms(2)
  by (induction its arbitrary: rep acc) (simp_all add: report_transaction_agrees [OF assms(1)])

definition report_total :: "epoch_reward_report \<Rightarrow> address \<Rightarrow> real" where
  "report_total rep a = hm_get_or 0 (er_proposer_by_address rep) a + hm_get_or 0 (er_relay_by_address rep) a"

lemma report_block_plan:
  fixes ver vs
  assumes "within_hops (config st) b" and "hm_ok (er_relay_by_address rep)"
  defines "rep' \<equiv> report_block ver (base_reward st) (topo_metrics_snapshot st) (set (map v_address vs)) rep b"
    and "plan \<equiv> compute_block_rewards ver st b vs"
  shows "hm_ok (er_relay_by_address rep')"
    "er_total_proposer_reward rep' = er_total_proposer_reward rep + plan_proposer_reward plan"
    "er_total_relay_reward rep' = er_total_relay_reward rep + plan_relay_reward plan"
    "er_burned_relay_fee rep' = er_burned_relay_fee rep + plan_burned_relay_fee plan"
    "report_total rep' a = report_total rep a + paid_to a (plan_rewards plan)"
proof -
  let ?cfg = "config st" and ?V = "set (map v_address vs)" and ?txs = "block_txs b"
  let ?pr = "base_reward st + proposer_fee_ratio ?cfg * sum_list (map tx_fee ?txs)"
  define rep0 where "rep0 = rep\<lparr>er_proposer_by_address :=
      hm_add (hd_miner (blk_header b)) ?pr (er_proposer_by_address rep),
      er_total_proposer_reward := er_total_proposer_reward rep + ?pr\<rparr>"
  define acc0 where "acc0 = ([\<lparr>bd_address = hd_miner (blk_header b), bd_amount = ?pr\<rparr>], 0 :: real, 0 :: real)"
  obtain rewards relay burned where run: "foldl (pay_transaction ?cfg ver ?V b) acc0 (enumerate 0 ?txs)
      = (rewards, relay, burned)" by (metis prod_cases3)
  have rep': "rep' = foldl (report_transaction (proposer_fee_ratio ?cfg) (target_depth ?cfg) ver ?V b) rep0
      (enumerate 0 ?txs)"
    by (simp add: rep'_def report_block_def topo_metrics_snapshot_def unwrap_or_def rep0_def Let_def)
  have "agrees rep0 acc0 rep' (rewards, relay, burned)"
    unfolding rep' run [symmetric]
    by (rule report_transactions_agree [OF assms(1)]) (simp add: agrees_refl rep0_def assms(2))
  then have ag: "hm_ok (er_relay_by_address rep')"
    "er_proposer_by_address rep' = er_proposer_by_address rep0"
    "er_total_proposer_reward rep' = er_total_proposer_reward rep0"
    "er_total_relay_reward rep' - er_total_relay_reward rep = relay"
    "er_burned_relay_fee rep' - er_burned_relay_fee rep = burned"
    "\<And>a. hm_get_or 0 (er_relay_by_address rep') a - hm_get_or 0 (er_relay_by_address rep) a
       = paid_to a rewards - paid_to a (fst acc0)"
    by (simp_all add: agrees_def rep0_def acc0_def)
  have plan: "plan_rewards plan = rewards" "plan_relay_reward plan = relay"
    "plan_burned_relay_fee plan = burned" "plan_proposer_reward plan = ?pr"
    using run by (simp_all add: plan_def compute_block_rewards_def acc0_def Let_def)
  show "hm_ok (er_relay_by_address rep')" by (rule ag(1))
  show "er_total_proposer_reward rep' = er_total_proposer_reward rep + plan_proposer_reward plan"
    by (simp add: ag(3) rep0_def plan)
  show "er_total_relay_reward rep' = er_total_relay_reward rep + plan_relay_reward plan"
    using ag(4) plan by simp
  show "er_burned_relay_fee rep' = er_burned_relay_fee rep + plan_burned_relay_fee plan"
    using ag(5) plan by simp
  show "report_total rep' a = report_total rep a + paid_to a (plan_rewards plan)"
    using ag(6) [of a] by (auto simp: report_total_def ag(2) rep0_def plan acc0_def table_simps)
qed

lemma report_blocks_plans:
  fixes ver vs
  assumes "list_all (within_hops (config st)) bs" and "hm_ok (er_relay_by_address rep)"
  defines "rep' \<equiv> foldl (report_block ver (base_reward st) (topo_metrics_snapshot st) (set (map v_address vs)))
      rep bs"
    and "plans \<equiv> map (\<lambda>b. compute_block_rewards ver st b vs) bs"
  shows "hm_ok (er_relay_by_address rep')
    \<and> er_total_proposer_reward rep' = er_total_proposer_reward rep + sum_list (map plan_proposer_reward plans)
    \<and> er_total_relay_reward rep' = er_total_relay_reward rep + sum_list (map plan_relay_reward plans)
    \<and> er_burned_relay_fee rep' = er_burned_relay_fee rep + sum_list (map plan_burned_relay_fee plans)
    \<and> report_total rep' a = report_total rep a + sum_list (map (\<lambda>p. paid_to a (plan_rewards p)) plans)"
  using assms(1,2) unfolding rep'_def plans_def
proof (induction bs arbitrary: rep)
  case (Cons b bs)
  have w: "within_hops (config st) b" using Cons.prems(1) by simp
  show ?case
    using Cons.IH [OF _ report_block_plan(1) [OF w Cons.prems(2), of ver vs]] Cons.prems(1)
    by (simp add: report_block_plan(2-5) [OF w Cons.prems(2), of ver vs, simplified])
qed simp

lemma add_table:
  "hm_get_or 0 (foldl (\<lambda>m (a, x). hm_add a x m) m kvs) a
     = hm_get_or 0 m a + (sum_list (map snd (filter (\<lambda>(b, x). b = a) kvs)) :: real)"
  by (induction kvs arbitrary: m) (auto simp: table_simps)

lemma sum_of_key: "hm_ok kvs \<Longrightarrow> sum_list (map snd (filter (\<lambda>(b, x). b = a) kvs)) = (hm_get_or 0 kvs a :: real)"
proof (induction kvs)
  case (Cons kv kvs)
  obtain b x where kv: "kv = (b, x)" by fastforce
  have "filter (\<lambda>(b, x). b = a) kvs = []" if "b = a"
    using Cons.prems that by (force simp: hm_ok_def kv filter_empty_conv)
  with Cons show ?case by (auto simp: kv hm_get_or_def hm_ok_def)
qed (simp add: hm_get_or_def)

lemma total_by_address_eq:
  "hm_ok (er_relay_by_address rep) \<Longrightarrow> hm_get_or 0 (total_by_address rep) a = report_total rep a"
  by (simp add: total_by_address_def add_table sum_of_key report_total_def)

text \<open>
  C30.  The reported rewards of an epoch are the engine's.  When no record of the epoch's
  blocks exceeds the engine's hop limit, the report of the world state gives the same
  proposer rewards, relay rewards and burned fees as the reward plans of the blocks, and
  credits every address with the sum of what the plans pay to it.
\<close>

theorem epoch_report_matches_plans:
  assumes "list_all (within_hops (config st)) bs"
  shows "let rep = estimate_epoch_rewards ver (base_reward st) (topo_metrics_snapshot st) bs vs;
             plans = map (\<lambda>b. compute_block_rewards ver st b vs) bs in
    er_total_proposer_reward rep = sum_list (map plan_proposer_reward plans)
    \<and> er_total_relay_reward rep = sum_list (map plan_relay_reward plans)
    \<and> er_burned_relay_fee rep = sum_list (map plan_burned_relay_fee plans)
    \<and> (\<forall>a. hm_get_or 0 (total_by_address rep) a = sum_list (map (\<lambda>p. paid_to a (plan_rewards p)) plans))"
proof -
  let ?r0 = "\<lparr>er_proposer_by_address = [], er_relay_by_address = [], er_total_proposer_reward = 0,
        er_total_relay_reward = 0, er_burned_relay_fee = 0\<rparr>"
  define rep where "rep = estimate_epoch_rewards ver (base_reward st) (topo_metrics_snapshot st) bs vs"
  have "hm_ok (er_relay_by_address ?r0)" "report_total ?r0 a = 0" for a
    by (simp_all add: hm_ok_def report_total_def table_simps)
  note blocks = report_blocks_plans [OF assms this(1), of ver vs, folded estimate_epoch_rewards_def rep_def]
  have "hm_get_or 0 (total_by_address rep) a
      = sum_list (map (\<lambda>p. paid_to a (plan_rewards p)) (map (\<lambda>b. compute_block_rewards ver st b vs) bs))" for a
    using blocks [of a] by (simp add: total_by_address_eq \<open>\<And>a. report_total ?r0 a = 0\<close>)
  with blocks show ?thesis by (simp add: rep_def [symmetric] Let_def)
qed


text \<open>The engine burns the budget of a longer record, the report still pays it.\<close>

lemma report_ignores_hop_limit:
  assumes "idx < length (body_paths (blk_body b))" and "p = body_paths (blk_body b) ! idx"
    and "ver p t (hd_miner (blk_header b)) (hd_epoch (blk_header b))"
    and "max_path_hops cfg < length (full_path p (hd_miner (blk_header b))) - 1" and "1 \<le> max_path_hops cfg"
  shows "valid_route cfg ver b idx t = None"
    "report_route ver b idx t = Some (full_path p (hd_miner (blk_header b)))"
  using assms by (auto simp: valid_route_def report_route_def valid_path_record_def Let_def)

lemma world_raw_contribution_eq:
  assumes "list_all (within_hops (config st)) bs"
  shows "world_raw_contribution ver (topo_metrics_snapshot st) bs vs
    = raw_epoch_contribution (config st) ver bs vs"
proof -
  have pos: "contribute_position (target_depth (config st)) (score_cost_reference (config st)) vset t full
      = credit_position (config st) vset t full" for vset t full
    by (simp add: fun_eq_iff contribute_position_def credit_position_def gamma_def Let_def)
  have tx: "contribute_transaction (target_depth (config st)) (score_cost_reference (config st)) ver vset b
      = credit_transaction (config st) ver vset b" if "within_hops (config st) b" for vset b
    by (rule ext)+ (simp add: contribute_transaction_def credit_transaction_def report_route_eq [OF that] pos
        split: prod.splits option.splits)
  show ?thesis
    unfolding world_raw_contribution_def raw_epoch_contribution_def
    using assms by (intro foldl_cong) (auto simp: topo_metrics_snapshot_def unwrap_or_def tx list_all_iff)
qed

section \<open>Captured shares\<close>

definition capture_ok :: "organic_capture_report \<Rightarrow> bool" where
  "capture_ok rep \<longleftrightarrow>
     0 \<le> oc_adversary_relay_reward rep \<and> oc_adversary_relay_reward rep \<le> oc_relay_reward rep
     \<and> 0 \<le> oc_adversary_raw_contribution rep
     \<and> oc_adversary_raw_contribution rep \<le> oc_raw_contribution rep
     \<and> oc_valid_path_count rep \<le> oc_included_tx rep"

lemma capture_position_ok:
  assumes "0 \<le> relay_budget" and "capture_ok rep"
  shows "capture_ok (capture_position depth cost_reference vset adversarial t relay_budget full rep position)"
proof -
  let ?g = "gamma_for_depth depth position (length full - 1)"
  have "0 \<le> relay_budget * ?g" using assms(1) by (simp add: gamma_nonneg)
  moreover have "0 \<le> transaction_credit_weight (tx_irrecoverable_cost t) cost_reference * ?g"
    by (simp add: gamma_nonneg credit_weight_bounds)
  ultimately show ?thesis using assms(2) by (auto simp: capture_ok_def capture_position_def Let_def)
qed

lemma capture_positions_ok:
  assumes "0 \<le> relay_budget" and "capture_ok rep"
  shows "capture_ok (foldl (capture_position depth cost_reference vset adversarial t relay_budget full) rep ps)"
  using assms(2) by (induction ps arbitrary: rep) (simp_all add: capture_position_ok [OF assms(1)])

text \<open>The shares of a coalition in the organic rewards and contributions are proportions.\<close>

lemma capture_transactions_ok:
  assumes "theta \<le> 1" and "\<forall>(idx, t) \<in> set its. 0 \<le> tx_fee t" and "capture_ok rep"
  shows "capture_ok (foldl (capture_transaction theta depth cost_reference ver vset adversarial b) rep its)"
  using assms(2,3)
proof (induction its arbitrary: rep)
  case (Cons it its)
  obtain idx t where it: "it = (idx, t)" by fastforce
  have "0 \<le> (1 - theta) * tx_fee t" using assms(1) Cons.prems(1) by (simp add: it)
  then have "capture_ok (capture_transaction theta depth cost_reference ver vset adversarial b rep it)"
    using Cons.prems(2)
    by (auto simp: capture_transaction_def it Let_def capture_ok_def [of "_\<lparr>oc_included_tx := _\<rparr>"]
        capture_ok_def [of rep] capture_ok_def [of "_\<lparr>oc_valid_path_count := _\<rparr>"]
        intro!: capture_positions_ok split: option.splits)
  with Cons show ?case by simp
qed simp

lemma organic_capture_ok:
  assumes "unwrap_or 1 (ms_proposer_fee_ratio snap) \<le> 1" and "\<forall>b \<in> set bs. \<forall>t \<in> set (block_txs b). 0 \<le> tx_fee t"
  shows "capture_ok (organic_capture ver adversarial snap bs vs)"
proof -
  have "capture_ok (foldl (\<lambda>rep b. foldl (capture_transaction (unwrap_or 1 (ms_proposer_fee_ratio snap)) depth
              (unwrap_or 1 (ms_score_cost_reference snap)) ver (set (map v_address vs)) adversarial b) rep
            (enumerate 0 (block_txs b))) rep bs)" if "capture_ok rep" for depth rep
    using assms(2) that
  proof (induction bs arbitrary: rep)
    case (Cons b bs)
    have "\<forall>(idx, t) \<in> set (enumerate 0 (block_txs b)). 0 \<le> tx_fee t"
      using Cons.prems(1) by (auto simp: in_set_enumerate_eq)
    with Cons show ?case by (simp add: capture_transactions_ok [OF assms(1)])
  qed simp
  then show ?thesis
    by (simp add: organic_capture_def no_capture_def capture_ok_def [of "\<lparr>oc_included_tx = _, oc_valid_path_count = _,
        oc_relay_reward = _, oc_adversary_relay_reward = _, oc_raw_contribution = _,
        oc_adversary_raw_contribution = _\<rparr>"] split: option.splits)
qed

lemma captured_shares_unit:
  assumes "capture_ok rep"
  shows "0 \<le> adversary_relay_reward_share rep" "adversary_relay_reward_share rep \<le> 1"
    "0 \<le> adversary_raw_contribution_share rep" "adversary_raw_contribution_share rep \<le> 1"
  using assms
  by (auto simp: capture_ok_def adversary_relay_reward_share_def adversary_raw_contribution_share_def)

section \<open>The bounds on a coalition hold\<close>

lemma coalition_lookup_sum:
  fixes f :: "'v \<Rightarrow> real"
  assumes "distinct adv" and "distinct (map k vs)"
  shows "sum_list (map (hm_get_or 0 (map (\<lambda>v. (k v, f v)) vs)) adv)
    = sum_list (map f (filter (\<lambda>v. k v \<in> set adv) vs))"
  using assms(2)
proof (induction vs)
  case (Cons v vs)
  let ?g = "hm_get_or 0 (map (\<lambda>v. (k v, f v)) vs)"
  have "map_of (map (\<lambda>v. (k v, f v)) vs) (k v) = None"
    using Cons.prems by (simp add: map_of_eq_None_iff image_image)
  then have z: "?g (k v) = 0" by (simp add: hm_get_or_def)
  have "sum_list (map (\<lambda>a. if a = k v then f v else 0) as) = (if k v \<in> set as then f v else 0)"
    if "distinct as" for as using that by (induction as) auto
  moreover have "hm_get_or 0 (map (\<lambda>v. (k v, f v)) (v # vs)) = (\<lambda>a. (if a = k v then f v else 0) + ?g a)"
    using z by (auto simp: fun_eq_iff hm_get_or_def)
  ultimately show ?case using Cons assms(1) by (simp add: sum_list_addf)
qed (induction adv, simp_all add: hm_get_or_def)

lemma share_weight_sum:
  assumes "config_validate cfg = Inr ()" and "\<And>v. v \<in> set vs \<Longrightarrow> 0 \<le> s v \<and> 0 \<le> x v"
  shows "sum_list (map (\<lambda>v. share_weight cfg (s v) (x v)) vs)
    \<le> share_weight cfg (sum_list (map s vs)) (sum_list (map x vs))"
  using assms(2)
proof (induction vs)
  case (Cons v vs)
  then have "0 \<le> sum_list (map s vs)" "0 \<le> sum_list (map x vs)" by (auto intro!: sum_list_nonneg_map)
  with Cons share_weight_superadditive [OF assms(1), of "s v" "sum_list (map s vs)" "x v"] show ?case by force
qed (simp add: share_weight_def)

lemma active_scores_table:
  assumes "distinct (map v_address vs)"
  shows "active_scores st vs
    = map (\<lambda>v. (v_address v, positive_score (active_score_history st) v / score_total st vs)) vs"
  using assms unfolding active_scores_def damped_score_for_active_set_def Let_def score_total_def
  by (intro hm_collect_distinct) (simp add: comp_def)

lemma score_total_pos: "config_validate (config st) = Inr () \<Longrightarrow> 0 < score_total st vs"
  by (simp add: score_total_def config_validateD add_pos_nonneg sum_list_nonneg_map)

lemma real_stake_share_eq:
  assumes "distinct (map v_address vs)" "\<forall>v \<in> set vs. 0 \<le> v_stake v" "0 < total_stake vs" "distinct adv"
  shows "real_stake_share adv vs = sum_list (map (stake_share vs) (filter (\<lambda>v. v_address v \<in> set adv) vs))"
proof -
  let ?m = "map (\<lambda>v. (v_address v, v_stake v)) vs"
  have m: "hm_collect ?m = ?m" using assms(1) by (intro hm_collect_distinct) (simp add: comp_def)
  have stakes: "map (\<lambda>v. max (v_stake v) 0) ws = map v_stake ws" if "set ws \<subseteq> set vs" for ws
    using assms(2) that by (auto simp: max_def intro!: antisym)
  have tot: "sum_list (hm_values ?m) = total_stake vs"
    by (simp add: hm_values_def comp_def total_stake_def stakes)
  have "sum_list (map (stake_share vs) (filter (\<lambda>v. v_address v \<in> set adv) vs))
      = sum_list (map v_stake (filter (\<lambda>v. v_address v \<in> set adv) vs)) / total_stake vs"
    unfolding stake_share_def [abs_def] sum_list_div by (subst stakes) auto
  with assms(3) show ?thesis
    unfolding real_stake_share_def share_for_def Let_def m tot
    using coalition_lookup_sum [OF assms(4,1), of v_stake] by simp
qed


lemma score_ratio_bound:
  fixes a w x y :: real
  assumes "0 \<le> x" "x \<le> w" "a \<le> 1" "1 - a \<le> y" "0 < x + y" "a \<le> w"
  shows "x / (x + y) \<le> w / (w + 1 - a)"
proof -
  have "x * (1 - a) \<le> w * y" using assms by (intro mult_mono) auto
  then have "x * (w + 1 - a) \<le> w * (x + y)" by (simp add: algebra_simps)
  with assms show ?thesis by (simp add: frac_le_eq divide_le_0_iff)
qed

definition coalition_sum :: "(validator \<Rightarrow> real) \<Rightarrow> address list \<Rightarrow> validator list \<Rightarrow> real" where
  "coalition_sum f adv vs = sum_list (map f (filter (\<lambda>v. v_address v \<in> set adv) vs))"

definition rest_sum :: "(validator \<Rightarrow> real) \<Rightarrow> address list \<Rightarrow> validator list \<Rightarrow> real" where
  "rest_sum f adv vs = sum_list (map f (filter (\<lambda>v. v_address v \<notin> set adv) vs))"

definition damped_score :: "topo_state \<Rightarrow> validator list \<Rightarrow> validator \<Rightarrow> real" where
  "damped_score st vs v = positive_score (active_score_history st) v / score_total st vs"

lemma coalition_rest: "coalition_sum f adv vs + rest_sum f adv vs = sum_list (map f vs)"
  unfolding coalition_sum_def rest_sum_def by (rule sum_list_partition [symmetric])

lemma coalition_stake_bounds:
  assumes "0 < total_stake vs"
  shows "0 \<le> coalition_sum (stake_share vs) adv vs" "coalition_sum (stake_share vs) adv vs \<le> 1"
    "rest_sum (stake_share vs) adv vs = 1 - coalition_sum (stake_share vs) adv vs"
proof -
  have "0 \<le> coalition_sum (stake_share vs) adv vs" "0 \<le> rest_sum (stake_share vs) adv vs"
    using assms by (simp_all add: coalition_sum_def rest_sum_def stake_share_nonneg sum_list_nonneg_map)
  with coalition_rest [of "stake_share vs" adv vs] sum_stake_share [OF assms]
  show "0 \<le> coalition_sum (stake_share vs) adv vs" "coalition_sum (stake_share vs) adv vs \<le> 1"
    "rest_sum (stake_share vs) adv vs = 1 - coalition_sum (stake_share vs) adv vs"
    by linarith+
qed

lemma coalition_raw_bounds:
  assumes c: "config_validate (config st) = Inr ()" and d: "distinct (map v_address vs)" and tot: "0 < total_stake vs"
  shows "0 \<le> coalition_sum (raw_weight st vs) adv vs"
    "coalition_sum (raw_weight st vs) adv vs
      \<le> share_weight (config st) (coalition_sum (stake_share vs) adv vs) (coalition_sum (damped_score st vs) adv vs)"
    "1 - coalition_sum (stake_share vs) adv vs \<le> rest_sum (raw_weight st vs) adv vs"
    "1 \<le> coalition_sum (raw_weight st vs) adv vs + rest_sum (raw_weight st vs) adv vs"
proof -
  show "0 \<le> coalition_sum (raw_weight st vs) adv vs"
    unfolding coalition_sum_def using raw_weight_nonneg [OF c d tot] by (intro sum_list_nonneg_map) simp
  have "coalition_sum (raw_weight st vs) adv vs
      = coalition_sum (\<lambda>v. share_weight (config st) (stake_share vs v) (damped_score st vs v)) adv vs"
    unfolding coalition_sum_def damped_score_def using raw_weight_share [OF d tot]
    by (intro arg_cong [of _ _ sum_list]) simp
  also have "\<dots> \<le> share_weight (config st) (coalition_sum (stake_share vs) adv vs)
      (coalition_sum (damped_score st vs) adv vs)"
    unfolding coalition_sum_def using tot score_total_pos [OF c, of vs]
    by (intro share_weight_sum [OF c]) (simp add: stake_share_nonneg damped_score_def less_imp_le)
  finally show "coalition_sum (raw_weight st vs) adv vs
      \<le> share_weight (config st) (coalition_sum (stake_share vs) adv vs) (coalition_sum (damped_score st vs) adv vs)" .
  have "rest_sum (stake_share vs) adv vs \<le> rest_sum (raw_weight st vs) adv vs"
    unfolding rest_sum_def using raw_weight_bounds(1) [OF c d tot] by (intro sum_list_map_mono) simp
  with coalition_stake_bounds(3) [OF tot, of adv]
  show "1 - coalition_sum (stake_share vs) adv vs \<le> rest_sum (raw_weight st vs) adv vs" by simp
  show "1 \<le> coalition_sum (raw_weight st vs) adv vs + rest_sum (raw_weight st vs) adv vs"
    using frozen_weights_eq(2) [OF c d tot] by (simp add: coalition_rest)
qed

lemma reported_share:
  assumes c: "config_validate (config st) = Inr ()" and d: "distinct (map v_address vs)" and tot: "0 < total_stake vs"
    and adv: "distinct adv"
  shows "share_for adv (reported_weights (topo_metrics_snapshot (freeze_proposer_weights st vs)) vs)
    = coalition_sum (raw_weight st vs) adv vs
        / (coalition_sum (raw_weight st vs) adv vs + rest_sum (raw_weight st vs) adv vs)"
proof -
  define W where "W = sum_list (map (raw_weight st vs) vs)"
  let ?m = "map (\<lambda>v. (v_address v, raw_weight st vs v / W)) vs"
  have m: "reported_weights (topo_metrics_snapshot (freeze_proposer_weights st vs)) vs = ?m"
    using frozen_weights_eq(1) [OF c d tot] tot
    by (auto simp: reported_weights_def topo_metrics_snapshot_def W_def total_stake_def)
  have one: "sum_list (hm_values ?m) = 1"
    using frozen_weights_eq(2) [OF c d tot] by (simp add: hm_values_def comp_def sum_list_div W_def)
  have "sum_list (map (hm_get_or 0 ?m) adv) = coalition_sum (raw_weight st vs) adv vs / W"
    unfolding coalition_lookup_sum [OF adv d] sum_list_div coalition_sum_def ..
  then show ?thesis unfolding m by (simp add: share_for_def one coalition_rest W_def [symmetric])
qed

lemma coalition_weight_bounds:
  assumes "config_validate cfg = Inr ()" and "0 \<le> a"
  shows "a \<le> share_weight cfg a X" "share_weight cfg a X \<le> (1 + eta cfg * bonus_cap cfg) * a"
proof -
  note cd = config_validateD(10,11) [OF assms(1)]
  have "0 \<le> eta cfg * propagation_bonus (X / a) (bonus_cap cfg) (bonus_zeta cfg)"
    "eta cfg * propagation_bonus (X / a) (bonus_cap cfg) (bonus_zeta cfg) \<le> eta cfg * bonus_cap cfg"
    using cd by (auto simp: bonus_nonneg intro!: mult_left_mono bonus_le_cap)
  with assms(2) show "a \<le> share_weight cfg a X" "share_weight cfg a X \<le> (1 + eta cfg * bonus_cap cfg) * a"
    by (auto simp: share_weight_def mult.commute [of _ a] mult_le_cancel_left1 intro!: mult_left_mono)
qed

lemma score_dependent_bound_eq:
  assumes c: "config_validate (config st) = Inr ()" and d: "distinct (map v_address vs)"
    and nonneg: "\<forall>v \<in> set vs. 0 \<le> v_stake v" and tot: "0 < total_stake vs" and adv: "distinct adv"
  defines "a \<equiv> coalition_sum (stake_share vs) adv vs"
    and "w \<equiv> share_weight (config st) (coalition_sum (stake_share vs) adv vs) (coalition_sum (damped_score st vs) adv vs)"
  shows "score_dependent_bound adv (topo_metrics_snapshot (freeze_proposer_weights st vs)) vs = w / (w + 1 - a)"
    "theoretical_bound adv (topo_metrics_snapshot (freeze_proposer_weights st vs)) vs
      = a * (1 + max_bonus st) / (1 + a * max_bonus st)"
proof -
  let ?snap = "topo_metrics_snapshot (freeze_proposer_weights st vs)"
  have st: "real_stake_share adv vs = a"
    using real_stake_share_eq [OF d nonneg tot adv] by (simp add: a_def coalition_sum_def)
  have mass: "damped_score_mass adv ?snap = coalition_sum (damped_score st vs) adv vs"
    using coalition_lookup_sum [OF adv d, of "damped_score st vs"]
    by (simp add: damped_score_mass_def topo_metrics_snapshot_def freeze_proposer_weights_def Let_def
        active_scores_def [symmetric] active_scores_table [OF d] coalition_sum_def damped_score_def)
  have "score_dependent_bound adv ?snap vs = (if 0 < w + 1 - a then w / (w + 1 - a) else 0)"
    unfolding score_dependent_bound_def st mass Let_def
    by (simp add: topo_metrics_snapshot_def unwrap_or_def w_def share_weight_def a_def)
  moreover have "a \<le> w"
    unfolding a_def w_def using coalition_stake_bounds(1) [OF tot] by (intro coalition_weight_bounds(1) [OF c])
  ultimately show "score_dependent_bound adv ?snap vs = w / (w + 1 - a)" by simp
  have "0 < 1 + a * max_bonus st"
    using coalition_stake_bounds(1) [OF tot, of adv] max_bonus_nonneg [OF c] by (simp add: a_def add_pos_nonneg)
  then show "theoretical_bound adv ?snap vs = a * (1 + max_bonus st) / (1 + a * max_bonus st)"
    unfolding theoretical_bound_def st Let_def
    by (simp add: topo_metrics_snapshot_def unwrap_or_def max_bonus_def)
qed

lemma reported_bounds:
  assumes c: "config_validate (config st) = Inr ()" and d: "distinct (map v_address vs)"
    and nonneg: "\<forall>v \<in> set vs. 0 \<le> v_stake v" and tot: "0 < total_stake vs" and adv: "distinct adv"
  defines "snap \<equiv> topo_metrics_snapshot (freeze_proposer_weights st vs)"
  shows "share_for adv (reported_weights snap vs) \<le> score_dependent_bound adv snap vs"
    "score_dependent_bound adv snap vs \<le> theoretical_bound adv snap vs"
proof -
  note raw = coalition_raw_bounds [OF c d tot, of adv] and stake = coalition_stake_bounds [OF tot, of adv]
  note w = coalition_weight_bounds [OF c stake(1), of "coalition_sum (damped_score st vs) adv vs"]
  show "share_for adv (reported_weights snap vs) \<le> score_dependent_bound adv snap vs"
    unfolding snap_def reported_share [OF c d tot adv] score_dependent_bound_eq(1) [OF c d nonneg tot adv]
    using score_ratio_bound [OF raw(1,2) stake(2) raw(3) _ w(1)] raw(4) by simp
  show "score_dependent_bound adv snap vs \<le> theoretical_bound adv snap vs"
    unfolding snap_def score_dependent_bound_eq [OF c d nonneg tot adv]
    using share_bound [OF stake(1,2) max_bonus_nonneg [OF c] w(2) [folded max_bonus_def] order_refl] w(1)
    by (simp add: add_diff_eq)
qed

section \<open>A concrete epoch\<close>

text \<open>A block whose only transaction was relayed by the validator \<open>n\<close> to the proposer \<open>m\<close>.\<close>

definition credited_blk :: block where
  "credited_blk = (sample_blk 1 '''' [sample_tx])\<lparr>blk_body := \<lparr>body_transactions = [sample_tx],
     body_paths = [\<lparr>asp_chain_id = 0, asp_epoch = 0, asp_signature = '''', asp_paths = [''u'', ''n'']\<rparr>]\<rparr>\<rparr>"

lemma credited_contribution:
  "0 < hm_get_or 0 (raw_epoch_contribution topostake_config_default (\<lambda>_ _ _ _. True) [credited_blk] sample_validators) ''n''"
  using gamma_pos [of 4 "Suc (Suc 0)" "Suc 0"]
  by (simp add: raw_epoch_contribution_def credited_blk_def credit_transaction_def valid_route_def
      valid_path_record_def full_path_def credit_position_def sample_validators_def topostake_config_default_def
      Let_def table_simps gamma_def upt_rec transaction_credit_weight_def sample_tx_def with_costs_def)

lemma credited_in_set:
  "\<lparr>v_address = ''n'', v_stake = 1, v_hash_power = 0\<rparr> \<in> set sample_validators"
  "hd_epoch (blk_header credited_blk) = 0"
  by (simp_all add: sample_validators_def credited_blk_def)

lemma epoch_report_matches_plans_witness:
  "let rep = estimate_epoch_rewards (\<lambda>_ _ _ _. True) (base_reward sample_topo) (topo_metrics_snapshot sample_topo)
        [credited_blk] sample_validators;
      plan = compute_block_rewards (\<lambda>_ _ _ _. True) sample_topo credited_blk sample_validators in
    er_total_relay_reward rep = plan_relay_reward plan \<and> er_burned_relay_fee rep = plan_burned_relay_fee plan
    \<and> hm_get_or 0 (total_by_address rep) ''n'' = paid_to ''n'' (plan_rewards plan)"
  using epoch_report_matches_plans [of sample_topo "[credited_blk]" "\<lambda>_ _ _ _. True" sample_validators]
  by (simp add: within_hops_def credited_blk_def full_path_def topostake_config_default_def Let_def)

end
