(* ===== verification/Path_Cache.thy ===== *)
theory Path_Cache
  imports Path_Properties
begin

text \<open>
  The process-wide verdict cache of \<^verbatim>\<open>src/src/blockchain/path.rs\<close>.  Its key joins the
  fields of a record with the characters \<^verbatim>\<open>|\<close> and \<^verbatim>\<open>>\<close>.  For records whose
  names do not contain them a cached verdict is the uncached one; a name that contains
  \<^verbatim>\<open>>\<close> can reuse the verdict of a different route.
\<close>

section \<open>Transparency of the verdict cache\<close>

text \<open>Keys are unambiguous for names without the separator characters.\<close>

definition no_bar :: "string \<Rightarrow> bool" where
  "no_bar s \<longleftrightarrow> CHR ''|'' \<notin> set s"

definition clean_name :: "string \<Rightarrow> bool" where
  "clean_name s \<longleftrightarrow> CHR ''|'' \<notin> set s \<and> CHR ''>'' \<notin> set s"

definition clean_record :: "aggregated_signed_paths \<Rightarrow> address \<Rightarrow> bool" where
  "clean_record asp miner \<longleftrightarrow> clean_name miner \<and> no_bar (asp_signature asp)
     \<and> (\<forall>a \<in> set (asp_paths asp). clean_name a)"

definition clean_registry :: "bls_registry \<Rightarrow> bool" where
  "clean_registry reg \<longleftrightarrow> (\<forall>a pk. get_bls_pub_key reg a = Some pk \<longrightarrow> clean_name a)"

text \<open>Hexadecimal text contains no separator, and text that decodes is hexadecimal.\<close>

definition hex_text_laws :: "('x) crypto_scheme \<Rightarrow> bool" where
  "hex_text_laws C \<longleftrightarrow>
     (\<forall>b. no_bar (hex_encode C b)) \<and> (\<forall>s b. hex_decode C s = Some b \<longrightarrow> no_bar s)"

lemma split_at_separator:
  assumes "c \<notin> set x" and "c \<notin> set x'" and "x @ c # y = x' @ c # y'"
  shows "x = x' \<and> y = y'"
  using assms by (induction x arbitrary: x') (auto simp: Cons_eq_append_conv append_eq_Cons_conv)

lemma join_Cons: "xs \<noteq> [] \<Longrightarrow> join_with [c] (x # xs) = x @ c # join_with [c] xs"
  by (cases xs) auto

lemma join_inj:
  assumes "join_with [c] xs = join_with [c] ys" and "xs \<noteq> []" and "ys \<noteq> []"
    and "\<forall>x \<in> set xs. c \<notin> set x" and "\<forall>y \<in> set ys. c \<notin> set y"
  shows "xs = ys"
  using assms
proof (induction xs arbitrary: ys)
  case (Cons x xs)
  obtain y ys' where ys: "ys = y # ys'" using Cons.prems(3) by (cases ys) auto
  have clean: "c \<notin> set x" "c \<notin> set y" using Cons.prems(4,5) ys by auto
  show ?case
  proof (cases "xs = []"; cases "ys' = []")
    assume "xs \<noteq> []" and "ys' \<noteq> []"
    then have eq: "x @ c # join_with [c] xs = y @ c # join_with [c] ys'"
      using Cons.prems(1) by (simp add: ys join_Cons)
    have "xs = ys'"
      using Cons.IH [of ys'] Cons.prems(4,5) split_at_separator [OF clean eq]
        \<open>xs \<noteq> []\<close> \<open>ys' \<noteq> []\<close> by (simp add: ys)
    with split_at_separator [OF clean eq] show ?thesis by (simp add: ys)
  qed (use Cons.prems(1) clean in \<open>auto simp: ys join_Cons\<close>)
qed simp

lemma no_bar_show_nat: "no_bar (show_nat n)"
  using show_nat_digits [of "CHR ''|''" n] by (auto simp: no_bar_def is_digit_def)

lemma cache_key_inj:
  assumes "verification_cache_key asp h miner = verification_cache_key asp' h' miner'"
    and "clean_record asp miner" "clean_record asp' miner'" "no_bar h" "no_bar h'"
    and "asp_paths asp \<noteq> []" "asp_paths asp' \<noteq> []"
  shows "h = h' \<and> miner = miner' \<and> asp = asp'"
proof -
  note sep = split_at_separator [where c = "CHR ''|''"]
  have bars: "CHR ''|'' \<notin> set h" "CHR ''|'' \<notin> set h'" "CHR ''|'' \<notin> set miner"
    "CHR ''|'' \<notin> set miner'" "CHR ''|'' \<notin> set (asp_signature asp)"
    "CHR ''|'' \<notin> set (asp_signature asp')" "\<And>n. CHR ''|'' \<notin> set (show_nat n)"
    using assms(2-5) no_bar_show_nat
    unfolding clean_record_def clean_name_def no_bar_def by blast+
  note key = assms(1) [unfolded verification_cache_key_def append_Cons append_Nil]
  note 1 = sep [OF bars(1,2) key]
  note 2 = sep [OF bars(7) bars(7) conjunct2 [OF 1]]
  note 3 = sep [OF bars(7) bars(7) conjunct2 [OF 2]]
  note 4 = sep [OF bars(3,4) conjunct2 [OF 3]]
  note 5 = sep [OF bars(5,6) conjunct2 [OF 4]]
  have "asp_paths asp = asp_paths asp'"
    using join_inj [OF conjunct2 [OF 5]] assms(2,3,6,7)
    unfolding clean_record_def clean_name_def by blast
  with 1 2 3 4 5 show ?thesis by (simp add: show_nat_inject)
qed

definition verdicts_coherent :: "('x) crypto_scheme \<Rightarrow> bls_registry \<Rightarrow> path_caches \<Rightarrow> bool" where
  "verdicts_coherent C reg K \<longleftrightarrow>
     (\<forall>asp h miner v. clean_record asp miner \<and> no_bar h \<and> asp_paths asp \<noteq> [] \<and>
        map_of (path_verdicts K) (verification_cache_key asp h miner) = Some v
        \<longrightarrow> aggregate_verdict C reg asp h miner = Some v)"

lemma hop_statements_registered:
  assumes "hop_statements C reg h c e ns i n = Some r" and "i \<le> j" and "j \<le> i + n" and "0 < n"
  shows "\<exists>pk. get_bls_pub_key reg (ns ! j) = Some pk"
  using assms
proof (induction n arbitrary: i r)
  case (Suc n)
  show ?case
  proof (cases "j = i \<or> j = i + 1")
    case True
    with Suc.prems show ?thesis by (auto simp: Let_def split: option.splits)
  next
    case False
    with Suc.prems Suc.IH [of "i + 1"] show ?thesis
      by (auto simp: Let_def split: option.splits)
  qed
qed simp

lemma no_bar_strip: "no_bar (strip_0x s) \<Longrightarrow> no_bar s"
proof (cases "take 2 s = ''0x''")
  case True
  assume "no_bar (strip_0x s)"
  with True have "CHR ''|'' \<notin> set (take 2 s @ drop 2 s)"
    by (simp add: strip_0x_def no_bar_def del: append_take_drop_id)
  then show ?thesis by (simp add: no_bar_def)
qed (simp add: strip_0x_def)

text \<open>A record that reaches the cache has registered, hence clean, identities.\<close>

lemma verdict_clean:
  assumes "aggregate_verdict C reg asp h miner = Some v"
    and "hex_text_laws C" "clean_registry reg" "2 \<le> length (full_path asp miner)"
  shows "clean_record asp miner"
proof -
  let ?ns = "full_path asp miner"
  obtain s r where parsed: "bls_signature_from_string C (asp_signature asp) = Inr s"
    and stm: "hop_statements C reg h (asp_chain_id asp) (asp_epoch asp) ?ns 0 (length ?ns - 1) = Some r"
    using assms(1) by (auto simp: aggregate_verdict_def Let_def split: sum.splits option.splits)
  have "clean_name (?ns ! j)" if "j < length ?ns" for j
    using hop_statements_registered [OF stm, of j] that assms(3,4)
    unfolding clean_registry_def by auto
  then have "\<forall>a \<in> set ?ns. clean_name a" by (metis in_set_conv_nth)
  moreover have "no_bar (asp_signature asp)"
    using parsed assms(2) no_bar_strip [of "asp_signature asp"]
    by (auto simp: bls_signature_from_string_def hex_text_laws_def split: option.splits)
  moreover have "miner \<in> set ?ns" and "set (asp_paths asp) \<subseteq> set ?ns"
    by (auto simp: full_path_def)
  ultimately show ?thesis unfolding clean_record_def by blast
qed

text \<open>The cached verification with its pre-checks merged, as in the uncached form.\<close>

lemma verify_cached_eq:
  "verify_at_epoch C reg K asp t miner epoch =
    (if asp_epoch asp \<noteq> epoch then Some (False, K)
     else if asp_paths asp = [] then
       (if tx_from t = miner then map_option (\<lambda>b. (b, K)) (tx_verify C t) else Some (False, K))
     else if asp_signature asp = '''' then Some (False, K)
     else case tx_verify C t of
       None \<Rightarrow> None
     | Some ok \<Rightarrow>
         if \<not> ok \<or> hd (full_path asp miner) \<noteq> tx_from t \<or> \<not> distinct (full_path asp miner)
         then Some (False, K)
         else if length (full_path asp miner) = 1 then Some (True, K)
         else let key = verification_cache_key asp (tx_hash t) miner in
           case map_of (path_verdicts K) key of
             Some cached \<Rightarrow> Some (cached, K)
           | None \<Rightarrow>
               (case aggregate_verdict C reg asp (tx_hash t) miner of
                  None \<Rightarrow> Some (False, K)
                | Some v \<Rightarrow> Some (v, K\<lparr>path_verdicts := hm_insert key v (path_verdicts K)\<rparr>)))"
proof -
  have one: "length (full_path asp miner) - 1 = 0 \<longleftrightarrow> length (full_path asp miner) = 1"
    by (cases "full_path asp miner") auto
  have hd0: "full_path asp miner ! 0 = hd (full_path asp miner)"
    by (simp add: hd_conv_nth)
  show ?thesis
    unfolding verify_at_epoch_def verify_at_epoch_with_cache_def
      has_repeated_nodes_def any_seen_iff Let_def one hd0
    by (auto split: option.splits bool.splits)
qed

lemma coherent_insert:
  assumes "verdicts_coherent C reg K" and "aggregate_verdict C reg asp h miner = Some v"
    and "clean_record asp miner" and "no_bar h" and "asp_paths asp \<noteq> []"
  shows "verdicts_coherent C reg
    (K\<lparr>path_verdicts := hm_insert (verification_cache_key asp h miner) v (path_verdicts K)\<rparr>)"
  unfolding verdicts_coherent_def
proof (intro allI impI, elim conjE)
  fix asp' h' miner' v'
  assume a: "clean_record asp' miner'" "no_bar h'" "asp_paths asp' \<noteq> []"
    and l: "map_of (path_verdicts (K\<lparr>path_verdicts :=
      hm_insert (verification_cache_key asp h miner) v (path_verdicts K)\<rparr>))
      (verification_cache_key asp' h' miner') = Some v'"
  show "aggregate_verdict C reg asp' h' miner' = Some v'"
  proof (cases "verification_cache_key asp' h' miner' = verification_cache_key asp h miner")
    case True
    with cache_key_inj [OF True a(1) assms(3) a(2) assms(4) a(3) assms(5)] l assms(2) show ?thesis
      by (simp add: table_simps)
  next
    case False
    with l have "map_of (path_verdicts K) (verification_cache_key asp' h' miner') = Some v'"
      by (simp add: table_simps)
    with assms(1) a show ?thesis unfolding verdicts_coherent_def by blast
  qed
qed

lemma tx_hash_no_bar: "hex_text_laws C \<Longrightarrow> tx_verify C t = Some True \<Longrightarrow> no_bar (tx_hash t)"
  by (simp add: tx_verify_hash hex_text_laws_def)

lemma full_path_two:
  "length (full_path asp miner) \<noteq> 1 \<Longrightarrow> 2 \<le> length (full_path asp miner)"
  using full_path_not_Nil [of asp miner] by (cases "full_path asp miner") (auto simp: Suc_le_eq)

lemma verify_cached_step:
  assumes "verify_at_epoch C reg K asp t miner epoch = Some (b, K')"
    and "verdicts_coherent C reg K" and "hex_text_laws C" and "clean_registry reg"
  shows "verdicts_coherent C reg K'
    \<and> (clean_record asp miner \<longrightarrow> verify_at_epoch_uncached C reg asp t miner epoch = Some b)"
proof (cases "asp_epoch asp = epoch \<and> asp_paths asp \<noteq> [] \<and> asp_signature asp \<noteq> ''''
    \<and> tx_verify C t = Some True \<and> hd (full_path asp miner) = tx_from t
    \<and> distinct (full_path asp miner) \<and> length (full_path asp miner) \<noteq> 1")
  case True
  let ?key = "verification_cache_key asp (tx_hash t) miner"
  have nb: "no_bar (tx_hash t)" using True tx_hash_no_bar assms(3) by blast
  have unc: "verify_at_epoch_uncached C reg asp t miner epoch
      = Some (aggregate_verdict C reg asp (tx_hash t) miner = Some True)"
    using True by (simp add: verify_uncached_eq evidence_ok_def)
  show ?thesis
  proof (cases "map_of (path_verdicts K) ?key")
    case (Some c)
    then have bk: "b = c" "K' = K" using assms(1) True by (auto simp: verify_cached_eq)
    have "clean_record asp miner \<longrightarrow> aggregate_verdict C reg asp (tx_hash t) miner = Some c"
      using assms(2) Some nb True unfolding verdicts_coherent_def by blast
    with bk unc assms(2) show ?thesis by auto
  next
    case None
    show ?thesis
    proof (cases "aggregate_verdict C reg asp (tx_hash t) miner")
      case None
      then have "b = False" "K' = K"
        using assms(1) True \<open>map_of (path_verdicts K) ?key = None\<close> by (auto simp: verify_cached_eq)
      with unc None assms(2) show ?thesis by simp
    next
      case (Some v)
      then have "b = v" "K' = K\<lparr>path_verdicts := hm_insert ?key v (path_verdicts K)\<rparr>"
        using assms(1) True \<open>map_of (path_verdicts K) ?key = None\<close> by (auto simp: verify_cached_eq)
      moreover have "clean_record asp miner"
        using verdict_clean [OF Some assms(3,4)] full_path_two True by blast
      ultimately show ?thesis
        using unc Some coherent_insert [OF assms(2) Some] nb True by auto
    qed
  qed
next
  case False
  then have "K' = K" and "verify_at_epoch_uncached C reg asp t miner epoch = Some b"
    using assms(1) full_path_last [of asp miner]
    by (auto simp: verify_cached_eq verify_uncached_eq evidence_ok_def
        split: if_splits option.splits)
  with assms(2) show ?thesis by simp
qed

text \<open>A process verifies records one after the other, sharing the cache.\<close>

fun verify_run ::
  "('x) tx_env_scheme \<Rightarrow> bls_registry \<Rightarrow> path_caches
    \<Rightarrow> (aggregated_signed_paths \<times> transaction \<times> address \<times> nat) list \<Rightarrow> bool list run" where
  "verify_run C reg K [] = Some []"
| "verify_run C reg K ((asp, t, miner, epoch) # qs) =
     (case verify_at_epoch C reg K asp t miner epoch of
        None \<Rightarrow> None
      | Some (b, K') \<Rightarrow> map_option (\<lambda>bs. b # bs) (verify_run C reg K' qs))"

lemma verify_run_coherent:
  assumes "hex_text_laws C" and "clean_registry reg"
    and "verify_run C reg K qs = Some bs" and "verdicts_coherent C reg K"
  shows "list_all2 (\<lambda>(asp, t, miner, epoch) b. clean_record asp miner \<longrightarrow>
    verify_at_epoch_uncached C reg asp t miner epoch = Some b) qs bs"
  using assms(3,4)
proof (induction qs arbitrary: K bs)
  case (Cons q qs)
  obtain asp t miner epoch where q: "q = (asp, t, miner, epoch)" by (cases q) auto
  obtain b K' bs' where r: "verify_at_epoch C reg K asp t miner epoch = Some (b, K')"
    "verify_run C reg K' qs = Some bs'" "bs = b # bs'"
    using Cons.prems(1) by (auto simp: q split: option.splits)
  with verify_cached_step [OF r(1) Cons.prems(2) assms(1,2)] Cons.IH [of K' bs'] show ?case
    by (simp add: q)
qed simp

text \<open>
  C6.  The verdict cache is transparent for ordinary names.  In any sequence of
  verifications that starts with an empty cache and shares it, the verdict on every record
  whose names do not contain the separator characters is the one computed without a cache,
  whatever other records were verified before.
\<close>

theorem cached_verdicts_agree:
  assumes "hex_text_laws C" and "clean_registry reg"
    and "verify_run C reg no_caches qs = Some bs"
  shows "list_all2 (\<lambda>(asp, t, miner, epoch) b. clean_record asp miner \<longrightarrow>
    verify_at_epoch_uncached C reg asp t miner epoch = Some b) qs bs"
  using assms by (rule verify_run_coherent) (simp add: verdicts_coherent_def no_caches_def)

lemma join_merge: "join_with [c] (xs @ [a, b] @ ys) = join_with [c] (xs @ [a @ [c] @ b] @ ys)"
  by (induction xs) (cases ys; simp add: join_Cons)+

lemma unregistered_no_verdict:
  assumes "get_bls_pub_key reg (full_path asp miner ! j) = None"
    and "j < length (full_path asp miner)" and "length (full_path asp miner) \<noteq> 1"
  shows "aggregate_verdict C reg asp h miner = None"
proof (rule ccontr)
  assume "aggregate_verdict C reg asp h miner \<noteq> None"
  then obtain r where "hop_statements C reg h (asp_chain_id asp) (asp_epoch asp)
      (full_path asp miner) 0 (length (full_path asp miner) - 1) = Some r"
    by (auto simp: aggregate_verdict_def Let_def split: sum.splits option.splits)
  note reg = hop_statements_registered [OF this, of j]
  have "j \<le> 0 + (length (full_path asp miner) - 1)" and "0 < length (full_path asp miner) - 1"
    using assms(2) full_path_two [OF assms(3)] by auto
  with reg assms(1) show False by simp
qed

section \<open>The sample libraries satisfy the text laws\<close>

lemma hex_enc_chars: "c \<in> set (hex_enc bs) \<Longrightarrow> hex_val c \<noteq> None"
proof (induction bs)
  case (Cons b bs)
  have "unat b div 16 < 16" using unsigned_less [of b, where ?'a = nat] by simp
  with Cons show ?case by (auto simp: hex_val_digit)
qed simp

lemma hex_dec_chars: "hex_dec s = Some b \<Longrightarrow> c \<in> set s \<Longrightarrow> hex_val c \<noteq> None"
  by (induction s arbitrary: b rule: hex_dec.induct) (auto split: option.splits)

lemma hex_val_separators: "hex_val (CHR ''|'') = None" "hex_val (CHR ''>'') = None"
  by (simp_all add: hex_val_def)

lemma sample_hex_text_laws: "hex_text_laws sample_env"
  using hex_enc_chars hex_dec_chars hex_val_separators(1)
  by (fastforce simp: hex_text_laws_def no_bar_def sample_with_def)

lemma sample_clean_address: "clean_name (w_address (sample_wallet n))"
  using hex_enc_chars hex_val_separators
  unfolding sample_address clean_name_def by fastforce

lemma sample_clean_registry: "clean_registry sample_registry"
  using sample_clean_address
  by (auto simp: clean_registry_def sample_registry_def register_wallet_def get_bls_pub_key_def
      register_trusted_bls_pub_key_def table_simps split: if_splits)

lemma uncached_then_cached:
  assumes "verify_at_epoch_uncached C reg asp t miner epoch = Some b"
  shows "\<exists>K. verify_at_epoch C reg no_caches asp t miner epoch = Some (b, K)"
  using assms
  by (auto simp: verify_cached_eq verify_uncached_eq evidence_ok_def no_caches_def Let_def
      split: if_splits option.splits)

lemma sample_evidence:
  "\<exists>asp. asp_paths asp = map (\<lambda>n. w_address (sample_wallet n)) [1, 2, 3]
    \<and> verify_at_epoch_uncached sample_env sample_registry asp sample_tx
        (w_address (sample_wallet 4)) 5 = Some True"
proof -
  have "\<exists>tp K' asp. honest_relay sample_env sample_registry no_caches
      (new_with_epoch_and_chain_id sample_tx 5 7) (sample_wallet 1) (map sample_wallet [2, 3, 4])
      = Some (True, tp, K')
    \<and> from_transaction_paths sample_env sample_registry tp = Some asp
    \<and> full_path asp (w_address (last (map sample_wallet [2, 3, 4])))
        = map w_address (sample_wallet 1 # map sample_wallet [2, 3, 4])
    \<and> asp_paths asp = w_address (sample_wallet 1) # map w_address (butlast (map sample_wallet [2, 3, 4]))
    \<and> asp_signature asp \<noteq> ''''
    \<and> verify_at_epoch_uncached sample_env sample_registry asp sample_tx
        (w_address (last (map sample_wallet [2, 3, 4]))) 5 = Some True"
    by (rule honest_evidence [OF sample_laws])
      (auto simp: honest_wallet_def sample_wallet_wf sample_registered sample_address_inj
        no_caches_def sample_tx_def)
  then show ?thesis by auto
qed

lemma cached_verdicts_agree_witness:
  "\<exists>asp t miner b. clean_record asp miner
    \<and> verify_run sample_env sample_registry no_caches [(asp, t, miner, 5), (asp, t, miner, 6)]
        = Some [b, False]
    \<and> verify_at_epoch_uncached sample_env sample_registry asp t miner 5 = Some b \<and> b"
proof -
  obtain asp where asp: "asp_paths asp = map (\<lambda>n. w_address (sample_wallet n)) [1, 2, 3]"
    "verify_at_epoch_uncached sample_env sample_registry asp sample_tx
        (w_address (sample_wallet 4)) 5 = Some True"
    using sample_evidence by blast
  let ?m = "w_address (sample_wallet 4)"
  obtain K where K: "verify_at_epoch sample_env sample_registry no_caches asp sample_tx ?m 5
      = Some (True, K)"
    using uncached_then_cached [OF asp(2)] by blast
  have e: "asp_epoch asp = 5" using asp(2) by (auto simp: verify_uncached_eq split: if_splits)
  have run: "verify_run sample_env sample_registry no_caches
      [(asp, sample_tx, ?m, 5), (asp, sample_tx, ?m, 6)] = Some [True, False]"
    using K e by (simp add: verify_cached_eq [of _ _ K])
  have "no_bar (asp_signature asp)"
    using verdict_clean [OF _ sample_hex_text_laws sample_clean_registry, of asp "tx_hash sample_tx" ?m True]
      asp e by (auto simp: verify_uncached_eq evidence_ok_def clean_record_def full_path_def
        split: if_splits option.splits)
  then have clean: "clean_record asp ?m"
    using asp(1) sample_clean_address by (auto simp: clean_record_def)
  from cached_verdicts_agree [OF sample_hex_text_laws sample_clean_registry run] clean run
  show ?thesis by auto
qed

text \<open>
  C31.  A name containing the list separator reuses a foreign verdict.  After a record
  over the nodes \<open>xs @ [a, b] @ ys\<close> was verified and cached, the record that replaces
  \<open>a, b\<close> by the single unregistered name \<^verbatim>\<open>a>b\<close> is accepted from the cache although the
  uncached verification rejects it.
\<close>

theorem merged_name_hits_cache:
  assumes "verify_at_epoch C reg no_caches asp t miner epoch = Some (True, K)"
    and "asp_paths asp = xs @ [a, b] @ ys" and "xs \<noteq> []"
    and "distinct (xs @ [a @ ''>'' @ b] @ ys @ [miner])"
    and "get_bls_pub_key reg (a @ ''>'' @ b) = None"
    and "forged = asp\<lparr>asp_paths := xs @ [a @ ''>'' @ b] @ ys\<rparr>"
  shows "verify_at_epoch C reg K forged t miner epoch = Some (True, K)
    \<and> verify_at_epoch_uncached C reg forged t miner epoch = Some False"
proof -
  let ?m = "a @ ''>'' @ b" and ?key = "verification_cache_key asp (tx_hash t) miner"
  have ver: "asp_epoch asp = epoch" "asp_signature asp \<noteq> ''''" "tx_verify C t = Some True"
    "hd (full_path asp miner) = tx_from t" "map_of (path_verdicts K) ?key = Some True"
    using assms(1,2)
    by (auto simp: verify_cached_eq Let_def no_caches_def table_simps full_path_def
        split: if_splits option.splits)
  have paths: "asp_paths forged = xs @ [?m] @ ys"
    and same: "asp_epoch forged = asp_epoch asp" "asp_signature forged = asp_signature asp"
    by (simp_all add: assms(6))
  have ne: "last (asp_paths forged) \<noteq> miner" using assms(4) unfolding paths by auto
  then have full: "full_path forged miner = xs @ [?m] @ ys @ [miner]"
    by (simp add: full_path_def paths)
  have hd: "hd (full_path forged miner) = tx_from t"
    using ver(4) assms(2,3) unfolding full by (auto simp: full_path_def split: if_splits)
  have len: "length (full_path forged miner) \<noteq> 1" by (simp add: full)
  have key: "verification_cache_key forged (tx_hash t) miner = ?key"
    using join_merge [of "CHR ''>''" xs a b ys]
    by (simp add: verification_cache_key_def assms(2,6))
  have none: "aggregate_verdict C reg forged (tx_hash t) miner = None"
    using assms(5) len by (intro unregistered_no_verdict [where j = "length xs"]) (auto simp: full)
  have dis: "distinct (full_path forged miner)" using assms(4) by (simp add: full)
  show ?thesis
    using ver hd len key none dis same paths
    by (simp add: verify_cached_eq verify_uncached_eq evidence_ok_def)
qed

lemma merged_name_hits_cache_witness:
  "\<exists>asp K a b. let forged = asp\<lparr>asp_paths := [w_address (sample_wallet 1), a @ ''>'' @ b]\<rparr> in
     verify_at_epoch sample_env sample_registry K forged sample_tx (w_address (sample_wallet 4)) 5
       = Some (True, K)
   \<and> verify_at_epoch_uncached sample_env sample_registry forged sample_tx
       (w_address (sample_wallet 4)) 5 = Some False"
proof -
  obtain asp where asp: "asp_paths asp = map (\<lambda>n. w_address (sample_wallet n)) [1, 2, 3]"
    "verify_at_epoch_uncached sample_env sample_registry asp sample_tx
        (w_address (sample_wallet 4)) 5 = Some True"
    using sample_evidence by blast
  let ?a = "\<lambda>n. w_address (sample_wallet n)"
  obtain K where K: "verify_at_epoch sample_env sample_registry no_caches asp sample_tx (?a 4) 5
      = Some (True, K)"
    using uncached_then_cached [OF asp(2)] by blast
  have gt: "CHR ''>'' \<notin> set (?a n)" for n
    using sample_clean_address [of n] by (simp add: clean_name_def)
  have "\<not> clean_name (?a 2 @ ''>'' @ ?a 3)" by (simp add: clean_name_def)
  then have none: "get_bls_pub_key sample_registry (?a 2 @ ''>'' @ ?a 3) = None"
    using sample_clean_registry unfolding clean_registry_def by (metis not_None_eq)
  have dis: "distinct ([?a 1] @ [?a 2 @ ''>'' @ ?a 3] @ [] @ [?a 4])"
  proof -
    have "CHR ''>'' \<in> set (?a 2 @ ''>'' @ ?a 3)" by simp
    with gt [of 1] gt [of 4] have "?a 2 @ ''>'' @ ?a 3 \<noteq> ?a 1" "?a 2 @ ''>'' @ ?a 3 \<noteq> ?a 4"
      by metis+
    then show ?thesis by (auto simp: sample_address_inj)
  qed
  from merged_name_hits_cache [OF K, of "[?a 1]" "?a 2" "?a 3" "[]"] asp(1) none dis
  show ?thesis by (auto simp: Let_def)
qed

end
