(* ===== verification/Topo_Scores.thy ===== *)
theory Topo_Scores
  imports Topo_Properties
begin

text \<open>
  The propagation scores of the TopoStake engine: what one epoch can contribute, and an
  invariant of the score history over any sequence of epochs.
\<close>

section \<open>Contribution of an epoch\<close>

text \<open>A table of non-negative values for validators whose total is at most \<open>bound\<close>.\<close>

definition credit_table :: "address set \<Rightarrow> real \<Rightarrow> (address, real) hash_map \<Rightarrow> bool" where
  "credit_table vset bound m \<longleftrightarrow>
     hm_ok m \<and> fst ` set m \<subseteq> vset \<and> list_all (\<lambda>x. 0 \<le> x) (hm_values m)
     \<and> sum_list (hm_values m) \<le> bound"

lemma hm_get_or_nonneg: "list_all (\<lambda>x. 0 \<le> x) (hm_values m) \<Longrightarrow> 0 \<le> hm_get_or (0::real) m k"
  by (auto simp: hm_get_or_def hm_values_def list_all_iff dest!: map_of_SomeD split: option.splits)

lemma credit_table_mono: "credit_table vset x m \<Longrightarrow> x \<le> y \<Longrightarrow> credit_table vset y m"
  by (auto simp: credit_table_def)

lemma credit_table_add:
  assumes "credit_table vset bound m" and "k \<in> vset" and "0 \<le> x"
  shows "credit_table vset (bound + x) (hm_add k x m)"
proof -
  have ok: "hm_ok m" and nn: "list_all (\<lambda>x. 0 \<le> x) (hm_values m)"
    using assms(1) by (auto simp: credit_table_def)
  have "list_all (\<lambda>x. 0 \<le> x) (hm_values (hm_add k x m))"
    using nn hm_get_or_nonneg [OF nn, of k] assms(3) values_hm_insert [of _ k _ m]
    unfolding hm_values_def hm_add_def list_all_iff by fastforce
  moreover have "fst ` set (hm_add k x m) \<subseteq> vset"
    using assms(1,2) keys_hm_insert [of k _ m] by (auto simp: hm_add_def credit_table_def)
  ultimately show ?thesis
    using assms(1) ok by (simp add: credit_table_def hm_ok_add hm_values_def sum_hm_add)
qed

lemma credit_positions:
  assumes "credit_table vset bound raw"
  shows "credit_table vset
    (bound + transaction_credit_weight (tx_irrecoverable_cost t) (score_cost_reference cfg)
       * (\<Sum>p\<leftarrow>ps. gamma cfg p (length full - 1)))
    (foldl (credit_position cfg vset t full) raw ps)"
  using assms
proof (induction ps arbitrary: raw bound)
  case (Cons p ps)
  let ?q = "transaction_credit_weight (tx_irrecoverable_cost t) (score_cost_reference cfg)"
  let ?x = "?q * gamma cfg p (length full - 1)"
  have x: "0 \<le> ?x" by (simp add: gamma_def unit_interval)
  have "credit_table vset (bound + ?x) (credit_position cfg vset t full raw p)"
    using credit_table_add [OF Cons.prems _ x] credit_table_mono [OF Cons.prems] x
    by (simp add: credit_position_def Let_def)
  from Cons.IH [OF this] show ?case by (simp add: algebra_simps)
qed simp

definition evidence_credit :: "topostake_config \<Rightarrow> path_verifier \<Rightarrow> block \<Rightarrow> nat \<times> transaction \<Rightarrow> real" where
  "evidence_credit cfg ver b it =
     (case valid_route cfg ver b (fst it) (snd it) of
        None \<Rightarrow> 0
      | Some full \<Rightarrow> transaction_credit_weight (tx_irrecoverable_cost (snd it)) (score_cost_reference cfg)
          * path_budget cfg (length full - 1))"

lemma credit_transaction_table:
  assumes "credit_table vset bound raw"
  shows "credit_table vset (bound + evidence_credit cfg ver b it) (credit_transaction cfg ver vset b raw it)"
  using assms credit_positions [OF assms, where t = "snd it" and cfg = cfg and full = full
      and ps = "[1..<length full - 1]" for full]
  unfolding budget_all_positions
  by (auto simp: credit_transaction_def evidence_credit_def split: prod.splits option.splits)

lemma credit_transactions_table:
  "credit_table vset bound raw \<Longrightarrow>
   credit_table vset (bound + sum_list (map (evidence_credit cfg ver b) its))
     (foldl (credit_transaction cfg ver vset b) raw its)"
proof (induction its arbitrary: raw bound)
  case (Cons it its)
  from Cons.IH [OF credit_transaction_table [OF Cons.prems]] show ?case by (simp add: add.assoc)
qed simp

definition epoch_credit :: "topostake_config \<Rightarrow> path_verifier \<Rightarrow> block list \<Rightarrow> real" where
  "epoch_credit cfg ver bs =
     (\<Sum>b\<leftarrow>bs. \<Sum>it\<leftarrow>enumerate 0 (body_transactions (blk_body b)). evidence_credit cfg ver b it)"

lemma credit_blocks_table:
  "credit_table vset bound raw \<Longrightarrow>
   credit_table vset (bound + epoch_credit cfg ver bs)
     (foldl (\<lambda>raw b. foldl (credit_transaction cfg ver vset b) raw
        (enumerate 0 (body_transactions (blk_body b)))) raw bs)"
proof (induction bs arbitrary: raw bound)
  case (Cons b bs)
  from Cons.IH [OF credit_transactions_table [OF Cons.prems]] show ?case
    by (simp add: epoch_credit_def add.assoc)
qed (simp add: epoch_credit_def)

lemma evidence_credit_le: "evidence_credit cfg ver b it \<le> 1"
  by (auto simp: evidence_credit_def path_budget_def unit_interval intro!: mult_le_one
      split: option.splits)

definition tx_count :: "block list \<Rightarrow> nat" where
  "tx_count bs = sum_list (map (\<lambda>b. length (body_transactions (blk_body b))) bs)"

lemma epoch_credit_le: "epoch_credit cfg ver bs \<le> real (tx_count bs)"
proof (induction bs)
  case (Cons b bs)
  have "(\<Sum>it\<leftarrow>enumerate 0 ts. evidence_credit cfg ver b it) \<le> (\<Sum>it\<leftarrow>enumerate (0::nat) ts. 1)" for ts
    by (intro sum_list_map_mono) (simp add: evidence_credit_le)
  then have "(\<Sum>it\<leftarrow>enumerate 0 ts. evidence_credit cfg ver b it) \<le> length ts" for ts
    by (simp add: sum_list_triv)
  from add_mono [OF this Cons.IH] show ?case by (simp add: epoch_credit_def tx_count_def)
qed (simp add: epoch_credit_def tx_count_def)

text \<open>
  An epoch contributes no more than its evidence.  For any blocks, validators and
  verifier, the raw contributions form a table with one non-negative entry per credited
  validator, and their total is at most the sum over all transactions with a valid route of
  the credit weight times the path budget; in particular at most one per transaction.
\<close>

theorem epoch_contribution_bounded:
  "let raw = raw_epoch_contribution cfg ver bs vs in
    hm_ok raw \<and> fst ` set raw \<subseteq> v_address ` set vs \<and> list_all (\<lambda>x. 0 \<le> x) (hm_values raw)
    \<and> sum_list (hm_values raw) \<le> epoch_credit cfg ver bs
    \<and> epoch_credit cfg ver bs \<le> real (tx_count bs)"
proof -
  have "credit_table (set (map v_address vs)) 0 []"
    by (simp add: credit_table_def hm_ok_def hm_values_def)
  from credit_blocks_table [OF this, of cfg ver bs] show ?thesis
    by (simp add: raw_epoch_contribution_def credit_table_def Let_def epoch_credit_le)
qed
section \<open>Score history\<close>

lemma values_get_or: "hm_ok m \<Longrightarrow> map (hm_get_or d m) (map fst m) = hm_values m"
  by (auto simp: hm_ok_def hm_values_def hm_get_or_def intro!: map_cong)

text \<open>Looking up distinct keys never yields more than the whole table.\<close>

lemma sum_lookup_le:
  fixes m :: "('k, real) hash_map"
  assumes "hm_ok m" "list_all (\<lambda>x. 0 \<le> x) (hm_values m)" "distinct ks"
  shows "(\<Sum>k\<leftarrow>ks. hm_get_or 0 m k) \<le> sum_list (hm_values m)"
proof -
  have "(\<Sum>k\<leftarrow>ks. hm_get_or 0 m k) = (\<Sum>k\<in>set ks. hm_get_or 0 m k)"
    using assms(3) by (simp add: sum_list_distinct_conv_sum_set)
  also have "\<dots> = (\<Sum>k\<in>set ks \<inter> fst ` set m. hm_get_or 0 m k)"
    by (intro sum.mono_neutral_right) (auto simp: hm_get_or_def map_of_eq_None_iff split: option.splits
        dest: map_of_SomeD intro: rev_image_eqI)
  also have "\<dots> \<le> (\<Sum>k\<in>set (map fst m). hm_get_or 0 m k)"
    using hm_get_or_nonneg [OF assms(2)] by (intro sum_mono2) auto
  also have "\<dots> = sum_list (hm_values m)"
    using assms(1) unfolding values_get_or [OF assms(1), of 0, symmetric]
    by (intro sum_list_distinct_conv_sum_set [symmetric]) (simp add: hm_ok_def)
  finally show ?thesis .
qed

lemma epoch_table: "credit_table (v_address ` set vs) (real (tx_count bs)) (raw_epoch_contribution cfg ver bs vs)"
proof -
  have "credit_table (set (map v_address vs)) 0 []"
    by (simp add: credit_table_def hm_ok_def hm_values_def)
  from credit_blocks_table [OF this, of cfg ver bs] show ?thesis
    using epoch_credit_le [of cfg ver bs]
    by (auto simp: raw_epoch_contribution_def intro: credit_table_mono)
qed

lemma scores_step:
  assumes valid: "config_validate (config st) = Inr ()" and dist: "distinct (map v_address vs)"
    and count: "tx_count bs \<le> N"
    and inv: "credit_table UNIV (real N / saturation_k (config st)) (score_history st)"
  shows "credit_table (v_address ` set vs) (real N / saturation_k (config st))
    (score_history (update_scores_from_epoch ver st bs vs))"
proof -
  let ?k = "saturation_k (config st)" and ?b = "beta (config st)" and ?h = "score_history st"
  define raw where "raw = raw_epoch_contribution (config st) ver bs vs"
  define nxt where "nxt = next_score st (normalized_stake vs) raw"
  note c = config_validateD(2,3,4) [OF valid]
  have raw: "credit_table (v_address ` set vs) (real N) raw"
    unfolding raw_def using count by (intro credit_table_mono [OF epoch_table]) simp
  have hist: "score_history (update_scores_from_epoch ver st bs vs)
      = map (\<lambda>v. (v_address v, nxt (v_address v))) vs"
    using foldl_insert_distinct [of "[]" v_address vs "\<lambda>v. nxt (v_address v)"] dist
    by (simp add: update_scores_from_epoch_def Let_def nxt_def raw_def)
  have nn: "list_all (\<lambda>x. 0 \<le> x) (hm_values raw)" "list_all (\<lambda>x. 0 \<le> x) (hm_values ?h)"
    using raw inv by (simp_all add: credit_table_def)
  have low: "0 \<le> nxt a" for a
    using hm_get_or_nonneg [OF nn(2), of a] c by (simp add: nxt_def next_score_def unit_interval)
  have up: "nxt a \<le> ?b * (hm_get_or 0 raw a / ?k) + (1 - ?b) * hm_get_or 0 ?h a" for a
    unfolding nxt_def next_score_def
    using saturated_le_raw [OF c(3) hm_get_or_nonneg [OF nn(1)]] c
    by (intro add_mono mult_left_mono) auto
  let ?as = "map v_address vs"
  have "(\<Sum>a\<leftarrow>?as. nxt a) \<le> (\<Sum>a\<leftarrow>?as. ?b / ?k * hm_get_or 0 raw a + (1 - ?b) * hm_get_or 0 ?h a)"
    using up by (intro sum_list_map_mono) simp
  also have "\<dots> = ?b / ?k * (\<Sum>a\<leftarrow>?as. hm_get_or 0 raw a) + (1 - ?b) * (\<Sum>a\<leftarrow>?as. hm_get_or 0 ?h a)"
    by (simp only: sum_list_addf sum_list_mult)
  also have "\<dots> \<le> ?b / ?k * real N + (1 - ?b) * (real N / ?k)"
    using sum_lookup_le [OF _ nn(1) dist] sum_lookup_le [OF _ nn(2) dist] raw inv c
    by (intro add_mono mult_left_mono) (auto simp: credit_table_def intro: order_trans)
  also have "\<dots> = real N / ?k" using c(3) by (simp add: field_simps)
  finally show ?thesis
    using dist low
    by (auto simp: hist credit_table_def hm_ok_def hm_values_def comp_def list_all_iff)
qed

lemma on_epoch_end_scores:
  "score_history (topo_on_epoch_end ver st bs vs) = score_history (update_scores_from_epoch ver st bs vs)"
  "config (topo_on_epoch_end ver st bs vs) = config st"
  by (simp_all add: topo_on_epoch_end_def Let_def enqueue_score_root_def update_scores_from_epoch_def
        activate_score_roots_for_epoch_def split: prod.splits)

lemma run_epochs_scores:
  assumes "config_validate (config st) = Inr ()"
    "\<forall>(bs, vs) \<in> set es. tx_count bs \<le> N \<and> distinct (map v_address vs)"
    "credit_table UNIV (real N / saturation_k (config st)) (score_history st)"
  shows "credit_table UNIV (real N / saturation_k (config st)) (score_history (run_epochs ver st es))"
  using assms
proof (induction es arbitrary: st)
  case (Cons e es)
  obtain bs vs where e: "e = (bs, vs)" by fastforce
  have "credit_table UNIV (real N / saturation_k (config st)) (score_history (topo_on_epoch_end ver st bs vs))"
    using scores_step [OF Cons.prems(1) _ _ Cons.prems(3), of vs bs ver] Cons.prems(2)
    by (auto simp: e on_epoch_end_scores credit_table_def)
  with Cons.prems Cons.IH [of "topo_on_epoch_end ver st bs vs"] show ?case
    by (simp add: e on_epoch_end_scores)
qed simp

text \<open>
  C28.  The total propagation score never exceeds the work of one epoch.  If every epoch of
  a run has at most \<open>N\<close> transactions and distinct validators, all scores stay non-negative
  and their total stays at most \<open>N / saturation_k\<close>, for any blocks and any history.
\<close>

theorem score_mass_bounded:
  assumes "topo_new base cfg = Inr st"
    and "\<forall>(bs, vs) \<in> set es. tx_count bs \<le> N \<and> distinct (map v_address vs)"
  shows "let scores = score_history (run_epochs ver st es) in
    hm_ok scores \<and> list_all (\<lambda>x. 0 \<le> x) (hm_values scores)
    \<and> sum_list (hm_values scores) \<le> real N / saturation_k cfg"
proof -
  note new = topo_newD [OF assms(1)]
  have "credit_table UNIV (real N / saturation_k (config st)) (score_history st)"
    using config_validateD(4) [OF new(1)] by (simp add: new credit_table_def hm_ok_def hm_values_def)
  from run_epochs_scores [OF _ assms(2) this, of ver] show ?thesis
    using new(1,2) by (simp add: credit_table_def Let_def)
qed

lemma score_mass_bounded_witness:
  "let scores = score_history (run_epochs (\<lambda>_ _ _ _. True) sample_topo
        (replicate 3 ([sample_blk 1 '''' [sample_tx]], sample_validators))) in
    hm_ok scores \<and> list_all (\<lambda>x. 0 \<le> x) (hm_values scores)
    \<and> sum_list (hm_values scores) \<le> real 1 / saturation_k topostake_config_default"
  by (rule score_mass_bounded [OF sample_topo_new]) (simp add: tx_count_def sample_validators_ok)

end
