(* ===== verification/Evidence_Rewards.thy ===== *)
theory Evidence_Rewards
  imports Path_Cache Topo_Election Topo_Scores
begin

text \<open>
  The TopoStake engine together with the path evidence it pays for: the verifier argument of
  the engine is instantiated by the verification of \<^verbatim>\<open>src/src/blockchain/path.rs\<close>.
\<close>

definition evidence_verifier :: "('x) tx_env_scheme \<Rightarrow> bls_registry \<Rightarrow> path_verifier" where
  "evidence_verifier C reg p t miner epoch \<longleftrightarrow>
     verify_at_epoch_uncached C reg p t miner epoch = Some True"

lemma verified_route:
  assumes "verify_at_epoch_uncached C reg asp t miner epoch = Some True"
  shows "hd (full_path asp miner) = tx_from t" "last (full_path asp miner) = miner"
    "distinct (full_path asp miner)"
  using assms
  by (auto simp: verify_uncached_eq evidence_ok_def full_path_def split: if_splits option.splits)

section \<open>Where a payment comes from\<close>

text \<open>A delta paid for position \<open>pos\<close> of the evidence of transaction \<open>idx\<close> of the block.\<close>

definition payment_for ::
  "topostake_config \<Rightarrow> path_verifier \<Rightarrow> address set \<Rightarrow> block \<Rightarrow> balance_delta \<Rightarrow> nat \<Rightarrow> transaction \<Rightarrow> nat \<Rightarrow> bool" where
  "payment_for cfg ver vset b d idx t pos \<longleftrightarrow>
     (case valid_route cfg ver b idx t of
        None \<Rightarrow> False
      | Some full \<Rightarrow> 0 < pos \<and> pos < length full - 1 \<and> full ! pos \<in> vset
          \<and> bd_address d = full ! pos
          \<and> bd_amount d = (1 - proposer_fee_ratio cfg) * tx_fee t * gamma cfg pos (length full - 1))"

lemma pay_positions_origin:
  "\<exists>ds. snd (foldl (pay_position cfg vset budget full) acc ps) = snd acc @ ds
    \<and> (\<forall>d \<in> set ds. \<exists>p \<in> set ps. full ! p \<in> vset
         \<and> d = \<lparr>bd_address = full ! p, bd_amount = budget * gamma cfg p (length full - 1)\<rparr>)"
proof (induction ps arbitrary: acc)
  case (Cons p ps)
  let ?d = "\<lparr>bd_address = full ! p, bd_amount = budget * gamma cfg p (length full - 1)\<rparr>"
  obtain ds where ds: "snd (foldl (pay_position cfg vset budget full)
        (pay_position cfg vset budget full acc p) ps)
      = snd (pay_position cfg vset budget full acc p) @ ds"
    "\<forall>d \<in> set ds. \<exists>p \<in> set ps. full ! p \<in> vset
         \<and> d = \<lparr>bd_address = full ! p, bd_amount = budget * gamma cfg p (length full - 1)\<rparr>"
    using Cons.IH by blast
  show ?case
  proof (cases "pay_position cfg vset budget full acc p = acc")
    case True
    with ds show ?thesis by auto
  next
    case False
    then have "full ! p \<in> vset" "snd (pay_position cfg vset budget full acc p) = snd acc @ [?d]"
      by (auto simp: pay_position_def Let_def split: if_splits)
    with ds show ?thesis by (intro exI [of _ "?d # ds"]) auto
  qed
qed simp

lemma pay_transaction_origin:
  "\<exists>ds. fst (pay_transaction cfg ver vset b acc (idx, t)) = fst acc @ ds
    \<and> (\<forall>d \<in> set ds. \<exists>pos. payment_for cfg ver vset b d idx t pos)"
proof (cases "valid_route cfg ver b idx t")
  case None
  then show ?thesis by (simp add: pay_transaction_def Let_def split: prod.splits)
next
  case (Some full)
  obtain rewards relay burned where acc: "acc = (rewards, relay, burned)" by (cases acc)
  let ?B = "(1 - proposer_fee_ratio cfg) * tx_fee t"
  obtain ds where ds: "snd (foldl (pay_position cfg vset ?B full) (0, rewards) [1..<length full - 1])
      = rewards @ ds"
    "\<And>d. d \<in> set ds \<Longrightarrow> \<exists>p \<in> set [1..<length full - 1]. full ! p \<in> vset
      \<and> d = \<lparr>bd_address = full ! p, bd_amount = ?B * gamma cfg p (length full - 1)\<rparr>"
    using pay_positions_origin [of cfg vset ?B full "(0, rewards)" "[1..<length full - 1]"]
    unfolding snd_conv by blast
  have "fst (pay_transaction cfg ver vset b acc (idx, t)) = fst acc @ ds"
    using ds(1) Some by (auto simp: pay_transaction_def acc Let_def split: prod.splits)
  moreover have "\<exists>pos. payment_for cfg ver vset b d idx t pos" if mem: "d \<in> set ds" for d
  proof -
    obtain p where "p \<in> set [1..<length full - 1]" "full ! p \<in> vset"
      "d = \<lparr>bd_address = full ! p, bd_amount = ?B * gamma cfg p (length full - 1)\<rparr>"
      using ds(2) [OF mem] by blast
    then have "payment_for cfg ver vset b d idx t p" using Some by (simp add: payment_for_def)
    then show ?thesis ..
  qed
  ultimately show ?thesis by blast
qed

lemma pay_all_origin:
  "\<exists>ds. fst (foldl (pay_transaction cfg ver vset b) acc its) = fst acc @ ds
    \<and> (\<forall>d \<in> set ds. \<exists>(idx, t) \<in> set its. \<exists>pos. payment_for cfg ver vset b d idx t pos)"
proof (induction its arbitrary: acc)
  case (Cons it its)
  obtain idx t where it: "it = (idx, t)" by fastforce
  obtain ds where ds: "fst (pay_transaction cfg ver vset b acc it) = fst acc @ ds"
    "\<forall>d \<in> set ds. \<exists>pos. payment_for cfg ver vset b d idx t pos"
    using pay_transaction_origin unfolding it by blast
  obtain ds' where ds': "fst (foldl (pay_transaction cfg ver vset b)
        (pay_transaction cfg ver vset b acc it) its) = (fst acc @ ds) @ ds'"
    "\<forall>d \<in> set ds'. \<exists>(idx, t) \<in> set its. \<exists>pos. payment_for cfg ver vset b d idx t pos"
    using Cons.IH [of "pay_transaction cfg ver vset b acc it"] unfolding ds(1) by blast
  show ?case
    using ds(2) ds' by (intro exI [of _ "ds @ ds'"]) (auto simp: it)
qed simp

lemma plan_rewards_origin:
  "\<exists>ds. plan_rewards (compute_block_rewards ver st b vs)
      = \<lparr>bd_address = hd_miner (blk_header b),
         bd_amount = plan_proposer_reward (compute_block_rewards ver st b vs)\<rparr> # ds
    \<and> (\<forall>d \<in> set ds. \<exists>idx < length (body_transactions (blk_body b)). \<exists>pos.
         payment_for (config st) ver (set (map v_address vs)) b d idx
           (body_transactions (blk_body b) ! idx) pos)"
proof -
  let ?txs = "body_transactions (blk_body b)" and ?V = "set (map v_address vs)"
  let ?r = "\<lparr>bd_address = hd_miner (blk_header b), bd_amount = base_reward st
    + proposer_fee_ratio (config st) * sum_list (map tx_fee ?txs)\<rparr>"
  obtain ds where "fst (foldl (pay_transaction (config st) ver ?V b) ([?r], 0, 0) (enumerate 0 ?txs))
      = [?r] @ ds"
    and ds: "\<forall>d \<in> set ds. \<exists>(idx, t) \<in> set (enumerate 0 ?txs). \<exists>pos.
      payment_for (config st) ver ?V b d idx t pos"
    using pay_all_origin [of "config st" ver ?V b "([?r], 0, 0)" "enumerate 0 ?txs"]
    unfolding fst_conv by blast
  then have "plan_rewards (compute_block_rewards ver st b vs) = ?r # ds"
    "plan_proposer_reward (compute_block_rewards ver st b vs) = bd_amount ?r"
    by (auto simp: compute_block_rewards_def Let_def split: prod.splits)
  moreover have "\<exists>idx < length ?txs. \<exists>pos. payment_for (config st) ver ?V b d idx (?txs ! idx) pos"
    if mem: "d \<in> set ds" for d
  proof -
    obtain idx t pos where "(idx, t) \<in> set (enumerate 0 ?txs)" "payment_for (config st) ver ?V b d idx t pos"
      using ds mem by blast
    then show ?thesis by (auto simp: in_set_enumerate_eq)
  qed
  ultimately show ?thesis by (intro exI [of _ ds]) (simp del: set_map)
qed


section \<open>A block with relayed evidence\<close>

definition relayed_blk :: "aggregated_signed_paths \<Rightarrow> block" where
  "relayed_blk asp = \<lparr>
     blk_header = (blk_header (sample_blk 1 '''' [sample_tx]))
       \<lparr>hd_epoch := 5, hd_miner := w_address (sample_wallet 4)\<rparr>,
     blk_body = \<lparr>body_transactions = [sample_tx], body_paths = [asp]\<rparr>\<rparr>"

definition relay_validators :: "validator list" where
  "relay_validators = map (\<lambda>n. \<lparr>v_address = w_address (sample_wallet n), v_stake = 1, v_hash_power = 0\<rparr>)
     [2, 3, 4]"


end
