(* ===== verification/Pos_Consensus.thy ===== *)
theory Pos_Consensus
  imports Consensus_Base
begin

text \<open>
  The plain proof-of-stake engine of \<^verbatim>\<open>src/src/consensus/pos.rs\<close>.  The draw
  \<open>gen_range(0.0..total)\<close> of the seeded generator is the argument \<open>gen_range\<close>; on an empty
  range it panics.
\<close>

section \<open>Definitions\<close>

record pos_state =
  pos_base_reward :: real

definition pos_new :: "real \<Rightarrow> pos_state" where
  "pos_new base = \<lparr>pos_base_reward = base\<rparr>"

fun pos_scan :: "real \<Rightarrow> real \<Rightarrow> validator list \<Rightarrow> validator option" where
  "pos_scan random_value acc [] = None"
| "pos_scan random_value acc (v # vs) =
     (let acc' = acc + v_stake v in
      if random_value < acc' then Some v else pos_scan random_value acc' vs)"

definition pos_select :: "(bytes \<Rightarrow> real \<Rightarrow> real) \<Rightarrow> validator list \<Rightarrow> bytes
    \<Rightarrow> (validator_error + validator) run" where
  "pos_select gen_range vs seed =
     (if vs = [] then Some (Inl NOValidatorError)
      else let total = sum_list (map v_stake vs) in
        if total \<le> 0 then None
        else Some (case pos_scan (gen_range seed total) 0 vs of
                     Some v \<Rightarrow> Inr v
                   | None \<Rightarrow> Inl NOValidatorError))"

definition pos_select_proposer :: "(bytes \<Rightarrow> real \<Rightarrow> real) \<Rightarrow> pos_state \<Rightarrow> validator list \<Rightarrow> bytes
    \<Rightarrow> (pos_state \<times> (validator_error + validator)) run" where
  "pos_select_proposer gen_range st vs seed = map_option (Pair st) (pos_select gen_range vs seed)"

definition pos_distribute_rewards ::
  "real \<Rightarrow> block \<Rightarrow> validator list \<Rightarrow> balance_delta list" where
  "pos_distribute_rewards base b vs =
     (case find (\<lambda>v. v_address v = hd_miner (blk_header b)) vs of
        Some v \<Rightarrow> [\<lparr>bd_address = v_address v,
                    bd_amount = base + sum_list (map tx_fee (body_transactions (blk_body b)))\<rparr>]
      | None \<Rightarrow> [])"

section \<open>Interfaces\<close>

interpretation pos: strict_scan v_stake pos_scan
  by unfold_locales (simp_all add: Let_def)

lemma pos_select_member: "pos_select gen_range vs seed = Some (Inr v) \<Longrightarrow> v \<in> set vs"
  by (auto simp: pos_select_def Let_def dest: pos.scan_member split: if_splits option.splits)

interpretation pos_election: proposer_election "pos_select_proposer gen_range" for gen_range
proof
  show "v \<in> set vs" if "pos_select_proposer gen_range st vs seed = Some (st', Inr v)"
    for st vs seed st' v
    using that by (auto simp: pos_select_proposer_def dest: pos_select_member)
  show "\<exists>e. r = Inl e" if "pos_select_proposer gen_range st [] seed = Some (st', r)"
    for st seed st' r
    using that by (auto simp: pos_select_proposer_def pos_select_def)
qed

interpretation pos_reward: proposer_reward pos_distribute_rewards
  by unfold_locales
    (auto simp: pos_distribute_rewards_def find_None_iff find_Some_iff split: option.splits,
      metis image_eqI in_set_conv_nth)

section \<open>Election\<close>

text \<open>
  Proof-of-stake election is proportional and total.  For non-negative stakes with
  positive total and a draw below the total, some validator is elected, and validator \<open>i\<close>
  exactly for the draws in an interval whose length is its stake.
\<close>

theorem pos_election_proportional:
  assumes "distinct vs" and "\<forall>v \<in> set vs. 0 \<le> v_stake v" and "0 < sum_list (map v_stake vs)"
    and "0 \<le> gen_range seed (sum_list (map v_stake vs))"
    and "gen_range seed (sum_list (map v_stake vs)) < sum_list (map v_stake vs)"
  shows "let draw = gen_range seed (sum_list (map v_stake vs));
      F = (\<lambda>i. sum_list (map v_stake (take i vs))) in
    (\<exists>i < length vs. pos_select gen_range vs seed = Some (Inr (vs ! i)))
    \<and> (\<forall>i < length vs. pos_select gen_range vs seed = Some (Inr (vs ! i))
         \<longleftrightarrow> F i \<le> draw \<and> draw < F i + v_stake (vs ! i))"
proof -
  let ?T = "sum_list (map v_stake vs)"
  have ne: "vs \<noteq> []" using assms(3) by auto
  obtain v where v: "pos_scan (gen_range seed ?T) 0 vs = Some v"
    using pos.scan_succeeds [OF ne, of "gen_range seed ?T" 0] assms(5) by auto
  then have sel: "pos_select gen_range vs seed = Some (Inr v)"
    using ne assms(3) by (simp add: pos_select_def Let_def)
  obtain i where "i < length vs" "v = vs ! i"
    using pos.scan_member [OF v] by (metis in_set_conv_nth)
  moreover have "v = vs ! i \<longleftrightarrow> sum_list (map v_stake (take i vs)) \<le> gen_range seed ?T
      \<and> gen_range seed ?T < sum_list (map v_stake (take i vs)) + v_stake (vs ! i)"
    if "i < length vs" for i
    using pos.scan_interval [OF _ assms(1) that assms(4)] assms(2) v that
    by (auto simp: take_Suc_conv_app_nth)
  ultimately show ?thesis unfolding Let_def sel by auto
qed

lemma pos_election_proportional_witness:
  "let vs = [\<lparr>v_address = ''x'', v_stake = 1, v_hash_power = 0\<rparr>,
             \<lparr>v_address = ''y'', v_stake = 3, v_hash_power = 0\<rparr>];
      gen_range = (\<lambda>_ t. t / 2); F = (\<lambda>i. sum_list (map v_stake (take i vs))) in
    pos_select gen_range vs [] = Some (Inr (vs ! 1)) \<and> F 1 \<le> 2 \<and> 2 < F 1 + v_stake (vs ! 1)"
  using pos_election_proportional [of
      "[\<lparr>v_address = ''x'', v_stake = 1, v_hash_power = 0\<rparr>,
        \<lparr>v_address = ''y'', v_stake = 3, v_hash_power = 0\<rparr>]" "\<lambda>_ t. t / 2" "[]"]
  by (auto simp: Let_def less_Suc_eq)

text \<open>
  The proof-of-stake engine panics exactly when validators exist but hold no stake in
  total: drawing from the empty range \<open>0.0..0.0\<close> is a panic, and no error is returned.
\<close>

lemma pos_select_panics_iff:
  "pos_select gen_range vs seed = None \<longleftrightarrow> vs \<noteq> [] \<and> sum_list (map v_stake vs) \<le> 0"
  by (auto simp: pos_select_def Let_def)

end
