(* ===== verification/Pow_Consensus.thy ===== *)
theory Pow_Consensus
  imports Consensus_Base
begin

text \<open>
  The proof-of-work engine of \<^verbatim>\<open>src/src/consensus/pow.rs\<close>: the difficulty test, mining, the
  adjustment of the difficulty and the race of the mining threads.

  SHA-256 is the argument \<open>sha256\<close>.  The threads of the race share a winner cell and a stop
  flag; one step of the model is one action of one thread, and a schedule, a list of such
  actions, is any interleaving the operating system may choose.  The final random choice
  \<open>gen_range(0..n)\<close> is the argument \<open>gen_index\<close>.
\<close>

section \<open>Difficulty and mining\<close>

record pow_state =
  difficulty :: nat
  blocks_in_epoch :: nat
  max_threads :: nat
  slot_duration :: nat
  pow_base_reward :: real

definition pow_new :: "nat \<Rightarrow> nat \<Rightarrow> nat \<Rightarrow> real \<Rightarrow> pow_state" where
  "pow_new initial_difficulty threads slot base =
     \<lparr>difficulty = initial_difficulty, blocks_in_epoch = 0, max_threads = threads,
      slot_duration = slot, pow_base_reward = base\<rparr>"

text \<open>The loop returns at the first bit that is missing or set; bit 7 of a byte comes first.\<close>

definition leading_bit_clear :: "bytes \<Rightarrow> nat \<Rightarrow> bool" where
  "leading_bit_clear h i \<longleftrightarrow>
     (if length h \<le> i div 8 then False else \<not> bit (h ! (i div 8)) (7 - i mod 8))"

definition verify_pow :: "bytes \<Rightarrow> nat \<Rightarrow> bool" where
  "verify_pow h d \<longleftrightarrow> list_all (leading_bit_clear h) [0..<d]"

definition compute_work_amount :: "nat \<Rightarrow> real" where
  "compute_work_amount d = 2 ^ d"

definition pow_hash :: "(bytes \<Rightarrow> bytes) \<Rightarrow> bytes \<Rightarrow> nat \<Rightarrow> bytes" where
  "pow_hash sha256 data nonce = sha256 (data @ to_le_bytes nonce)"

fun mine_from :: "(bytes \<Rightarrow> bytes) \<Rightarrow> bytes \<Rightarrow> nat \<Rightarrow> nat list \<Rightarrow> (nat \<times> bytes) option" where
  "mine_from sha256 data d [] = None"
| "mine_from sha256 data d (nonce # nonces) =
     (if verify_pow (pow_hash sha256 data nonce) d then Some (nonce, pow_hash sha256 data nonce)
      else mine_from sha256 data d nonces)"

definition mine_pow :: "(bytes \<Rightarrow> bytes) \<Rightarrow> bytes \<Rightarrow> nat \<Rightarrow> nat \<Rightarrow> (nat \<times> bytes) option" where
  "mine_pow sha256 data d max_attempts = mine_from sha256 data d [0..<max_attempts]"

definition adjust_difficulty :: "pow_state \<Rightarrow> block list \<Rightarrow> pow_state" where
  "adjust_difficulty st bs =
     (if bs = [] then st
      else let first_time = hd_timestamp (blk_header (hd bs));
               last_time = hd_timestamp (blk_header (last bs));
               time_diff = (if first_time < last_time then last_time - first_time else 1);
               avg_block_time = time_diff div length bs
           in if slot_duration st < avg_block_time
              then st\<lparr>difficulty := difficulty st - 1, blocks_in_epoch := 0\<rparr>
              else st\<lparr>difficulty := sat64 (difficulty st + 1), blocks_in_epoch := 0\<rparr>)"

definition pow_on_epoch_end :: "pow_state \<Rightarrow> block list \<Rightarrow> validator list \<Rightarrow> pow_state" where
  "pow_on_epoch_end st bs vs = adjust_difficulty st bs"

definition pow_distribute_rewards ::
  "real \<Rightarrow> block \<Rightarrow> validator list \<Rightarrow> balance_delta list" where
  "pow_distribute_rewards base b vs =
     (case find (\<lambda>v. v_address v = hd_miner (blk_header b)) vs of
        Some v \<Rightarrow> [\<lparr>bd_address = v_address v,
                    bd_amount = base + sum_list (map tx_fee (body_transactions (blk_body b)))\<rparr>]
      | None \<Rightarrow> [])"

section \<open>The race\<close>

text \<open>
  A mining thread owns a chunk of validators.  It is at one of them (\<open>wk_at\<close>) with a number
  of hashes left in the current batch (\<open>wk_left\<close>, \<open>None\<close> before the batch is opened), and
  remembers whether any validator was still running in this round.
\<close>

record miner_state =
  ms_validator :: validator
  ms_nonce :: nat

record worker =
  wk_states :: "miner_state list"
  wk_at :: nat
  wk_left :: "nat option"
  wk_any_running :: bool

datatype thread = Running worker | Returned

record race =
  threads :: "thread list"
  winner :: "validator option"
  should_stop :: bool

text \<open>
  One action of the schedule: thread \<open>i\<close> proceeds, where the flag tells whether its
  \<open>try_lock\<close> would succeed at this moment, or the main thread notices the timeout.
\<close>

datatype action = Proceed nat bool | Timeout

definition max_attempts :: nat where
  "max_attempts = 100000000"

definition target_hashes :: "validator \<Rightarrow> nat" where
  "target_hashes v = sat64 (nat \<lfloor>max (5000 * v_hash_power v) 1\<rfloor>)"

definition mining_data :: "bytes \<Rightarrow> validator \<Rightarrow> bytes" where
  "mining_data seed v = seed @ as_bytes (v_address v)"

definition next_miner :: "worker \<Rightarrow> worker" where
  "next_miner w = w\<lparr>wk_at := Suc (wk_at w), wk_left := None\<rparr>"

text \<open>The end of a round: the thread sleeps and starts over, or returns.\<close>

definition round_end :: "race \<Rightarrow> nat \<Rightarrow> worker \<Rightarrow> race" where
  "round_end R i w =
     (if wk_any_running w
      then R\<lparr>threads := (threads R)[i := Running (w\<lparr>wk_at := 0, wk_left := None, wk_any_running := False\<rparr>)]\<rparr>
      else R\<lparr>threads := (threads R)[i := Returned]\<rparr>)"

text \<open>A found hash: the winner is recorded when the cell can be locked and is still empty.\<close>

definition report_win :: "race \<Rightarrow> nat \<Rightarrow> bool \<Rightarrow> validator \<Rightarrow> race" where
  "report_win R i locked v =
     (let R' = R\<lparr>threads := (threads R)[i := Returned]\<rparr> in
      if locked \<and> winner R = None then R'\<lparr>winner := Some v, should_stop := True\<rparr> else R')"

definition proceed ::
  "(bytes \<Rightarrow> bytes) \<Rightarrow> bytes \<Rightarrow> nat \<Rightarrow> race \<Rightarrow> nat \<Rightarrow> bool \<Rightarrow> worker \<Rightarrow> race" where
  "proceed sha256 seed d R i locked w =
     (if length (wk_states w) \<le> wk_at w then
        (if should_stop R \<and> wk_any_running w
         then R\<lparr>threads := (threads R)[i := Returned]\<rparr> else round_end R i w)
      else let m = wk_states w ! wk_at w in
        case wk_left w of
          None \<Rightarrow>
            (if should_stop R then R\<lparr>threads := (threads R)[i := Returned]\<rparr>
             else if max_attempts \<le> ms_nonce m
             then R\<lparr>threads := (threads R)[i := Running (next_miner w)]\<rparr>
             else R\<lparr>threads := (threads R)[i := Running (w\<lparr>wk_any_running := True,
                       wk_left := Some (target_hashes (ms_validator m))\<rparr>)]\<rparr>)
        | Some left \<Rightarrow>
            (if left = 0 \<or> max_attempts \<le> ms_nonce m
             then R\<lparr>threads := (threads R)[i := Running (next_miner w)]\<rparr>
             else if verify_pow (pow_hash sha256 (mining_data seed (ms_validator m)) (ms_nonce m)) d
             then report_win R i locked (ms_validator m)
             else R\<lparr>threads := (threads R)[i := Running (w\<lparr>
                       wk_states := (wk_states w)[wk_at w := m\<lparr>ms_nonce := Suc (ms_nonce m)\<rparr>],
                       wk_left := Some (left - 1)\<rparr>)]\<rparr>))"

fun race_step :: "(bytes \<Rightarrow> bytes) \<Rightarrow> bytes \<Rightarrow> nat \<Rightarrow> race \<Rightarrow> action \<Rightarrow> race" where
  "race_step sha256 seed d R (Proceed i locked) =
     (if i < length (threads R) then
        (case threads R ! i of
           Returned \<Rightarrow> R
         | Running w \<Rightarrow> proceed sha256 seed d R i locked w)
      else R)"
| "race_step sha256 seed d R Timeout = R\<lparr>should_stop := True\<rparr>"

definition race_run :: "(bytes \<Rightarrow> bytes) \<Rightarrow> bytes \<Rightarrow> nat \<Rightarrow> race \<Rightarrow> action list \<Rightarrow> race" where
  "race_run sha256 seed d R schedule = foldl (race_step sha256 seed d) R schedule"

function chunks :: "nat \<Rightarrow> 'a list \<Rightarrow> 'a list list" where
  "chunks n xs = (if n = 0 \<or> xs = [] then [] else take n xs # chunks n (drop n xs))"
  by pat_completeness auto
termination
  by (relation "measure (\<lambda>(n, xs). length xs)") (auto simp: neq_Nil_conv)

declare chunks.simps [simp del]

definition thread_step :: "nat \<Rightarrow> nat \<Rightarrow> nat" where
  "thread_step n limit =
     (let num_threads = min n limit in
      if 0 < num_threads then (n + num_threads - 1) div num_threads else 1)"

definition race_start :: "nat \<Rightarrow> validator list \<Rightarrow> race" where
  "race_start limit vs = \<lparr>
     threads = map (\<lambda>c. Running \<lparr>wk_states = map (\<lambda>v. \<lparr>ms_validator = v, ms_nonce = 0\<rparr>) c,
                          wk_at = 0, wk_left = None, wk_any_running = False\<rparr>)
                 (chunks (thread_step (length vs) limit) vs),
     winner = None, should_stop = False\<rparr>"

text \<open>
  The main thread joins all threads before it reads the winner, so the schedule of a call
  must let every thread return; a schedule that does not gives no result.
\<close>

definition pow_select_proposer ::
  "(bytes \<Rightarrow> bytes) \<Rightarrow> (bytes \<Rightarrow> nat \<Rightarrow> nat) \<Rightarrow> action list \<Rightarrow> pow_state \<Rightarrow> validator list \<Rightarrow> bytes
    \<Rightarrow> (pow_state \<times> (validator_error + validator)) run" where
  "pow_select_proposer sha256 gen_index schedule st vs seed =
     (if vs = [] then Some (st, Inl NOValidatorError)
      else if length vs = 1 then Some (st, Inr (hd vs))
      else let R = race_run sha256 seed (difficulty st) (race_start (max_threads st) vs) schedule in
        if \<not> list_all (\<lambda>t. t = Returned) (threads R) then None
        else case winner R of
               Some v \<Rightarrow> Some (st, Inr v)
             | None \<Rightarrow> (let index = gen_index seed (length vs) in
                 if length vs \<le> index then None
                 else Some (st\<lparr>difficulty := difficulty st - 1\<rparr>, Inr (vs ! index))))"

end
