(* ===== verification/Pow_Race.thy ===== *)
theory Pow_Race
  imports Pow_Properties
begin

text \<open>
  The race of the mining threads for every schedule: a recorded winner owns a valid proof of
  work and is never replaced, and every schedule that lets each thread run often enough ends
  with all threads returned, so the call returns.
\<close>

section \<open>One action\<close>

definition batch_bound :: nat where
  "batch_bound = 2 ^ 64"

text \<open>A worker that holds validators of \<open>vs\<close> only and is inside its chunk and batch.\<close>

definition worker_ok :: "validator set \<Rightarrow> worker \<Rightarrow> bool" where
  "worker_ok V w \<longleftrightarrow> ms_validator ` set (wk_states w) \<subseteq> V \<and> wk_at w \<le> length (wk_states w)
     \<and> (case wk_left w of None \<Rightarrow> True | Some l \<Rightarrow> l < batch_bound)"

fun thread_ok :: "validator set \<Rightarrow> thread \<Rightarrow> bool" where
  "thread_ok V (Running w) = worker_ok V w"
| "thread_ok V Returned = True"

definition has_proof :: "(bytes \<Rightarrow> bytes) \<Rightarrow> bytes \<Rightarrow> nat \<Rightarrow> validator \<Rightarrow> bool" where
  "has_proof sha256 seed d v \<longleftrightarrow>
     (\<exists>nonce < max_attempts. verify_pow (pow_hash sha256 (mining_data seed v) nonce) d)"

definition race_inv :: "(bytes \<Rightarrow> bytes) \<Rightarrow> bytes \<Rightarrow> nat \<Rightarrow> validator set \<Rightarrow> race \<Rightarrow> bool" where
  "race_inv sha256 seed d V R \<longleftrightarrow> list_all (thread_ok V) (threads R)
     \<and> (case winner R of None \<Rightarrow> True
        | Some v \<Rightarrow> v \<in> V \<and> has_proof sha256 seed d v \<and> should_stop R)"

text \<open>
  What a worker has left to do.  A round that opened a batch hashes at least once, so the
  number of hashes left, together with the flag of the round, goes down from round to round.
\<close>

definition hashes_left :: "worker \<Rightarrow> nat" where
  "hashes_left w = sum_list (map (\<lambda>m. max_attempts - ms_nonce m) (wk_states w))
     - (case wk_left w of
          Some l \<Rightarrow> if 0 < l \<and> wk_at w < length (wk_states w)
                      \<and> ms_nonce (wk_states w ! wk_at w) < max_attempts then 1 else 0
        | None \<Rightarrow> 0)"

definition rank3 :: "nat \<Rightarrow> nat \<Rightarrow> nat \<Rightarrow> nat \<Rightarrow> nat \<Rightarrow> nat" where
  "rank3 h A m B l = (h * A + m) * B + l"

definition rounds_left :: "worker \<Rightarrow> nat" where
  "rounds_left w = 2 * hashes_left w + (if wk_any_running w then 1 else 0)"

definition work_left :: "worker \<Rightarrow> nat" where
  "work_left w =
     rank3 (rounds_left w) (length (wk_states w) + 2) (length (wk_states w) + 1 - wk_at w)
       (batch_bound + 1) (case wk_left w of None \<Rightarrow> batch_bound | Some l \<Rightarrow> l)"

text \<open>The three ways in which a step lowers the measure.\<close>

lemma rank3_high:
  assumes "h' < h" "m' < A" "l' < B"
  shows "rank3 h' A m' B l' < rank3 h A m B l"
proof -
  have "(h' * A + m') * B + l' < (h' * A + m' + 1) * B" using assms(3) by (simp add: algebra_simps)
  also have "\<dots> \<le> ((h' + 1) * A) * B" using assms(2) by (intro mult_right_mono) (auto simp: algebra_simps)
  also have "\<dots> \<le> (h * A + m) * B"
    using assms(1) by (intro mult_right_mono trans_le_add1 mult_right_mono) auto
  finally show ?thesis by (simp add: rank3_def)
qed

lemma rank3_mid:
  assumes "h' \<le> h" "m' < m" "l' < B"
  shows "rank3 h' A m' B l' < rank3 h A m B l"
proof -
  have "(h' * A + m') * B + l' < (h' * A + m' + 1) * B" using assms(3) by (simp add: algebra_simps)
  also have "\<dots> \<le> (h * A + m) * B"
    using add_mono [OF mult_right_mono [OF assms(1), of A] Suc_leI [OF assms(2)]]
    by (intro mult_right_mono) auto
  finally show ?thesis by (simp add: rank3_def)
qed

lemma rank3_low:
  assumes "h' \<le> h" "l' < l"
  shows "rank3 h' A m B l' < rank3 h A m B l"
proof -
  have "(h' * A + m) * B \<le> (h * A + m) * B" using assms(1) by (intro mult_right_mono add_mono) auto
  with assms(2) show ?thesis unfolding rank3_def by linarith
qed

lemma target_hashes_pos: "0 < target_hashes v" "target_hashes v < batch_bound"
proof -
  have "1 \<le> \<lfloor>max (5000 * v_hash_power v) 1\<rfloor>" by (simp add: le_floor_iff)
  then have "1 \<le> nat \<lfloor>max (5000 * v_hash_power v) 1\<rfloor>" by linarith
  then show "0 < target_hashes v" unfolding target_hashes_def by (intro sat64_pos) linarith
  show "target_hashes v < batch_bound" unfolding target_hashes_def batch_bound_def by (rule sat64_less)
qed

lemma sum_list_update_nonce:
  assumes "j < length ms" "ms_nonce (ms ! j) < max_attempts"
  shows "sum_list (map (\<lambda>m. max_attempts - ms_nonce m) ms)
    = Suc (sum_list (map (\<lambda>m. max_attempts - ms_nonce m) (ms[j := (ms ! j)\<lparr>ms_nonce := Suc (ms_nonce (ms ! j))\<rparr>])))"
  using assms
proof (induction ms arbitrary: j)
  case (Cons m ms)
  then show ?case by (cases j) auto
qed simp
lemma next_miner_less:
  assumes "worker_ok V w" and "wk_at w < length (wk_states w)"
    and "wk_left w = None \<or> wk_left w = Some 0 \<or> max_attempts \<le> ms_nonce (wk_states w ! wk_at w)"
  shows "worker_ok V (next_miner w)" "work_left (next_miner w) < work_left w"
proof -
  show "worker_ok V (next_miner w)" using assms by (simp add: worker_ok_def next_miner_def)
  have "rounds_left (next_miner w) = rounds_left w"
    using assms(3) by (auto simp: rounds_left_def hashes_left_def next_miner_def split: option.splits)
  moreover have "wk_states (next_miner w) = wk_states w" "wk_left (next_miner w) = None"
    "wk_at (next_miner w) = Suc (wk_at w)"
    by (simp_all add: next_miner_def)
  ultimately show "work_left (next_miner w) < work_left w"
    using assms(2) unfolding work_left_def by (simp only:) (rule rank3_mid, auto)
qed

lemma open_batch_less:
  fixes v :: validator
  assumes "worker_ok V w" and at: "wk_at w < length (wk_states w)" and left: "wk_left w = None"
    and n: "ms_nonce (wk_states w ! wk_at w) < max_attempts"
  defines "w' \<equiv> w\<lparr>wk_any_running := True, wk_left := Some (target_hashes v)\<rparr>"
  shows "worker_ok V w'" "work_left w' < work_left w"
proof -
  show "worker_ok V w'" using assms target_hashes_pos [of v] by (simp add: worker_ok_def w'_def)
  let ?S = "sum_list (map (\<lambda>m. max_attempts - ms_nonce m) (wk_states w))"
  have "max_attempts - ms_nonce (wk_states w ! wk_at w) \<le> ?S"
    using at by (intro member_le_sum_list) auto
  then have "0 < ?S" using n by linarith
  moreover have "hashes_left w' = ?S - 1" "hashes_left w = ?S"
    using at n left target_hashes_pos(1) [of v] by (simp_all add: hashes_left_def w'_def)
  ultimately have less: "rounds_left w' < rounds_left w"
    unfolding rounds_left_def by (simp add: w'_def)
  have "wk_states w' = wk_states w" "wk_left w' = Some (target_hashes v)" "wk_at w' = wk_at w"
    by (simp_all add: w'_def)
  then show "work_left w' < work_left w"
    using less target_hashes_pos(2) [of v] unfolding work_left_def
    by (simp only: option.case) (rule rank3_high, auto)
qed

lemma attempt_less:
  fixes l :: nat
  assumes "worker_ok V w" and at: "wk_at w < length (wk_states w)" and left: "wk_left w = Some l"
    and l: "0 < l" and n: "ms_nonce (wk_states w ! wk_at w) < max_attempts"
  defines "m \<equiv> wk_states w ! wk_at w"
  defines "w' \<equiv> w\<lparr>wk_states := (wk_states w)[wk_at w := m\<lparr>ms_nonce := Suc (ms_nonce m)\<rparr>],
                   wk_left := Some (l - 1)\<rparr>"
  shows "worker_ok V w'" "work_left w' < work_left w"
proof -
  have "ms_validator m \<in> V" using assms(1) at by (auto simp: worker_ok_def m_def)
  then show "worker_ok V w'"
    using assms(1) left by (auto simp: worker_ok_def w'_def dest!: set_update_subset_insert [THEN subsetD])
  have "rounds_left w' \<le> rounds_left w"
    using sum_list_update_nonce [OF at n] at n l left
    by (auto simp: rounds_left_def hashes_left_def w'_def m_def)
  moreover have "length (wk_states w') = length (wk_states w)" "wk_left w' = Some (l - 1)" "wk_at w' = wk_at w"
    by (simp_all add: w'_def)
  ultimately show "work_left w' < work_left w"
    using l unfolding work_left_def by (simp only: left option.case) (rule rank3_low, auto)
qed

lemma restart_less:
  assumes "worker_ok V w" and at: "length (wk_states w) \<le> wk_at w" and "wk_any_running w"
  defines "w' \<equiv> w\<lparr>wk_at := 0, wk_left := None, wk_any_running := False\<rparr>"
  shows "worker_ok V w'" "work_left w' < work_left w"
proof -
  show "worker_ok V w'" using assms by (simp add: worker_ok_def w'_def)
  have "hashes_left w' = hashes_left w"
    using at by (auto simp: hashes_left_def w'_def split: option.splits)
  then have "rounds_left w' < rounds_left w"
    using assms(3) by (simp add: rounds_left_def w'_def)
  moreover have "wk_states w' = wk_states w" "wk_left w' = None" "wk_at w' = 0"
    by (simp_all add: w'_def)
  ultimately show "work_left w' < work_left w"
    unfolding work_left_def by (simp only: option.case) (rule rank3_high, auto)
qed

fun thread_work :: "thread \<Rightarrow> nat" where
  "thread_work (Running w) = Suc (work_left w)"
| "thread_work Returned = 0"

lemma proceed_thread:
  assumes "worker_ok V w"
  shows "\<exists>t. threads (proceed sha256 seed d R i locked w) = (threads R)[i := t]
    \<and> thread_ok V t \<and> thread_work t < Suc (work_left w)"
proof (cases "length (wk_states w) \<le> wk_at w")
  case True
  then show ?thesis
    using restart_less [OF assms True]
    by (cases "wk_any_running w") (auto simp: proceed_def round_end_def)
next
  case at: False
  let ?m = "wk_states w ! wk_at w"
  show ?thesis
  proof (cases "wk_left w")
    case None
    then show ?thesis
      using at next_miner_less [OF assms, of] open_batch_less [OF assms _ None, of "ms_validator ?m"]
      by (auto simp: proceed_def Let_def not_le)
  next
    case (Some l)
    then show ?thesis
      using at next_miner_less [OF assms] attempt_less [OF assms _ Some]
      by (auto simp: proceed_def Let_def not_le report_win_def)
  qed
qed

lemma proceed_winner:
  fixes hsh :: "bytes \<Rightarrow> bytes" and seed :: bytes and d i :: nat and R :: race and locked :: bool
  assumes "worker_ok V w"
  defines "R' \<equiv> proceed hsh seed d R i locked w"
  shows "(should_stop R \<longrightarrow> should_stop R') \<and> (winner R' = winner R
    \<or> winner R = None \<and> (\<exists>v \<in> V. winner R' = Some v \<and> has_proof hsh seed d v \<and> should_stop R'))"
proof (cases "wk_at w < length (wk_states w)")
  case True
  let ?m = "wk_states w ! wk_at w"
  have "ms_validator ?m \<in> V" using assms(1) True by (auto simp: worker_ok_def)
  moreover have "has_proof hsh seed d (ms_validator ?m)"
    if "ms_nonce ?m < max_attempts"
      "verify_pow (pow_hash hsh (mining_data seed (ms_validator ?m)) (ms_nonce ?m)) d"
    using that by (auto simp: has_proof_def)
  ultimately show ?thesis
    using True unfolding R'_def
    by (auto simp: proceed_def Let_def report_win_def not_le split: option.splits)
next
  case False
  then show ?thesis unfolding R'_def by (auto simp: proceed_def round_end_def)
qed

section \<open>Runs\<close>

lemma race_step_inv:
  assumes "race_inv sha256 seed d V R"
  shows "race_inv sha256 seed d V (race_step sha256 seed d R a)
    \<and> (winner R \<noteq> None \<longrightarrow> winner (race_step sha256 seed d R a) = winner R)"
proof (cases "\<exists>i locked w. a = Proceed i locked \<and> i < length (threads R) \<and> threads R ! i = Running w")
  case True
  then obtain i locked w where a: "a = Proceed i locked" "i < length (threads R)" "threads R ! i = Running w"
    by blast
  have ok: "worker_ok V w" using assms a(2,3) by (auto simp: race_inv_def list_all_length)
  obtain t where t: "threads (proceed sha256 seed d R i locked w) = (threads R)[i := t]" "thread_ok V t"
    using proceed_thread [OF ok] by blast
  have "list_all (thread_ok V) ((threads R)[i := t])"
    using assms t(2) a(2) by (auto simp: race_inv_def list_all_length nth_list_update)
  then show ?thesis
    using assms a t(1) proceed_winner [OF ok, where hsh = sha256 and seed = seed and d = d and R = R and i = i and locked = locked]
    by (auto simp: race_inv_def split: option.splits)
next
  case False
  then show ?thesis
    using assms by (cases a) (auto simp: race_inv_def split: thread.splits option.splits)
qed

lemma race_run_inv:
  assumes "race_inv sha256 seed d V R"
  shows "race_inv sha256 seed d V (race_run sha256 seed d R s)
    \<and> (winner R \<noteq> None \<longrightarrow> winner (race_run sha256 seed d R s) = winner R)"
  using assms
proof (induction s arbitrary: R)
  case (Cons a s)
  from Cons.IH [of "race_step sha256 seed d R a"] race_step_inv [OF Cons.prems, of a] show ?case
    by (auto simp: race_run_def)
qed (simp add: race_run_def)

lemma race_start_inv: "race_inv sha256 seed d (set vs) (race_start limit vs)"
proof -
  have "set c \<subseteq> set vs" if "c \<in> set (chunks (thread_step (length vs) limit) vs)" for c
  proof -
    have "vs \<noteq> []" using that by (auto simp: chunks.simps)
    then have "concat (chunks (thread_step (length vs) limit) vs) = vs"
      by (intro concat_chunks thread_step_pos) simp
    moreover have "set c \<subseteq> set (concat (chunks (thread_step (length vs) limit) vs))"
      using that by auto
    ultimately show ?thesis by simp
  qed
  then show ?thesis
    by (fastforce simp: race_inv_def race_start_def list_all_iff worker_ok_def)
qed

text \<open>
  A recorded winner of the mining race owns a proof of work.  For every interleaving of
  the threads and any moment of the timeout, the recorded winner is one of the validators,
  one of its nonces reaches the difficulty, and no later action replaces it.
\<close>

theorem race_winner_sound:
  assumes "winner (race_run sha256 seed d (race_start limit vs) schedule) = Some v"
  shows "v \<in> set vs
    \<and> (\<exists>nonce < max_attempts. verify_pow (pow_hash sha256 (seed @ as_bytes (v_address v)) nonce) d)
    \<and> winner (race_run sha256 seed d (race_start limit vs) (schedule @ later)) = Some v"
proof -
  let ?R = "race_run sha256 seed d (race_start limit vs) schedule"
  have inv: "race_inv sha256 seed d (set vs) ?R"
    using race_run_inv [OF race_start_inv] by blast
  have "race_run sha256 seed d (race_start limit vs) (schedule @ later) = race_run sha256 seed d ?R later"
    by (simp add: race_run_def)
  then show ?thesis
    using inv race_run_inv [OF inv, of later] assms
    by (simp add: race_inv_def has_proof_def mining_data_def)
qed

text \<open>How often the schedule lets thread \<open>i\<close> proceed.\<close>

definition turns :: "nat \<Rightarrow> action list \<Rightarrow> nat" where
  "turns i s = length (filter (\<lambda>a. case a of Proceed j _ \<Rightarrow> j = i | Timeout \<Rightarrow> False) s)"

lemma race_step_work:
  assumes "race_inv sha256 seed d V R" and "i < length (threads R)"
  shows "length (threads (race_step sha256 seed d R a)) = length (threads R)
    \<and> thread_work (threads (race_step sha256 seed d R a) ! i) \<le> thread_work (threads R ! i) - turns i [a]"
proof (cases "\<exists>j locked w. a = Proceed j locked \<and> j < length (threads R) \<and> threads R ! j = Running w")
  case True
  then obtain j locked w where a: "a = Proceed j locked" "j < length (threads R)" "threads R ! j = Running w"
    by blast
  have ok: "worker_ok V w" using assms(1) a(2,3) by (auto simp: race_inv_def list_all_length)
  obtain t where "threads (proceed sha256 seed d R j locked w) = (threads R)[j := t]"
    "thread_work t < Suc (work_left w)"
    using proceed_thread [OF ok] by blast
  with a assms(2) show ?thesis by (cases "i = j") (auto simp: turns_def)
next
  case False
  with assms(2) show ?thesis by (cases a) (auto simp: turns_def split: thread.splits)
qed

lemma race_run_work:
  assumes "race_inv sha256 seed d V R" and "i < length (threads R)"
  shows "length (threads (race_run sha256 seed d R s)) = length (threads R)
    \<and> thread_work (threads (race_run sha256 seed d R s) ! i) \<le> thread_work (threads R ! i) - turns i s"
  using assms
proof (induction s arbitrary: R)
  case (Cons a s)
  note step = race_step_work [OF Cons.prems, of a] race_step_inv [OF Cons.prems(1), of a]
  have "turns i (a # s) = turns i [a] + turns i s" by (simp add: turns_def)
  moreover have "race_run sha256 seed d R (a # s) = race_run sha256 seed d (race_step sha256 seed d R a) s"
    by (simp add: race_run_def)
  moreover note Cons.IH [of "race_step sha256 seed d R a"]
  ultimately show ?case using step Cons.prems(2) by auto
qed (simp add: race_run_def turns_def)

lemma race_run_length:
  assumes "race_inv sha256 seed d V R"
  shows "length (threads (race_run sha256 seed d R s)) = length (threads R)"
proof (cases "threads R = []")
  case True
  then have "threads (race_step sha256 seed d R' a) = []" if "threads R' = []" for R' a
    using that by (cases a) auto
  with True show ?thesis
    by (induction s arbitrary: R) (auto simp: race_run_def)
next
  case False
  then show ?thesis using race_run_work [OF assms, of 0] by simp
qed

text \<open>
  C34.  The call for a proposer always returns.  There is a bound such that every schedule
  that lets each mining thread proceed at least that often ends the race, whatever the
  difficulty, the hash function and the contention on the winner cell; a validator is
  elected, and a winner of the race is preferred to the random choice.
\<close>

theorem pow_select_returns:
  assumes "vs \<noteq> []" and "gen_index seed (length vs) < length vs"
  shows "\<exists>N. \<forall>schedule. (\<forall>i < length (threads (race_start (max_threads st) vs)). N \<le> turns i schedule) \<longrightarrow>
    (\<exists>st' v. pow_select_proposer sha256 gen_index schedule st vs seed = Some (st', Inr v) \<and> v \<in> set vs
      \<and> (\<forall>u. length vs \<noteq> 1 \<and> winner (race_run sha256 seed (difficulty st)
              (race_start (max_threads st) vs) schedule) = Some u \<longrightarrow> v = u))"
proof (rule exI [of _ "sum_list (map thread_work (threads (race_start (max_threads st) vs)))"],
    intro allI impI)
  let ?init = "race_start (max_threads st) vs" and ?d = "difficulty st"
  let ?N = "sum_list (map thread_work (threads ?init))"
  fix schedule
  assume fair: "\<forall>i < length (threads ?init). ?N \<le> turns i schedule"
  let ?R = "race_run sha256 seed ?d ?init schedule"
  note inv0 = race_start_inv [of sha256 seed ?d vs "max_threads st"]
  have "threads ?R ! i = Returned" if "i < length (threads ?R)" for i
  proof -
    have i: "i < length (threads ?init)" using that race_run_length [OF inv0] by simp
    have "thread_work (threads ?init ! i) \<in> set (map thread_work (threads ?init))" using i by simp
    then have "thread_work (threads ?init ! i) \<le> ?N" by (rule member_le_sum_list) simp
    moreover have "?N \<le> turns i schedule" using fair i by blast
    moreover have "thread_work (threads ?R ! i) \<le> thread_work (threads ?init ! i) - turns i schedule"
      using race_run_work [OF inv0 i] by blast
    ultimately have "thread_work (threads ?R ! i) = 0" by linarith
    then show ?thesis by (cases "threads ?R ! i") auto
  qed
  then have all: "list_all (\<lambda>t. t = Returned) (threads ?R)" by (simp add: list_all_length)
  have mem: "u \<in> set vs" if "winner ?R = Some u" for u
    using race_run_inv [OF inv0, of schedule] that by (auto simp: race_inv_def)
  show "\<exists>st' v. pow_select_proposer sha256 gen_index schedule st vs seed = Some (st', Inr v) \<and> v \<in> set vs
      \<and> (\<forall>u. length vs \<noteq> 1 \<and> winner ?R = Some u \<longrightarrow> v = u)"
    using assms all mem
    by (cases "length vs = 1"; cases "winner ?R") (auto simp: pow_select_proposer_def Let_def not_le)
qed

section \<open>Interfaces\<close>

lemma pow_select_member:
  assumes "pow_select_proposer sha256 gen_index schedule st vs seed = Some (st', Inr v)"
  shows "v \<in> set vs"
proof (cases "length vs = 1")
  case True
  then show ?thesis using assms by (cases vs) (auto simp: pow_select_proposer_def)
next
  case False
  let ?R = "race_run sha256 seed (difficulty st) (race_start (max_threads st) vs) schedule"
  have "u \<in> set vs" if "winner ?R = Some u" for u
    using race_run_inv [OF race_start_inv, of sha256 seed "difficulty st" vs "max_threads st" schedule] that
    by (simp add: race_inv_def)
  with assms False show ?thesis
    by (auto simp: pow_select_proposer_def Let_def split: if_splits option.splits)
qed

interpretation pow_election: proposer_election "pow_select_proposer sha256 gen_index schedule"
  for sha256 gen_index schedule
proof
  show "v \<in> set vs" if "pow_select_proposer sha256 gen_index schedule st vs seed = Some (st', Inr v)"
    for st vs seed st' v
    using that by (rule pow_select_member)
  show "\<exists>e. r = Inl e" if "pow_select_proposer sha256 gen_index schedule st [] seed = Some (st', r)"
    for st seed st' r
    using that by (auto simp: pow_select_proposer_def)
qed

interpretation pow_reward: proposer_reward pow_distribute_rewards
  by unfold_locales
    (auto simp: pow_distribute_rewards_def find_None_iff find_Some_iff split: option.splits,
      metis image_eqI in_set_conv_nth)

section \<open>Contention\<close>

text \<open>
  A found proof of work can be lost.  A thread that cannot lock the winner cell at the
  moment it finds a proof returns without recording it.  With two validators whose first
  nonce reaches the difficulty and a contended cell, the engine falls back to the random
  choice and lowers the difficulty, as if nobody had found a proof.
\<close>

theorem contended_proofs_are_lost:
  assumes "verify_pow (pow_hash sha256 (mining_data seed v1) 0) (difficulty st)"
    and "verify_pow (pow_hash sha256 (mining_data seed v2) 0) (difficulty st)"
    and "2 \<le> max_threads st" and "gen_index seed 2 < 2"
  shows "pow_select_proposer sha256 gen_index
      [Proceed 0 False, Proceed 0 False, Proceed 1 False, Proceed 1 False] st [v1, v2] seed
    = Some (st\<lparr>difficulty := difficulty st - 1\<rparr>, Inr ([v1, v2] ! gen_index seed 2))"
proof -
  have step: "thread_step 2 (max_threads st) = 1"
    using assms(3) by (simp add: thread_step_def Let_def min_def)
  have "chunks 1 [v1, v2] = [[v1], [v2]]" by (simp add: chunks.simps)
  then have start: "race_start (max_threads st) [v1, v2] = \<lparr>
      threads = [Running \<lparr>wk_states = [\<lparr>ms_validator = v1, ms_nonce = 0\<rparr>], wk_at = 0, wk_left = None, wk_any_running = False\<rparr>,
                 Running \<lparr>wk_states = [\<lparr>ms_validator = v2, ms_nonce = 0\<rparr>], wk_at = 0, wk_left = None, wk_any_running = False\<rparr>],
      winner = None, should_stop = False\<rparr>"
    using step by (simp add: race_start_def numeral_2_eq_2)
  have "race_run sha256 seed (difficulty st) (race_start (max_threads st) [v1, v2])
      [Proceed 0 False, Proceed 0 False, Proceed 1 False, Proceed 1 False]
    = \<lparr>threads = [Returned, Returned], winner = None, should_stop = False\<rparr>"
    unfolding start using assms(1,2) target_hashes_pos(1) [of v1] target_hashes_pos(1) [of v2]
    by (simp add: race_run_def proceed_def Let_def report_win_def max_attempts_def)
  then show ?thesis
    using assms(4) by (simp add: pow_select_proposer_def Let_def numeral_2_eq_2)
qed

section \<open>Concrete instances\<close>

definition sample_miners :: "validator list" where
  "sample_miners = [\<lparr>v_address = ''x'', v_stake = 0, v_hash_power = 1\<rparr>,
                    \<lparr>v_address = ''y'', v_stake = 0, v_hash_power = 1\<rparr>]"

lemma zero_byte_passes: "verify_pow [0] 1"
  by (simp add: verify_pow_def leading_bit_clear_def)

lemma contended_proofs_are_lost_witness:
  "pow_select_proposer (\<lambda>_. [0]) (\<lambda>_ n. n - 1)
      [Proceed 0 False, Proceed 0 False, Proceed 1 False, Proceed 1 False] (pow_new 1 2 5 1)
      [sample_miners ! 0, sample_miners ! 1] []
    = Some ((pow_new 1 2 5 1)\<lparr>difficulty := difficulty (pow_new 1 2 5 1) - 1\<rparr>,
        Inr ([sample_miners ! 0, sample_miners ! 1] ! (2 - 1)))"
  by (rule contended_proofs_are_lost) (simp_all add: pow_hash_def pow_new_def zero_byte_passes [simplified])

lemma race_winner_sound_witness:
  "\<exists>v schedule. winner (race_run (\<lambda>_. [0]) [] 1 (race_start 1 sample_miners) schedule) = Some v
    \<and> v \<in> set sample_miners
    \<and> (\<exists>nonce < max_attempts. verify_pow (pow_hash (\<lambda>_. [0]) ([] @ as_bytes (v_address v)) nonce) 1)
    \<and> winner (race_run (\<lambda>_. [0]) [] 1 (race_start 1 sample_miners) (schedule @ [Timeout])) = Some v"
proof -
  have "winner (race_run (\<lambda>_. [0]) [] 1 (race_start 1 sample_miners) [Proceed 0 True, Proceed 0 True])
      = Some (sample_miners ! 0)"
    using target_hashes_pos(1) [of "sample_miners ! 0"] zero_byte_passes
    by (simp add: race_run_def race_start_def thread_step_def chunks.simps sample_miners_def proceed_def
        Let_def report_win_def max_attempts_def pow_hash_def)
  with race_winner_sound [OF this] show ?thesis by blast
qed

lemma turns_round:
  "turns i (concat (replicate n (map (\<lambda>j. Proceed j True) [0..<k]))) = (if i < k then n else 0)"
proof -
  have "turns i (map (\<lambda>j. Proceed j True) [0..<k]) = (if i < k then 1 else 0)"
    unfolding turns_def by (induction k) auto
  moreover have "turns i (s @ t) = turns i s + turns i t" for s t by (simp add: turns_def)
  ultimately show ?thesis by (induction n) (auto simp: turns_def)
qed

lemma pow_select_returns_witness:
  "\<exists>schedule st' v. pow_select_proposer (\<lambda>_. [0]) (\<lambda>_ n. n - 1) schedule (pow_new 1 2 5 1) sample_miners []
      = Some (st', Inr v) \<and> v \<in> set sample_miners"
proof -
  let ?k = "length (threads (race_start (max_threads (pow_new 1 2 5 1)) sample_miners))"
  have ne: "sample_miners \<noteq> []" and lt: "length sample_miners - 1 < length sample_miners"
    by (simp_all add: sample_miners_def)
  obtain N where N: "(\<forall>i < ?k. N \<le> turns i schedule) \<longrightarrow>
    (\<exists>st' v. pow_select_proposer (\<lambda>_. [0]) (\<lambda>_ n. n - 1) schedule (pow_new 1 2 5 1) sample_miners []
        = Some (st', Inr v) \<and> v \<in> set sample_miners)" for schedule
    using pow_select_returns [of sample_miners "\<lambda>_ n. n - 1" "[]" "pow_new 1 2 5 1" "\<lambda>_. [0]", OF ne lt]
    by metis
  show ?thesis
    using N [of "concat (replicate N (map (\<lambda>j. Proceed j True) [0..<?k]))"] by (auto simp: turns_round)
qed

end
