(* ===== verification/Minotaur.thy ===== *)
theory Minotaur
  imports Pow_Race
begin

text \<open>
  The Minotaur engine of \<^verbatim>\<open>src/src/consensus/minotaur.rs\<close>, which mixes the work done in the
  background during a slot with stake.

  A background task hashes for its validators in chunks, one thread per chunk, until it is
  told to stop.  Its result is determined by the number of batches every thread completed
  and the order in which the threads store their results; both are arguments.  SHA-256 is
  \<open>sha256\<close>, the nonce drawn from a generator seeded with the block index is \<open>pow_nonce\<close>, and
  the draw \<open>gen_range(0.0..total)\<close>, a panic on an empty range, is \<open>gen_range\<close>.
\<close>

section \<open>State\<close>

record pow_block =
  pb_address :: address
  pb_hash_count :: nat
  pb_index :: nat
  pb_nonce :: nat
  pb_max_difficulty :: nat

record minotaur_state =
  mt_pow_blocks :: "(nat, pow_block list) hash_map"
  mt_base_reward :: real
  mt_pow_weight :: real
  mt_block_index :: nat
  mt_max_threads :: nat
  mt_background_task :: "(nat \<times> validator list) option"

definition minotaur_new :: "real \<Rightarrow> nat \<Rightarrow> minotaur_state" where
  "minotaur_new base limit = \<lparr>mt_pow_blocks = [], mt_base_reward = base, mt_pow_weight = 1 / 2,
     mt_block_index = 0, mt_max_threads = limit, mt_background_task = None\<rparr>"

definition perform_pow_computation :: "nat \<Rightarrow> nat" where
  "perform_pow_computation limit = foldl (\<lambda>hash_count nonce. hash_count + 1) 0 [0..<limit]"

definition leading_zeros :: "byte \<Rightarrow> nat" where
  "leading_zeros b = length (takeWhile (\<lambda>n. \<not> bit b n) [7, 6, 5, 4, 3, 2, 1, 0])"

fun calculate_difficulty :: "bytes \<Rightarrow> nat" where
  "calculate_difficulty [] = 0"
| "calculate_difficulty (b # h) = (if b = 0 then 8 + calculate_difficulty h else leading_zeros b)"

definition add_pow_block :: "minotaur_state \<Rightarrow> pow_block \<Rightarrow> minotaur_state" where
  "add_pow_block st b =
     st\<lparr>mt_pow_blocks := hm_insert (pb_index b) (hm_get_or [] (mt_pow_blocks st) (pb_index b) @ [b])
          (mt_pow_blocks st)\<rparr>"

definition get_pow_blocks :: "minotaur_state \<Rightarrow> nat \<Rightarrow> pow_block list" where
  "get_pow_blocks st index = hm_get_or [] (mt_pow_blocks st) index"

section \<open>Background work\<close>

record mining_entry =
  me_validator :: validator
  me_nonce :: nat
  me_best :: "pow_block option"

definition minotaur_hash :: "(bytes \<Rightarrow> bytes) \<Rightarrow> nat \<Rightarrow> validator \<Rightarrow> nat \<Rightarrow> bytes" where
  "minotaur_hash sha256 index v nonce =
     sha256 (as_bytes (v_address v) @ to_le_bytes index @ to_le_bytes nonce)"

definition mining_attempt ::
  "(bytes \<Rightarrow> bytes) \<Rightarrow> (nat \<Rightarrow> nat) \<Rightarrow> nat \<Rightarrow> mining_entry \<Rightarrow> mining_entry" where
  "mining_attempt sha256 pow_nonce index e =
     (let d = calculate_difficulty (minotaur_hash sha256 index (me_validator e) (me_nonce e));
          better = (case me_best e of None \<Rightarrow> True | Some b \<Rightarrow> pb_max_difficulty b < d);
          best = (if better then Some \<lparr>pb_address = v_address (me_validator e),
                    pb_hash_count = me_nonce e + 1, pb_index = index, pb_nonce = pow_nonce index,
                    pb_max_difficulty = d\<rparr> else me_best e)
      in e\<lparr>me_best := best, me_nonce := me_nonce e + 1\<rparr>)"

definition mining_batch ::
  "(bytes \<Rightarrow> bytes) \<Rightarrow> (nat \<Rightarrow> nat) \<Rightarrow> nat \<Rightarrow> mining_entry \<Rightarrow> mining_entry" where
  "mining_batch sha256 pow_nonce index e =
     (mining_attempt sha256 pow_nonce index ^^ target_hashes (me_validator e)) e"

text \<open>A thread serves the validators of its chunk in turn; it has completed \<open>batches\<close> batches.\<close>

definition chunk_run ::
  "(bytes \<Rightarrow> bytes) \<Rightarrow> (nat \<Rightarrow> nat) \<Rightarrow> nat \<Rightarrow> validator list \<Rightarrow> nat \<Rightarrow> mining_entry list" where
  "chunk_run sha256 pow_nonce index c batches =
     foldl (\<lambda>es k. es[k mod length c := mining_batch sha256 pow_nonce index (es ! (k mod length c))])
       (map (\<lambda>v. \<lparr>me_validator = v, me_nonce = 0, me_best = None\<rparr>) c) [0..<batches]"

definition chunk_result ::
  "(bytes \<Rightarrow> bytes) \<Rightarrow> (nat \<Rightarrow> nat) \<Rightarrow> nat \<Rightarrow> validator list \<Rightarrow> nat \<Rightarrow> pow_block list" where
  "chunk_result sha256 pow_nonce index c batches =
     List.map_filter me_best (chunk_run sha256 pow_nonce index c batches)"

definition task_chunks :: "nat \<Rightarrow> validator list \<Rightarrow> validator list list" where
  "task_chunks limit vs =
     (let num_threads = min (length vs) limit in
      if 0 < num_threads then chunks ((length vs + num_threads - 1) div num_threads) vs else [])"

text \<open>The threads store their results in the order \<open>order\<close>, a list of positions of chunks.\<close>

definition task_result ::
  "(bytes \<Rightarrow> bytes) \<Rightarrow> (nat \<Rightarrow> nat) \<Rightarrow> nat \<Rightarrow> nat \<times> validator list \<Rightarrow> nat list \<times> (nat \<Rightarrow> nat)
    \<Rightarrow> pow_block list" where
  "task_result sha256 pow_nonce limit task outcome =
     concat (map (\<lambda>j. chunk_result sha256 pow_nonce (fst task) (task_chunks limit (snd task) ! j)
                   (snd outcome j)) (fst outcome))"

text \<open>
  \<open>outcome\<close> tells how the previous task ended; \<open>None\<close> when joining it failed.
\<close>

definition next_slot ::
  "(bytes \<Rightarrow> bytes) \<Rightarrow> (nat \<Rightarrow> nat) \<Rightarrow> (nat list \<times> (nat \<Rightarrow> nat)) option
    \<Rightarrow> minotaur_state \<Rightarrow> validator list \<Rightarrow> nat \<Rightarrow> minotaur_state" where
  "next_slot sha256 pow_nonce outcome st vs index =
     (let collected = (case (mt_background_task st, outcome) of
            (Some task, Some out) \<Rightarrow> task_result sha256 pow_nonce (mt_max_threads st) task out
          | _ \<Rightarrow> []);
          st' = foldl add_pow_block st collected
      in st'\<lparr>mt_block_index := index, mt_background_task := Some (index, vs)\<rparr>)"

section \<open>Election and rewards\<close>

definition pow_scores :: "pow_block list \<Rightarrow> (address, real) hash_map" where
  "pow_scores bs = foldl (\<lambda>m b. hm_add (pb_address b) (2 ^ pb_max_difficulty b) m) [] bs"

definition pow_ratio_scores :: "(address, real) hash_map \<Rightarrow> validator list \<Rightarrow> (address, real) hash_map" where
  "pow_ratio_scores scores vs =
     (let total = sum_list (hm_values scores) in
      foldl (\<lambda>m v. hm_insert (v_address v)
        (if 0 < total then hm_get_or 0 scores (v_address v) / total else 0) m) [] vs)"

definition pos_ratio_scores :: "validator list \<Rightarrow> (address, real) hash_map" where
  "pos_ratio_scores vs =
     (let total = sum_list (map v_stake vs) in
      foldl (\<lambda>m v. hm_insert (v_address v) (if 0 < total then v_stake v / total else 0) m) [] vs)"

definition combined_scores :: "minotaur_state \<Rightarrow> validator list \<Rightarrow> (address, real) hash_map" where
  "combined_scores st vs =
     (let pow = pow_ratio_scores (pow_scores (get_pow_blocks st (mt_block_index st - 1))) vs;
          pos = pos_ratio_scores vs
      in foldl (\<lambda>m v. hm_insert (v_address v)
           (mt_pow_weight st * hm_get_or 0 pow (v_address v)
            + (1 - mt_pow_weight st) * hm_get_or 0 pos (v_address v)) m) [] vs)"

fun minotaur_scan :: "(address, real) hash_map \<Rightarrow> real \<Rightarrow> validator list \<Rightarrow> validator option" where
  "minotaur_scan scores pick [] = None"
| "minotaur_scan scores pick (v # vs) =
     (let score = hm_get_or 0 scores (v_address v) in
      if pick < score then Some v else minotaur_scan scores (pick - score) vs)"

definition minotaur_select_proposer ::
  "(bytes \<Rightarrow> real \<Rightarrow> real) \<Rightarrow> minotaur_state \<Rightarrow> validator list \<Rightarrow> bytes
    \<Rightarrow> (minotaur_state \<times> (validator_error + validator)) run" where
  "minotaur_select_proposer gen_range st vs seed =
     (if vs = [] then Some (st, Inl NOValidatorError)
      else if mt_block_index st = 0 then Some (st, Inr (hd vs))
      else let scores = combined_scores st vs; total = sum_list (hm_values scores) in
        if total \<le> 0 then None
        else case minotaur_scan scores (gen_range seed total) vs of
               Some v \<Rightarrow> Some (st, Inr v)
             | None \<Rightarrow> Some (st, Inr (hd vs)))"

definition minotaur_distribute_rewards ::
  "real \<Rightarrow> block \<Rightarrow> validator list \<Rightarrow> balance_delta list" where
  "minotaur_distribute_rewards base b vs =
     (case find (\<lambda>v. v_address v = hd_miner (blk_header b)) vs of
        Some v \<Rightarrow> [\<lparr>bd_address = v_address v,
                    bd_amount = base + sum_list (map tx_fee (body_transactions (blk_body b)))\<rparr>]
      | None \<Rightarrow> [])"

section \<open>Interfaces\<close>

interpretation minotaur: strict_scan "\<lambda>v. hm_get_or 0 scores (v_address v)"
  "\<lambda>draw acc. minotaur_scan scores (draw - acc)" for scores
  by unfold_locales (simp_all add: Let_def less_diff_eq diff_diff_eq add.commute)

lemma minotaur_select_member:
  "minotaur_select_proposer gen_range st vs seed = Some (st', Inr v) \<Longrightarrow> v \<in> set vs"
  using minotaur.scan_member [of "combined_scores st vs" _ 0]
  by (fastforce simp: minotaur_select_proposer_def Let_def split: if_splits option.splits)

interpretation minotaur_election: proposer_election "minotaur_select_proposer gen_range" for gen_range
proof
  show "v \<in> set vs" if "minotaur_select_proposer gen_range st vs seed = Some (st', Inr v)"
    for st vs seed st' v
    using that by (rule minotaur_select_member)
  show "\<exists>e. r = Inl e" if "minotaur_select_proposer gen_range st [] seed = Some (st', r)"
    for st seed st' r
    using that by (auto simp: minotaur_select_proposer_def)
qed

interpretation minotaur_reward: proposer_reward minotaur_distribute_rewards
  by unfold_locales
    (auto simp: minotaur_distribute_rewards_def find_None_iff find_Some_iff split: option.splits,
      metis image_eqI in_set_conv_nth)

section \<open>Difficulty of a hash\<close>

lemma leading_zeros_verify:
  assumes "b \<noteq> 0"
  shows "verify_pow (b # h) d \<longleftrightarrow> d \<le> leading_zeros b"
proof -
  let ?ns = "[7, 6, 5, 4, 3, 2, 1, 0] :: nat list"
  have nth: "?ns ! i = 7 - i" if "i < 8" for i
    using that by (auto simp: less_Suc_eq numeral_eq_Suc)
  have some: "\<exists>i < 8. bit b (7 - i)"
  proof (rule ccontr)
    assume "\<not> ?thesis"
    then have "unat b < 2 ^ (8 - 8)" by (subst byte_high_bits [symmetric]) auto
    then have "unat b = 0" by simp
    then show False using assms by (simp add: unat_eq_0)
  qed
  have lz: "d \<le> leading_zeros b \<longleftrightarrow> d \<le> 8 \<and> (\<forall>i < d. \<not> bit b (7 - i))"
  proof (cases "d \<le> 8")
    case True
    have "d \<le> leading_zeros b \<longleftrightarrow> (\<forall>i < d. \<not> bit b (?ns ! i))"
      unfolding leading_zeros_def using True by (intro takeWhile_length_iff) simp
    also have "\<dots> \<longleftrightarrow> (\<forall>i < d. \<not> bit b (7 - i))"
      using True nth by (metis less_le_trans)
    finally show ?thesis using True by simp
  next
    case False
    have "leading_zeros b \<le> 8" unfolding leading_zeros_def by (rule order_trans [OF length_takeWhile_le]) simp
    with False show ?thesis by simp
  qed
  show ?thesis
  proof (cases "d \<le> 8")
    case True
    then show ?thesis by (simp add: lz verify_pow_Cons_small byte_high_bits)
  next
    case False
    have "unat b \<noteq> 0" using assms by (simp add: unat_eq_0)
    with False show ?thesis by (simp add: lz verify_pow_Cons_large)
  qed
qed

text \<open>
  The two engines agree on difficulty.  A hash passes the proof-of-work test for
  difficulty \<open>d\<close> exactly when \<open>d\<close> is at most the difficulty Minotaur computes for it.
\<close>

theorem difficulty_agrees: "verify_pow h d \<longleftrightarrow> d \<le> calculate_difficulty h"
proof (induction h arbitrary: d)
  case Nil
  show ?case by (cases d) (auto simp: verify_pow_all leading_bit_clear_def)
next
  case (Cons b h)
  show ?case
  proof (cases "b = 0")
    case True
    then show ?thesis
      by (cases "d \<le> 8") (auto simp: verify_pow_Cons_small verify_pow_Cons_large Cons)
  qed (simp add: leading_zeros_verify)
qed

section \<open>Background work\<close>

text \<open>
  The best block after some attempts: the highest difficulty among all nonces tried, at the
  first nonce that reached it.
\<close>

definition best_so_far ::
  "(bytes \<Rightarrow> bytes) \<Rightarrow> nat \<Rightarrow> validator \<Rightarrow> nat \<Rightarrow> pow_block \<Rightarrow> bool" where
  "best_so_far sha256 index v n b \<longleftrightarrow>
     (let D = (\<lambda>k. calculate_difficulty (minotaur_hash sha256 index v k)) in
      pb_address b = v_address v \<and> pb_index b = index
      \<and> (\<exists>k < n. pb_hash_count b = k + 1 \<and> pb_max_difficulty b = D k
           \<and> (\<forall>j < n. D j \<le> D k) \<and> (\<forall>j < k. D j < D k)))"

definition entry_ok :: "(bytes \<Rightarrow> bytes) \<Rightarrow> nat \<Rightarrow> mining_entry \<Rightarrow> bool" where
  "entry_ok sha256 index e \<longleftrightarrow>
     (case me_best e of None \<Rightarrow> me_nonce e = 0
      | Some b \<Rightarrow> best_so_far sha256 index (me_validator e) (me_nonce e) b)"

lemma attempt_ok:
  assumes "entry_ok sha256 index e"
  shows "entry_ok sha256 index (mining_attempt sha256 pow_nonce index e)"
    and "me_validator (mining_attempt sha256 pow_nonce index e) = me_validator e"
proof -
  show "me_validator (mining_attempt sha256 pow_nonce index e) = me_validator e"
    by (simp add: mining_attempt_def Let_def)
  define D where "D = (\<lambda>k. calculate_difficulty (minotaur_hash sha256 index (me_validator e) k))"
  show "entry_ok sha256 index (mining_attempt sha256 pow_nonce index e)"
  proof (cases "me_best e")
    case None
    then show ?thesis
      using assms by (simp add: entry_ok_def mining_attempt_def best_so_far_def Let_def)
  next
    case (Some b)
    then obtain k where k: "k < me_nonce e" "pb_hash_count b = k + 1" "pb_max_difficulty b = D k"
      "\<forall>j < me_nonce e. D j \<le> D k" "\<forall>j < k. D j < D k"
      and b: "pb_address b = v_address (me_validator e)" "pb_index b = index"
      using assms by (auto simp: entry_ok_def best_so_far_def Let_def D_def)
    show ?thesis
    proof (cases "D k < D (me_nonce e)")
      case True
      with k(4) have "\<forall>j < me_nonce e. D j < D (me_nonce e)" by (meson le_less_trans)
      with Some k(3) True show ?thesis
        by (auto simp: entry_ok_def mining_attempt_def best_so_far_def Let_def D_def less_Suc_eq)
    next
      case False
      then have "\<forall>j < Suc (me_nonce e). D j \<le> D k" using k(4) by (auto simp: less_Suc_eq)
      with Some k b False show ?thesis
        by (auto simp: entry_ok_def mining_attempt_def best_so_far_def Let_def D_def intro!: exI [of _ k])
    qed
  qed
qed

lemma batch_ok:
  assumes "entry_ok sha256 index e"
  shows "entry_ok sha256 index (mining_batch sha256 pow_nonce index e)"
    and "me_validator (mining_batch sha256 pow_nonce index e) = me_validator e"
proof -
  have "entry_ok sha256 index ((mining_attempt sha256 pow_nonce index ^^ n) e)
    \<and> me_validator ((mining_attempt sha256 pow_nonce index ^^ n) e) = me_validator e" for n
    by (induction n) (use assms attempt_ok in auto)
  then show "entry_ok sha256 index (mining_batch sha256 pow_nonce index e)"
    and "me_validator (mining_batch sha256 pow_nonce index e) = me_validator e"
    by (simp_all add: mining_batch_def)
qed

lemma chunk_run_ok:
  "list_all (entry_ok sha256 index) (chunk_run sha256 pow_nonce index c batches)
   \<and> map me_validator (chunk_run sha256 pow_nonce index c batches) = c"
proof (induction batches)
  case 0
  show ?case by (simp add: chunk_run_def list_all_iff entry_ok_def comp_def)
next
  case (Suc k)
  let ?es = "chunk_run sha256 pow_nonce index c k" and ?j = "k mod length c"
  have step: "chunk_run sha256 pow_nonce index c (Suc k)
      = ?es[?j := mining_batch sha256 pow_nonce index (?es ! ?j)]"
    by (simp add: chunk_run_def)
  have len: "length ?es = length c" using Suc.IH by (metis length_map)
  show ?case
  proof (cases "c = []")
    case True
    with len show ?thesis unfolding step by simp
  next
    case False
    then have j: "?j < length ?es" using len by simp
    have e: "entry_ok sha256 index (?es ! ?j)" "me_validator (?es ! ?j) = c ! ?j"
      using Suc.IH j by (auto simp: list_all_length nth_map [symmetric, of _ ?es me_validator] simp del: nth_map)
    have "list_all (entry_ok sha256 index) (?es[?j := mining_batch sha256 pow_nonce index (?es ! ?j)])"
      using Suc.IH batch_ok(1) [OF e(1)] j by (auto simp: list_all_length nth_list_update)
    moreover have "map me_validator (?es[?j := mining_batch sha256 pow_nonce index (?es ! ?j)]) = c"
      using Suc.IH batch_ok(2) [OF e(1)] e(2) by (simp add: map_update list_update_id)
    ultimately show ?thesis unfolding step by blast
  qed
qed

lemma task_chunks_member: "c \<in> set (task_chunks limit vs) \<Longrightarrow> set c \<subseteq> set vs"
proof -
  assume c: "c \<in> set (task_chunks limit vs)"
  let ?k = "min (length vs) limit"
  have k: "0 < ?k" and c': "c \<in> set (chunks ((length vs + ?k - 1) div ?k) vs)"
    using c by (auto simp: task_chunks_def Let_def split: if_splits)
  have "concat (chunks ((length vs + ?k - 1) div ?k) vs) = vs"
    using k by (intro concat_chunks) (simp add: div_greater_zero_iff)
  moreover have "set c \<subseteq> set (concat (chunks ((length vs + ?k - 1) div ?k) vs))" using c' by auto
  ultimately show ?thesis by simp
qed

text \<open>
  Background work is credited honestly.  Whatever the number of batches and the order
  of the threads, every block a finished task reports belongs to one of the task's
  validators and to the task's block index, and carries the highest difficulty that
  validator reached over all nonces it tried, counted at the first nonce that reached it.
\<close>

theorem background_work_sound:
  assumes "b \<in> set (task_result sha256 pow_nonce limit (index, vs) (order, batches))"
    and "set order \<subseteq> {..< length (task_chunks limit vs)}"
  shows "\<exists>v \<in> set vs. pb_address b = v_address v \<and> pb_index b = index
    \<and> (\<exists>n k. k < n \<and> pb_hash_count b = k + 1
         \<and> pb_max_difficulty b = calculate_difficulty (minotaur_hash sha256 index v k)
         \<and> (\<forall>j < n. calculate_difficulty (minotaur_hash sha256 index v j) \<le> pb_max_difficulty b)
         \<and> (\<forall>j < k. calculate_difficulty (minotaur_hash sha256 index v j) < pb_max_difficulty b))"
proof -
  obtain j where j: "j \<in> set order"
    and b: "b \<in> set (chunk_result sha256 pow_nonce index (task_chunks limit vs ! j) (batches j))"
    using assms(1) by (auto simp: task_result_def)
  let ?c = "task_chunks limit vs ! j"
  obtain e where e: "e \<in> set (chunk_run sha256 pow_nonce index ?c (batches j))" "me_best e = Some b"
    using b by (auto simp: chunk_result_def List.map_filter_def)
  note run = chunk_run_ok [of sha256 index pow_nonce ?c "batches j"]
  have "me_validator e \<in> set (map me_validator (chunk_run sha256 pow_nonce index ?c (batches j)))"
    using e(1) by simp
  moreover have "?c \<in> set (task_chunks limit vs)" using j assms(2) by (intro nth_mem) auto
  ultimately have "me_validator e \<in> set vs"
    using run task_chunks_member [of ?c limit vs] by auto
  moreover have "best_so_far sha256 index (me_validator e) (me_nonce e) b"
    using run e by (auto simp: list_all_iff entry_ok_def)
  ultimately show ?thesis unfolding best_so_far_def Let_def by (intro bexI [of _ "me_validator e"]) auto
qed

section \<open>Election\<close>

definition pow_mass :: "pow_block list \<Rightarrow> address \<Rightarrow> real" where
  "pow_mass bs a = sum_list (map (\<lambda>b. 2 ^ pb_max_difficulty b) (filter (\<lambda>b. pb_address b = a) bs))"

definition pow_total :: "pow_block list \<Rightarrow> real" where
  "pow_total bs = sum_list (map (\<lambda>b. 2 ^ pb_max_difficulty b) bs)"

lemma pow_scores_eq:
  "hm_get_or 0 (pow_scores bs) a = pow_mass bs a"
  "sum_list (hm_values (pow_scores bs)) = pow_total bs" "hm_ok (pow_scores bs)"
proof -
  have "hm_get_or 0 (pow_scores bs) a = pow_mass bs a
      \<and> sum_list (hm_values (pow_scores bs)) = pow_total bs \<and> hm_ok (pow_scores bs)"
  proof (induction bs rule: rev_induct)
    case (snoc b bs)
    have "pow_scores (bs @ [b]) = hm_add (pb_address b) (2 ^ pb_max_difficulty b) (pow_scores bs)"
      by (simp add: pow_scores_def)
    with snoc show ?case
      by (auto simp: table_simps pow_mass_def pow_total_def sum_hm_add hm_values_def hm_ok_add)
  qed (simp add: pow_scores_def table_simps pow_mass_def pow_total_def hm_values_def hm_ok_def)
  then show "hm_get_or 0 (pow_scores bs) a = pow_mass bs a"
    "sum_list (hm_values (pow_scores bs)) = pow_total bs" "hm_ok (pow_scores bs)" by simp_all
qed

text \<open>The virtual stake of a validator: its share of the work and its share of the stake.\<close>

definition virtual_stake :: "minotaur_state \<Rightarrow> validator list \<Rightarrow> validator \<Rightarrow> real" where
  "virtual_stake st vs v =
     (let bs = get_pow_blocks st (mt_block_index st - 1); T = sum_list (map v_stake vs) in
      mt_pow_weight st * (if 0 < pow_total bs then pow_mass bs (v_address v) / pow_total bs else 0)
      + (1 - mt_pow_weight st) * (if 0 < T then v_stake v / T else 0))"

lemma combined_scores_eq:
  assumes "distinct (map v_address vs)"
  shows "combined_scores st vs = map (\<lambda>v. (v_address v, virtual_stake st vs v)) vs"
proof -
  let ?bs = "get_pow_blocks st (mt_block_index st - 1)"
  note ins = foldl_insert_distinct [of "[]" v_address vs, simplified, OF assms]
  define f where "f = (\<lambda>v :: validator. if 0 < pow_total ?bs then pow_mass ?bs (v_address v) / pow_total ?bs else 0)"
  define g where
    "g = (\<lambda>v :: validator. if 0 < sum_list (map v_stake vs) then v_stake v / sum_list (map v_stake vs) else 0)"
  have pow: "pow_ratio_scores (pow_scores ?bs) vs = map (\<lambda>v. (v_address v, f v)) vs"
    by (simp add: pow_ratio_scores_def Let_def ins pow_scores_eq f_def)
  have pos: "pos_ratio_scores vs = map (\<lambda>v. (v_address v, g v)) vs"
    by (simp add: pos_ratio_scores_def Let_def ins g_def)
  have "virtual_stake st vs v = mt_pow_weight st * f v + (1 - mt_pow_weight st) * g v" for v
    by (simp add: virtual_stake_def Let_def f_def g_def)
  then have "mt_pow_weight st * hm_get_or 0 (map (\<lambda>v. (v_address v, f v)) vs) (v_address v)
      + (1 - mt_pow_weight st) * hm_get_or 0 (map (\<lambda>v. (v_address v, g v)) vs) (v_address v)
      = virtual_stake st vs v" if "v \<in> set vs" for v
    using hm_get_or_map [OF assms that, of 0 f] hm_get_or_map [OF assms that, of 0 g] by simp
  then show ?thesis
    unfolding combined_scores_def Let_def ins pow pos by (intro map_cong HOL.refl) simp
qed

lemma pow_mass_nonneg: "0 \<le> pow_mass bs a" "0 \<le> pow_total bs"
  unfolding pow_mass_def pow_total_def by (intro sum_list_nonneg_map; simp)+

lemma virtual_stake_nonneg:
  assumes "0 \<le> mt_pow_weight st" "mt_pow_weight st \<le> 1" "0 \<le> v_stake v"
  shows "0 \<le> virtual_stake st vs v"
  using assms pow_mass_nonneg by (simp add: virtual_stake_def Let_def)

definition total_virtual_stake :: "minotaur_state \<Rightarrow> validator list \<Rightarrow> real" where
  "total_virtual_stake st vs = sum_list (map (virtual_stake st vs) vs)"

lemma minotaur_select_eq:
  assumes "distinct (map v_address vs)" "mt_block_index st \<noteq> 0" "vs \<noteq> []"
  shows "minotaur_select_proposer gen_range st vs seed =
    (if total_virtual_stake st vs \<le> 0 then None
     else case minotaur_scan (combined_scores st vs) (gen_range seed (total_virtual_stake st vs)) vs of
            Some v \<Rightarrow> Some (st, Inr v) | None \<Rightarrow> Some (st, Inr (hd vs)))"
  using assms(2,3)
  by (simp add: minotaur_select_proposer_def Let_def combined_scores_eq [OF assms(1)]
      hm_values_def comp_def total_virtual_stake_def)

text \<open>Without work and without stake there is nothing to draw from, and the engine panics.\<close>

lemma minotaur_panics_without_resources:
  assumes "distinct (map v_address vs)" "mt_block_index st \<noteq> 0" "vs \<noteq> []"
    and "get_pow_blocks st (mt_block_index st - 1) = []" and "sum_list (map v_stake vs) \<le> 0"
  shows "minotaur_select_proposer gen_range st vs seed = None"
proof -
  have "virtual_stake st vs v = 0" for v
    using assms(4,5) by (simp add: virtual_stake_def Let_def pow_total_def)
  then have "map (virtual_stake st vs) vs = map (\<lambda>_. 0) vs" by simp
  then have "total_virtual_stake st vs = 0" by (simp only: total_virtual_stake_def) simp
  then show ?thesis by (simp add: minotaur_select_eq [OF assms(1-3)])
qed

text \<open>
  C37.  Minotaur elects in proportion to virtual stake.  From the second block on, with
  distinct validators, non-negative stakes and a draw below the positive total, validator
  \<open>i\<close> is elected exactly for the draws in an interval whose length is its virtual stake:
  the pow weight times its share of the recorded work plus the rest times its share of
  the stake.
\<close>

theorem minotaur_election_by_virtual_stake:
  assumes "distinct (map v_address vs)" and "\<forall>v \<in> set vs. 0 \<le> v_stake v"
    and "0 \<le> mt_pow_weight st" "mt_pow_weight st \<le> 1" and "mt_block_index st \<noteq> 0" and "i < length vs"
    and "0 < total_virtual_stake st vs" and "0 \<le> gen_range seed (total_virtual_stake st vs)"
    and "gen_range seed (total_virtual_stake st vs) < total_virtual_stake st vs"
  shows "let draw = gen_range seed (total_virtual_stake st vs);
      F = sum_list (map (virtual_stake st vs) (take i vs)) in
    minotaur_select_proposer gen_range st vs seed = Some (st, Inr (vs ! i))
      \<longleftrightarrow> F \<le> draw \<and> draw < F + virtual_stake st vs (vs ! i)"
proof -
  let ?S = "combined_scores st vs" and ?draw = "gen_range seed (total_virtual_stake st vs)"
  have ne: "vs \<noteq> []" using assms(6) by auto
  have weight: "hm_get_or 0 ?S (v_address v) = virtual_stake st vs v" if "v \<in> set vs" for v
    unfolding combined_scores_eq [OF assms(1)] by (rule hm_get_or_map [OF assms(1) that])
  have ws: "map (\<lambda>v. hm_get_or 0 ?S (v_address v)) us = map (virtual_stake st vs) us" if "set us \<subseteq> set vs" for us
    using that weight by auto
  have nn: "0 \<le> hm_get_or 0 ?S (v_address v)" if "v \<in> set vs" for v
    using weight [OF that] virtual_stake_nonneg [OF assms(3,4)] assms(2) that by simp
  have dist: "distinct vs" using assms(1) by (simp add: distinct_map)
  obtain v where v: "minotaur_scan ?S (?draw - 0) vs = Some v"
    using minotaur.scan_succeeds [OF ne, of ?draw 0 ?S] assms(9) ws [of vs]
    by (auto simp: total_virtual_stake_def)
  have "minotaur_scan ?S (?draw - 0) vs = Some (vs ! i)
    \<longleftrightarrow> sum_list (map (virtual_stake st vs) (take i vs)) \<le> ?draw
      \<and> ?draw < sum_list (map (virtual_stake st vs) (take (Suc i) vs))"
    using minotaur.scan_interval [OF nn dist assms(6,8)] ws [of "take i vs"] ws [of "take (Suc i) vs"]
    by (simp add: set_take_subset)
  then show ?thesis
    using v assms(6,7) by (auto simp: minotaur_select_eq [OF assms(1,5) ne] Let_def take_Suc_conv_app_nth)
qed

section \<open>Concrete instances\<close>

lemma minotaur_election_by_virtual_stake_witness:
  "let st = (minotaur_new 1 2)\<lparr>mt_block_index := 1,
        mt_pow_blocks := [(0, [\<lparr>pb_address = ''y'', pb_hash_count = 1, pb_index = 0, pb_nonce = 0,
                                pb_max_difficulty = 3\<rparr>])]\<rparr>;
      vs = [\<lparr>v_address = ''x'', v_stake = 1, v_hash_power = 0\<rparr>,
            \<lparr>v_address = ''y'', v_stake = 3, v_hash_power = 0\<rparr>];
      gen_range = (\<lambda>_ t. t / 2); draw = gen_range [] (total_virtual_stake st vs);
      F = sum_list (map (virtual_stake st vs) (take 1 vs)) in
    minotaur_select_proposer gen_range st vs [] = Some (st, Inr (vs ! 1))
      \<longleftrightarrow> F \<le> draw \<and> draw < F + virtual_stake st vs (vs ! 1)"
proof -
  let ?st = "(minotaur_new 1 2)\<lparr>mt_block_index := 1,
        mt_pow_blocks := [(0, [\<lparr>pb_address = ''y'', pb_hash_count = 1, pb_index = 0, pb_nonce = 0,
                                pb_max_difficulty = 3\<rparr>])]\<rparr>"
  let ?vs = "[\<lparr>v_address = ''x'', v_stake = 1, v_hash_power = 0\<rparr>,
            \<lparr>v_address = ''y'', v_stake = 3, v_hash_power = 0\<rparr>]"
  have "total_virtual_stake ?st ?vs = 1"
    by (simp add: total_virtual_stake_def virtual_stake_def Let_def minotaur_new_def get_pow_blocks_def
        hm_get_or_def pow_total_def pow_mass_def)
  then show ?thesis
    unfolding Let_def
    by (intro minotaur_election_by_virtual_stake [unfolded Let_def]) (simp_all add: minotaur_new_def)
qed

lemma background_work_sound_witness:
  "\<exists>b v. b \<in> set (task_result (\<lambda>_. [0]) (\<lambda>n. n) 1 (7, [v]) ([0], \<lambda>_. 1)) \<and> v_address v = ''x''
    \<and> pb_address b = v_address v \<and> pb_index b = 7
    \<and> (\<exists>n k. k < n \<and> pb_hash_count b = k + 1
         \<and> pb_max_difficulty b = calculate_difficulty (minotaur_hash (\<lambda>_. [0]) 7 v k))"
proof -
  let ?v = "\<lparr>v_address = ''x'', v_stake = 0, v_hash_power = 0\<rparr>"
  have chunk: "task_chunks 1 [?v] = [[?v]]" by (simp add: task_chunks_def chunks.simps)
  have run: "chunk_run (\<lambda>_. [0]) (\<lambda>n. n) 7 [?v] 1
      = [mining_batch (\<lambda>_. [0]) (\<lambda>n. n) 7 \<lparr>me_validator = ?v, me_nonce = 0, me_best = None\<rparr>]"
    by (simp add: chunk_run_def)
  have one: "target_hashes ?v = 1" by (simp add: target_hashes_def sat64_def)
  have "task_result (\<lambda>_. [0]) (\<lambda>n. n) 1 (7, [?v]) ([0], \<lambda>_. 1) \<noteq> []"
    by (simp add: task_result_def chunk_result_def chunk run mining_batch_def one
        List.map_filter_simps del: One_nat_def) (simp add: mining_attempt_def Let_def)
  then obtain b where b: "b \<in> set (task_result (\<lambda>_. [0]) (\<lambda>n. n) 1 (7, [?v]) ([0], \<lambda>_. 1))"
    by (metis last_in_set)
  have "set [0] \<subseteq> {..< length (task_chunks 1 [?v])}" unfolding chunk by simp
  from background_work_sound [OF b this] b show ?thesis
    by (intro exI [of _ b] exI [of _ ?v]) auto
qed

end
