(* ===== verification/World_State.thy ===== *)
theory World_State
  imports Node_State World_Reports Evidence_Rewards Pos_Consensus Minotaur Pow_Race
begin

text \<open>
  \<^verbatim>\<open>src/src/network/world_state.rs\<close>: the coordinator of the simulation.  It advances slots
  and epochs, asks the consensus engine for a proposer, builds the canonical block from the
  proposer's mempool, credits rewards, schedules outages, answers synchronisation requests
  and reports the metrics of every slot and epoch.

  \<open>Box<dyn Consensus>\<close> is a record of operations over a state, instantiated by the four
  engines.  The channel of an address and the mempool behind it are named by the node that
  owns them, because the identities of a Sybil node share those of the node; the contents
  of the mempools are the argument \<open>pools\<close>, returned updated.  Evidence is judged by
  \<open>evidence_verifier\<close>.  The text of the written files, the real-time pauses and the log are
  not modelled.
\<close>

section \<open>Consensus engines\<close>

record 's engine =
  eng_name :: string
  eng_next_slot :: "'s \<Rightarrow> validator list \<Rightarrow> nat \<Rightarrow> 's"
  eng_select_proposer :: "'s \<Rightarrow> validator list \<Rightarrow> bytes \<Rightarrow> ('s \<times> (validator_error + validator)) run"
  eng_on_epoch_end :: "'s \<Rightarrow> block list \<Rightarrow> validator list \<Rightarrow> 's"
  eng_distribute_rewards :: "'s \<Rightarrow> block \<Rightarrow> validator list \<Rightarrow> 's \<times> balance_delta list"
  eng_metrics_snapshot :: "'s \<Rightarrow> metrics_snapshot"

definition default_snapshot :: metrics_snapshot where
  "default_snapshot = \<lparr>
     ms_depth = None, ms_beta = None, ms_eta = None, ms_bonus_cap = None, ms_saturation_k = None,
     ms_proposer_fee_ratio = None, ms_score_floor_kappa = None, ms_bonus_zeta = None,
     ms_score_cost_reference = None, ms_active_score_epoch = None, ms_latest_score_epoch = None,
     ms_score_history = [], ms_latest_score_history = [], ms_normalized_score = [], ms_bonuses = [],
     ms_unnormalized_proposer_weights = [], ms_normalized_proposer_weights = []\<rparr>"

definition topo_engine :: "path_verifier \<Rightarrow> (bytes \<Rightarrow> real \<Rightarrow> real) \<Rightarrow> topo_state engine" where
  "topo_engine ver gen_range = \<lparr>
     eng_name = ''TopoStake'', eng_next_slot = (\<lambda>st vs index. st),
     eng_select_proposer = topo_select_proposer gen_range, eng_on_epoch_end = topo_on_epoch_end ver,
     eng_distribute_rewards = topo_distribute_rewards ver,
     eng_metrics_snapshot = topo_metrics_snapshot\<rparr>"

definition pos_engine :: "(bytes \<Rightarrow> real \<Rightarrow> real) \<Rightarrow> pos_state engine" where
  "pos_engine gen_range = \<lparr>
     eng_name = ''POS'', eng_next_slot = (\<lambda>st vs index. st),
     eng_select_proposer = pos_select_proposer gen_range, eng_on_epoch_end = (\<lambda>st bs vs. st),
     eng_distribute_rewards = (\<lambda>st b vs. (st, pos_distribute_rewards (pos_base_reward st) b vs)),
     eng_metrics_snapshot = (\<lambda>st. default_snapshot)\<rparr>"

definition pow_engine ::
  "(bytes \<Rightarrow> bytes) \<Rightarrow> (bytes \<Rightarrow> nat \<Rightarrow> nat) \<Rightarrow> action list \<Rightarrow> pow_state engine" where
  "pow_engine sha256 gen_index schedule = \<lparr>
     eng_name = ''pow'', eng_next_slot = (\<lambda>st vs index. st),
     eng_select_proposer = pow_select_proposer sha256 gen_index schedule,
     eng_on_epoch_end = pow_on_epoch_end,
     eng_distribute_rewards = (\<lambda>st b vs. (st, pow_distribute_rewards (pow_base_reward st) b vs)),
     eng_metrics_snapshot = (\<lambda>st. default_snapshot)\<rparr>"

definition minotaur_engine ::
  "(bytes \<Rightarrow> bytes) \<Rightarrow> (nat \<Rightarrow> nat) \<Rightarrow> (nat list \<times> (nat \<Rightarrow> nat)) option \<Rightarrow> (bytes \<Rightarrow> real \<Rightarrow> real)
    \<Rightarrow> minotaur_state engine" where
  "minotaur_engine sha256 pow_nonce outcome gen_range = \<lparr>
     eng_name = ''Minotaur'', eng_next_slot = next_slot sha256 pow_nonce outcome,
     eng_select_proposer = minotaur_select_proposer gen_range, eng_on_epoch_end = (\<lambda>st bs vs. st),
     eng_distribute_rewards = (\<lambda>st b vs. (st, minotaur_distribute_rewards (mt_base_reward st) b vs)),
     eng_metrics_snapshot = (\<lambda>st. default_snapshot)\<rparr>"

section \<open>State\<close>

record 's world =
  ws_slot :: slot_manager
  ws_validators :: "validator list"
  ws_balances :: "(address, real) hash_map"
  ws_nodes_sender :: "(address, address) hash_map"
  ws_wallets :: "(address, wallet) hash_map"
  ws_mempools :: "(address, address) hash_map"
  ws_relay_profiles :: "(address, string) hash_map"
  ws_availability :: "(address, bool) hash_map"
  ws_blockchain :: blockchain
  ws_consensus :: 's
  ws_slot_duration :: nat
  ws_slot_per_epoch :: nat
  ws_election_seed :: nat
  ws_outage_start_epoch :: nat
  ws_outage_duration_epochs :: nat
  ws_outage_indices :: "nat set"
  ws_outage_addresses :: "address set"
  ws_common_randomness :: bool
  ws_logical_slot :: nat
  ws_last_generated :: nat
  ws_nodes_index :: "(address, nat) hash_map"
  ws_adversarial :: "address list"
  ws_focal_relayers :: "address set"
  ws_degrees :: "(address, nat) hash_map"
  ws_betweenness :: "(address, real) hash_map"
  ws_last_forward :: "(address, nat) hash_map"
  ws_proposer_counts :: "(address, nat) hash_map"
  ws_total_included :: nat
  ws_total_income :: "(address, real) hash_map"
  ws_success :: nat
  ws_failed :: nat
  ws_last_success :: nat
  ws_last_failed :: nat
  ws_base_reward :: real
  ws_max_epochs :: nat
  ws_max_tx_per_block :: nat
  ws_latency_adjustment :: real

text \<open>What the JSON reader makes of the metadata of a transaction: creation epoch and slot.\<close>

record 'g world_env = "'g node_env" +
  parse_metadata :: "bytes \<Rightarrow> (nat \<times> nat) option"

definition derive_election_seed :: "('x) crypto_scheme \<Rightarrow> nat \<Rightarrow> nat \<Rightarrow> nat \<Rightarrow> nat \<Rightarrow> bytes" where
  "derive_election_seed C election_seed epoch slot block_index =
     hasher_hash C (to_le_bytes election_seed @ to_le_bytes epoch @ to_le_bytes slot @ to_le_bytes block_index)"

definition world_new ::
  "('x) crypto_scheme \<Rightarrow> block \<Rightarrow> 's \<Rightarrow> blockchain \<Rightarrow> nat \<Rightarrow> nat \<Rightarrow> real \<Rightarrow> nat \<Rightarrow> nat \<Rightarrow> nat \<Rightarrow> real \<Rightarrow> 's world" where
  "world_new C genesis st bc slot_secs slots base epochs max_tx seed adjustment = \<lparr>
     ws_slot = \<lparr>sm_randao_seeds = [], sm_slot_duration = slot_secs, sm_current_epoch = 0,
       sm_current_slot = 0, sm_next_seed = derive_election_seed C seed 0 0 0,
       sm_start_timestamp = hd_timestamp (blk_header genesis)\<rparr>,
     ws_validators = [], ws_balances = [], ws_nodes_sender = [], ws_wallets = [], ws_mempools = [],
     ws_relay_profiles = [], ws_availability = [], ws_blockchain = bc, ws_consensus = st,
     ws_slot_duration = slot_secs, ws_slot_per_epoch = slots, ws_election_seed = seed,
     ws_outage_start_epoch = 2 ^ 64 - 1, ws_outage_duration_epochs = 0, ws_outage_indices = {},
     ws_outage_addresses = {}, ws_common_randomness = False, ws_logical_slot = 0, ws_last_generated = 0,
     ws_nodes_index = [], ws_adversarial = [], ws_focal_relayers = {}, ws_degrees = [],
     ws_betweenness = [], ws_last_forward = [], ws_proposer_counts = [], ws_total_included = 0,
     ws_total_income = [], ws_success = 0, ws_failed = 0, ws_last_success = 0, ws_last_failed = 0,
     ws_base_reward = base, ws_max_epochs = epochs, ws_max_tx_per_block = max_tx,
     ws_latency_adjustment = adjustment\<rparr>"

section \<open>Scheduled outages\<close>

definition outage_indices :: "string \<Rightarrow> nat set" where
  "outage_indices validator_ids =
     set (List.map_filter (\<lambda>part. let trimmed = trim part in
           if trimmed = [] then None else from_str_radix 10 (2 ^ 32) trimmed)
         (split_on (CHR '','') validator_ids))"

definition configure_scheduled_outage ::
  "'s world \<Rightarrow> nat \<Rightarrow> nat \<Rightarrow> string \<Rightarrow> bool \<Rightarrow> 's world" where
  "configure_scheduled_outage w start_epoch duration_epochs validator_ids common =
     (let indices = outage_indices validator_ids in
      w\<lparr>ws_outage_start_epoch := start_epoch, ws_outage_duration_epochs := duration_epochs,
        ws_common_randomness := common, ws_outage_indices := indices,
        ws_outage_addresses := set (map fst (filter (\<lambda>(a, i). i \<in> indices) (ws_nodes_index w)))\<rparr>)"

definition scheduled_outage_active :: "'s world \<Rightarrow> nat \<Rightarrow> bool" where
  "scheduled_outage_active w epoch \<longleftrightarrow>
     ws_outage_addresses w \<noteq> {} \<and> ws_outage_start_epoch w \<le> epoch
     \<and> (ws_outage_duration_epochs w = 0
         \<or> epoch < sat64 (ws_outage_start_epoch w + ws_outage_duration_epochs w))"

definition update_scheduled_availability :: "'s world \<Rightarrow> nat \<Rightarrow> 's world" where
  "update_scheduled_availability w epoch =
     w\<lparr>ws_availability := map (\<lambda>(a, _).
         (a, \<not> scheduled_outage_active w epoch \<or> a \<notin> ws_outage_addresses w)) (ws_availability w)\<rparr>"

record proposer_duty =
  pd_epoch :: nat
  pd_slot :: nat
  pd_validator_id :: string
  pd_address :: address
  pd_stake :: real
  pd_weight :: real
  pd_outage_active :: bool
  pd_outage_group :: bool
  pd_scheduled_online :: bool
  pd_block_produced :: bool
  pd_failure_reason :: string

definition proposer_duty_row ::
  "'s world \<Rightarrow> slot_manager \<Rightarrow> validator \<Rightarrow> real \<Rightarrow> bool \<Rightarrow> bool \<Rightarrow> string \<Rightarrow> proposer_duty" where
  "proposer_duty_row w sm proposer weight online produced reason = \<lparr>
     pd_epoch = sm_current_epoch sm, pd_slot = sm_current_slot sm,
     pd_validator_id = (case map_of (ws_nodes_index w) (v_address proposer) of
       None \<Rightarrow> [] | Some index \<Rightarrow> show_nat index),
     pd_address = v_address proposer, pd_stake = v_stake proposer, pd_weight = weight,
     pd_outage_active = scheduled_outage_active w (sm_current_epoch sm),
     pd_outage_group = (v_address proposer \<in> ws_outage_addresses w),
     pd_scheduled_online = online, pd_block_produced = produced, pd_failure_reason = reason\<rparr>"

section \<open>Canonical blocks\<close>

type_synonym mempools = "address \<Rightarrow> (string, transaction_paths) hash_map"

definition build_canonical_block ::
  "('x) block_env_scheme \<Rightarrow> bls_registry \<Rightarrow> nat \<Rightarrow> mempools \<Rightarrow> 's world \<Rightarrow> validator \<Rightarrow> nat \<Rightarrow> nat
    \<Rightarrow> ((block_error + block) \<times> mempools) run" where
  "build_canonical_block C reg now pools w miner epoch slot =
     (case (map_of (ws_wallets w) (v_address miner), map_of (ws_mempools w) (v_address miner)) of
        (Some wal, Some owner) \<Rightarrow>
          (let to_pack = paths_to_pack (ws_blockchain w) (pools owner) (ws_max_tx_per_block w);
               pools' = pools(owner :=
                 remove_hashes (map (\<lambda>p. tx_hash (tp_transaction p)) to_pack) (pools owner))
           in case those (map (from_transaction_paths C reg) to_pack) of
                None \<Rightarrow> None
              | Some paths \<Rightarrow>
                  (case (get_last_index (ws_blockchain w), get_last_hash (ws_blockchain w)) of
                     (Some last_index, Some last_hash) \<Rightarrow>
                       map_option (\<lambda>r. (r, pools'))
                         (block_new C now (last_index + 1) epoch slot last_hash
                           \<lparr>body_transactions = map tp_transaction to_pack, body_paths = paths\<rparr> wal)
                   | _ \<Rightarrow> None))
      | _ \<Rightarrow> Some (Inl InvalidBlock, pools))"

definition credit_balances :: "(address, real) hash_map \<Rightarrow> balance_delta list \<Rightarrow> (address, real) hash_map" where
  "credit_balances balances ds = foldl (\<lambda>m d. hm_add (bd_address d) (bd_amount d) m) balances ds"

text \<open>Every touched account is told its new balance; the order of the set is one of its orders.\<close>

definition balance_updates ::
  "(address, address) hash_map \<Rightarrow> (address, real) hash_map \<Rightarrow> balance_delta list \<Rightarrow> outbox" where
  "balance_updates senders balances ds =
     concat (map (\<lambda>a. case (map_of balances a, map_of senders a) of
         (Some x, Some owner) \<Rightarrow> [(ToNode owner, UpdateNodeBalance x)]
       | _ \<Rightarrow> []) (remdups (map bd_address ds)))"

definition settle_block :: "'s engine \<Rightarrow> 's world \<Rightarrow> block \<Rightarrow> 's world \<times> outbox" where
  "settle_block E w b =
     (let (st, ds) = eng_distribute_rewards E (ws_consensus w) b (ws_validators w);
          balances = credit_balances (ws_balances w) ds
      in (w\<lparr>ws_success := ws_success w + 1, ws_consensus := st, ws_balances := balances\<rparr>,
          balance_updates (ws_nodes_sender w) balances ds))"

definition apply_canonical_block ::
  "('x) block_env_scheme \<Rightarrow> 's engine \<Rightarrow> 's world \<Rightarrow> block \<Rightarrow> (chain_error + 's world \<times> outbox) run" where
  "apply_canonical_block C E w b =
     (case add_block C (ws_blockchain w) b of
        None \<Rightarrow> None
      | Some (Inl e) \<Rightarrow> Some (Inl e)
      | Some (Inr bc) \<Rightarrow> Some (Inr (settle_block E (w\<lparr>ws_blockchain := bc\<rparr>) b)))"

section \<open>Slot metrics\<close>

record slot_metrics =
  sl_epoch :: nat
  sl_slot :: nat
  sl_miner :: address
  sl_proposer_stake :: real
  sl_timestamp :: nat
  sl_block_hash :: string
  sl_tx_count :: nat
  sl_throughput :: real
  sl_path_stats :: path_stats
  sl_stake_concentration :: real
  sl_gini :: real
  sl_consensus_type :: string
  sl_avg_delay :: real
  sl_success :: nat
  sl_failed :: nat

definition logical_time_seconds :: "nat \<Rightarrow> nat \<Rightarrow> nat \<Rightarrow> nat \<Rightarrow> nat" where
  "logical_time_seconds epoch slot slots_per_epoch slot_secs = (epoch * slots_per_epoch + slot) * slot_secs"

definition collect_slot_metrics :: "'s engine \<Rightarrow> 's world \<Rightarrow> validator \<Rightarrow> slot_metrics run" where
  "collect_slot_metrics E w miner =
     (case get_last_block (ws_blockchain w) of
        None \<Rightarrow> None
      | Some b \<Rightarrow>
          (let stakes = map v_stake (ws_validators w); sm = ws_slot w; tx_count = length (block_txs b) in
           Some \<lparr>sl_epoch = sm_current_epoch sm, sl_slot = sm_current_slot sm,
             sl_miner = v_address miner, sl_proposer_stake = v_stake miner,
             sl_timestamp = logical_time_seconds (sm_current_epoch sm) (sm_current_slot sm)
               (ws_slot_per_epoch w) (ws_slot_duration w),
             sl_block_hash = hd_hash (blk_header b), sl_tx_count = tx_count,
             sl_throughput = real tx_count / max (real (ws_slot_duration w)) 1,
             sl_path_stats = calculate_path_stats (get_all_paths b),
             sl_stake_concentration = calculate_stake_concentration stakes,
             sl_gini = calculate_gini stakes, sl_consensus_type = eng_name E,
             sl_avg_delay = calculate_tx_packing_delay (map tx_timestamp (block_txs b))
               (hd_timestamp (blk_header b)),
             sl_success = ws_success w, sl_failed = ws_failed w\<rparr>))"

section \<open>Epoch metrics\<close>

text \<open>The creation slot is computed from unsigned data of the transaction; the product panics when it
  leaves the 64 bits in a checked build.\<close>

definition tx_logical_slot :: "('g, 'x) world_env_scheme \<Rightarrow> transaction \<Rightarrow> nat \<Rightarrow> nat option run" where
  "tx_logical_slot C t slots_per_epoch =
     (case parse_metadata C (tx_data t) of
        None \<Rightarrow> Some None
      | Some (epoch, slot) \<Rightarrow>
          if 2 ^ 64 \<le> epoch * slots_per_epoch + slot then None
          else Some (Some (epoch * slots_per_epoch + slot)))"

record inclusion_sample =
  is_epoch :: nat
  is_tx_hash :: string
  is_created_slot :: nat
  is_included_slot :: nat
  is_latency :: real
  is_eligible :: bool

record epoch_observations =
  eo_latencies :: "real list"
  eo_path_lengths :: "real list"
  eo_valid :: nat
  eo_invalid :: nat
  eo_conflicts :: nat
  eo_samples :: "inclusion_sample list"

definition evidence_eligible :: "path_verifier \<Rightarrow> block \<Rightarrow> nat \<Rightarrow> transaction \<Rightarrow> bool" where
  "evidence_eligible ver b idx t \<longleftrightarrow>
     idx < length (body_paths (blk_body b))
     \<and> ver (body_paths (blk_body b) ! idx) t (hd_miner (blk_header b)) (hd_epoch (blk_header b))"

definition observe_latency ::
  "('g, 'x) world_env_scheme \<Rightarrow> 's world \<Rightarrow> block \<Rightarrow> transaction \<Rightarrow> bool \<Rightarrow> epoch_observations
    \<Rightarrow> epoch_observations run" where
  "observe_latency C w b t eligible obs =
     (let included = hd_epoch (blk_header b) * ws_slot_per_epoch w + hd_slot (blk_header b) in
      case tx_logical_slot C t (ws_slot_per_epoch w) of
        None \<Rightarrow> None
      | Some None \<Rightarrow> Some obs
      | Some (Some created) \<Rightarrow>
          (let latency = max (real (included - created) * real (ws_slot_duration w)
                 + ws_latency_adjustment w) 0
           in Some (obs\<lparr>eo_latencies := eo_latencies obs @ [latency],
                eo_samples := eo_samples obs @ [\<lparr>is_epoch = hd_epoch (blk_header b), is_tx_hash = tx_hash t,
                  is_created_slot = created, is_included_slot = included, is_latency = latency,
                  is_eligible = eligible\<rparr>]\<rparr>)))"

definition observe_path :: "path_caches \<Rightarrow> block \<Rightarrow> nat \<Rightarrow> transaction \<Rightarrow> epoch_observations \<Rightarrow> epoch_observations" where
  "observe_path K b idx t obs =
     (if length (body_paths (blk_body b)) \<le> idx then obs
      else let p = body_paths (blk_body b) ! idx; full = full_path p (hd_miner (blk_header b)) in
        obs\<lparr>eo_path_lengths := eo_path_lengths obs @ [real (length full - 1)],
            eo_conflicts := eo_conflicts obs
              + sum_list (map (conflicting_receipt_count K (tx_hash t) (asp_epoch p)) full)\<rparr>)"

definition observe_transaction ::
  "('g, 'x) world_env_scheme \<Rightarrow> path_verifier \<Rightarrow> path_caches \<Rightarrow> 's world \<Rightarrow> block \<Rightarrow> nat \<times> transaction
    \<Rightarrow> epoch_observations \<Rightarrow> epoch_observations run" where
  "observe_transaction C ver K w b it obs =
     (let (idx, t) = it; eligible = evidence_eligible ver b idx t in
      map_option (\<lambda>obs'. let obs'' = observe_path K b idx t obs' in
          if eligible then obs''\<lparr>eo_valid := eo_valid obs'' + 1\<rparr>
          else obs''\<lparr>eo_invalid := eo_invalid obs'' + 1\<rparr>)
        (observe_latency C w b t eligible obs))"

fun fold_run :: "('b \<Rightarrow> 'a \<Rightarrow> 'a run) \<Rightarrow> 'b list \<Rightarrow> 'a \<Rightarrow> 'a run" where
  "fold_run f [] a = Some a"
| "fold_run f (x # xs) a = (case f x a of None \<Rightarrow> None | Some a' \<Rightarrow> fold_run f xs a')"

definition observe_epoch ::
  "('g, 'x) world_env_scheme \<Rightarrow> path_verifier \<Rightarrow> path_caches \<Rightarrow> 's world \<Rightarrow> block list
    \<Rightarrow> epoch_observations run" where
  "observe_epoch C ver K w bs =
     fold_run (\<lambda>b. fold_run (observe_transaction C ver K w b) (enumerate 0 (block_txs b))) bs
       \<lparr>eo_latencies = [], eo_path_lengths = [], eo_valid = 0, eo_invalid = 0, eo_conflicts = 0,
        eo_samples = []\<rparr>"

record epoch_metrics =
  em_epoch :: nat
  em_generated_tx :: nat
  em_included_tx :: nat
  em_throughput :: real
  em_p50_latency :: real
  em_p95_latency :: real
  em_p99_latency :: real
  em_block_success_ratio :: real
  em_avg_path_length :: real
  em_p95_path_length :: real
  em_valid_path_count :: nat
  em_invalid_path_count :: nat
  em_conflicting_receipt_count :: nat
  em_active_score_epoch :: int
  em_latest_score_epoch :: int
  em_rewards :: epoch_reward_report
  em_organic :: organic_capture_report
  em_organic_reward_share :: real
  em_organic_contribution_share :: real
  em_stake_gini :: real
  em_stake_hhi :: real
  em_weight_gini :: real
  em_weight_hhi :: real
  em_adversary_stake_share :: real
  em_adversary_score_share :: real
  em_adversary_damped_mass :: real
  em_adversary_weight_share :: real
  em_score_dependent_bound :: real
  em_theoretical_bound :: real
  em_observed_proposer_share :: real
  em_bound_violation :: bool

record node_epoch_metrics =
  nm_epoch :: nat
  nm_validator_id :: string
  nm_relay_profile :: string
  nm_focal_relayer :: bool
  nm_adversarial :: bool
  nm_economic_stake :: real
  nm_balance :: real
  nm_raw_contribution :: real
  nm_saturated_contribution :: real
  nm_ema_score :: real
  nm_normalized_score :: real
  nm_bonus :: real
  nm_unnormalized_weight :: real
  nm_normalized_weight :: real
  nm_proposer_count :: nat
  nm_relay_reward :: real
  nm_proposer_reward :: real
  nm_fee_spent :: real
  nm_net_income :: real
  nm_forward_attempts :: nat
  nm_degree :: nat
  nm_betweenness :: real

record run_summary =
  rn_completed_epochs :: nat
  rn_generated_tx :: nat
  rn_included_tx :: nat
  rn_success :: nat
  rn_failed :: nat
  rn_adversary_fee_spent :: real
  rn_adversary_reward_income :: real
  rn_adversary_net_income :: real

text \<open>The counters the world state shares with the generator of transactions and with the nodes.\<close>

record shared_counters =
  sc_generated :: nat
  sc_fee_spent :: "(address, real) hash_map"
  sc_forward :: "(address, nat) hash_map"

definition proposer_share :: "address list \<Rightarrow> (address, nat) hash_map \<Rightarrow> real" where
  "proposer_share adversarial counts =
     (let all_slots = sum_list (hm_values counts) in
      if all_slots = 0 then 0
      else real (sum_list (map (hm_get_or 0 counts) adversarial)) / real all_slots)"

definition success_ratio :: "'s world \<Rightarrow> real" where
  "success_ratio w =
     (let good = ws_success w - ws_last_success w; bad = ws_failed w - ws_last_failed w in
      if good + bad = 0 then 0 else real good / real (good + bad))"

definition epoch_metrics_row ::
  "path_verifier \<Rightarrow> metrics_snapshot \<Rightarrow> 's world \<Rightarrow> nat \<Rightarrow> nat \<Rightarrow> block list \<Rightarrow> validator list
    \<Rightarrow> epoch_observations \<Rightarrow> epoch_metrics" where
  "epoch_metrics_row ver snap w epoch generated bs vs obs =
     (let included = sum_list (map (\<lambda>b. length (block_txs b)) bs);
          organic = organic_capture ver (ws_adversarial w) snap bs vs;
          stakes = map v_stake vs;
          weights = map (\<lambda>v. hm_get_or 0 (reported_weights snap vs) (v_address v)) vs
      in \<lparr>em_epoch = epoch, em_generated_tx = generated, em_included_tx = included,
          em_throughput = real included / max (real (ws_slot_per_epoch w) * real (ws_slot_duration w)) 1,
          em_p50_latency = percentile_f64 (eo_latencies obs) (1 / 2),
          em_p95_latency = percentile_f64 (eo_latencies obs) (95 / 100),
          em_p99_latency = percentile_f64 (eo_latencies obs) (99 / 100),
          em_block_success_ratio = success_ratio w,
          em_avg_path_length = (if eo_path_lengths obs = [] then 0
            else sum_list (eo_path_lengths obs) / real (length (eo_path_lengths obs))),
          em_p95_path_length = percentile_f64 (eo_path_lengths obs) (95 / 100),
          em_valid_path_count = eo_valid obs, em_invalid_path_count = eo_invalid obs,
          em_conflicting_receipt_count = eo_conflicts obs,
          em_active_score_epoch = (case ms_active_score_epoch snap of None \<Rightarrow> -1 | Some e \<Rightarrow> int e),
          em_latest_score_epoch = (case ms_latest_score_epoch snap of None \<Rightarrow> -1 | Some e \<Rightarrow> int e),
          em_rewards = estimate_epoch_rewards ver (ws_base_reward w) snap bs vs,
          em_organic = organic, em_organic_reward_share = adversary_relay_reward_share organic,
          em_organic_contribution_share = adversary_raw_contribution_share organic,
          em_stake_gini = calculate_gini stakes, em_stake_hhi = calculate_hhi stakes,
          em_weight_gini = calculate_gini weights, em_weight_hhi = calculate_hhi weights,
          em_adversary_stake_share = real_stake_share (ws_adversarial w) vs,
          em_adversary_score_share = share_for (ws_adversarial w) (ms_normalized_score snap),
          em_adversary_damped_mass = damped_score_mass (ws_adversarial w) snap,
          em_adversary_weight_share = share_for (ws_adversarial w) (reported_weights snap vs),
          em_score_dependent_bound = score_dependent_bound (ws_adversarial w) snap vs,
          em_theoretical_bound = theoretical_bound (ws_adversarial w) snap vs,
          em_observed_proposer_share = proposer_share (ws_adversarial w) (ws_proposer_counts w),
          em_bound_violation = bound_violation (ws_adversarial w) snap vs\<rparr>)"

definition node_metrics_row ::
  "shared_counters \<Rightarrow> metrics_snapshot \<Rightarrow> 's world \<Rightarrow> nat \<Rightarrow> validator list \<Rightarrow> (address, real) hash_map
    \<Rightarrow> epoch_reward_report \<Rightarrow> validator \<Rightarrow> node_epoch_metrics" where
  "node_metrics_row inp snap w epoch vs contributions rep v =
     (let a = v_address v; s_hat = hm_get_or 0 (normalized_stake vs) a; raw = hm_get_or 0 contributions a;
          proposer = hm_get_or 0 (er_proposer_by_address rep) a;
          relay = hm_get_or 0 (er_relay_by_address rep) a; fee = hm_get_or 0 (sc_fee_spent inp) a
      in \<lparr>nm_epoch = epoch,
          nm_validator_id = (case map_of (ws_nodes_index w) a of None \<Rightarrow> a | Some i \<Rightarrow> show_nat i),
          nm_relay_profile = hm_get_or ''normal'' (ws_relay_profiles w) a,
          nm_focal_relayer = (a \<in> ws_focal_relayers w), nm_adversarial = (a \<in> set (ws_adversarial w)),
          nm_economic_stake = v_stake v, nm_balance = hm_get_or 0 (ws_balances w) a,
          nm_raw_contribution = raw,
          nm_saturated_contribution = saturated_contribution raw s_hat (unwrap_or 1 (ms_saturation_k snap)),
          nm_ema_score = hm_get_or 0 (ms_score_history snap) a,
          nm_normalized_score = hm_get_or 0 (ms_normalized_score snap) a,
          nm_bonus = hm_get_or 0 (ms_bonuses snap) a,
          nm_unnormalized_weight = hm_get_or s_hat (ms_unnormalized_proposer_weights snap) a,
          nm_normalized_weight = hm_get_or 0 (reported_weights snap vs) a,
          nm_proposer_count = hm_get_or 0 (ws_proposer_counts w) a,
          nm_relay_reward = relay, nm_proposer_reward = proposer, nm_fee_spent = fee,
          nm_net_income = proposer + relay - fee,
          nm_forward_attempts = hm_get_or 0 (sc_forward inp) a - hm_get_or 0 (ws_last_forward w) a,
          nm_degree = hm_get_or 0 (ws_degrees w) a, nm_betweenness = hm_get_or 0 (ws_betweenness w) a\<rparr>)"

definition write_run_summary :: "shared_counters \<Rightarrow> 's world \<Rightarrow> nat \<Rightarrow> run_summary" where
  "write_run_summary inp w completed =
     (let spent = sum_list (map (hm_get_or 0 (sc_fee_spent inp)) (ws_adversarial w));
          income = sum_list (map (hm_get_or 0 (ws_total_income w)) (ws_adversarial w))
      in \<lparr>rn_completed_epochs = completed, rn_generated_tx = sc_generated inp,
          rn_included_tx = ws_total_included w, rn_success = ws_success w, rn_failed = ws_failed w,
          rn_adversary_fee_spent = spent, rn_adversary_reward_income = income,
          rn_adversary_net_income = income - spent\<rparr>)"

record epoch_output =
  ep_metrics :: epoch_metrics
  ep_nodes :: "node_epoch_metrics list"
  ep_samples :: "inclusion_sample list"
  ep_summary :: run_summary

definition collect_epoch_metrics ::
  "('g, 'x) world_env_scheme \<Rightarrow> path_verifier \<Rightarrow> 's engine \<Rightarrow> path_caches \<Rightarrow> shared_counters \<Rightarrow> 's world
    \<Rightarrow> nat \<Rightarrow> block list \<Rightarrow> validator list \<Rightarrow> ('s world \<times> epoch_output) run" where
  "collect_epoch_metrics C ver E K inp w epoch bs vs =
     (let snap = eng_metrics_snapshot E (ws_consensus w);
          epoch_blocks = filter (\<lambda>b. 0 < hd_index (blk_header b) \<and> hd_epoch (blk_header b) = epoch) bs
      in case observe_epoch C ver K w epoch_blocks of
           None \<Rightarrow> None
         | Some obs \<Rightarrow>
             (let row = epoch_metrics_row ver snap w epoch (sc_generated inp - ws_last_generated w)
                    epoch_blocks vs obs;
                  nodes = map (node_metrics_row inp snap w epoch vs
                    (world_raw_contribution ver snap epoch_blocks vs) (em_rewards row)) vs;
                  w' = w\<lparr>ws_last_generated := sc_generated inp,
                    ws_total_included := ws_total_included w + em_included_tx row,
                    ws_total_income := foldl (\<lambda>m (a, x). hm_add a x m) (ws_total_income w)
                      (total_by_address (em_rewards row)),
                    ws_last_forward := foldl (\<lambda>m v. hm_insert (v_address v)
                      (hm_get_or 0 (sc_forward inp) (v_address v)) m) (ws_last_forward w) vs,
                    ws_proposer_counts := [], ws_last_success := ws_success w, ws_last_failed := ws_failed w\<rparr>
              in Some (w', \<lparr>ep_metrics = row, ep_nodes = nodes, ep_samples = eo_samples obs,
                   ep_summary = write_run_summary inp w' (epoch + 1)\<rparr>)))"

section \<open>Epochs and slots\<close>

text \<open>The process ends when the last epoch is over.\<close>

datatype 'a control = Continue 'a | Exit epoch_output

definition epoch_availability :: "bool \<Rightarrow> 's world \<Rightarrow> nat \<Rightarrow> 's world" where
  "epoch_availability onset w epoch =
     (if scheduled_outage_active w epoch = onset then update_scheduled_availability w epoch else w)"

definition fresh_slot :: "('x) crypto_scheme \<Rightarrow> nat \<Rightarrow> 's world \<Rightarrow> nat \<Rightarrow> nat \<Rightarrow> nat \<Rightarrow> slot_manager" where
  "fresh_slot C now w epoch slot last_index =
     \<lparr>sm_randao_seeds = [], sm_slot_duration = ws_slot_duration w, sm_current_epoch = epoch,
      sm_current_slot = slot,
      sm_next_seed = derive_election_seed C (ws_election_seed w) epoch slot
        (if ws_common_randomness w then 0 else last_index + 1),
      sm_start_timestamp = now\<rparr>"

definition world_next_epoch ::
  "('g, 'x) world_env_scheme \<Rightarrow> path_verifier \<Rightarrow> 's engine \<Rightarrow> path_caches \<Rightarrow> shared_counters \<Rightarrow> nat \<Rightarrow> 's world
    \<Rightarrow> ('s world \<times> epoch_output) control run" where
  "world_next_epoch C ver E K inp now w =
     (let epoch = sm_current_epoch (ws_slot w); w1 = epoch_availability True w (epoch + 1) in
      case (get_last_epoch_block (ws_blockchain w1), get_last_index (ws_blockchain w1)) of
        (Some bs, Some last_index) \<Rightarrow>
          (let vs = ws_validators w1;
               w2 = w1\<lparr>ws_consensus := eng_on_epoch_end E (ws_consensus w1) bs vs\<rparr>
           in case collect_epoch_metrics C ver E K inp w2 epoch bs vs of
                None \<Rightarrow> None
              | Some (w3, out) \<Rightarrow>
                  (let w4 = epoch_availability False w3 (epoch + 1);
                       w5 = w4\<lparr>ws_slot := fresh_slot C now w4 (epoch + 1) 0 last_index\<rparr>
                   in Some (if ws_max_epochs w5 \<le> epoch + 1 then Exit out else Continue (w5, out))))
      | _ \<Rightarrow> None)"

record slot_output =
  so_outbox :: outbox
  so_duty :: "proposer_duty option"
  so_metrics :: "slot_metrics option"
  so_epoch :: "epoch_output option"

definition advance_slot ::
  "('g, 'x) world_env_scheme \<Rightarrow> path_verifier \<Rightarrow> 's engine \<Rightarrow> path_caches \<Rightarrow> shared_counters \<Rightarrow> nat \<Rightarrow> 's world
    \<Rightarrow> nat \<Rightarrow> ('s world \<times> epoch_output option) control run" where
  "advance_slot C ver E K inp now w last_index =
     (let sm = ws_slot w in
      if ws_slot_per_epoch w = 0 then None
      else if ws_slot_per_epoch w - 1 \<le> sm_current_slot sm then
        map_option (\<lambda>r. case r of Exit out \<Rightarrow> Exit out | Continue (w', out) \<Rightarrow> Continue (w', Some out))
          (world_next_epoch C ver E K inp now w)
      else Some (Continue (w\<lparr>ws_slot := fresh_slot C now w (sm_current_epoch sm) (sm_current_slot sm + 1)
                  last_index\<rparr>, None)))"

definition slot_announcements :: "'s world \<Rightarrow> validator list \<Rightarrow> outbox" where
  "slot_announcements w vs =
     map (\<lambda>owner. (ToNode owner, UpdateSlot (ws_slot w))) (hm_values (ws_nodes_sender w))
     @ concat (map (\<lambda>v. case map_of (ws_nodes_sender w) (v_address v) of
         None \<Rightarrow> [] | Some owner \<Rightarrow> [(ToNode owner, SendRandaoSeed)]) vs)"

text \<open>The proposer's turn: outage, failure to build, failure to apply, or a canonical block.\<close>

definition propose ::
  "('x) block_env_scheme \<Rightarrow> bls_registry \<Rightarrow> 's engine \<Rightarrow> nat \<Rightarrow> mempools \<Rightarrow> 's world \<Rightarrow> validator \<Rightarrow> bool
    \<Rightarrow> ('s world \<times> mempools \<times> outbox \<times> bool \<times> string) run" where
  "propose C reg E now pools w miner online =
     (let failed = w\<lparr>ws_failed := ws_failed w + 1\<rparr> in
      if \<not> online then Some (failed, pools, [], False, ''scheduled_outage'')
      else case build_canonical_block C reg now pools w miner (sm_current_epoch (ws_slot w))
                  (sm_current_slot (ws_slot w)) of
        None \<Rightarrow> None
      | Some (Inl e, pools') \<Rightarrow> Some (failed, pools', [], False, ''build_failed'')
      | Some (Inr b, pools') \<Rightarrow>
          (case apply_canonical_block C E w b of
             None \<Rightarrow> None
           | Some (Inl e) \<Rightarrow> Some (failed, pools', [], False, ''apply_failed'')
           | Some (Inr (w', out)) \<Rightarrow>
               Some (w', pools', out @ map (\<lambda>owner. (ToNode owner, SendBlock b (v_address miner)))
                   (hm_values (ws_nodes_sender w')), True, '''')))"

definition duty_weight :: "'s engine \<Rightarrow> 's world \<Rightarrow> validator list \<Rightarrow> validator \<Rightarrow> real" where
  "duty_weight E w vs miner =
     hm_get_or 0 (reported_weights (eng_metrics_snapshot E (ws_consensus w)) vs) (v_address miner)"

definition count_proposer :: "'s world \<Rightarrow> validator \<Rightarrow> 's world" where
  "count_proposer w miner =
     w\<lparr>ws_proposer_counts := hm_add (v_address miner) 1 (ws_proposer_counts w)\<rparr>"

definition proposer_turn ::
  "('x) block_env_scheme \<Rightarrow> bls_registry \<Rightarrow> 's engine \<Rightarrow> nat \<Rightarrow> mempools \<Rightarrow> 's world \<Rightarrow> validator list
    \<Rightarrow> validator \<Rightarrow> ('s world \<times> mempools \<times> outbox \<times> proposer_duty \<times> slot_metrics option) run" where
  "proposer_turn C reg E now pools w vs miner =
     (let w1 = count_proposer w miner; online = hm_get_or True (ws_availability w1) (v_address miner)
      in case propose C reg E now pools w1 miner online of
           None \<Rightarrow> None
         | Some (w2, pools', out, produced, reason) \<Rightarrow>
             (let duty = proposer_duty_row w2 (ws_slot w1) miner (duty_weight E w2 vs miner) online
                    produced reason
              in if produced
                 then map_option (\<lambda>sl. (w2, pools', out, duty, Some sl)) (collect_slot_metrics E w2 miner)
                 else Some (w2, pools', out, duty, None)))"

definition enter_slot :: "'s engine \<Rightarrow> validator list \<Rightarrow> nat \<Rightarrow> 's world \<Rightarrow> 's world" where
  "enter_slot E vs last_index w =
     update_scheduled_availability
       (w\<lparr>ws_consensus := eng_next_slot E (ws_consensus w) vs last_index,
          ws_logical_slot := ws_logical_slot w + 1\<rparr>)
       (sm_current_epoch (ws_slot w))"

definition hold_slot ::
  "('x) block_env_scheme \<Rightarrow> bls_registry \<Rightarrow> 's engine \<Rightarrow> nat \<Rightarrow> mempools \<Rightarrow> 's world \<Rightarrow> validator list
    \<Rightarrow> epoch_output option \<Rightarrow> ('s world \<times> mempools \<times> slot_output) run" where
  "hold_slot C reg E now pools w vs epoch_out =
     (let announce = slot_announcements w vs in
      case eng_select_proposer E (ws_consensus w) vs (sm_next_seed (ws_slot w)) of
        None \<Rightarrow> None
      | Some (st, Inl e) \<Rightarrow>
          Some (w\<lparr>ws_consensus := st\<rparr>, pools, \<lparr>so_outbox = announce, so_duty = None,
            so_metrics = None, so_epoch = epoch_out\<rparr>)
      | Some (st, Inr miner) \<Rightarrow>
          map_option (\<lambda>(w', pools', out, duty, sl).
              (w', pools', \<lparr>so_outbox = announce @ out, so_duty = Some duty,
                so_metrics = sl, so_epoch = epoch_out\<rparr>))
            (proposer_turn C reg E now pools (w\<lparr>ws_consensus := st\<rparr>) vs miner))"

definition world_next_slot ::
  "('g, 'x) world_env_scheme \<Rightarrow> bls_registry \<Rightarrow> 's engine \<Rightarrow> path_caches \<Rightarrow> shared_counters \<Rightarrow> nat \<Rightarrow> mempools
    \<Rightarrow> 's world \<Rightarrow> ('s world \<times> mempools \<times> slot_output) control run" where
  "world_next_slot C reg E K inp now pools w =
     (case get_last_index (ws_blockchain w) of
        None \<Rightarrow> None
      | Some last_index \<Rightarrow>
          (let vs = ws_validators w in
           case advance_slot C (evidence_verifier C reg) E K inp now w last_index of
             None \<Rightarrow> None
           | Some (Exit out) \<Rightarrow> Some (Exit out)
           | Some (Continue (w1, epoch_out)) \<Rightarrow>
               map_option Continue (hold_slot C reg E now pools (enter_slot E vs last_index w1) vs epoch_out)))"

section \<open>Messages to the world state\<close>

definition become_validator :: "'s world \<Rightarrow> validator \<Rightarrow> 's world" where
  "become_validator w v =
     w\<lparr>ws_validators := filter (\<lambda>u. v_address u \<noteq> v_address v) (ws_validators w) @ [v],
       ws_balances := (if map_of (ws_balances w) (v_address v) = None
         then hm_insert (v_address v) (v_stake v) (ws_balances w) else ws_balances w)\<rparr>"

definition world_send_block ::
  "('x) block_env_scheme \<Rightarrow> 's engine \<Rightarrow> 's world \<Rightarrow> block \<Rightarrow> ('s world \<times> outbox) run" where
  "world_send_block C E w b =
     (case add_block C (ws_blockchain w) b of
        None \<Rightarrow> None
      | Some (Inl e) \<Rightarrow>
          Some (if e = DuplicateBlocksReceived \<or> e = IndexTooSmall then w
                else w\<lparr>ws_failed := ws_failed w + 1\<rparr>, [])
      | Some (Inr bc) \<Rightarrow> Some (settle_block E (w\<lparr>ws_blockchain := bc\<rparr>) b))"

definition world_response_block_sync ::
  "('x) block_env_scheme \<Rightarrow> 's world \<Rightarrow> block list \<Rightarrow> 's world run" where
  "world_response_block_sync C w bs =
     (if bs = [] then Some w
      else case get_last_index (ws_blockchain w) of
        None \<Rightarrow> None
      | Some current_index \<Rightarrow>
          if current_index + 1 < hd_index (blk_header (hd bs)) then
            Some (w\<lparr>ws_blockchain := snapshot_chain (ws_blockchain w) bs\<rparr>)
          else if hd_index (blk_header (last bs)) \<le> current_index then Some w
          else (case resolve_fork C (ws_blockchain w) current_index bs of
              None \<Rightarrow> None
            | Some (bc, _) \<Rightarrow> if blocks bc = [] then None else Some (w\<lparr>ws_blockchain := bc\<rparr>)))"

definition world_handle ::
  "('x) block_env_scheme \<Rightarrow> 's engine \<Rightarrow> 's world \<Rightarrow> message \<Rightarrow> ('s world \<times> outbox) run" where
  "world_handle C E w m =
     (case m of
        ReceiveRandaoSeed s \<Rightarrow>
          Some (w\<lparr>ws_slot := (ws_slot w)\<lparr>sm_randao_seeds := sm_randao_seeds (ws_slot w) @ [s]\<rparr>\<rparr>, [])
      | ReceiveBecomeValidator v \<Rightarrow> Some (become_validator w v, [])
      | UpdateAccountBalance a x \<Rightarrow> Some (w\<lparr>ws_balances := hm_insert a x (ws_balances w)\<rparr>, [])
      | SendBlock b from \<Rightarrow> world_send_block C E w b
      | RequestBlockSync i from \<Rightarrow>
          Some (w, case map_of (ws_nodes_sender w) from of
            None \<Rightarrow> []
          | Some owner \<Rightarrow> [(ToNode owner, ResponseBlockSync (blocks (ws_blockchain w)) ''world_state'')])
      | BlockProductionFailed i slot reason \<Rightarrow> Some (w\<lparr>ws_failed := ws_failed w + 1\<rparr>, [])
      | ResponseBlockSync bs from \<Rightarrow> map_option (\<lambda>w'. (w', [])) (world_response_block_sync C w bs)
      | _ \<Rightarrow> Some (w, []))"

end
