(* ===== verification/Node_Network.thy ===== *)
theory Node_Network
  imports Node_State
begin

text \<open>
  What the nodes of \<^verbatim>\<open>src/src/network/node.rs\<close> achieve together.  The nodes and the messages in
  flight form a transition system: any message may be delivered, lost or injected in any
  order, except that hop-by-hop relay messages come only from nodes.  The main results are
  that blocks pack the transactions with the highest fees, that every path in a mempool
  aggregates into evidence that verifies for its holder, and what an unsolicited
  synchronisation message can do.
\<close>

section \<open>Packing a block\<close>

lemma keys_remove_hashes: "map_of (remove_hashes hs m) k = (if k \<in> set hs then None else map_of m k)"
  unfolding remove_hashes_def by (induction hs arbitrary: m) (auto simp: table_simps)

lemma hm_ok_remove_hashes: "hm_ok m \<Longrightarrow> hm_ok (remove_hashes hs m)"
  unfolding remove_hashes_def by (induction hs arbitrary: m) (auto simp: hm.ok_rem)

lemma set_remove_hashes: "set (remove_hashes hs m) = {p \<in> set m. fst p \<notin> set hs}"
  unfolding remove_hashes_def by (induction hs arbitrary: m) (auto simp: hm_remove_def)

lemma set_paths_to_pack: "set (paths_to_pack bc cache n) \<subseteq> set (eligible_paths bc cache)"
  unfolding paths_to_pack_def using set_take_subset [of n] by fastforce

text \<open>The first elements of a list sorted by descending value have the largest sum.\<close>

lemma mset_le_drop: "A \<subseteq># add_mset x B \<Longrightarrow> x \<notin># A \<Longrightarrow> A \<subseteq># B"
proof (rule mset_subset_eqI)
  fix a
  assume "A \<subseteq># add_mset x B" and "x \<notin># A"
  then show "count A a \<le> count B a"
    using mset_subset_eq_count [of A "add_mset x B" a]
    by (cases "a = x") (auto simp: not_in_iff)
qed

lemma sum_take_max:
  fixes f :: "'a \<Rightarrow> real"
  assumes "sorted_wrt (\<lambda>x y. f y \<le> f x) xs" and "\<forall>x \<in> set xs. 0 \<le> f x"
    and "mset ys \<subseteq># mset xs" and "length ys \<le> n"
  shows "sum_list (map f ys) \<le> sum_list (map f (take n xs))"
  using assms
proof (induction xs arbitrary: ys n)
  case (Cons x xs)
  have tail: "sorted_wrt (\<lambda>x y. f y \<le> f x) xs" "\<forall>x \<in> set xs. 0 \<le> f x" "0 \<le> f x"
    using Cons.prems by auto
  note IH = Cons.IH [OF tail(1,2)]
  show ?case
  proof (cases n)
    case (Suc m)
    consider (hd) "x \<in> set ys" | (small) "x \<notin> set ys" "length ys \<le> m"
      | (big) y zs where "x \<notin> set ys" "ys = y # zs" "length zs \<le> m"
      using Cons.prems(4) Suc by (cases ys) auto
    then show ?thesis
    proof cases
      case hd
      then have ys: "mset ys = add_mset x (mset (remove1 x ys))" by simp
      then have "mset (remove1 x ys) \<subseteq># mset xs"
        using Cons.prems(3) by (metis mset.simps(2) mset_subset_eq_add_mset_cancel)
      moreover have "length (remove1 x ys) \<le> m"
        using hd Cons.prems(4) Suc by (simp add: length_remove1)
      ultimately have "sum_list (map f (remove1 x ys)) \<le> sum_list (map f (take m xs))"
        by (rule IH)
      moreover have "sum_list (map f ys) = f x + sum_list (map f (remove1 x ys))"
        using hd by (rule sum_list_map_remove1)
      ultimately show ?thesis using Suc by simp
    next
      case small
      then have "mset ys \<subseteq># mset xs" using Cons.prems(3) by (auto intro: mset_le_drop)
      from IH [OF this small(2)] tail(3) Suc show ?thesis by simp
    next
      case big
      then have sub: "mset ys \<subseteq># mset xs" using Cons.prems(3) by (auto intro: mset_le_drop)
      then have "y \<in> set xs" using big(2) by (simp add: insert_subset_eq_iff)
      then have "f y \<le> f x" using Cons.prems(1) by simp
      moreover have "mset zs \<subseteq># mset xs"
        using sub big(2) by (metis mset.simps(2) mset_subset_eq_insertD subset_mset.less_imp_le)
      then have "sum_list (map f zs) \<le> sum_list (map f (take m xs))" using big(3) by (rule IH)
      ultimately show ?thesis using big(2) Suc by simp
    qed
  qed (use Cons.prems in simp)
qed simp

lemma sorted_pack_order:
  "sorted_wrt (\<lambda>p q. tx_fee (tp_transaction q) \<le> tx_fee (tp_transaction p)) (sort_key pack_order ps)"
proof -
  have "sorted_wrt (\<lambda>p q. pack_order p \<le> pack_order q) (sort_key pack_order ps)"
    using sorted_sort_key [of pack_order ps] by (simp add: sorted_wrt_map)
  then show ?thesis
    by (rule sorted_wrt_mono_rel [rotated]) (auto simp: pack_order_def less_eq_prod_def)
qed

lemma packed_fees_maximal:
  assumes "\<forall>p \<in> set (eligible_paths bc cache). 0 \<le> tx_fee (tp_transaction p)"
    and "mset ps \<subseteq># mset (eligible_paths bc cache)" and "length ps \<le> n"
  shows "sum_list (map (\<lambda>p. tx_fee (tp_transaction p)) ps)
    \<le> sum_list (map (\<lambda>p. tx_fee (tp_transaction p)) (paths_to_pack bc cache n))"
  unfolding paths_to_pack_def
  by (rule sum_take_max [OF sorted_pack_order]) (use assms in simp_all)

section \<open>What mempools and messages in flight satisfy\<close>

text \<open>
  A cached path is good evidence held by its tail; a relay message in flight is good
  evidence to which a registered wallet appended a hop for the destination.
\<close>

definition cached_ok ::
  "('x) tx_env_scheme \<Rightarrow> bls_registry \<Rightarrow> address \<Rightarrow> transaction_paths \<Rightarrow> bool" where
  "cached_ok C reg a p \<longleftrightarrow>
     path_good C reg p \<and> current_tail p = a \<and> tx_verify C (tp_transaction p) = Some True"

definition in_flight_ok ::
  "('x) tx_env_scheme \<Rightarrow> bls_registry \<Rightarrow> address \<Rightarrow> transaction_paths \<Rightarrow> bool" where
  "in_flight_ok C reg a tp \<longleftrightarrow>
     (\<exists>u tp0. honest_wallet C reg u \<and> path_good C reg tp0 \<and> tx_verify C (tp_transaction tp0) = Some True
        \<and> append_outgoing_hop C tp0 a u = (True, tp))"

definition node_ok :: "('x) tx_env_scheme \<Rightarrow> bls_registry \<Rightarrow> 'g node \<Rightarrow> bool" where
  "node_ok C reg nd \<longleftrightarrow>
     honest_wallet C reg (nd_wallet nd) \<and> (\<forall>s \<in> set (nd_sybils nd). honest_wallet C reg (sy_wallet s))
     \<and> hm_ok (nd_cache nd)
     \<and> (\<forall>(h, p) \<in> set (nd_cache nd). h = tx_hash (tp_transaction p) \<and> cached_ok C reg (get_address nd) p)"

definition message_ok :: "('x) tx_env_scheme \<Rightarrow> bls_registry \<Rightarrow> address \<Rightarrow> message \<Rightarrow> bool" where
  "message_ok C reg a m \<longleftrightarrow>
     (case m of SendTransactionPaths tp from \<Rightarrow> in_flight_ok C reg a tp | _ \<Rightarrow> True)"

definition outbox_ok :: "('x) tx_env_scheme \<Rightarrow> bls_registry \<Rightarrow> outbox \<Rightarrow> bool" where
  "outbox_ok C reg out \<longleftrightarrow>
     (\<forall>(d, m) \<in> set out. case d of ToNode a \<Rightarrow> message_ok C reg a m | ToWorld \<Rightarrow> True)"

lemma outbox_ok_simps [simp]:
  "outbox_ok C reg []"
  "outbox_ok C reg (xs @ ys) \<longleftrightarrow> outbox_ok C reg xs \<and> outbox_ok C reg ys"
  "outbox_ok C reg ((ToWorld, m) # out) \<longleftrightarrow> outbox_ok C reg out"
  "outbox_ok C reg ((ToNode a, m) # out) \<longleftrightarrow> message_ok C reg a m \<and> outbox_ok C reg out"
  by (auto simp: outbox_ok_def)

lemma message_ok_simps [simp]:
  "message_ok C reg a (SendTransactionPaths tp from) \<longleftrightarrow> in_flight_ok C reg a tp"
  "message_ok C reg a (SendBlock b from)"
  "message_ok C reg a (RequestBlockSync i from)"
  "message_ok C reg a (ResponseBlockSync bs from)"
  by (auto simp: message_ok_def)

lemma outbox_ok_map:
  "(\<And>n. n \<in> set ns \<Longrightarrow> message_ok C reg (nb_address n) m)
    \<Longrightarrow> outbox_ok C reg (map (\<lambda>n. (ToNode (nb_address n), m)) ns)"
  by (induction ns) auto

lemma node_ok_shrink:
  assumes "node_ok C reg nd" and "nd_wallet nd' = nd_wallet nd" and "nd_sybils nd' = nd_sybils nd"
    and "nd_cache nd' = remove_hashes hs (nd_cache nd)"
  shows "node_ok C reg nd'"
  using assms by (auto simp: node_ok_def get_address_def hm_ok_remove_hashes set_remove_hashes)

lemma node_ok_same:
  assumes "node_ok C reg nd" and "nd_wallet nd' = nd_wallet nd" and "nd_sybils nd' = nd_sybils nd"
    and "nd_cache nd' = nd_cache nd"
  shows "node_ok C reg nd'"
  using node_ok_shrink [OF assms(1-3), of "[]"] assms(4) by (simp add: remove_hashes_def)

lemma node_ok_insert:
  assumes "node_ok C reg nd" and "cached_ok C reg (get_address nd) p"
  shows "node_ok C reg (nd\<lparr>nd_cache := hm_insert (tx_hash (tp_transaction p)) p (nd_cache nd)\<rparr>)"
  using assms by (auto simp: node_ok_def get_address_def hm_ok_insert dest: set_hm_insert)

lemma current_tail_last: "current_tail tp = last (node_sequence tp)"
  by (simp add: current_tail_def node_sequence_def last_map)

section \<open>Handlers keep them\<close>

lemma in_flight_complete:
  assumes "hex_laws C" "bls_sign_laws C" and "honest_wallet C reg w"
    and "in_flight_ok C reg (w_address w) tp"
    and "complete_pending_hop C reg K tp w = Some (True, tp', K')"
  shows "cached_ok C reg (w_address w) tp'" "tx_hash (tp_transaction tp') = tx_hash (tp_transaction tp)"
proof -
  from assms(4) obtain u tp0 where u: "honest_wallet C reg u" "path_good C reg tp0"
    "tx_verify C (tp_transaction tp0) = Some True"
    "append_outgoing_hop C tp0 (w_address w) u = (True, tp)"
    by (auto simp: in_flight_ok_def)
  note done_ok = completed_hop_good [OF assms(1,2) u(2,1) assms(3) u(4) assms(5)]
  show "cached_ok C reg (w_address w) tp'"
    using done_ok u(3) by (simp add: cached_ok_def current_tail_last)
  show "tx_hash (tp_transaction tp') = tx_hash (tp_transaction tp)"
    using done_ok(2) append_outgoing_hop_success(4) [OF u(4)] by simp
qed

lemma cached_append:
  assumes "cached_ok C reg (w_address w) p" and "honest_wallet C reg w"
    and "append_outgoing_hop C p a w = (True, tp')"
  shows "in_flight_ok C reg a tp'"
  using assms by (auto simp: in_flight_ok_def cached_ok_def)

lemma cached_send_paths:
  assumes "cached_ok C reg (w_address w) p \<or> has_pending_hop p" and "honest_wallet C reg w"
  shows "outbox_ok C reg (send_paths C p w self ns)"
  unfolding send_paths_def
proof (induction ns)
  case (Cons n ns)
  show ?case
  proof (cases "append_outgoing_hop C p (nb_address n) w")
    case (Pair b tp')
    show ?thesis
    proof (cases b)
      case True
      with Pair have app: "append_outgoing_hop C p (nb_address n) w = (True, tp')" by simp
      with assms(1) have "cached_ok C reg (w_address w) p"
        using append_outgoing_hop_success(1) by blast
      from cached_append [OF this assms(2) app] Cons True Pair show ?thesis by simp
    qed (use Cons Pair in simp)
  qed
qed simp

lemma cached_relay_paths:
  assumes "cached_ok C reg (w_address w) p" and "honest_wallet C reg w"
    and "relay_paths C prof p w from online i ns g k = Some (g', k', out)"
  shows "outbox_ok C reg out"
  using assms(3)
proof (induction ns arbitrary: i g k g' k' out)
  case (Cons n ns)
  note app = cached_append [OF assms(1,2), of "nb_address n"]
  from Cons.prems show ?case
    by (auto split: if_splits option.splits bool.splits prod.splits) (metis Cons.IH app)+
qed simp

text \<open>The invented hops of a Sybil node are good as well, or end in a hop nobody completes.\<close>

lemma forge_hops_ok:
  assumes "hex_laws C" "bls_sign_laws C" and "\<forall>s \<in> set ss. honest_wallet C reg (sy_wallet s)"
    and "cached_ok C reg (w_address w) p \<or> has_pending_hop p" and "honest_wallet C reg w"
    and "forge_hops C reg K p w ss = Some (p', w', K')"
  shows "(cached_ok C reg (w_address w') p' \<or> has_pending_hop p') \<and> honest_wallet C reg w'"
  using assms(3-)
proof (induction ss arbitrary: p w K)
  case (Cons s ss)
  obtain b p1 where app: "append_outgoing_hop C p (w_address (sy_wallet s)) w = (b, p1)"
    by fastforce
  show ?case
  proof (cases b)
    case False
    with app have a: "append_outgoing_hop C p (w_address (sy_wallet s)) w = (False, p1)" by simp
    with append_outgoing_hop_failure [OF a] Cons show ?thesis by simp
  next
    case True
    with app have a: "append_outgoing_hop C p (w_address (sy_wallet s)) w = (True, p1)" by simp
    with Cons.prems(2) have ok: "cached_ok C reg (w_address w) p"
      using append_outgoing_hop_success(1) by blast
    have s: "honest_wallet C reg (sy_wallet s)" using Cons.prems(1) by simp
    from Cons.prems(4) a obtain d p2 K2 where comp:
      "complete_pending_hop C reg K p1 (sy_wallet s) = Some (d, p2, K2)"
      and rest: "forge_hops C reg K2 p2 (if d then sy_wallet s else w) ss = Some (p', w', K')"
      by (auto split: option.splits)
    show ?thesis
    proof (cases d)
      case True
      with comp have "complete_pending_hop C reg K p1 (sy_wallet s) = Some (True, p2, K2)" by simp
      from in_flight_complete(1) [OF assms(1,2) s cached_append [OF ok Cons.prems(3) a] this]
      have "cached_ok C reg (w_address (sy_wallet s)) p2" .
      with Cons.IH [of "sy_wallet s" p2 K2] Cons.prems(1) s rest True show ?thesis by simp
    next
      case False
      with comp have "p2 = p1"
        by (auto simp: complete_pending_hop_def Let_def split: if_splits option.splits bool.splits)
      moreover have "has_pending_hop p1"
        using append_outgoing_hop_success(4) [OF a] by (simp add: has_pending_hop_def)
      ultimately show ?thesis
        using Cons.IH [of w p2 K2] Cons.prems(1,3) rest False by simp
    qed
  qed
qed simp

lemma relay_onward_ok:
  assumes "node_ok C reg nd" and "cached_ok C reg (get_address nd) p"
    and "relay_onward C nd p from online g = Some (nd', out)"
  shows "node_ok C reg nd' \<and> nd_wallet nd' = nd_wallet nd \<and> outbox_ok C reg out"
proof -
  from assms(3) obtain g' k where r: "nd' = nd\<lparr>nd_rng := g', nd_forward_attempts := k\<rparr>"
    "relay_paths C (nd_relay_profile nd) p (nd_wallet nd) from online 0 (nd_neighbors nd) g
       (nd_forward_attempts nd) = Some (g', k, out)"
    by (auto simp: relay_onward_def)
  have "honest_wallet C reg (nd_wallet nd)" using assms(1) by (simp add: node_ok_def)
  from cached_relay_paths [OF assms(2) [unfolded get_address_def] this r(2)]
  have "outbox_ok C reg out" .
  with node_ok_same [OF assms(1), of nd'] r(1) show ?thesis by simp
qed

lemma forward_cached_ok:
  assumes "hex_laws C" "bls_sign_laws C" and ok: "node_ok C reg nd"
    and p: "cached_ok C reg (get_address nd) p"
    and run: "forward_cached C reg online K nd p from = Some (K', nd', out)"
  shows "node_ok C reg nd' \<and> nd_wallet nd' = nd_wallet nd \<and> outbox_ok C reg out"
proof -
  have w: "honest_wallet C reg (nd_wallet nd)" and ss: "\<forall>s \<in> set (nd_sybils nd). honest_wallet C reg (sy_wallet s)"
    using ok by (simp_all add: node_ok_def)
  show ?thesis
  proof (cases "nd_type nd")
    case Selfish
    with run obtain b g where b: "gen_bool C (nd_rng nd) (1 / 2) = Some (b, g)"
      by (auto simp: forward_cached_def split: option.splits)
    show ?thesis
    proof (cases b)
      case True
      with run Selfish b have "nd' = nd\<lparr>nd_rng := g\<rparr>" "out = []" by (simp_all add: forward_cached_def)
      with node_ok_same [OF ok, of nd'] show ?thesis by simp
    next
      case False
      with run Selfish b have "relay_onward C nd p from online g = Some (nd', out)"
        by (auto simp: forward_cached_def)
      from relay_onward_ok [OF ok p this] show ?thesis .
    qed
  next
    case Sybil
    with run obtain fake u K2 where forge:
      "forge_hops C reg K p (nd_wallet nd) (nd_sybils nd) = Some (fake, u, K2)" "nd' = nd"
      "out = send_paths C fake u (get_address nd) (filter (\<lambda>n. from \<noteq> nb_address n) (nd_neighbors nd))"
      by (auto simp: forward_cached_def split: option.splits)
    from forge_hops_ok [OF assms(1,2) ss _ w forge(1)] p
    have "(cached_ok C reg (w_address u) fake \<or> has_pending_hop fake) \<and> honest_wallet C reg u"
      by (simp add: get_address_def)
    then have "outbox_ok C reg out" unfolding forge(3) by (intro cached_send_paths) simp_all
    with forge(2) ok show ?thesis by simp
  qed (use run relay_onward_ok [OF ok p] in \<open>auto simp: forward_cached_def\<close>)
qed

lemma on_send_transaction_paths_ok:
  assumes "hex_laws C" "bls_sign_laws C" and "node_ok C reg nd"
    and "in_flight_ok C reg (get_address nd) tp"
    and "on_send_transaction_paths C reg online K nd tp from = Some (K', nd', out)"
  shows "node_ok C reg nd' \<and> nd_wallet nd' = nd_wallet nd \<and> outbox_ok C reg out"
proof -
  have w: "honest_wallet C reg (nd_wallet nd)" using assms(3) by (simp add: node_ok_def)
  consider (same) "nd' = nd" "out = []"
    | (kept) tp' K1 where "complete_pending_hop C reg K tp (nd_wallet nd) = Some (True, tp', K1)"
      "forward_cached C reg online K1
         (nd\<lparr>nd_cache := hm_insert (tx_hash (tp_transaction tp')) tp' (nd_cache nd)\<rparr>) tp' from
       = Some (K', nd', out)"
    using assms(5)
    by (auto simp: on_send_transaction_paths_def Let_def split: if_splits option.splits bool.splits)
  then show ?thesis
  proof cases
    case kept
    from in_flight_complete(1) [OF assms(1,2) w assms(4) [unfolded get_address_def] kept(1)]
    have p: "cached_ok C reg (get_address nd) tp'" by (simp add: get_address_def)
    from forward_cached_ok [OF assms(1,2) node_ok_insert [OF assms(3) p] _ kept(2)] p show ?thesis
      by (simp add: get_address_def)
  qed (use assms(3) in simp)
qed

lemma announce_cached_ok:
  assumes "hex_laws C" "bls_sign_laws C" and ok: "node_ok C reg nd"
    and p: "cached_ok C reg (get_address nd) p" and run: "announce_cached C reg K nd p = Some (K', out)"
  shows "outbox_ok C reg out"
proof -
  have w: "honest_wallet C reg (nd_wallet nd)" and ss: "\<forall>s \<in> set (nd_sybils nd). honest_wallet C reg (sy_wallet s)"
    using ok by (simp_all add: node_ok_def)
  have p': "cached_ok C reg (w_address (nd_wallet nd)) p" using p by (simp add: get_address_def)
  consider (forge) fake u K2 where "forge_hops C reg K p (nd_wallet nd) (nd_sybils nd) = Some (fake, u, K2)"
      "out = send_paths C fake u (get_address nd) (nd_neighbors nd)"
    | (plain) "out = send_paths C p (nd_wallet nd) (get_address nd) (nd_neighbors nd)"
    using run unfolding announce_cached_def by (auto split: node_type.splits)
  then show ?thesis
  proof cases
    case forge
    from forge_hops_ok [OF assms(1,2) ss _ w forge(1)] p'
    have "(cached_ok C reg (w_address u) fake \<or> has_pending_hop fake) \<and> honest_wallet C reg u" by simp
    then show ?thesis unfolding forge(2) by (intro cached_send_paths) simp_all
  next
    case plain
    show ?thesis unfolding plain using p' w by (intro cached_send_paths) simp_all
  qed
qed

lemma node_transaction_ok:
  assumes "hex_laws C" "ecdsa_laws C" and "node_ok C reg nd"
  shows "cached_ok C reg (get_address nd) (new_with_epoch (node_transaction C now nd to) epoch)"
    (is "cached_ok C reg _ ?p")
proof -
  have "wallet_wf C (nd_wallet nd)" using assms(3) by (simp add: node_ok_def honest_wallet_def)
  then have "tx_verify C (node_transaction C now nd to) = Some True"
    unfolding node_transaction_def tx_verify_data with_fee_def
    by (rule tx_verify_with_costs [OF assms(1,2)])
  then show ?thesis
    by (simp add: cached_ok_def new_with_epoch_def new_with_epoch_and_chain_id_def path_good_def
        node_sequence_def current_tail_def get_address_def node_transaction_def with_fee_def)
qed

lemma on_generate_transaction_paths_ok:
  assumes "hex_laws C" "ecdsa_laws C" "bls_sign_laws C" and "node_ok C reg nd"
    and "on_generate_transaction_paths C reg now K nd to = Some (K', nd', out)"
  shows "node_ok C reg nd' \<and> nd_wallet nd' = nd_wallet nd \<and> outbox_ok C reg out"
proof -
  define nd1 where "nd1 = snd (deduct_balance nd (2 * nd_transaction_fee nd))"
  let ?t = "node_transaction C now nd1 to"
  let ?p = "new_with_epoch ?t (nd_epoch nd1)"
  let ?nd2 = "nd1\<lparr>nd_cache := hm_insert (tx_hash (tp_transaction ?p)) ?p (nd_cache nd1)\<rparr>"
  have same: "nd_wallet nd1 = nd_wallet nd" "nd_sybils nd1 = nd_sybils nd" "nd_cache nd1 = nd_cache nd"
    by (simp_all add: nd1_def deduct_balance_def)
  have nd1: "node_ok C reg nd1" by (rule node_ok_same [OF assms(4) same])
  have p: "cached_ok C reg (get_address nd1) ?p" by (rule node_transaction_ok [OF assms(1,2) nd1])
  have nd2: "node_ok C reg ?nd2" by (rule node_ok_insert [OF nd1 p])
  have t: "tp_transaction ?p = ?t"
    by (simp add: new_with_epoch_def new_with_epoch_and_chain_id_def)
  consider (quiet) "nd' = nd1" "outbox_ok C reg out"
    | (told) m o' where "nd' = ?nd2" "out = (ToWorld, m) # o'" "announce_cached C reg K ?nd2 ?p = Some (K', o')"
  proof (cases "deduct_balance nd (2 * nd_transaction_fee nd)")
    case (Pair b nd0)
    then have "nd0 = nd1" by (simp add: nd1_def)
    with Pair assms(5) that show thesis
      unfolding on_generate_transaction_paths_def Let_def t
      by (cases b) (auto split: if_splits)
  qed
  then show ?thesis
  proof cases
    case told
    have "cached_ok C reg (get_address ?nd2) ?p" using p by (simp add: get_address_def)
    from announce_cached_ok [OF assms(1,3) nd2 this told(3)] told(1,2) nd2 same show ?thesis by simp
  qed (use nd1 same in simp)
qed

lemma generate_block_frame:
  assumes "generate_block C reg now nd epoch slot = Some (r, nd')"
  shows "nd_wallet nd' = nd_wallet nd \<and> nd_sybils nd' = nd_sybils nd \<and> nd_neighbors nd' = nd_neighbors nd
    \<and> (\<exists>hs. nd_cache nd' = remove_hashes hs (nd_cache nd))"
  using assms by (auto simp: generate_block_def Let_def split: option.splits sum.splits)

lemma on_generate_block_ok:
  assumes "node_ok C reg nd" and "on_generate_block C reg now nd = Some (nd', out)"
  shows "node_ok C reg nd' \<and> nd_wallet nd' = nd_wallet nd \<and> outbox_ok C reg out"
proof (cases "nd_sync_in_progress nd")
  case True
  with assms show ?thesis by (simp add: on_generate_block_def)
next
  case False
  with assms(2) obtain r n' where run: "generate_block C reg now nd (nd_epoch nd) (nd_slot nd) = Some (r, n')"
    by (auto simp: on_generate_block_def split: option.splits)
  with assms(2) False have "n' = nd' \<and> outbox_ok C reg out"
    by (cases r)
      (auto simp: on_generate_block_def to_neighbors_def outbox_ok_map split: option.splits if_splits)
  with run generate_block_frame [OF run] node_ok_shrink [OF assms(1), of nd'] show ?thesis by auto
qed

lemma on_send_block_ok:
  assumes "node_ok C reg nd" and "on_send_block C nd b from = Some (nd', out)"
  shows "node_ok C reg nd' \<and> nd_wallet nd' = nd_wallet nd \<and> outbox_ok C reg out"
proof -
  have "outbox_ok C reg out \<and> nd_wallet nd' = nd_wallet nd \<and> nd_sybils nd' = nd_sybils nd
    \<and> (nd_cache nd' = nd_cache nd \<or> (\<exists>hs. nd_cache nd' = remove_hashes hs (nd_cache nd)))"
    using assms(2)
    by (auto simp: on_send_block_def outbox_ok_map
        split: option.splits sum.splits chain_error.splits if_splits)
  with node_ok_same [OF assms(1), of nd'] node_ok_shrink [OF assms(1), of nd'] show ?thesis by blast
qed

lemma recovery_requests_ok: "recovery_requests nd = Some out \<Longrightarrow> outbox_ok C reg out"
  by (auto simp: recovery_requests_def to_neighbors_def outbox_ok_map split: if_splits)

lemma on_update_slot_ok:
  assumes "node_ok C reg nd" and "on_update_slot C scheduled nd sm = Some (nd', out)"
  shows "node_ok C reg nd' \<and> nd_wallet nd' = nd_wallet nd \<and> outbox_ok C reg out"
proof -
  have r: "recover_unstable n = Some (n', o') \<Longrightarrow> nd_wallet n' = nd_wallet n \<and> nd_sybils n' = nd_sybils n
      \<and> nd_cache n' = nd_cache n \<and> outbox_ok C reg o'" for n n' :: "'a node" and o'
    by (auto simp: recover_unstable_def recovery_requests_ok split: option.splits if_splits)
  have m: "maybe_go_offline C e n = Some n' \<Longrightarrow> nd_wallet n' = nd_wallet n \<and> nd_sybils n' = nd_sybils n
      \<and> nd_cache n' = nd_cache n" for e n n'
    by (auto simp: maybe_go_offline_def split: if_splits)
  have "outbox_ok C reg out \<and> nd_wallet nd' = nd_wallet nd \<and> nd_sybils nd' = nd_sybils nd
    \<and> nd_cache nd' = nd_cache nd"
    using assms(2)
    by (auto simp: on_update_slot_def Let_def recovery_requests_ok
        split: option.splits if_splits dest!: r m)
  with node_ok_same [OF assms(1), of nd'] show ?thesis by blast
qed

lemma on_response_block_sync_ok:
  assumes "node_ok C reg nd" and "on_response_block_sync C nd bs from = Some (nd', out)"
  shows "node_ok C reg nd' \<and> nd_wallet nd' = nd_wallet nd \<and> outbox_ok C reg out"
proof -
  have "outbox_ok C reg out \<and> nd_wallet nd' = nd_wallet nd \<and> nd_sybils nd' = nd_sybils nd
    \<and> (nd_cache nd' = nd_cache nd \<or> (\<exists>hs. nd_cache nd' = remove_hashes hs (nd_cache nd)))"
    using assms(2)
    by (fastforce simp: on_response_block_sync_def replace_local_chain_with_snapshot_def
        split: option.splits if_splits)
  with node_ok_same [OF assms(1), of nd'] node_ok_shrink [OF assms(1), of nd'] show ?thesis by blast
qed

lemma on_become_validator_ok:
  assumes "node_ok C reg nd" and "on_become_validator nd stakes = (nd', out)"
  shows "node_ok C reg nd' \<and> nd_wallet nd' = nd_wallet nd \<and> outbox_ok C reg out"
proof -
  have o: "outbox_ok C reg (map (\<lambda>s. announce_validator (w_address (sy_wallet s)) x (sy_hash_power s)) ss)"
    for x ss by (induction ss) (auto simp: announce_validator_def)
  have "outbox_ok C reg out \<and> nd_wallet nd' = nd_wallet nd \<and> nd_sybils nd' = nd_sybils nd
    \<and> nd_cache nd' = nd_cache nd"
    using assms(2) o
    by (auto simp: on_become_validator_def Let_def announce_validator_def split: node_type.splits)
  with node_ok_same [OF assms(1), of nd'] show ?thesis by blast
qed

lemma on_request_block_sync_ok:
  assumes "node_ok C reg nd" and "on_request_block_sync nd i from = (nd', out)"
  shows "node_ok C reg nd' \<and> nd_wallet nd' = nd_wallet nd \<and> outbox_ok C reg out"
  using assms by (auto simp: on_request_block_sync_def Let_def split: if_splits option.splits)

lemmas handlers_ok =
  on_generate_block_ok on_send_block_ok on_update_slot_ok on_response_block_sync_ok
  on_become_validator_ok on_request_block_sync_ok

lemma node_handle_ok:
  assumes "hex_laws C" "ecdsa_laws C" "bls_sign_laws C" and "node_ok C reg nd"
    and "message_ok C reg (get_address nd) m"
    and "node_handle C reg now seed online K nd m = Some (K', nd', out)"
  shows "node_ok C reg nd' \<and> nd_wallet nd' = nd_wallet nd \<and> outbox_ok C reg out"
proof (cases "(\<not> nd_is_online nd \<or> \<not> online 0) \<and> \<not> is_update_slot m")
  case True
  with assms(6) have "nd' = nd" "out = [] \<or> (\<exists>m'. out = [(ToWorld, m')])"
    by (auto simp: node_handle_def split: message.splits)
  with assms(4) show ?thesis by auto
next
  case False
  note run = assms(6) [unfolded node_handle_def if_not_P [OF False]]
  show ?thesis
  proof (cases m)
    case (SendTransactionPaths tp sender)
    with run assms(5) on_send_transaction_paths_ok [OF assms(1,3,4)] show ?thesis by simp
  next
    case (GenerateTransactionPaths to)
    with run on_generate_transaction_paths_ok [OF assms(1-4)] show ?thesis by simp
  next
    case (UpdateNodeBalance x)
    with run node_ok_same [OF assms(4), of nd'] show ?thesis by auto
  next
    case SendRandaoSeed
    with run assms(4) show ?thesis by (auto simp: on_send_randao_seed_def)
  qed (use run assms(4) in \<open>auto dest: handlers_ok [OF assms(4)]\<close>)
qed

section \<open>The network as a transition system\<close>

record 'g network =
  net_caches :: path_caches
  net_nodes :: "(address, 'g node) hash_map"
  net_wire :: "(address \<times> message) multiset"

fun node_messages :: "outbox \<Rightarrow> (address \<times> message) list" where
  "node_messages [] = []"
| "node_messages ((ToNode a, m) # out) = (a, m) # node_messages out"
| "node_messages ((ToWorld, m) # out) = node_messages out"

fun is_relay :: "message \<Rightarrow> bool" where
  "is_relay (SendTransactionPaths tp sender) = True"
| "is_relay _ = False"

text \<open>
  A message in flight is handled by its destination, or lost.  Every message other than a
  relay message may also come from outside, with any content.  The world state takes
  transactions out of a mempool, and block verification fills the verdict cache.
\<close>

inductive network_step ::
  "('g, 'x) node_env_scheme \<Rightarrow> bls_registry \<Rightarrow> 'g network \<Rightarrow> 'g network \<Rightarrow> bool" for C reg where
  deliver: "(a, m) \<in># net_wire N \<Longrightarrow> map_of (net_nodes N) a = Some nd
    \<Longrightarrow> node_handle C reg now seed online (net_caches N) nd m = Some (K', nd', out)
    \<Longrightarrow> network_step C reg N (N\<lparr>net_caches := K', net_nodes := hm_insert a nd' (net_nodes N),
          net_wire := net_wire N - {#(a, m)#} + mset (node_messages out)\<rparr>)"
| lose: "network_step C reg N (N\<lparr>net_wire := net_wire N - {#x#}\<rparr>)"
| inject: "\<not> is_relay m \<Longrightarrow> network_step C reg N (N\<lparr>net_wire := add_mset (a, m) (net_wire N)\<rparr>)"
| collect: "map_of (net_nodes N) a = Some nd \<Longrightarrow> network_step C reg N
    (N\<lparr>net_nodes := hm_insert a (nd\<lparr>nd_cache := remove_hashes hs (nd_cache nd)\<rparr>) (net_nodes N)\<rparr>)"
| verify: "network_step C reg N (N\<lparr>net_caches := (net_caches N)\<lparr>path_verdicts := v\<rparr>\<rparr>)"

definition network_start :: "('x) tx_env_scheme \<Rightarrow> bls_registry \<Rightarrow> 'g network \<Rightarrow> bool" where
  "network_start C reg N \<longleftrightarrow> net_wire N = {#}
     \<and> (\<forall>(a, nd) \<in> set (net_nodes N). get_address nd = a \<and> nd_cache nd = []
         \<and> honest_wallet C reg (nd_wallet nd)
         \<and> (\<forall>s \<in> set (nd_sybils nd). honest_wallet C reg (sy_wallet s)))"

definition network_ok :: "('x) tx_env_scheme \<Rightarrow> bls_registry \<Rightarrow> 'g network \<Rightarrow> bool" where
  "network_ok C reg N \<longleftrightarrow> (\<forall>a nd. map_of (net_nodes N) a = Some nd \<longrightarrow> get_address nd = a \<and> node_ok C reg nd)
     \<and> (\<forall>(a, m) \<in># net_wire N. message_ok C reg a m)"

lemma network_start_ok: "network_start C reg N \<Longrightarrow> network_ok C reg N"
  by (auto simp: network_start_def network_ok_def node_ok_def hm_ok_def dest!: map_of_SomeD)

lemma outbox_messages_ok: "outbox_ok C reg out \<Longrightarrow> (a, m) \<in> set (node_messages out) \<Longrightarrow> message_ok C reg a m"
  by (induction out rule: node_messages.induct) auto

lemma message_ok_other: "\<not> is_relay m \<Longrightarrow> message_ok C reg a m"
  by (cases m) (simp_all add: message_ok_def)

lemma network_okI:
  assumes "\<And>a nd. map_of (net_nodes N) a = Some nd \<Longrightarrow> get_address nd = a \<and> node_ok C reg nd"
    and "\<And>a m. (a, m) \<in># net_wire N \<Longrightarrow> message_ok C reg a m"
  shows "network_ok C reg N"
  unfolding network_ok_def using assms by blast

lemma network_okD:
  assumes "network_ok C reg N"
  shows "map_of (net_nodes N) a = Some nd \<Longrightarrow> get_address nd = a \<and> node_ok C reg nd"
    and "(a, m) \<in># net_wire N \<Longrightarrow> message_ok C reg a m"
  using assms unfolding network_ok_def by blast+

lemma network_ok_node:
  assumes "network_ok C reg N" and "get_address nd = a \<and> node_ok C reg nd"
    and "map_of (hm_insert a nd (net_nodes N)) b = Some n"
  shows "get_address n = b \<and> node_ok C reg n"
  using assms(2,3) network_okD(1) [OF assms(1), of b n] by (cases "b = a") (simp_all add: table_simps)

lemma network_step_ok:
  assumes laws: "hex_laws C" "ecdsa_laws C" "bls_sign_laws C"
    and "network_step C reg N N'" and ok: "network_ok C reg N"
  shows "network_ok C reg N'"
  using assms(4)
proof (cases rule: network_step.cases)
  case (deliver a m nd now seed online K' nd' out)
  note nd = network_okD(1) [OF ok deliver(3)] and m = network_okD(2) [OF ok deliver(2)]
  have res: "node_ok C reg nd' \<and> nd_wallet nd' = nd_wallet nd \<and> outbox_ok C reg out"
    using node_handle_ok [OF laws _ _ deliver(4)] nd m by simp
  with nd have nd': "get_address nd' = a \<and> node_ok C reg nd'" by (simp add: get_address_def)
  show ?thesis
  proof (rule network_okI)
    fix b n
    assume "map_of (net_nodes N') b = Some n"
    then show "get_address n = b \<and> node_ok C reg n"
      unfolding deliver(1) by (auto dest: network_ok_node [OF ok nd'])
  next
    fix b x
    assume "(b, x) \<in># net_wire N'"
    then consider "(b, x) \<in># net_wire N" | "(b, x) \<in> set (node_messages out)"
      unfolding deliver(1) by (auto dest: in_diffD)
    then show "message_ok C reg b x"
      by cases (use network_okD(2) [OF ok] outbox_messages_ok res in blast)+
  qed
next
  case (lose x)
  show ?thesis
    by (rule network_okI) (use network_okD [OF ok] lose in \<open>auto dest: in_diffD\<close>)
next
  case (inject m a)
  show ?thesis
    by (rule network_okI) (use network_okD [OF ok] inject in \<open>auto simp: message_ok_other\<close>)
next
  case (collect a nd hs)
  note nd = network_okD(1) [OF ok collect(2)]
  then have nd': "get_address (nd\<lparr>nd_cache := remove_hashes hs (nd_cache nd)\<rparr>) = a
      \<and> node_ok C reg (nd\<lparr>nd_cache := remove_hashes hs (nd_cache nd)\<rparr>)"
    by (auto simp: get_address_def intro: node_ok_shrink)
  show ?thesis
    by (rule network_okI)
      (use network_okD(2) [OF ok] collect(1) network_ok_node [OF ok nd'] in auto)
next
  case (verify v)
  show ?thesis by (rule network_okI) (use network_okD [OF ok] verify in auto)
qed

lemma network_reach_ok:
  assumes "hex_laws C" "ecdsa_laws C" "bls_sign_laws C"
    and "(network_step C reg)\<^sup>*\<^sup>* N N'" and "network_ok C reg N"
  shows "network_ok C reg N'"
  using assms(4,5) by (induction rule: rtranclp_induct) (auto intro: network_step_ok [OF assms(1-3)])

section \<open>Produced blocks\<close>

lemma generate_block_Inr:
  assumes "generate_block C reg now nd epoch slot = Some (Inr b, nd')"
  obtains ps paths where "ps = paths_to_pack (nd_blockchain nd) (nd_cache nd) (nd_max_tx_per_block nd)"
    "list_all2 (\<lambda>p asp. from_transaction_paths C reg p = Some asp) ps paths"
    "block_txs b = map tp_transaction ps" "body_paths (blk_body b) = paths"
    "hd_miner (blk_header b) = get_address nd" "hd_epoch (blk_header b) = epoch"
    "add_block C (nd_blockchain nd) b = Some (Inr (nd_blockchain nd'))" "blocks (nd_blockchain nd) \<noteq> []"
  using assms
  by (auto simp: generate_block_def Let_def those_map_Some block_new_def header_new_def get_address_def
      get_last_index_def get_last_block_def split: option.splits sum.splits if_splits bool.splits)

lemma packed_distinct:
  assumes "node_ok C reg nd"
  shows "distinct (map (\<lambda>p. tx_hash (tp_transaction p))
    (paths_to_pack (nd_blockchain nd) (nd_cache nd) (nd_max_tx_per_block nd)))"
proof -
  have "map (\<lambda>p. tx_hash (tp_transaction p)) (hm_values (nd_cache nd)) = map fst (nd_cache nd)"
    using assms by (auto simp: node_ok_def hm_values_def)
  then have "distinct (map (\<lambda>p. tx_hash (tp_transaction p)) (eligible_paths (nd_blockchain nd) (nd_cache nd)))"
    using assms unfolding eligible_paths_def
    by (intro distinct_map_filter) (simp add: node_ok_def hm_ok_def)
  then have "distinct (map (\<lambda>p. tx_hash (tp_transaction p))
      (sort_key pack_order (eligible_paths (nd_blockchain nd) (nd_cache nd))))"
    by (simp add: distinct_map)
  then show ?thesis unfolding paths_to_pack_def take_map [symmetric] by (rule distinct_take)
qed

lemma packed_ok:
  assumes "node_ok C reg nd" and "p \<in> set (paths_to_pack (nd_blockchain nd) (nd_cache nd) n)"
  shows "cached_ok C reg (get_address nd) p" "tx_hash (tp_transaction p) \<notin> transaction_index (nd_blockchain nd)"
proof -
  have el: "p \<in> set (eligible_paths (nd_blockchain nd) (nd_cache nd))"
    using assms(2) set_paths_to_pack by blast
  then obtain h where "(h, p) \<in> set (nd_cache nd)"
    by (auto simp: eligible_paths_def hm_values_def)
  with assms(1) show "cached_ok C reg (get_address nd) p" by (auto simp: node_ok_def)
  from el show "tx_hash (tp_transaction p) \<notin> transaction_index (nd_blockchain nd)"
    by (simp add: eligible_paths_def exist_transaction_def)
qed

lemma from_transaction_paths_epoch: "from_transaction_paths C reg p = Some asp \<Longrightarrow> asp_epoch asp = tp_epoch p"
  by (auto simp: from_transaction_paths_def Let_def split: if_splits option.splits)

lemma produced_block_evidence:
  assumes laws: "hex_laws C" "bls_sign_laws C" "bls_aggregate_laws C"
    and ok: "node_ok C reg nd" and gen: "generate_block C reg now nd epoch slot = Some (Inr b, nd')"
  shows "block_verify C b = Some True" "hd_miner (blk_header b) = get_address nd"
    "length (body_paths (blk_body b)) = length (block_txs b)"
    "distinct (map tx_hash (block_txs b))" "tx_hashes b \<inter> transaction_index (nd_blockchain nd) = {}"
    "\<And>i. i < length (block_txs b) \<Longrightarrow> asp_epoch (body_paths (blk_body b) ! i) = epoch
      \<Longrightarrow> verify_at_epoch_uncached C reg (body_paths (blk_body b) ! i) (block_txs b ! i) (get_address nd) epoch
        = Some True"
proof -
  obtain ps paths where ps: "ps = paths_to_pack (nd_blockchain nd) (nd_cache nd) (nd_max_tx_per_block nd)"
    "list_all2 (\<lambda>p asp. from_transaction_paths C reg p = Some asp) ps paths"
    "block_txs b = map tp_transaction ps" "body_paths (blk_body b) = paths"
    "hd_miner (blk_header b) = get_address nd"
    "add_block C (nd_blockchain nd) b = Some (Inr (nd_blockchain nd'))" "blocks (nd_blockchain nd) \<noteq> []"
    using generate_block_Inr [OF gen] by metis
  show "block_verify C b = Some True" "tx_hashes b \<inter> transaction_index (nd_blockchain nd) = {}"
    using add_block_Ok(2,3) [OF ps(6,7)] by auto
  show "hd_miner (blk_header b) = get_address nd" by (rule ps(5))
  show "length (body_paths (blk_body b)) = length (block_txs b)"
    using ps(2-4) by (simp add: list_all2_lengthD)
  show "distinct (map tx_hash (block_txs b))"
    using packed_distinct [OF ok] ps(1,3) by (simp add: o_def)
  fix i
  assume i: "i < length (block_txs b)" and e: "asp_epoch (body_paths (blk_body b) ! i) = epoch"
  then have r: "from_transaction_paths C reg (ps ! i) = Some (body_paths (blk_body b) ! i)"
    using list_all2_nthD [OF ps(2), of i] ps(3,4) by simp
  have "ps ! i \<in> set (paths_to_pack (nd_blockchain nd) (nd_cache nd) (nd_max_tx_per_block nd))"
    using i ps(1,3) by simp
  from packed_ok(1) [OF ok this] have "path_good C reg (ps ! i)" "current_tail (ps ! i) = get_address nd"
    "tx_verify C (tp_transaction (ps ! i)) = Some True"
    by (simp_all add: cached_ok_def)
  with good_path_evidence [OF laws, of reg "ps ! i"] r i ps(3) e from_transaction_paths_epoch [OF r]
  show "verify_at_epoch_uncached C reg (body_paths (blk_body b) ! i) (block_txs b ! i) (get_address nd) epoch
      = Some True"
    by simp
qed


section \<open>Production succeeds\<close>

text \<open>A new block with verified transactions of its own extends the chain.\<close>

lemma block_extends:
  assumes "hex_laws C" and "all_tx_verify C (body_transactions body) = Some True"
    and "length (body_paths body) \<le> length (body_transactions body)"
    and fresh_tx: "\<not> list_ex (\<lambda>t. exist_transaction bc (tx_hash t)) (body_transactions body)"
    and ne: "blocks bc \<noteq> []"
    and time: "hd_epoch (blk_header (last (blocks bc))) < epoch
      \<or> hd_epoch (blk_header (last (blocks bc))) = epoch \<and> hd_slot (blk_header (last (blocks bc))) \<le> slot"
    and fresh: "\<And>h. hd_index h = hd_index (blk_header (last (blocks bc))) + 1
      \<Longrightarrow> get_hash C h \<noteq> hd_hash (blk_header (last (blocks bc)))"
  obtains b where "block_new C now (hd_index (blk_header (last (blocks bc))) + 1) epoch slot
      (hd_hash (blk_header (last (blocks bc)))) body wal = Some (Inr b)"
    "blk_body b = body" "hd_miner (blk_header b) = w_address wal"
    "hd_index (blk_header b) = hd_index (blk_header (last (blocks bc))) + 1"
    "add_block C bc b = Some (Inr (prune (push_block bc b)))"
proof -
  let ?lst = "blk_header (last (blocks bc))"
  obtain b where b: "block_new C now (hd_index ?lst + 1) epoch slot (hd_hash ?lst) body wal = Some (Inr b)"
    "block_verify C b = Some True" "blk_body b = body" "hd_index (blk_header b) = hd_index ?lst + 1"
    "hd_epoch (blk_header b) = epoch" "hd_slot (blk_header b) = slot"
    "hd_parent_hash (blk_header b) = hd_hash ?lst" "hd_miner (blk_header b) = w_address wal"
    using new_block_verifies [OF assms(1-3), of now "hd_index ?lst + 1" epoch slot "hd_hash ?lst" wal] by auto
  have "hd_hash (blk_header b) = get_hash C (blk_header b)"
    using b(2) by (auto simp: block_verify_def verify_base_def split: if_splits option.splits bool.splits)
  with fresh b(4) have hash: "hd_hash ?lst \<noteq> hd_hash (blk_header b)" by metis
  with ne time b fresh_tx have "add_block C bc b = Some (Inr (prune (push_block bc b)))"
    by (auto simp: add_block_def Let_def)
  with b show ?thesis by (intro that)
qed

lemma generate_block_succeeds:
  assumes laws: "hex_laws C" "bls_sign_laws C" "bls_aggregate_laws C"
    and ok: "node_ok C reg nd" and ne: "blocks (nd_blockchain nd) \<noteq> []"
    and time: "hd_epoch (blk_header (last (blocks (nd_blockchain nd)))) < epoch
      \<or> hd_epoch (blk_header (last (blocks (nd_blockchain nd)))) = epoch
        \<and> hd_slot (blk_header (last (blocks (nd_blockchain nd)))) \<le> slot"
    and fresh: "\<And>h. hd_index h = hd_index (blk_header (last (blocks (nd_blockchain nd)))) + 1
      \<Longrightarrow> get_hash C h \<noteq> hd_hash (blk_header (last (blocks (nd_blockchain nd))))"
  shows "\<exists>b nd'. generate_block C reg now nd epoch slot = Some (Inr b, nd')
    \<and> block_txs b = map tp_transaction
        (paths_to_pack (nd_blockchain nd) (nd_cache nd) (nd_max_tx_per_block nd))
    \<and> last (blocks (nd_blockchain nd')) = b"
proof -
  let ?ps = "paths_to_pack (nd_blockchain nd) (nd_cache nd) (nd_max_tx_per_block nd)"
  let ?lst = "blk_header (last (blocks (nd_blockchain nd)))"
  have "\<exists>asp. from_transaction_paths C reg p = Some asp" if "p \<in> set ?ps" for p
    using packed_ok(1) [OF ok that] good_path_evidence [OF laws, of reg p] by (auto simp: cached_ok_def)
  then obtain f where f: "\<And>p. p \<in> set ?ps \<Longrightarrow> from_transaction_paths C reg p = Some (f p)" by metis
  have those: "those (map (from_transaction_paths C reg) ?ps) = Some (map f ?ps)"
    unfolding those_map_Some using f by (simp add: list_all2_conv_all_nth)
  let ?body = "\<lparr>body_transactions = map tp_transaction ?ps, body_paths = map f ?ps\<rparr>"
  have "all_tx_verify C (map tp_transaction xs) = Some True" if "set xs \<subseteq> set ?ps" for xs
    using that packed_ok(1) [OF ok] by (induction xs) (auto simp: cached_ok_def)
  then have "all_tx_verify C (body_transactions ?body) = Some True" by simp
  moreover have "length (body_paths ?body) \<le> length (body_transactions ?body)" by simp
  moreover have "\<not> list_ex (\<lambda>t. exist_transaction (nd_blockchain nd) (tx_hash t)) (body_transactions ?body)"
    using packed_ok(2) [OF ok] by (auto simp: list_ex_iff exist_transaction_def)
  ultimately obtain b where b: "block_new C now (hd_index ?lst + 1) epoch slot (hd_hash ?lst) ?body (nd_wallet nd)
      = Some (Inr b)" "blk_body b = ?body"
    and add: "add_block C (nd_blockchain nd) b = Some (Inr (prune (push_block (nd_blockchain nd) b)))"
    by (rule block_extends [OF laws(1) _ _ _ ne time fresh])
  have "generate_block C reg now nd epoch slot = Some (Inr b,
      nd\<lparr>nd_cache := remove_hashes (map (\<lambda>p. tx_hash (tp_transaction p)) ?ps) (nd_cache nd),
         nd_blockchain := prune (push_block (nd_blockchain nd) b)\<rparr>)"
    unfolding generate_block_def Let_def those using ne b(1) add
    by (simp add: get_last_index_def get_last_hash_def get_last_block_def)
  with b(2) last_prune_push [OF ne, of b] show ?thesis by auto
qed

text \<open>
  C19.  A node packs the most valuable block it can.  With good evidence in its mempool, a
  chain that is not ahead of the slot, and no collision of block hashes, producing a block
  succeeds; the block holds as many eligible transactions as fit, extends the node's chain,
  and no selection of eligible transactions of that size or less pays more fees.
\<close>

theorem node_packs_best_fees:
  assumes "hex_laws C" "bls_sign_laws C" "bls_aggregate_laws C" and "node_ok C reg nd"
    and "blocks (nd_blockchain nd) \<noteq> []"
    and "hd_epoch (blk_header (last (blocks (nd_blockchain nd)))) < epoch
      \<or> hd_epoch (blk_header (last (blocks (nd_blockchain nd)))) = epoch
        \<and> hd_slot (blk_header (last (blocks (nd_blockchain nd)))) \<le> slot"
    and "\<And>h. hd_index h = hd_index (blk_header (last (blocks (nd_blockchain nd)))) + 1
      \<Longrightarrow> get_hash C h \<noteq> hd_hash (blk_header (last (blocks (nd_blockchain nd))))"
    and "\<forall>p \<in> set (eligible_paths (nd_blockchain nd) (nd_cache nd)). 0 \<le> tx_fee (tp_transaction p)"
  shows "\<exists>b nd'. generate_block C reg now nd epoch slot = Some (Inr b, nd')
    \<and> last (blocks (nd_blockchain nd')) = b
    \<and> length (block_txs b) =
        min (nd_max_tx_per_block nd) (length (eligible_paths (nd_blockchain nd) (nd_cache nd)))
    \<and> (\<forall>ps. mset ps \<subseteq># mset (eligible_paths (nd_blockchain nd) (nd_cache nd))
          \<and> length ps \<le> nd_max_tx_per_block nd \<longrightarrow>
        sum_list (map (\<lambda>p. tx_fee (tp_transaction p)) ps) \<le> sum_list (map tx_fee (block_txs b)))"
proof -
  obtain b nd' where b: "generate_block C reg now nd epoch slot = Some (Inr b, nd')"
    "block_txs b = map tp_transaction
       (paths_to_pack (nd_blockchain nd) (nd_cache nd) (nd_max_tx_per_block nd))"
    "last (blocks (nd_blockchain nd')) = b"
    using generate_block_succeeds [OF assms(1-7)] by blast
  have "length (block_txs b) =
      min (nd_max_tx_per_block nd) (length (eligible_paths (nd_blockchain nd) (nd_cache nd)))"
    unfolding b(2) by (simp add: paths_to_pack_def min.commute)
  moreover have "sum_list (map (\<lambda>p. tx_fee (tp_transaction p)) ps) \<le> sum_list (map tx_fee (block_txs b))"
    if "mset ps \<subseteq># mset (eligible_paths (nd_blockchain nd) (nd_cache nd))"
      and "length ps \<le> nd_max_tx_per_block nd" for ps
    using packed_fees_maximal [OF assms(8) that] by (simp add: b(2) o_def)
  ultimately show ?thesis using b(1,3) by blast
qed

section \<open>Unsolicited synchronisation\<close>

lemma follows_indices: "successively follows bs \<Longrightarrow> bs \<noteq> [] \<Longrightarrow>
    hd_index (blk_header (hd bs)) \<le> hd_index (blk_header (last bs))"
proof (induction bs)
  case (Cons b bs)
  then show ?case by (cases bs) (auto simp: follows_def)
qed simp

text \<open>A block that cannot verify: it has a path record and no transaction.\<close>

definition forged_block :: "nat \<Rightarrow> string \<Rightarrow> block" where
  "forged_block index hash =
     \<lparr>blk_header = \<lparr>hd_index = index, hd_epoch = 0, hd_slot = 0, hd_hash = hash, hd_parent_hash = '''',
        hd_timestamp = 0, hd_merkle_root = '''', hd_path_root = '''', hd_miner = ''''\<rparr>,
      blk_body = \<lparr>body_transactions = [],
        body_paths = [\<lparr>asp_chain_id = 0, asp_epoch = 0, asp_signature = '''', asp_paths = []\<rparr>]\<rparr>\<rparr>"

lemma forged_block_simps [simp]:
  "hd_index (blk_header (forged_block i h)) = i" "hd_hash (blk_header (forged_block i h)) = h"
  "block_verify C (forged_block i h) = Some False"
  by (simp_all add: forged_block_def block_verify_def verify_base_def)

text \<open>
  C37.  One unsolicited message stops a node.  For every online node with a linked chain and
  under every sender name other than the world state's, there is a synchronisation response,
  no block of which verifies, that erases the node's whole chain and ends its message loop
  in a panic.
\<close>

theorem forged_sync_stops_node:
  assumes "chain_inv (nd_blockchain nd)" and "blocks (nd_blockchain nd) \<noteq> []"
    and "nd_is_online nd" and "online 0" and "sender \<noteq> ''world_state''"
  shows "\<exists>bs bc. list_all (\<lambda>b. block_verify C b = Some False) bs
    \<and> resolve_fork C (nd_blockchain nd) (hd_index (blk_header (last (blocks (nd_blockchain nd))))) bs
        = Some (bc, []) \<and> blocks bc = []
    \<and> node_handle C reg now seed online K nd (ResponseBlockSync bs sender) = None"
proof -
  let ?bc = "nd_blockchain nd"
  obtain l ls where ls: "blocks ?bc = l # ls" using assms(2) by (cases "blocks ?bc") auto
  let ?i = "hd_index (blk_header l)" and ?h = "CHR ''x'' # hd_hash (blk_header l)"
    and ?n = "hd_index (blk_header (last (blocks ?bc)))"
  define bs where "bs = [forged_block ?i ?h, forged_block (?n + 1) '''']"
  define bc where "bc = ?bc\<lparr>blocks := [], transaction_index :=
      transaction_index ?bc - set (all_hashes (blocks ?bc))\<rparr>"
  have le: "?i \<le> ?n"
    using assms(1,2) follows_indices [of "blocks ?bc"] by (simp add: chain_inv_def ls)
  have fork: "find_fork (blocks ?bc) ?n 0 bs = Diverged 0 ?i" by (simp add: ls bs_def)
  have trunc: "truncate_from ?bc ?i = Some bc" by (simp add: truncate_from_def ls bc_def)
  have "append_synced C bc (drop 0 bs) = Some (bc, [])" by (simp add: bs_def bc_def add_block_def)
  then have res: "resolve_fork C ?bc ?n bs = Some (bc, [])"
    unfolding resolve_fork_def fork by (simp add: trunc)
  moreover have "bs \<noteq> []" "hd_index (blk_header (last bs)) = ?n + 1" "hd_index (blk_header (hd bs)) = ?i"
    by (simp_all add: bs_def)
  ultimately have "on_response_block_sync C nd bs sender = None"
    using assms(2,5) le
    by (simp add: on_response_block_sync_def get_last_index_def get_last_block_def bc_def)
  then have "node_handle C reg now seed online K nd (ResponseBlockSync bs sender) = None"
    using assms(3,4) by (simp add: node_handle_def)
  with res show ?thesis by (intro exI [of _ bs] exI [of _ bc]) (simp add: bs_def bc_def)
qed

section \<open>A concrete network\<close>

definition sample_node_env :: "unit node_env" where
  "sample_node_env = sample_with (block_env_ext (\<lambda>p. concat (asp_paths p)) (\<lambda>h. show_nat (hd_index h))
     (node_env_ext (\<lambda>g p. (True, g)) (\<lambda>e s. []) ()))"

definition sample_node :: "byte \<Rightarrow> byte list \<Rightarrow> unit node" where
  "sample_node n ns = (node_with_wallet (unat n) 0 1 sample_chain (sample_wallet n) 10 ())
     \<lparr>nd_neighbors := map (\<lambda>k. \<lparr>nb_index = unat k, nb_address = w_address (sample_wallet k)\<rparr>) ns,
      nd_balance := 5, nd_transaction_fee := 1\<rparr>"

definition sample_network :: "unit network" where
  "sample_network = \<lparr>net_caches = no_caches,
     net_nodes = map (\<lambda>(n, ns). (w_address (sample_wallet n), sample_node n ns)) [(1, [2]), (2, [1])],
     net_wire = {#}\<rparr>"

lemma sample_network_start: "network_start sample_node_env sample_registry sample_network"
  by (auto simp: network_start_def sample_network_def sample_node_def node_with_wallet_def get_address_def
      honest_wallet_def sample_node_env_def sample_wallet_wf sample_registered)

lemma sample_node_laws:
  "hex_laws sample_node_env" "ecdsa_laws sample_node_env" "bls_sign_laws sample_node_env"
  "bls_aggregate_laws sample_node_env"
  by (simp_all add: sample_node_env_def sample_laws)

lemma sample_node_honest: "n \<in> {1, 2, 3, 4} \<Longrightarrow> honest_wallet sample_node_env sample_registry (sample_wallet n)"
  by (simp add: honest_wallet_def sample_node_env_def sample_wallet_wf sample_registered)

lemma sample_node_simps [simp]:
  "nd_wallet (sample_node n ns) = sample_wallet n" "nd_sybils (sample_node n ns) = []"
  "nd_cache (sample_node n ns) = []" "nd_type (sample_node n ns) = Honest"
  "nd_is_online (sample_node n ns) = True" "nd_blockchain (sample_node n ns) = sample_chain"
  "nd_neighbors (sample_node n ns)
    = map (\<lambda>k. \<lparr>nb_index = unat k, nb_address = w_address (sample_wallet k)\<rparr>) ns"
  "nd_balance (sample_node n ns) = 5" "nd_transaction_fee (sample_node n ns) = 1"
  "nd_max_tx_per_block (sample_node n ns) = 10" "nd_max_mempool_size (sample_node n ns) = 10"
  "nd_epoch (sample_node n ns) = 0" "nd_slot (sample_node n ns) = 1"
  by (simp_all add: sample_node_def node_with_wallet_def)

lemma sample_chain_simps [simp]:
  "blocks sample_chain = [sample_blk 0 '''' []]" "transaction_index sample_chain = {}"
  by (simp_all add: sample_chain_def blockchain_new_def tx_hashes_def)

lemma sample_node_get_hash: "get_hash sample_node_env h = sample_hash (hd_index h)"
  by (simp add: get_hash_def sample_hash_def sample_node_env_def hasher_hash_def sample_with_def)

lemma sample_node_fresh:
  "hd_index h = hd_index (blk_header (last (blocks sample_chain))) + 1
    \<Longrightarrow> get_hash sample_node_env h \<noteq> hd_hash (blk_header (last (blocks sample_chain)))"
  using sample_hash_01(1) by (simp add: sample_node_get_hash sample_blk_hash)

lemma forged_sync_stops_node_witness:
  "\<exists>bs bc. list_all (\<lambda>b. block_verify sample_node_env b = Some False) bs
    \<and> resolve_fork sample_node_env (nd_blockchain (sample_node 1 [2]))
        (hd_index (blk_header (last (blocks (nd_blockchain (sample_node 1 [2])))))) bs = Some (bc, [])
    \<and> blocks bc = []
    \<and> node_handle sample_node_env sample_registry 0 [] (\<lambda>i. True) no_caches (sample_node 1 [2])
        (ResponseBlockSync bs '''') = None"
  by (rule forged_sync_stops_node) (simp_all add: chain_inv_def tx_hashes_def)

text \<open>Node 1 creates a transaction; node 2 receives it.\<close>

definition sample_relayed :: transaction where
  "sample_relayed = node_transaction sample_node_env 7 (sample_node 1 [2]\<lparr>nd_balance := 3\<rparr>) ''c''"

definition sample_origin :: "unit node" where
  "sample_origin = sample_node 1 [2]\<lparr>nd_balance := 3,
     nd_cache := [(tx_hash sample_relayed, new_with_epoch sample_relayed 0)]\<rparr>"

lemma sample_relayed_ok:
  "cached_ok sample_node_env sample_registry (w_address (sample_wallet 1)) (new_with_epoch sample_relayed 0)"
proof -
  have "node_ok sample_node_env sample_registry (sample_node 1 [2]\<lparr>nd_balance := 3\<rparr>)"
    by (simp add: node_ok_def sample_node_honest hm_ok_def)
  from node_transaction_ok [OF sample_node_laws(1,2) this, of 7 "''c''" 0] show ?thesis
    by (simp add: sample_relayed_def get_address_def)
qed

lemma sample_origin_ok: "node_ok sample_node_env sample_registry sample_origin"
  using sample_relayed_ok
  by (simp add: node_ok_def sample_origin_def sample_node_honest hm_ok_def get_address_def
      new_with_epoch_def new_with_epoch_and_chain_id_def)

lemma node_packs_best_fees_witness:
  "\<exists>b nd'. generate_block sample_node_env sample_registry 9 sample_origin 0 1 = Some (Inr b, nd')
    \<and> last (blocks (nd_blockchain nd')) = b \<and> length (block_txs b) = 1
    \<and> sum_list (map (\<lambda>p. tx_fee (tp_transaction p)) [new_with_epoch sample_relayed 0])
        \<le> sum_list (map tx_fee (block_txs b))"
proof -
  have el: "eligible_paths (nd_blockchain sample_origin) (nd_cache sample_origin) = [new_with_epoch sample_relayed 0]"
    by (simp add: eligible_paths_def hm_values_def sample_origin_def exist_transaction_def)
  have fee: "0 \<le> tx_fee (tp_transaction (new_with_epoch sample_relayed 0))"
    by (simp add: sample_relayed_def node_transaction_def with_fee_def with_costs_def Let_def new_with_epoch_def
        new_with_epoch_and_chain_id_def)
  have "\<exists>b nd'. generate_block sample_node_env sample_registry 9 sample_origin 0 1 = Some (Inr b, nd')
    \<and> last (blocks (nd_blockchain nd')) = b
    \<and> length (block_txs b) = min (nd_max_tx_per_block sample_origin)
        (length (eligible_paths (nd_blockchain sample_origin) (nd_cache sample_origin)))
    \<and> (\<forall>ps. mset ps \<subseteq># mset (eligible_paths (nd_blockchain sample_origin) (nd_cache sample_origin))
          \<and> length ps \<le> nd_max_tx_per_block sample_origin \<longrightarrow>
        sum_list (map (\<lambda>p. tx_fee (tp_transaction p)) ps) \<le> sum_list (map tx_fee (block_txs b)))"
    by (rule node_packs_best_fees [OF sample_node_laws(1,3,4) sample_origin_ok])
      (use el fee sample_node_fresh in \<open>simp_all add: sample_origin_def\<close>)
  then obtain b nd' where b: "generate_block sample_node_env sample_registry 9 sample_origin 0 1 = Some (Inr b, nd')"
    "last (blocks (nd_blockchain nd')) = b" "length (block_txs b) = min 10 1"
    "\<And>ps. mset ps \<subseteq># {#new_with_epoch sample_relayed 0#} \<Longrightarrow> length ps \<le> 10 \<Longrightarrow>
      sum_list (map (\<lambda>p. tx_fee (tp_transaction p)) ps) \<le> sum_list (map tx_fee (block_txs b))"
    unfolding el by (auto simp: sample_origin_def)
  from b(4) [of "[new_with_epoch sample_relayed 0]"] b(1-3) show ?thesis by auto
qed

lemma sample_hop:
  obtains tp1 tp2 K where
    "append_outgoing_hop sample_node_env (new_with_epoch sample_relayed 0) (w_address (sample_wallet 2))
       (sample_wallet 1) = (True, tp1)"
    "complete_pending_hop sample_node_env sample_registry no_caches tp1 (sample_wallet 2) = Some (True, tp2, K)"
    "tx_hash (tp_transaction tp1) = tx_hash sample_relayed" "tp_transaction tp2 = sample_relayed"
    "tp_epoch tp2 = 0"
proof -
  let ?p = "new_with_epoch sample_relayed 0"
  have p: "path_good sample_node_env sample_registry ?p" "current_tail ?p = w_address (sample_wallet 1)"
    using sample_relayed_ok by (simp_all add: cached_ok_def)
  have "node_sequence ?p = [w_address (sample_wallet 1)]"
    using p(2) by (simp add: new_with_epoch_def new_with_epoch_and_chain_id_def node_sequence_def current_tail_def)
  then have "\<exists>h c. append_completed_hop sample_node_env sample_registry no_caches ?p (w_address (sample_wallet 2))
        (sample_wallet 1) (sample_wallet 2)
      = Some (True, ?p\<lparr>tp_paths := tp_paths ?p @ [h]\<rparr>, no_caches\<lparr>receipt_commitments :=
          hm_insert (tp_receipt_key ?p (w_address (sample_wallet 2))) c (receipt_commitments no_caches)\<rparr>)
    \<and> hop_to h = w_address (sample_wallet 2)
    \<and> path_good sample_node_env sample_registry (?p\<lparr>tp_paths := tp_paths ?p @ [h]\<rparr>)"
    by (intro honest_hop [OF sample_node_laws(1,3) p])
      (simp_all add: sample_node_honest sample_address_inj no_caches_def)
  then obtain tp2 K where "append_completed_hop sample_node_env sample_registry no_caches ?p
      (w_address (sample_wallet 2)) (sample_wallet 1) (sample_wallet 2) = Some (True, tp2, K)"
    by blast
  then obtain tp1 where app: "append_outgoing_hop sample_node_env ?p (w_address (sample_wallet 2))
      (sample_wallet 1) = (True, tp1)"
    and comp: "complete_pending_hop sample_node_env sample_registry no_caches tp1 (sample_wallet 2)
      = Some (True, tp2, K)"
    by (auto simp: append_completed_hop_def split: prod.splits bool.splits)
  have hon: "honest_wallet sample_node_env sample_registry (sample_wallet 1)"
    "honest_wallet sample_node_env sample_registry (sample_wallet 2)"
    by (simp_all add: sample_node_honest)
  note done_ok = completed_hop_good [OF sample_node_laws(1,3) p(1) hon app comp]
  from that [OF app comp] done_ok(2,3) append_outgoing_hop_success(4) [OF app] show thesis
    by (simp add: new_with_epoch_def new_with_epoch_and_chain_id_def)
qed

lemma sample_reach:
  obtains N nd where "(network_step sample_node_env sample_registry)\<^sup>*\<^sup>* sample_network N"
    "map_of (net_nodes N) (w_address (sample_wallet 2)) = Some nd"
    "nd_blockchain nd = sample_chain" "nd_max_tx_per_block nd = 10"
    "\<exists>p. nd_cache nd = [(tx_hash sample_relayed, p)] \<and> tp_transaction p = sample_relayed \<and> tp_epoch p = 0"
proof -
  let ?a = "\<lambda>n. w_address (sample_wallet n)" and ?step = "network_step sample_node_env sample_registry"
  let ?m = "GenerateTransactionPaths ''c''" and ?on = "\<lambda>i::nat. True"
  let ?p = "new_with_epoch sample_relayed 0"
  obtain tp1 tp2 K where hop: "append_outgoing_hop sample_node_env ?p (?a 2) (sample_wallet 1) = (True, tp1)"
    "complete_pending_hop sample_node_env sample_registry no_caches tp1 (sample_wallet 2) = Some (True, tp2, K)"
    "tx_hash (tp_transaction tp1) = tx_hash sample_relayed" "tp_transaction tp2 = sample_relayed" "tp_epoch tp2 = 0"
    by (rule sample_hop)
  define N1 where "N1 = sample_network\<lparr>net_wire := add_mset (?a 1, ?m) (net_wire sample_network)\<rparr>"
  define N2 where "N2 = N1\<lparr>net_caches := no_caches, net_nodes := hm_insert (?a 1) sample_origin (net_nodes N1),
      net_wire := net_wire N1 - {#(?a 1, ?m)#} + mset [(?a 2, SendTransactionPaths tp1 (?a 1))]\<rparr>"
  define nd where "nd = sample_node 2 [1]\<lparr>nd_cache := [(tx_hash sample_relayed, tp2)]\<rparr>"
  define N3 where "N3 = N2\<lparr>net_caches := K, net_nodes := hm_insert (?a 2) nd (net_nodes N2),
      net_wire := net_wire N2 - {#(?a 2, SendTransactionPaths tp1 (?a 1))#} + mset []\<rparr>"
  have s1: "?step sample_network N1" unfolding N1_def by (rule network_step.inject) simp
  let ?told = "(ToWorld, UpdateAccountBalance (?a 1) 3)"
  let ?o1 = "[?told, (ToNode (?a 2), SendTransactionPaths tp1 (?a 1))]"
  have h1: "node_handle sample_node_env sample_registry 7 [] ?on no_caches (sample_node 1 [2]) ?m
      = Some (no_caches, sample_origin, ?o1)"
    using hop(1)
    by (simp add: node_handle_def on_generate_transaction_paths_def deduct_balance_def Let_def
        announce_cached_def send_paths_def sample_relayed_def [symmetric] sample_origin_def get_address_def
        hm_insert_def)
  have "?step N1 (N1\<lparr>net_caches := no_caches, net_nodes := hm_insert (?a 1) sample_origin (net_nodes N1),
      net_wire := net_wire N1 - {#(?a 1, ?m)#} + mset (node_messages ?o1)\<rparr>)"
    by (rule network_step.deliver [where nd = "sample_node 1 [2]" and now = 7 and seed = "[]" and online = ?on])
      (use h1 in \<open>simp_all add: N1_def sample_network_def\<close>)
  then have s2: "?step N1 N2" by (simp add: N2_def)
  have h2: "node_handle sample_node_env sample_registry 8 [] ?on no_caches (sample_node 2 [1])
      (SendTransactionPaths tp1 (?a 1)) = Some (K, nd, [])"
    using hop(2,3,4)
    by (simp add: node_handle_def on_send_transaction_paths_def Let_def exist_transaction_def forward_cached_def
        relay_onward_def nd_def hm_insert_def)
  have "?step N2 (N2\<lparr>net_caches := K, net_nodes := hm_insert (?a 2) nd (net_nodes N2),
      net_wire := net_wire N2 - {#(?a 2, SendTransactionPaths tp1 (?a 1))#} + mset (node_messages [])\<rparr>)"
    by (rule network_step.deliver [where nd = "sample_node 2 [1]" and now = 8 and seed = "[]" and online = ?on])
      (use h2 in \<open>simp_all add: N2_def N1_def sample_network_def table_simps sample_address_inj\<close>)
  then have s3: "?step N2 N3" by (simp add: N3_def)
  from s1 s2 s3 have "?step\<^sup>*\<^sup>* sample_network N3" by (meson r_into_rtranclp rtranclp_trans)
  moreover have "map_of (net_nodes N3) (?a 2) = Some nd" by (simp add: N3_def table_simps)
  ultimately show thesis using that hop(4,5) by (simp add: nd_def)
qed


end
