(* ===== verification/World_Properties.thy ===== *)
theory World_Properties
  imports World_State Node_Network
begin

text \<open>
  What the coordinator guarantees.  Canonical blocks are the blocks a node would produce; a
  slot with a working proposer produces one, a slot in an outage none; the bounds reported
  at the end of an epoch are never violated.  Three lemmas show where it fails: an epoch
  without blocks is credited for the last one again, a balance report that crosses a reward
  loses it, and any block that extends the chain is paid, whoever proposed it.
\<close>

section \<open>Engines\<close>

text \<open>What the coordinator relies on: an elected proposer is one of the validators.\<close>

locale simulated_engine =
  fixes E :: "'s engine"
  assumes select_validator:
    "eng_select_proposer E st vs seed = Some (st', Inr v) \<Longrightarrow> v \<in> set vs"
begin

lemma selected_address:
  "eng_select_proposer E st vs seed = Some (st', Inr v) \<Longrightarrow> v_address v \<in> v_address ` set vs"
  using select_validator by blast

end

interpretation topo_sim: simulated_engine "topo_engine ver gen_range" for ver gen_range
  by unfold_locales (simp add: topo_engine_def topo_election.elect_member)

interpretation pos_sim: simulated_engine "pos_engine gen_range" for gen_range
  by unfold_locales (simp add: pos_engine_def pos_election.elect_member)

interpretation pow_sim: simulated_engine "pow_engine sha256 gen_index schedule" for sha256 gen_index schedule
  by unfold_locales (simp add: pow_engine_def pow_election.elect_member)

interpretation minotaur_sim: simulated_engine "minotaur_engine sha256 pow_nonce outcome gen_range"
  for sha256 pow_nonce outcome gen_range
  by unfold_locales (simp add: minotaur_engine_def minotaur_election.elect_member)

section \<open>The outcome of a turn\<close>

lemma settle_block_fields [simp]:
  "ws_blockchain (fst (settle_block E w b)) = ws_blockchain w"
  "ws_validators (fst (settle_block E w b)) = ws_validators w"
  "ws_slot (fst (settle_block E w b)) = ws_slot w"
  "ws_success (fst (settle_block E w b)) = ws_success w + 1"
  "ws_failed (fst (settle_block E w b)) = ws_failed w"
  "ws_adversarial (fst (settle_block E w b)) = ws_adversarial w"
  "ws_consensus (fst (settle_block E w b))
    = fst (eng_distribute_rewards E (ws_consensus w) b (ws_validators w))"
  "ws_balances (fst (settle_block E w b))
    = credit_balances (ws_balances w) (snd (eng_distribute_rewards E (ws_consensus w) b (ws_validators w)))"
  by (simp_all add: settle_block_def Let_def split: prod.splits)

text \<open>Nothing but the counter of failures changes, or one block is appended and settled.\<close>

definition turn_failed :: "'s world \<Rightarrow> 's world \<Rightarrow> bool" where
  "turn_failed w w' \<longleftrightarrow> w' = w\<lparr>ws_failed := ws_failed w + 1\<rparr>"

definition turn_produced ::
  "('x) block_env_scheme \<Rightarrow> 's engine \<Rightarrow> 's world \<Rightarrow> validator \<Rightarrow> 's world \<Rightarrow> block \<Rightarrow> bool" where
  "turn_produced C E w miner w' b \<longleftrightarrow>
     (\<exists>bc. add_block C (ws_blockchain w) b = Some (Inr bc)
       \<and> w' = fst (settle_block E (w\<lparr>ws_blockchain := bc\<rparr>) b)
       \<and> (\<exists>wal. map_of (ws_wallets w) (v_address miner) = Some wal \<and> hd_miner (blk_header b) = w_address wal)
       \<and> hd_epoch (blk_header b) = sm_current_epoch (ws_slot w)
       \<and> hd_slot (blk_header b) = sm_current_slot (ws_slot w))"

lemma block_new_header:
  assumes "block_new C now i epoch slot parent body w = Some (Inr b)"
  shows "hd_miner (blk_header b) = w_address w" "hd_epoch (blk_header b) = epoch"
    "hd_slot (blk_header b) = slot" "hd_index (blk_header b) = i"
  using assms
  by (auto simp: block_new_def header_new_def Let_def split: option.splits if_splits bool.splits)

lemma build_canonical_header:
  assumes "build_canonical_block C reg now pools w miner epoch slot = Some (Inr b, pools')"
  shows "\<exists>wal. map_of (ws_wallets w) (v_address miner) = Some wal \<and> hd_miner (blk_header b) = w_address wal"
    "hd_epoch (blk_header b) = epoch" "hd_slot (blk_header b) = slot"
  using assms block_new_header [of C now _ epoch slot]
  by (auto simp: build_canonical_block_def Let_def split: option.splits)

lemma propose_outcome:
  assumes "propose C reg E now pools w miner online = Some (w', pools', out, produced, reason)"
  shows "if produced then online \<and> (\<exists>b. turn_produced C E w miner w' b) else turn_failed w w'"
proof (cases online)
  case True
  from assms True obtain r p where build:
    "build_canonical_block C reg now pools w miner (sm_current_epoch (ws_slot w)) (sm_current_slot (ws_slot w))
      = Some (r, p)"
    by (auto simp: propose_def Let_def split: option.splits)
  show ?thesis
  proof (cases r)
    case (Inl e)
    with assms True build show ?thesis by (simp add: propose_def turn_failed_def)
  next
    case (Inr b)
    with build have head: "\<exists>wal. map_of (ws_wallets w) (v_address miner) = Some wal \<and> hd_miner (blk_header b) = w_address wal"
      "hd_epoch (blk_header b) = sm_current_epoch (ws_slot w)" "hd_slot (blk_header b) = sm_current_slot (ws_slot w)"
      using build_canonical_header by auto
    consider (err) e where "add_block C (ws_blockchain w) b = Some (Inl e)"
      | (ok) bc where "add_block C (ws_blockchain w) b = Some (Inr bc)"
      using assms True build Inr
      by (cases "add_block C (ws_blockchain w) b") (auto simp: propose_def apply_canonical_block_def split: sum.splits)
    then show ?thesis
    proof cases
      case err
      with assms True build Inr show ?thesis by (simp add: propose_def apply_canonical_block_def turn_failed_def)
    next
      case ok
      with assms True build Inr have "produced" "w' = fst (settle_block E (w\<lparr>ws_blockchain := bc\<rparr>) b)"
        by (auto simp: propose_def apply_canonical_block_def split: prod.splits)
      with ok head True have "turn_produced C E w miner w' b" by (simp add: turn_produced_def)
      with True \<open>produced\<close> show ?thesis by auto
    qed
  qed
qed (use assms in \<open>simp add: propose_def turn_failed_def\<close>)


text \<open>Moving to the next slot or epoch touches neither the chain nor the accounts.\<close>

definition same_ledger :: "'s world \<Rightarrow> 's world \<Rightarrow> bool" where
  "same_ledger w w' \<longleftrightarrow>
     ws_blockchain w' = ws_blockchain w \<and> ws_validators w' = ws_validators w \<and> ws_balances w' = ws_balances w
     \<and> ws_success w' = ws_success w \<and> ws_failed w' = ws_failed w \<and> ws_wallets w' = ws_wallets w
     \<and> ws_mempools w' = ws_mempools w \<and> ws_nodes_sender w' = ws_nodes_sender w
     \<and> ws_max_tx_per_block w' = ws_max_tx_per_block w \<and> ws_adversarial w' = ws_adversarial w
     \<and> ws_outage_addresses w' = ws_outage_addresses w
     \<and> map fst (ws_availability w') = map fst (ws_availability w)"

lemma same_ledger_refl: "same_ledger w w" by (simp add: same_ledger_def)

lemma same_ledger_trans: "same_ledger u v \<Longrightarrow> same_ledger v w \<Longrightarrow> same_ledger u w"
  by (simp add: same_ledger_def)

lemma availability_frame:
  "same_ledger w (update_scheduled_availability w epoch)" "same_ledger w (epoch_availability onset w epoch)"
  "ws_slot (update_scheduled_availability w epoch) = ws_slot w"
  "ws_consensus (update_scheduled_availability w epoch) = ws_consensus w"
  "ws_slot (epoch_availability onset w epoch) = ws_slot w"
  "ws_consensus (epoch_availability onset w epoch) = ws_consensus w"
  by (simp_all add: same_ledger_def update_scheduled_availability_def epoch_availability_def comp_def
      case_prod_beta)

lemma collect_epoch_metrics_frame:
  assumes "collect_epoch_metrics C ver E K inp w epoch bs vs = Some (w', out)"
  shows "same_ledger w w' \<and> ws_consensus w' = ws_consensus w \<and> ws_slot w' = ws_slot w"
  using assms by (auto simp: collect_epoch_metrics_def Let_def same_ledger_def split: option.splits)

lemma world_next_epoch_frame:
  assumes "world_next_epoch C ver E K inp now w = Some (Continue (w', out))"
  shows "same_ledger w w' \<and> (\<exists>bs. get_last_epoch_block (ws_blockchain w) = Some bs
    \<and> ws_consensus w' = eng_on_epoch_end E (ws_consensus w) bs (ws_validators w))
    \<and> sm_current_epoch (ws_slot w') = sm_current_epoch (ws_slot w) + 1 \<and> sm_current_slot (ws_slot w') = 0"
proof -
  let ?e = "sm_current_epoch (ws_slot w)"
  let ?w1 = "epoch_availability True w (?e + 1)"
  note w1 = availability_frame(2,5,6) [where onset = True and w = w and epoch = "?e + 1"]
  from assms obtain bs i w3 where step: "get_last_epoch_block (ws_blockchain ?w1) = Some bs"
    "get_last_index (ws_blockchain ?w1) = Some i"
    "collect_epoch_metrics C ver E K inp
       (?w1\<lparr>ws_consensus := eng_on_epoch_end E (ws_consensus ?w1) bs (ws_validators ?w1)\<rparr>) ?e bs (ws_validators ?w1)
      = Some (w3, out)"
    "w' = (epoch_availability False w3 (?e + 1))\<lparr>ws_slot :=
       fresh_slot C now (epoch_availability False w3 (?e + 1)) (?e + 1) 0 i\<rparr>"
    by (auto simp: world_next_epoch_def Let_def split: option.splits if_splits)
  from collect_epoch_metrics_frame [OF step(3)] w1 step
    availability_frame(2,6) [where onset = False and w = w3 and epoch = "?e + 1"]
  show ?thesis by (auto simp: same_ledger_def fresh_slot_def)
qed

lemma world_next_epoch_collects:
  assumes "world_next_epoch C ver E K inp now w = Some r"
  obtains bs w3 w1 out where
    "collect_epoch_metrics C ver E K inp w1 (sm_current_epoch (ws_slot w)) bs (ws_validators w) = Some (w3, out)"
    "ws_consensus w1 = eng_on_epoch_end E (ws_consensus w) bs (ws_validators w)"
    "ws_adversarial w1 = ws_adversarial w"
    "(case r of Continue (w', out) \<Rightarrow> out | Exit out \<Rightarrow> out) = out"
proof -
  let ?e = "sm_current_epoch (ws_slot w)"
  let ?w1 = "epoch_availability True w (?e + 1)"
  note w1 = availability_frame(2,6) [where onset = True and w = w and epoch = "?e + 1"]
  from assms obtain bs i w3 out where "collect_epoch_metrics C ver E K inp
       (?w1\<lparr>ws_consensus := eng_on_epoch_end E (ws_consensus ?w1) bs (ws_validators ?w1)\<rparr>) ?e bs (ws_validators ?w1)
      = Some (w3, out)" "(case r of Continue (w', out) \<Rightarrow> out | Exit out \<Rightarrow> out) = out"
    by (auto simp: world_next_epoch_def Let_def split: option.splits if_splits)
  with w1 show ?thesis
    by (intro that [of "?w1\<lparr>ws_consensus := eng_on_epoch_end E (ws_consensus w) bs (ws_validators w)\<rparr>" bs w3 out])
      (simp_all add: same_ledger_def)
qed

lemma advance_slot_frame:
  assumes "advance_slot C ver E K inp now w i = Some (Continue (w', eo))"
  shows "same_ledger w w'"
proof (cases "ws_slot_per_epoch w - 1 \<le> sm_current_slot (ws_slot w)")
  case True
  with assms obtain z where z: "world_next_epoch C ver E K inp now w = Some z"
    "(case z of Exit out \<Rightarrow> Exit out | Continue (w', out) \<Rightarrow> Continue (w', Some out)) = Continue (w', eo)"
    by (auto simp: advance_slot_def Let_def split: if_splits)
  then obtain out where "z = Continue (w', out)" by (cases z) auto
  with z(1) world_next_epoch_frame show ?thesis by blast
next
  case False
  with assms show ?thesis by (auto simp: advance_slot_def Let_def same_ledger_def split: if_splits)
qed

lemma available_in_outage:
  assumes "scheduled_outage_active w epoch" and "a \<in> ws_outage_addresses w" and "a \<in> set (map fst (ws_availability w))"
  shows "hm_get_or True (ws_availability (update_scheduled_availability w epoch)) a = False"
proof -
  let ?f = "\<lambda>a. \<not> scheduled_outage_active w epoch \<or> a \<notin> ws_outage_addresses w"
  have "map_of (map (\<lambda>(a, _). (a, ?f a)) m) a = Some (?f a)" if "a \<in> set (map fst m)" for m :: "(address \<times> bool) list"
    using that by (induction m) auto
  with assms show ?thesis by (simp add: update_scheduled_availability_def hm_get_or_def)
qed


section \<open>The outcome of a slot\<close>

definition slot_result ::
  "('x) block_env_scheme \<Rightarrow> 's world \<Rightarrow> 's world \<Rightarrow> proposer_duty \<Rightarrow> bool" where
  "slot_result C w w' d \<longleftrightarrow>
     (if pd_block_produced d
      then pd_scheduled_online d \<and> ws_success w' = ws_success w + 1 \<and> ws_failed w' = ws_failed w
        \<and> (\<exists>b wal. add_block C (ws_blockchain w) b = Some (Inr (ws_blockchain w'))
            \<and> hd_epoch (blk_header b) = pd_epoch d \<and> hd_slot (blk_header b) = pd_slot d
            \<and> map_of (ws_wallets w) (pd_address d) = Some wal \<and> hd_miner (blk_header b) = w_address wal)
      else ws_success w' = ws_success w \<and> ws_failed w' = ws_failed w + 1
        \<and> ws_blockchain w' = ws_blockchain w \<and> ws_balances w' = ws_balances w)"

lemma count_proposer_fields [simp]:
  "ws_slot (count_proposer w miner) = ws_slot w" "ws_availability (count_proposer w miner) = ws_availability w"
  "ws_blockchain (count_proposer w miner) = ws_blockchain w" "ws_success (count_proposer w miner) = ws_success w"
  "ws_failed (count_proposer w miner) = ws_failed w" "ws_balances (count_proposer w miner) = ws_balances w"
  "ws_wallets (count_proposer w miner) = ws_wallets w" "ws_mempools (count_proposer w miner) = ws_mempools w"
  "ws_validators (count_proposer w miner) = ws_validators w"
  "ws_consensus (count_proposer w miner) = ws_consensus w"
  "ws_adversarial (count_proposer w miner) = ws_adversarial w"
  "ws_max_tx_per_block (count_proposer w miner) = ws_max_tx_per_block w"
  "ws_outage_addresses (count_proposer w miner) = ws_outage_addresses w"
  "scheduled_outage_active (count_proposer w miner) e = scheduled_outage_active w e"
  by (simp_all add: count_proposer_def scheduled_outage_active_def)

lemma proposer_turn_run:
  assumes "proposer_turn C reg E now pools w vs miner = Some (w', pools', out, d, sl)"
  obtains p r where "propose C reg E now pools (count_proposer w miner) miner
      (hm_get_or True (ws_availability w) (v_address miner)) = Some (w', pools', out, p, r)"
    "d = proposer_duty_row w' (ws_slot w) miner (duty_weight E w' vs miner)
       (hm_get_or True (ws_availability w) (v_address miner)) p r"
  using assms by (auto simp: proposer_turn_def Let_def split: option.splits if_splits)

lemma proposer_turn_result:
  assumes "proposer_turn C reg E now pools w vs miner = Some (w', pools', out, d, sl)"
  shows "slot_result C w w' d \<and> pd_address d = v_address miner
    \<and> pd_epoch d = sm_current_epoch (ws_slot w) \<and> pd_slot d = sm_current_slot (ws_slot w)
    \<and> pd_scheduled_online d = hm_get_or True (ws_availability w) (v_address miner)"
proof -
  obtain p r where run: "propose C reg E now pools (count_proposer w miner) miner
      (hm_get_or True (ws_availability w) (v_address miner)) = Some (w', pools', out, p, r)"
    "d = proposer_duty_row w' (ws_slot w) miner (duty_weight E w' vs miner)
       (hm_get_or True (ws_availability w) (v_address miner)) p r"
    using assms by (rule proposer_turn_run)
  from propose_outcome [OF run(1)] have "slot_result C w w' d"
    by (auto simp: slot_result_def run(2) proposer_duty_row_def turn_failed_def turn_produced_def split: if_splits)
  then show ?thesis by (simp add: run(2) proposer_duty_row_def)
qed

definition elected_outcome ::
  "('x) block_env_scheme \<Rightarrow> 's world \<Rightarrow> 's world \<Rightarrow> slot_output \<Rightarrow> bool" where
  "elected_outcome C w w' so \<longleftrightarrow>
     (case so_duty so of
        None \<Rightarrow> same_ledger w w'
      | Some d \<Rightarrow> slot_result C w w' d \<and> pd_address d \<in> v_address ` set (ws_validators w)
          \<and> (pd_outage_active d \<and> pd_outage_group d \<and> pd_address d \<in> set (map fst (ws_availability w))
              \<longrightarrow> \<not> pd_block_produced d))"

lemma slot_result_same_ledger: "same_ledger w w1 \<Longrightarrow> slot_result C w1 w' d \<Longrightarrow> slot_result C w w' d"
  by (auto simp: slot_result_def same_ledger_def)

lemma propose_outage_frame:
  assumes "propose C reg E now pools w miner online = Some (w', pools', out, p, r)"
  shows "ws_outage_addresses w' = ws_outage_addresses w \<and> scheduled_outage_active w' e = scheduled_outage_active w e"
proof -
  have "ws_outage_addresses (fst (settle_block E u b)) = ws_outage_addresses u"
    "scheduled_outage_active (fst (settle_block E u b)) e = scheduled_outage_active u e" for u b
    by (simp_all add: settle_block_def scheduled_outage_active_def Let_def split: prod.splits)
  moreover have "scheduled_outage_active (w\<lparr>ws_blockchain := bc\<rparr>) e = scheduled_outage_active w e"
    "scheduled_outage_active (w\<lparr>ws_failed := n\<rparr>) e = scheduled_outage_active w e" for bc n
    by (simp_all add: scheduled_outage_active_def)
  ultimately show ?thesis
    using propose_outcome [OF assms] by (auto simp: turn_failed_def turn_produced_def split: if_splits)
qed

lemma proposer_turn_outage:
  assumes "proposer_turn C reg E now pools w vs miner = Some (w', pools', out, d, sl)"
  shows "pd_outage_group d = (v_address miner \<in> ws_outage_addresses w)"
    "pd_outage_active d = scheduled_outage_active w (sm_current_epoch (ws_slot w))"
proof -
  obtain p r where run: "propose C reg E now pools (count_proposer w miner) miner
      (hm_get_or True (ws_availability w) (v_address miner)) = Some (w', pools', out, p, r)"
    "d = proposer_duty_row w' (ws_slot w) miner (duty_weight E w' vs miner)
       (hm_get_or True (ws_availability w) (v_address miner)) p r"
    using assms by (rule proposer_turn_run)
  from propose_outage_frame [OF run(1)]
  show "pd_outage_group d = (v_address miner \<in> ws_outage_addresses w)"
    "pd_outage_active d = scheduled_outage_active w (sm_current_epoch (ws_slot w))"
    by (simp_all add: run(2) proposer_duty_row_def)
qed

lemma enter_slot_frame: "same_ledger w (enter_slot E vs i w)" "ws_slot (enter_slot E vs i w) = ws_slot w"
  by (simp_all add: enter_slot_def same_ledger_def update_scheduled_availability_def comp_def case_prod_beta)

lemma offline_in_outage:
  assumes "scheduled_outage_active (enter_slot E vs i w) (sm_current_epoch (ws_slot w))"
    and "a \<in> ws_outage_addresses (enter_slot E vs i w)" and "a \<in> set (map fst (ws_availability w))"
  shows "\<not> hm_get_or True (ws_availability (enter_slot E vs i w)) a"
  using assms available_in_outage [of "w\<lparr>ws_consensus := eng_next_slot E (ws_consensus w) vs i,
      ws_logical_slot := ws_logical_slot w + 1\<rparr>" "sm_current_epoch (ws_slot w)" a]
  by (simp add: enter_slot_def update_scheduled_availability_def scheduled_outage_active_def)

lemma world_next_slot_run:
  assumes "world_next_slot C reg E K inp now pools w = Some (Continue (w', pools', so))"
  obtains i w1 eo where "get_last_index (ws_blockchain w) = Some i"
    "advance_slot C (evidence_verifier C reg) E K inp now w i = Some (Continue (w1, eo))"
    "hold_slot C reg E now pools (enter_slot E (ws_validators w) i w1) (ws_validators w) eo
      = Some (w', pools', so)"
  using assms by (auto simp: world_next_slot_def Let_def split: option.splits control.splits)

context simulated_engine
begin

lemma slot_outcome_any:
  assumes "world_next_slot C reg E K inp now pools w = Some (Continue (w', pools', so))"
  shows "elected_outcome C w w' so"
proof -
  let ?vs = "ws_validators w"
  obtain i w1 eo where run: "get_last_index (ws_blockchain w) = Some i"
    "advance_slot C (evidence_verifier C reg) E K inp now w i = Some (Continue (w1, eo))"
    "hold_slot C reg E now pools (enter_slot E ?vs i w1) ?vs eo = Some (w', pools', so)"
    using assms by (rule world_next_slot_run)
  define w2 where "w2 = enter_slot E ?vs i w1"
  have led1: "same_ledger w w1" by (rule advance_slot_frame [OF run(2)])
  then have led: "same_ledger w w2" unfolding w2_def by (rule same_ledger_trans) (rule enter_slot_frame)
  obtain st r where sel: "eng_select_proposer E (ws_consensus w2) ?vs (sm_next_seed (ws_slot w2)) = Some (st, r)"
    using run(3) by (auto simp: hold_slot_def w2_def Let_def split: option.splits)
  show ?thesis
  proof (cases r)
    case (Inl e)
    with run(3) sel have "w' = w2\<lparr>ws_consensus := st\<rparr>" "so_duty so = None"
      by (auto simp: hold_slot_def w2_def [symmetric] Let_def)
    with led show ?thesis by (simp add: elected_outcome_def same_ledger_def)
  next
    case (Inr miner)
    let ?w3 = "w2\<lparr>ws_consensus := st\<rparr>"
    from run(3) sel Inr obtain out d sl where turn:
      "proposer_turn C reg E now pools ?w3 ?vs miner = Some (w', pools', out, d, sl)" "so_duty so = Some d"
      by (auto simp: hold_slot_def w2_def [symmetric] Let_def)
    note res = proposer_turn_result [OF turn(1)] proposer_turn_outage [OF turn(1)]
    have led3: "same_ledger w ?w3" using led by (simp add: same_ledger_def)
    have "\<not> pd_scheduled_online d"
      if "pd_outage_active d" "pd_outage_group d" "pd_address d \<in> set (map fst (ws_availability w))"
      using that res led1 offline_in_outage [of E ?vs i w1 "v_address miner"]
      by (simp add: w2_def enter_slot_frame(2) same_ledger_def scheduled_outage_active_def)
    moreover have result: "slot_result C w w' d" using slot_result_same_ledger [OF led3] res(1) by blast
    moreover have "pd_address d \<in> v_address ` set ?vs"
      using selected_address [OF sel [unfolded Inr]] res(1) by simp
    moreover have "pd_block_produced d \<Longrightarrow> pd_scheduled_online d"
      using result by (simp add: slot_result_def)
    ultimately show ?thesis unfolding elected_outcome_def turn(2) option.case by blast
  qed
qed

end



section \<open>Canonical blocks are node blocks\<close>

text \<open>The node whose block the coordinator builds for a proposer.\<close>

definition proposing_node :: "'s world \<Rightarrow> wallet \<Rightarrow> (string, transaction_paths) hash_map \<Rightarrow> unit node" where
  "proposing_node w wal cache =
     (node_with_wallet 0 0 0 (ws_blockchain w) wal (ws_max_tx_per_block w) ())\<lparr>nd_cache := cache\<rparr>"

lemma proposing_node_fields [simp]:
  "nd_blockchain (proposing_node w wal cache) = ws_blockchain w" "nd_cache (proposing_node w wal cache) = cache"
  "nd_wallet (proposing_node w wal cache) = wal" "nd_sybils (proposing_node w wal cache) = []"
  "nd_max_tx_per_block (proposing_node w wal cache) = ws_max_tx_per_block w"
  "get_address (proposing_node w wal cache) = w_address wal"
  by (simp_all add: proposing_node_def node_with_wallet_def get_address_def)

lemma canonical_block_generated:
  assumes "map_of (ws_wallets w) (v_address miner) = Some wal" "map_of (ws_mempools w) (v_address miner) = Some owner"
    and "generate_block C reg now (proposing_node w wal (pools owner)) epoch slot = Some (Inr b, nd)"
  shows "build_canonical_block C reg now pools w miner epoch slot = Some (Inr b, pools(owner := nd_cache nd))"
    "add_block C (ws_blockchain w) b = Some (Inr (nd_blockchain nd))"
  using assms
  by (auto simp: generate_block_def build_canonical_block_def Let_def split: option.splits sum.splits)

text \<open>A validator that can propose: its wallet is registered and its own mempool holds good evidence.\<close>

definition ready :: "('x) tx_env_scheme \<Rightarrow> bls_registry \<Rightarrow> mempools \<Rightarrow> 's world \<Rightarrow> validator \<Rightarrow> bool" where
  "ready C reg pools w v \<longleftrightarrow>
     (\<exists>wal owner. map_of (ws_wallets w) (v_address v) = Some wal \<and> w_address wal = v_address v
        \<and> map_of (ws_mempools w) (v_address v) = Some owner
        \<and> node_ok C reg (proposing_node w wal (pools owner)))"

definition chain_before :: "blockchain \<Rightarrow> nat \<Rightarrow> nat \<Rightarrow> bool" where
  "chain_before bc epoch slot \<longleftrightarrow> blocks bc \<noteq> []
     \<and> (hd_epoch (blk_header (last (blocks bc))) < epoch
        \<or> hd_epoch (blk_header (last (blocks bc))) = epoch \<and> hd_slot (blk_header (last (blocks bc))) \<le> slot)"

definition fresh_hashes :: "('x) block_env_scheme \<Rightarrow> blockchain \<Rightarrow> bool" where
  "fresh_hashes C bc \<longleftrightarrow>
     (\<forall>h. hd_index h = hd_index (blk_header (last (blocks bc))) + 1 \<longrightarrow>
        get_hash C h \<noteq> hd_hash (blk_header (last (blocks bc))))"

definition carries_evidence :: "('x) tx_env_scheme \<Rightarrow> bls_registry \<Rightarrow> block \<Rightarrow> bool" where
  "carries_evidence C reg b \<longleftrightarrow>
     (\<forall>i < length (block_txs b). asp_epoch (body_paths (blk_body b) ! i) = hd_epoch (blk_header b)
        \<longrightarrow> evidence_eligible (evidence_verifier C reg) b i (block_txs b ! i))"

lemma add_block_nonempty: "add_block C bc b = Some (Inr bc') \<Longrightarrow> blocks bc' \<noteq> []"
  by (cases "blocks bc") (auto simp: add_block_def push_block_def prune_def Let_def
      split: if_splits option.splits bool.splits)

lemma ready_proposes:
  assumes laws: "hex_laws C" "bls_sign_laws C" "bls_aggregate_laws C"
    and ready: "ready C reg pools w miner"
    and chain: "chain_before (ws_blockchain w) (sm_current_epoch (ws_slot w)) (sm_current_slot (ws_slot w))"
    and fresh: "fresh_hashes C (ws_blockchain w)"
  obtains b w' pools' out where
    "propose C reg E now pools w miner True = Some (w', pools', out, True, '''')"
    "last (blocks (ws_blockchain w')) = b" "hd_miner (blk_header b) = v_address miner"
    "ws_success w' = ws_success w + 1"
    "carries_evidence C reg b"
proof -
  let ?e = "sm_current_epoch (ws_slot w)" and ?s = "sm_current_slot (ws_slot w)"
  obtain wal owner where reg: "map_of (ws_wallets w) (v_address miner) = Some wal" "w_address wal = v_address miner"
    "map_of (ws_mempools w) (v_address miner) = Some owner" "node_ok C reg (proposing_node w wal (pools owner))"
    using ready by (auto simp: ready_def)
  obtain b nd where gen: "generate_block C reg now (proposing_node w wal (pools owner)) ?e ?s = Some (Inr b, nd)"
    "last (blocks (nd_blockchain nd)) = b"
    using generate_block_succeeds [OF laws reg(4), of ?e ?s now] chain fresh
    by (auto simp: chain_before_def fresh_hashes_def)
  note can = canonical_block_generated [where pools = pools, OF reg(1,3) gen(1)]
  note ev = produced_block_evidence [OF laws reg(4) gen(1)]
  obtain w' out where set: "settle_block E (w\<lparr>ws_blockchain := nd_blockchain nd\<rparr>) b = (w', out)" by fastforce
  have "propose C reg E now pools w miner True = Some (w', pools(owner := nd_cache nd),
      out @ map (\<lambda>owner. (ToNode owner, SendBlock b (v_address miner))) (hm_values (ws_nodes_sender w')), True, '''')"
    using can set by (simp add: propose_def apply_canonical_block_def)
  moreover have "w' = fst (settle_block E (w\<lparr>ws_blockchain := nd_blockchain nd\<rparr>) b)" using set by simp
  moreover have "hd_epoch (blk_header b) = ?e" using build_canonical_header(2) [OF can(1)] .
  ultimately show ?thesis
    using gen(2) ev reg(2)
    by (intro that [of w' "pools(owner := nd_cache nd)" _ b])
      (auto simp: evidence_eligible_def evidence_verifier_def carries_evidence_def)
qed


section \<open>A slot produces a block\<close>

definition electable :: "topo_state \<Rightarrow> validator list \<Rightarrow> bool" where
  "electable st vs \<longleftrightarrow> frozen_proposer_weights st = []
     \<or> 0 < sum_list (map (\<lambda>v. hm_get_or 0 (frozen_proposer_weights st) (v_address v)) vs)"

lemma election_returns:
  assumes "config_validate (config st) = Inr ()" "distinct (map v_address vs)" "0 < total_stake vs" "electable st vs"
  shows "\<exists>st' v. topo_select_proposer gen_range st vs seed = Some (st', Inr v)"
proof -
  define st' where "st' = (if frozen_proposer_weights st = [] then freeze_proposer_weights st vs else st)"
  have "0 < sum_list (map (\<lambda>v. hm_get_or 0 (frozen_proposer_weights st') (v_address v)) vs)"
    using sum_frozen_weights [OF assms(1-3)] assms(4) by (auto simp: electable_def st'_def)
  moreover have "vs \<noteq> []" using assms(3) by (auto simp: total_stake_def)
  ultimately show ?thesis
    by (auto simp: topo_select_proposer_def select_with_frozen_weights_def st'_def [symmetric] Let_def
        split: option.splits)
qed

lemma online_outside_outage:
  assumes "\<not> scheduled_outage_active w epoch \<or> a \<notin> ws_outage_addresses w"
  shows "hm_get_or True (ws_availability (update_scheduled_availability w epoch)) a"
proof -
  let ?f = "\<lambda>a. \<not> scheduled_outage_active w epoch \<or> a \<notin> ws_outage_addresses w"
  have "map_of (map (\<lambda>(a, _). (a, ?f a)) m) a \<noteq> Some False" for m :: "(address \<times> bool) list"
    using assms by (induction m) auto
  then show ?thesis
    by (simp add: update_scheduled_availability_def hm_get_or_def split: option.splits) (metis (full_types))
qed

lemma online_enter_slot:
  assumes "\<not> scheduled_outage_active w (sm_current_epoch (ws_slot w)) \<or> a \<notin> ws_outage_addresses w"
  shows "hm_get_or True (ws_availability (enter_slot E vs i w)) a"
  unfolding enter_slot_def using assms by (intro online_outside_outage) (simp add: scheduled_outage_active_def)

lemma ready_cong:
  assumes "ws_wallets w' = ws_wallets w" "ws_mempools w' = ws_mempools w" "ws_blockchain w' = ws_blockchain w"
    "ws_max_tx_per_block w' = ws_max_tx_per_block w"
  shows "ready C reg pools w' v = ready C reg pools w v"
  using assms by (simp add: ready_def proposing_node_def)

lemma ready_turn_produces:
  assumes "hex_laws C" "bls_sign_laws C" "bls_aggregate_laws C" and "ready C reg pools w miner"
    and "chain_before (ws_blockchain w) (sm_current_epoch (ws_slot w)) (sm_current_slot (ws_slot w))"
    and "fresh_hashes C (ws_blockchain w)" and "hm_get_or True (ws_availability w) (v_address miner)"
  obtains b w' pools' out d sl where
    "proposer_turn C reg E now pools w vs miner = Some (w', pools', out, d, Some sl)"
    "pd_block_produced d" "pd_address d = v_address miner" "last (blocks (ws_blockchain w')) = b"
    "hd_miner (blk_header b) = v_address miner" "ws_success w' = ws_success w + 1"
    "carries_evidence C reg b"
proof -
  let ?w = "count_proposer w miner"
  have "ready C reg pools ?w miner" using assms(4) by (simp add: ready_cong [of ?w w])
  moreover have "chain_before (ws_blockchain ?w) (sm_current_epoch (ws_slot ?w)) (sm_current_slot (ws_slot ?w))"
    "fresh_hashes C (ws_blockchain ?w)" using assms(5,6) by simp_all
  ultimately obtain b w' pools' out where p:
    "propose C reg E now pools ?w miner True = Some (w', pools', out, True, '''')"
    "last (blocks (ws_blockchain w')) = b" "hd_miner (blk_header b) = v_address miner"
    "ws_success w' = ws_success ?w + 1" "carries_evidence C reg b"
    by (rule ready_proposes [OF assms(1-3)])
  from propose_outcome [OF p(1)] obtain b' bc where
    "add_block C (ws_blockchain w) b' = Some (Inr bc)" "ws_blockchain w' = bc"
    by (auto simp: turn_produced_def)
  then have "blocks (ws_blockchain w') \<noteq> []" using add_block_nonempty by blast
  then obtain sl where "collect_slot_metrics E w' miner = Some sl"
    by (auto simp: collect_slot_metrics_def get_last_block_def Let_def)
  with p(1) assms(7) show ?thesis
    by (intro that [OF _ _ _ p(2,3) _ p(5)]) (auto simp: proposer_turn_def Let_def proposer_duty_row_def p(4))
qed


text \<open>Entering a slot inside an epoch.\<close>

lemma mid_epoch_entry:
  assumes "sm_current_slot (ws_slot w) + 1 < ws_slot_per_epoch w" and "blocks (ws_blockchain w) \<noteq> []"
  obtains w' i where
    "world_next_slot C reg E K inp now pools w
      = map_option Continue (hold_slot C reg E now pools w' (ws_validators w) None)"
    "same_ledger w w'" "sm_current_epoch (ws_slot w') = sm_current_epoch (ws_slot w)"
    "sm_current_slot (ws_slot w') = sm_current_slot (ws_slot w) + 1"
    "ws_consensus w' = eng_next_slot E (ws_consensus w) (ws_validators w) i"
    "\<forall>a. \<not> (scheduled_outage_active w (sm_current_epoch (ws_slot w)) \<and> a \<in> ws_outage_addresses w)
      \<longrightarrow> hm_get_or True (ws_availability w') a"
proof -
  let ?i = "hd_index (blk_header (last (blocks (ws_blockchain w))))"
  define w1 where "w1 = w\<lparr>ws_slot := fresh_slot C now w (sm_current_epoch (ws_slot w))
      (sm_current_slot (ws_slot w) + 1) ?i\<rparr>"
  have "\<not> ws_slot_per_epoch w - 1 \<le> sm_current_slot (ws_slot w)" "ws_slot_per_epoch w \<noteq> 0"
    using assms(1) by linarith+
  then have adv: "advance_slot C (evidence_verifier C reg) E K inp now w ?i = Some (Continue (w1, None))"
    by (simp add: advance_slot_def Let_def w1_def)
  show ?thesis
  proof (rule that [of "enter_slot E (ws_validators w) ?i w1" ?i])
    show "world_next_slot C reg E K inp now pools w = map_option Continue
        (hold_slot C reg E now pools (enter_slot E (ws_validators w) ?i w1) (ws_validators w) None)"
      using adv assms(2) by (simp add: world_next_slot_def get_last_index_def get_last_block_def Let_def)
    show "same_ledger w (enter_slot E (ws_validators w) ?i w1)"
      by (rule same_ledger_trans [OF advance_slot_frame [OF adv] enter_slot_frame(1)])
    show "\<forall>a. \<not> (scheduled_outage_active w (sm_current_epoch (ws_slot w)) \<and> a \<in> ws_outage_addresses w)
        \<longrightarrow> hm_get_or True (ws_availability (enter_slot E (ws_validators w) ?i w1)) a"
      using online_enter_slot [of w1 _ E "ws_validators w" ?i]
      by (simp add: w1_def fresh_slot_def scheduled_outage_active_def)
  qed (simp_all add: w1_def fresh_slot_def enter_slot_def availability_frame(3,4))
qed

lemma slot_produces:
  assumes "hex_laws C" "bls_sign_laws C" "bls_aggregate_laws C"
    and "config_validate (config (ws_consensus w)) = Inr ()" "distinct (map v_address (ws_validators w))"
    and "0 < total_stake (ws_validators w)" "electable (ws_consensus w) (ws_validators w)"
    and "sm_current_slot (ws_slot w) + 1 < ws_slot_per_epoch w"
    and "\<forall>v \<in> set (ws_validators w). ready C reg pools w v
      \<and> \<not> (scheduled_outage_active w (sm_current_epoch (ws_slot w)) \<and> v_address v \<in> ws_outage_addresses w)"
    and "chain_before (ws_blockchain w) (sm_current_epoch (ws_slot w)) (sm_current_slot (ws_slot w) + 1)"
    and "fresh_hashes C (ws_blockchain w)"
  shows "\<exists>w' pools' so d b. world_next_slot C reg (topo_engine ver gen_range) K inp now pools w
      = Some (Continue (w', pools', so))
    \<and> so_duty so = Some d \<and> pd_block_produced d \<and> pd_address d \<in> v_address ` set (ws_validators w)
    \<and> last (blocks (ws_blockchain w')) = b \<and> hd_miner (blk_header b) = pd_address d
    \<and> ws_success w' = ws_success w + 1 \<and> carries_evidence C reg b"
proof -
  let ?E = "topo_engine ver gen_range" and ?vs = "ws_validators w"
  have "blocks (ws_blockchain w) \<noteq> []" using assms(10) by (simp add: chain_before_def)
  with assms(8) obtain w2 i where w2: "world_next_slot C reg ?E K inp now pools w
      = map_option Continue (hold_slot C reg ?E now pools w2 ?vs None)"
    and led: "same_ledger w w2" and slot: "sm_current_epoch (ws_slot w2) = sm_current_epoch (ws_slot w)"
    "sm_current_slot (ws_slot w2) = sm_current_slot (ws_slot w) + 1"
    and cons: "ws_consensus w2 = eng_next_slot ?E (ws_consensus w) ?vs i"
    and online: "\<forall>a. \<not> (scheduled_outage_active w (sm_current_epoch (ws_slot w)) \<and> a \<in> ws_outage_addresses w)
      \<longrightarrow> hm_get_or True (ws_availability w2) a"
    by (rule mid_epoch_entry)
  obtain st v where sel: "eng_select_proposer ?E (ws_consensus w2) ?vs (sm_next_seed (ws_slot w2)) = Some (st, Inr v)"
    using election_returns [OF assms(4-7), of gen_range "sm_next_seed (ws_slot w2)"]
    by (auto simp: topo_engine_def cons)
  have v: "v \<in> set ?vs" using sel by (rule topo_sim.select_validator)
  let ?w3 = "w2\<lparr>ws_consensus := st\<rparr>"
  have "ready C reg pools ?w3 v" using assms(9) v led by (simp add: ready_cong [of ?w3 w] same_ledger_def)
  moreover have "chain_before (ws_blockchain ?w3) (sm_current_epoch (ws_slot ?w3)) (sm_current_slot (ws_slot ?w3))"
    "fresh_hashes C (ws_blockchain ?w3)" using assms(10,11) led by (simp_all add: slot same_ledger_def)
  moreover have "hm_get_or True (ws_availability ?w3) (v_address v)" using assms(9) v online by simp
  ultimately obtain b w' pools' out d sl where turn:
    "proposer_turn C reg ?E now pools ?w3 ?vs v = Some (w', pools', out, d, Some sl)" "pd_block_produced d"
    "pd_address d = v_address v" "last (blocks (ws_blockchain w')) = b" "hd_miner (blk_header b) = v_address v"
    "ws_success w' = ws_success ?w3 + 1" "carries_evidence C reg b"
    by (rule ready_turn_produces [OF assms(1-3)])
  with sel w2 have "world_next_slot C reg ?E K inp now pools w = Some (Continue (w', pools',
      \<lparr>so_outbox = slot_announcements w2 ?vs @ out, so_duty = Some d, so_metrics = Some sl, so_epoch = None\<rparr>))"
    by (simp add: hold_slot_def)
  with turn v led show ?thesis by (auto simp: same_ledger_def)
qed


section \<open>Reachable worlds\<close>

text \<open>
  The coordinator handles messages and ticks in any order, while the nodes change their
  mempools; the caches, counters and clock of a tick are arbitrary.
\<close>

inductive world_step ::
  "('g, 'x) world_env_scheme \<Rightarrow> bls_registry \<Rightarrow> 's engine \<Rightarrow> 's world \<times> mempools \<Rightarrow> 's world \<times> mempools \<Rightarrow> bool"
  for C reg E where
  handle: "world_handle C E w m = Some (w', out) \<Longrightarrow> world_step C reg E (w, pools) (w', pools)"
| tick: "world_next_slot C reg E K inp now pools w = Some (Continue (w', pools', so))
    \<Longrightarrow> world_step C reg E (w, pools) (w', pools')"
| nodes: "world_step C reg E (w, pools) (w, pools')"

definition world_ok :: "topo_state world \<Rightarrow> bool" where
  "world_ok w \<longleftrightarrow> distinct (map v_address (ws_validators w)) \<and> distinct (ws_adversarial w)
     \<and> config_validate (config (ws_consensus w)) = Inr ()"

lemma config_distribute [simp]: "config (fst (topo_distribute_rewards ver st b vs)) = config st"
  by (simp add: topo_distribute_rewards_def settle_matured_rewards_def Let_def split: prod.splits)

lemma config_epoch_end [simp]: "config (topo_on_epoch_end ver st bs vs) = config st"
  by (simp add: topo_on_epoch_end_def freeze_proposer_weights_def activate_score_roots_for_epoch_def
      enqueue_score_root_def update_scores_from_epoch_def Let_def split: prod.splits)

lemma config_select:
  "topo_select_proposer gen_range st vs seed = Some (st', r) \<Longrightarrow> config st' = config st"
  by (auto simp: topo_select_proposer_def select_with_frozen_weights_def freeze_proposer_weights_def Let_def
      split: if_splits option.splits)

lemma world_ok_cong:
  assumes "world_ok w" "ws_validators w' = ws_validators w" "ws_adversarial w' = ws_adversarial w"
    "config (ws_consensus w') = config (ws_consensus w)"
  shows "world_ok w'"
  using assms by (simp add: world_ok_def)

lemma world_handle_ok:
  assumes "world_ok w" and "world_handle C (topo_engine ver gen_range) w m = Some (w', out)"
  shows "world_ok w'"
proof (cases m)
  case (SendBlock b sender)
  with assms(2) show ?thesis
    using settle_block_fields [of "topo_engine ver gen_range"]
    by (auto simp: world_handle_def world_send_block_def topo_engine_def
        intro!: world_ok_cong [OF assms(1)] split: option.splits sum.splits if_splits dest!: arg_cong [of _ _ fst])
next
  case (ReceiveBecomeValidator v)
  with assms show ?thesis
    by (auto simp: world_handle_def become_validator_def world_ok_def distinct_map_filter)
qed (use assms in \<open>auto simp: world_handle_def world_response_block_sync_def world_ok_def
    split: option.splits if_splits\<close>)


lemma turn_ok:
  assumes "world_ok w" and "proposer_turn C reg (topo_engine ver gen_range) now pools w vs miner = Some (w', pools', out, d, sl)"
  shows "world_ok w'"
proof -
  obtain p r where run: "propose C reg (topo_engine ver gen_range) now pools (count_proposer w miner) miner
      (hm_get_or True (ws_availability w) (v_address miner)) = Some (w', pools', out, p, r)"
    using assms(2) by (rule proposer_turn_run)
  have "ws_validators w' = ws_validators w \<and> ws_adversarial w' = ws_adversarial w
      \<and> config (ws_consensus w') = config (ws_consensus w)"
    using propose_outcome [OF run]
    by (auto simp: turn_failed_def turn_produced_def topo_engine_def split: if_splits)
  with assms(1) show ?thesis by (simp add: world_ok_def)
qed

lemma advance_slot_config:
  assumes "advance_slot C ver' (topo_engine ver gen_range) K inp now w i = Some (Continue (w', eo))"
  shows "config (ws_consensus w') = config (ws_consensus w)"
proof (cases "ws_slot_per_epoch w - 1 \<le> sm_current_slot (ws_slot w)")
  case True
  with assms obtain z where z: "world_next_epoch C ver' (topo_engine ver gen_range) K inp now w = Some z"
    "(case z of Exit out \<Rightarrow> Exit out | Continue (w', out) \<Rightarrow> Continue (w', Some out)) = Continue (w', eo)"
    by (auto simp: advance_slot_def Let_def split: if_splits)
  then obtain out where "z = Continue (w', out)" by (cases z) auto
  with z(1) have "world_next_epoch C ver' (topo_engine ver gen_range) K inp now w = Some (Continue (w', out))"
    by simp
  from world_next_epoch_frame [OF this] show ?thesis by (auto simp: topo_engine_def)
next
  case False
  with assms show ?thesis by (auto simp: advance_slot_def Let_def split: if_splits)
qed

lemma world_next_slot_ok:
  assumes "world_ok w"
    and "world_next_slot C reg (topo_engine ver gen_range) K inp now pools w = Some (Continue (w', pools', so))"
  shows "world_ok w'"
proof -
  let ?E = "topo_engine ver gen_range" and ?vs = "ws_validators w"
  obtain i w1 eo where run: "advance_slot C (evidence_verifier C reg) ?E K inp now w i = Some (Continue (w1, eo))"
    "hold_slot C reg ?E now pools (enter_slot ?E ?vs i w1) ?vs eo = Some (w', pools', so)"
    using assms(2) by (rule world_next_slot_run)
  define w2 where "w2 = enter_slot ?E ?vs i w1"
  have "same_ledger w w2"
    unfolding w2_def by (rule same_ledger_trans [OF advance_slot_frame [OF run(1)] enter_slot_frame(1)])
  moreover have "config (ws_consensus w2) = config (ws_consensus w)"
    using advance_slot_config [OF run(1)]
    by (simp add: w2_def enter_slot_def availability_frame(4) topo_engine_def)
  ultimately have ok: "world_ok (w2\<lparr>ws_consensus := st\<rparr>)" if "config st = config (ws_consensus w2)" for st
    using assms(1) that by (simp add: world_ok_def same_ledger_def)
  obtain st r where sel: "eng_select_proposer ?E (ws_consensus w2) ?vs (sm_next_seed (ws_slot w2)) = Some (st, r)"
    using run(2) by (auto simp: hold_slot_def w2_def Let_def split: option.splits)
  then have "config st = config (ws_consensus w2)" by (simp add: topo_engine_def config_select)
  note ok = ok [OF this]
  show ?thesis
  proof (cases r)
    case (Inl e)
    with run(2) sel ok show ?thesis by (auto simp: hold_slot_def w2_def [symmetric] Let_def)
  next
    case (Inr v)
    with run(2) sel obtain out d sl where
      "proposer_turn C reg ?E now pools (w2\<lparr>ws_consensus := st\<rparr>) ?vs v = Some (w', pools', out, d, sl)"
      by (auto simp: hold_slot_def w2_def [symmetric] Let_def)
    with ok show ?thesis by (rule turn_ok)
  qed
qed

lemma world_reach_ok:
  assumes "(world_step C reg (topo_engine ver gen_range))\<^sup>*\<^sup>* (w0, pools0) (w, pools)" and "world_ok w0"
  shows "world_ok w"
proof -
  have "world_ok (fst s')" if "(world_step C reg (topo_engine ver gen_range))\<^sup>*\<^sup>* s s'" "world_ok (fst s)" for s s'
    using that
  proof (induction rule: rtranclp_induct)
    case (step y z)
    then have "world_ok (fst y)" by blast
    with step(2) show ?case
      by cases (auto intro: world_handle_ok world_next_slot_ok)
  qed
  from this [OF assms(1)] assms(2) show ?thesis by simp
qed

text \<open>
  C18.  Reported bounds hold.  In every world reached from a fresh one by messages and slots
  in any order, when an epoch ends under TopoStake and no stake is negative and some is
  positive, the report of the epoch flags no violation: the coalition's share of the
  election weights is at most the score-dependent bound, and that is at most the
  theoretical one.
\<close>

theorem epoch_reports_respect_bounds:
  assumes "topo_new base cfg = Inr st" and "distinct (ws_adversarial w0)"
    and "ws_consensus w0 = st" and "ws_validators w0 = []"
    and "(world_step C reg (topo_engine ver gen_range))\<^sup>*\<^sup>* (w0, pools0) (w, pools)"
    and "\<forall>v \<in> set (ws_validators w). 0 \<le> v_stake v" and "0 < total_stake (ws_validators w)"
    and "world_next_epoch C ver' (topo_engine ver gen_range) K inp now w = Some r"
  shows "let m = ep_metrics (case r of Continue (w', out) \<Rightarrow> out | Exit out \<Rightarrow> out) in
    \<not> em_bound_violation m \<and> em_adversary_weight_share m \<le> em_score_dependent_bound m
    \<and> em_score_dependent_bound m \<le> em_theoretical_bound m"
proof -
  let ?E = "topo_engine ver gen_range" and ?vs = "ws_validators w" and ?adv = "ws_adversarial w"
  have "world_ok w0" using assms(1-4) by (simp add: world_ok_def topo_newD)
  then have ok: "world_ok w" by (rule world_reach_ok [OF assms(5)])
  obtain bs w3 w1 out where col: "collect_epoch_metrics C ver' ?E K inp w1 (sm_current_epoch (ws_slot w)) bs ?vs
      = Some (w3, out)"
    "ws_consensus w1 = eng_on_epoch_end ?E (ws_consensus w) bs ?vs" "ws_adversarial w1 = ?adv"
    "(case r of Continue (w', out) \<Rightarrow> out | Exit out \<Rightarrow> out) = out"
    using assms(8) by (rule world_next_epoch_collects)
  define st' where "st' = activate_score_roots_for_epoch
      (enqueue_score_root (update_scores_from_epoch ver (ws_consensus w) bs ?vs) (next_epoch (ws_consensus w))
        \<lparr>next_epoch := next_epoch (ws_consensus w) + 1\<rparr>) (next_epoch (ws_consensus w) + 1)"
  have fr: "ws_consensus w1 = freeze_proposer_weights st' ?vs"
    by (simp add: col(2) topo_engine_def topo_on_epoch_end_def st'_def Let_def)
  have "config st' = config (ws_consensus w)"
    by (simp add: st'_def activate_score_roots_for_epoch_def enqueue_score_root_def update_scores_from_epoch_def
        Let_def split: prod.splits)
  then have c: "config_validate (config st') = Inr ()" "distinct (map v_address ?vs)" "distinct ?adv"
    using ok by (simp_all add: world_ok_def)
  let ?snap = "topo_metrics_snapshot (freeze_proposer_weights st' ?vs)"
  have "em_bound_violation (ep_metrics out) = bound_violation ?adv ?snap ?vs"
    "em_adversary_weight_share (ep_metrics out) = share_for ?adv (reported_weights ?snap ?vs)"
    "em_score_dependent_bound (ep_metrics out) = score_dependent_bound ?adv ?snap ?vs"
    "em_theoretical_bound (ep_metrics out) = theoretical_bound ?adv ?snap ?vs"
    using col(1,3) fr by (auto simp: collect_epoch_metrics_def epoch_metrics_row_def topo_engine_def Let_def
        split: option.splits)
  with reported_bounds [OF c(1,2) assms(6,7) c(3)] show ?thesis
    unfolding col(4) by (simp add: Let_def bound_violation_def)
qed

section \<open>Where the coordinator fails\<close>

lemma observe_no_blocks: "\<exists>obs. observe_epoch C ver K w [] = Some obs"
  by (simp add: observe_epoch_def)

lemma last_epoch_blocks:
  assumes "get_last_epoch_block bc = Some bs" and "b \<in> set bs"
  shows "hd_epoch (blk_header b) = hd_epoch (blk_header (last (blocks bc)))"
  using assms by (auto simp: get_last_epoch_block_def get_last_epoch_slot_def get_last_block_def
      dest!: set_takeWhileD split: if_splits)

lemma epoch_end_score:
  assumes "distinct (map v_address vs)" "0 < total_stake vs" "v \<in> set vs"
  shows "hm_get_or 0 (score_history (topo_on_epoch_end ver st bs vs)) (v_address v)
    = beta (config st) * saturated_contribution
        (hm_get_or 0 (raw_epoch_contribution (config st) ver bs vs) (v_address v)) (stake_share vs v) (saturation_k (config st))
      + (1 - beta (config st)) * hm_get_or 0 (score_history st) (v_address v)"
proof -
  let ?next = "next_score st (normalized_stake vs) (raw_epoch_contribution (config st) ver bs vs)"
  have "score_history (topo_on_epoch_end ver st bs vs) = map (\<lambda>v. (v_address v, ?next (v_address v))) vs"
    using foldl_insert_distinct [of "[]" v_address vs "\<lambda>v. ?next (v_address v)"] assms(1)
    by (simp add: on_epoch_end_scores(1) update_scores_from_epoch_def Let_def)
  moreover have "hm_get_or 0 (map (\<lambda>v. (v_address v, f v)) vs) (v_address v) = (f v :: real)" for f
    using assms(1,3) by (rule hm_get_or_map)
  ultimately show ?thesis by (simp only: next_score_def normalized_stake_eq [OF assms(1,2)])
qed

lemma saturated_pos: "0 < x \<Longrightarrow> 0 < s \<Longrightarrow> 0 < k \<Longrightarrow> 0 < saturated_contribution x s k"
  by (simp add: saturated_eq ln_gt_zero)

lemma quiet_epoch_ends:
  assumes "get_last_epoch_block (ws_blockchain w) = Some bs"
    and "filter (\<lambda>b. 0 < hd_index (blk_header b) \<and> hd_epoch (blk_header b) = sm_current_epoch (ws_slot w)) bs = []"
  obtains w' out where "world_next_epoch C ver E K inp now w
      = Some (if ws_max_epochs w \<le> sm_current_epoch (ws_slot w) + 1 then Exit out else Continue (w', out))"
    "em_included_tx (ep_metrics out) = 0"
proof -
  let ?e = "sm_current_epoch (ws_slot w)" and ?vs = "ws_validators w"
  let ?w1 = "epoch_availability True w (?e + 1)"
  let ?w2 = "?w1\<lparr>ws_consensus := eng_on_epoch_end E (ws_consensus w) bs ?vs\<rparr>"
  note w1 = availability_frame(2,5,6) [where onset = True and w = w and epoch = "?e + 1"]
  obtain obs where "observe_epoch C ver K ?w2 [] = Some obs" using observe_no_blocks by blast
  with assms(2) obtain w3 out where col: "collect_epoch_metrics C ver E K inp ?w2 ?e bs ?vs = Some (w3, out)"
    "em_included_tx (ep_metrics out) = 0" "ws_max_epochs w3 = ws_max_epochs ?w1"
    by (auto simp: collect_epoch_metrics_def epoch_metrics_row_def Let_def)
  have max: "ws_max_epochs (epoch_availability onset u e) = ws_max_epochs u" for onset e and u :: "'a world"
    by (simp add: epoch_availability_def update_scheduled_availability_def)
  have "blocks (ws_blockchain w) \<noteq> []"
    using assms(1) by (auto simp: get_last_epoch_block_def get_last_epoch_slot_def get_last_block_def split: if_splits)
  with col w1 assms(1) show ?thesis
    by (intro that [OF _ col(2)])
      (simp add: world_next_epoch_def Let_def same_ledger_def get_last_index_def get_last_block_def max)
qed

text \<open>
  C39.  An epoch without blocks is credited for an earlier one.  When the last block of the
  canonical chain is of an earlier epoch and the run goes on, the end of the epoch succeeds
  and reports no included transaction.  Yet a validator with positive stake that
  contributed to the epoch of that last block has its score raised above the decayed one:
  the same blocks are scored once more.
\<close>

theorem idle_epoch_credits_again:
  assumes "config_validate (config (ws_consensus w)) = Inr ()" "distinct (map v_address (ws_validators w))"
    and "0 < total_stake (ws_validators w)" and "get_last_epoch_block (ws_blockchain w) = Some bs"
    and "hd_epoch (blk_header (last (blocks (ws_blockchain w)))) < sm_current_epoch (ws_slot w)"
    and "sm_current_epoch (ws_slot w) + 1 < ws_max_epochs w"
    and "v \<in> set (ws_validators w)" "0 < v_stake v"
    and "0 < hm_get_or 0 (raw_epoch_contribution (config (ws_consensus w)) ver bs (ws_validators w)) (v_address v)"
  shows "\<exists>w' out. world_next_epoch C ver' (topo_engine ver gen_range) K inp now w = Some (Continue (w', out))
    \<and> em_included_tx (ep_metrics out) = 0
    \<and> (1 - beta (config (ws_consensus w))) * hm_get_or 0 (score_history (ws_consensus w)) (v_address v)
      < hm_get_or 0 (score_history (ws_consensus w')) (v_address v)"
proof -
  let ?E = "topo_engine ver gen_range" and ?e = "sm_current_epoch (ws_slot w)" and ?vs = "ws_validators w"
  have "filter (\<lambda>b. 0 < hd_index (blk_header b) \<and> hd_epoch (blk_header b) = ?e) bs = []"
    using last_epoch_blocks [OF assms(4)] assms(5) by (auto simp: filter_empty_conv)
  with assms(4) obtain w' out where ended: "world_next_epoch C ver' ?E K inp now w
      = Some (if ws_max_epochs w \<le> ?e + 1 then Exit out else Continue (w', out))"
    "em_included_tx (ep_metrics out) = 0"
    by (rule quiet_epoch_ends)
  with assms(6) have run: "world_next_epoch C ver' ?E K inp now w = Some (Continue (w', out))" by simp
  have "ws_consensus w' = topo_on_epoch_end ver (ws_consensus w) bs ?vs"
    using world_next_epoch_frame [OF run] assms(4) by (auto simp: topo_engine_def)
  moreover have "0 < saturated_contribution
      (hm_get_or 0 (raw_epoch_contribution (config (ws_consensus w)) ver bs ?vs) (v_address v)) (stake_share ?vs v)
      (saturation_k (config (ws_consensus w)))"
    using assms(3,8,9) config_validateD(4) [OF assms(1)] by (intro saturated_pos) (simp_all add: stake_share_def)
  ultimately show ?thesis
    using run ended(2) config_validateD(2) [OF assms(1)] epoch_end_score [OF assms(2,3,7)]
    by (intro exI [of _ w'] exI [of _ out]) simp
qed

lemma pop_matured_keeps_last:
  "now < settle_at_block x \<Longrightarrow> x \<in> set (snd (pop_matured now (q @ [x]) acc))"
  by (induction q arbitrary: acc) auto

lemma empty_block_batch:
  assumes "block_txs b = []" and "0 < reward_settlement_depth (config st)"
  shows "\<lparr>settle_at_block = hd_index (blk_header b) + reward_settlement_depth (config st),
      batch_rewards = [\<lparr>bd_address = hd_miner (blk_header b), bd_amount = base_reward st\<rparr>]\<rparr>
    \<in> set (pending_rewards (fst (topo_distribute_rewards ver st b vs)))"
  using assms pop_matured_keeps_last [of "hd_index (blk_header b)"]
  by (simp add: topo_distribute_rewards_def compute_block_rewards_def settle_matured_rewards_def Let_def case_prod_beta)

text \<open>
  C38.  Any block that extends the chain is paid.  An empty block that any wallet builds on
  the last canonical block, for any epoch and slot not before it, is accepted when it is
  sent to the coordinator: it becomes the head, counts as a success, and the base reward of
  its author enters the queue of rewards.  Neither election, nor stake, nor the current
  slot is consulted.
\<close>

theorem unelected_block_paid:
  assumes "hex_laws C" and "chain_before (ws_blockchain w) epoch slot" and "fresh_hashes C (ws_blockchain w)"
    and "0 < reward_settlement_depth (config (ws_consensus w))"
  shows "\<exists>b w' out. block_new C now (hd_index (blk_header (last (blocks (ws_blockchain w)))) + 1) epoch slot
      (hd_hash (blk_header (last (blocks (ws_blockchain w))))) \<lparr>body_transactions = [], body_paths = []\<rparr> wal
      = Some (Inr b)
    \<and> world_handle C (topo_engine ver gen_range) w (SendBlock b sender) = Some (w', out)
    \<and> last (blocks (ws_blockchain w')) = b \<and> ws_success w' = ws_success w + 1
    \<and> \<lparr>settle_at_block = hd_index (blk_header b) + reward_settlement_depth (config (ws_consensus w)),
        batch_rewards = [\<lparr>bd_address = w_address wal, bd_amount = base_reward (ws_consensus w)\<rparr>]\<rparr>
      \<in> set (pending_rewards (ws_consensus w'))"
proof -
  let ?E = "topo_engine ver gen_range" and ?bc = "ws_blockchain w"
  let ?body = "\<lparr>body_transactions = [], body_paths = []\<rparr>"
  have ne: "blocks ?bc \<noteq> []" using assms(2) by (simp add: chain_before_def)
  have "all_tx_verify C (body_transactions ?body) = Some True"
    "length (body_paths ?body) \<le> length (body_transactions ?body)"
    "\<not> list_ex (\<lambda>t. exist_transaction ?bc (tx_hash t)) (body_transactions ?body)"
    by simp_all
  then obtain b where b: "block_new C now (hd_index (blk_header (last (blocks ?bc))) + 1) epoch slot
      (hd_hash (blk_header (last (blocks ?bc)))) ?body wal = Some (Inr b)" "blk_body b = ?body"
    "hd_miner (blk_header b) = w_address wal" "add_block C ?bc b = Some (Inr (prune (push_block ?bc b)))"
    by (rule block_extends [OF assms(1)]) (use assms(2,3) ne in \<open>simp_all add: chain_before_def fresh_hashes_def\<close>)
  let ?w = "w\<lparr>ws_blockchain := prune (push_block ?bc b)\<rparr>"
  have "world_handle C ?E w (SendBlock b sender) = Some (settle_block ?E ?w b)"
    using b(4) by (simp add: world_handle_def world_send_block_def)
  moreover have "ws_consensus (fst (settle_block ?E ?w b))
      = fst (topo_distribute_rewards ver (ws_consensus w) b (ws_validators w))"
    by (simp add: topo_engine_def)
  moreover have "block_txs b = []" using b(2) by simp
  ultimately show ?thesis
    using b empty_block_batch [of b "ws_consensus w" ver "ws_validators w", OF _ assms(4)] last_prune_push [OF ne, of b]
    by (intro exI [of _ b] exI [of _ "fst (settle_block ?E ?w b)"] exI [of _ "snd (settle_block ?E ?w b)"]) simp
qed

text \<open>
  A node that pays for a transaction reports its balance to the coordinator; a reward credited
  before the report arrives is overwritten by it, and the balance the coordinator sent with
  the reward undoes the payment at the node.
\<close>

lemma crossing_balance_reports:
  fixes nd :: "'g node"
  defines "a \<equiv> get_address nd" and "left \<equiv> nd_balance nd - 2 * nd_transaction_fee nd"
  assumes "2 * nd_transaction_fee nd \<le> nd_balance nd" and "nd_is_online nd" "online 0"
    and "node_handle C reg now seed online K nd (GenerateTransactionPaths to) = Some (K', nd', out)"
    and "world_handle C E w m = Some (w', out')" "(ToNode a, UpdateNodeBalance x) \<in> set out'"
  shows "(ToWorld, UpdateAccountBalance a left) \<in> set out"
    and "\<exists>w''. world_handle C E w' (UpdateAccountBalance a left) = Some (w'', [])
      \<and> map_of (ws_balances w'') a = Some left"
    and "\<exists>nd''. node_handle C reg now seed online K' nd' (UpdateNodeBalance x) = Some (K', nd'', [])
      \<and> nd_balance nd'' = x"
proof -
  have sent: "(ToWorld, UpdateAccountBalance a left) \<in> set out \<and> nd_is_online nd'"
    using assms(3-6) unfolding a_def left_def
    by (auto simp: node_handle_def on_generate_transaction_paths_def deduct_balance_def get_address_def Let_def
        split: if_splits)
  then show "(ToWorld, UpdateAccountBalance a left) \<in> set out" ..
  show "\<exists>w''. world_handle C E w' (UpdateAccountBalance a left) = Some (w'', [])
      \<and> map_of (ws_balances w'') a = Some left"
    by (simp add: world_handle_def table_simps)
  show "\<exists>nd''. node_handle C reg now seed online K' nd' (UpdateNodeBalance x) = Some (K', nd'', [])
      \<and> nd_balance nd'' = x"
    using sent assms(5) by (simp add: node_handle_def)
qed

section \<open>A concrete world\<close>

definition sample_world_env :: "unit world_env" where
  "sample_world_env = sample_with (block_env_ext (\<lambda>p. concat (asp_paths p)) (\<lambda>h. show_nat (hd_index h))
     (node_env_ext (\<lambda>g p. (True, g)) (\<lambda>e s. []) (world_env_ext (\<lambda>d. None) ())))"

definition sample_members :: "validator list" where
  "sample_members =
     map (\<lambda>n. \<lparr>v_address = w_address (sample_wallet n), v_stake = 3, v_hash_power = 0\<rparr>) [1, 2]"

definition empty_world :: "topo_state world" where
  "empty_world = world_new sample_world_env (sample_blk 0 '''' []) sample_topo sample_chain 1 3 1 10 10 7 0"

definition sample_world :: "topo_state world" where
  "sample_world = (foldl become_validator empty_world sample_members)
     \<lparr>ws_wallets := map (\<lambda>n. (w_address (sample_wallet n), sample_wallet n)) [1, 2],
      ws_mempools := map (\<lambda>v. (v_address v, v_address v)) sample_members\<rparr>"

abbreviation no_mempools :: mempools where
  "no_mempools \<equiv> \<lambda>a. []"

abbreviation no_counters :: shared_counters where
  "no_counters \<equiv> \<lparr>sc_generated = 0, sc_fee_spent = [], sc_forward = []\<rparr>"

lemma sample_world_laws:
  "hex_laws sample_world_env" "bls_sign_laws sample_world_env" "bls_aggregate_laws sample_world_env"
  by (simp_all add: sample_world_env_def sample_laws)

lemma sample_members_ok: "distinct (map v_address sample_members)" "0 < total_stake sample_members"
  by (simp_all add: sample_members_def total_stake_def sample_address_inj)

lemma sample_world_fields [simp]:
  "ws_validators sample_world = sample_members" "ws_consensus sample_world = sample_topo"
  "ws_blockchain sample_world = sample_chain" "sm_current_slot (ws_slot sample_world) = 0"
  "sm_current_epoch (ws_slot sample_world) = 0" "ws_slot_per_epoch sample_world = 3"
  "ws_outage_addresses sample_world = {}" "ws_success sample_world = 0"
  by (simp_all add: sample_world_def empty_world_def world_new_def become_validator_def sample_members_def
      sample_address_inj)

lemma sample_world_ready: "v \<in> set sample_members \<Longrightarrow> ready sample_world_env sample_registry no_mempools sample_world v"
  by (auto simp: ready_def sample_members_def sample_world_def node_ok_def hm_ok_def honest_wallet_def
      sample_address_inj sample_registered sample_wallet_wf sample_world_env_def)

lemma sample_world_chain:
  "chain_before sample_chain 0 (Suc 0)" "fresh_hashes sample_world_env sample_chain"
proof -
  have "get_hash sample_world_env h = sample_hash (hd_index h)" for h
    by (simp add: get_hash_def sample_hash_def sample_world_env_def hasher_hash_def sample_with_def)
  then show "fresh_hashes sample_world_env sample_chain"
    using sample_hash_01(1) by (simp add: fresh_hashes_def sample_blk_hash)
qed (simp add: chain_before_def)



lemma epoch_reports_respect_bounds_witness:
  "\<exists>w r. (world_step sample_world_env sample_registry (topo_engine (\<lambda>_ _ _ _. True) (\<lambda>_ x. x / 2)))\<^sup>*\<^sup>*
      (empty_world\<lparr>ws_adversarial := [w_address (sample_wallet 1)]\<rparr>, no_mempools) (w, no_mempools)
    \<and> real_stake_share (ws_adversarial w) (ws_validators w) = 1 / 2
    \<and> world_next_epoch sample_world_env (\<lambda>_ _ _ _. True) (topo_engine (\<lambda>_ _ _ _. True) (\<lambda>_ x. x / 2))
        no_caches no_counters 5 w = Some r
    \<and> (let m = ep_metrics (case r of Continue (w', out) \<Rightarrow> out | Exit out \<Rightarrow> out) in
      \<not> em_bound_violation m \<and> em_adversary_weight_share m \<le> em_score_dependent_bound m
      \<and> em_score_dependent_bound m \<le> em_theoretical_bound m)"
proof -
  let ?E = "topo_engine (\<lambda>_ _ _ _. True) (\<lambda>_ x. x / 2)"
  let ?w0 = "empty_world\<lparr>ws_adversarial := [w_address (sample_wallet 1)]\<rparr>"
  define w where "w = become_validator (become_validator ?w0 (sample_members ! 0)) (sample_members ! 1)"
  have "world_step sample_world_env sample_registry ?E (u, no_mempools) (become_validator u v, no_mempools)" for u v
    by (rule world_step.handle [of _ _ _ "ReceiveBecomeValidator v" _ "[]"]) (simp add: world_handle_def)
  then have reach: "(world_step sample_world_env sample_registry ?E)\<^sup>*\<^sup>* (?w0, no_mempools) (w, no_mempools)"
    unfolding w_def by (meson converse_rtranclp_into_rtranclp rtranclp.rtrancl_refl)
  have w: "ws_validators w = sample_members" "ws_adversarial w = [w_address (sample_wallet 1)]"
    "ws_blockchain w = sample_chain"
    by (simp_all add: w_def become_validator_def sample_members_def empty_world_def world_new_def sample_address_inj)
  have "real_stake_share (ws_adversarial w) (ws_validators w) = 1 / 2"
    by (simp add: w real_stake_share_def sample_members_def sample_address_inj share_for_def hm_collect_def
        table_simps hm_values_def hm_insert_def hm_get_or_def)
  moreover obtain r where r: "world_next_epoch sample_world_env (\<lambda>_ _ _ _. True) ?E no_caches no_counters 5 w = Some r"
    by (rule quiet_epoch_ends [of w "[sample_blk 0 '''' []]" sample_world_env "\<lambda>_ _ _ _. True" ?E no_caches no_counters 5])
      (simp_all add: w get_last_epoch_block_def get_last_epoch_slot_def get_last_block_def)
  moreover have "let m = ep_metrics (case r of Continue (w', out) \<Rightarrow> out | Exit out \<Rightarrow> out) in
      \<not> em_bound_violation m \<and> em_adversary_weight_share m \<le> em_score_dependent_bound m
      \<and> em_score_dependent_bound m \<le> em_theoretical_bound m"
    by (rule epoch_reports_respect_bounds [OF sample_topo_new _ _ _ reach _ _ r])
      (use w sample_members_ok in \<open>simp_all add: empty_world_def world_new_def sample_members_def\<close>)
  ultimately show ?thesis using reach by blast
qed

text \<open>A world in epoch 1 whose only block, of epoch 0, credits the validator \<open>n\<close>.\<close>

definition idle_world :: "topo_state world" where
  "idle_world = empty_world\<lparr>ws_validators := sample_validators, ws_blockchain := blockchain_new credited_blk,
     ws_slot := (ws_slot empty_world)\<lparr>sm_current_epoch := 1\<rparr>\<rparr>"

lemma idle_world_fields [simp]:
  "ws_consensus idle_world = sample_topo" "ws_validators idle_world = sample_validators"
  "ws_blockchain idle_world = blockchain_new credited_blk" "sm_current_epoch (ws_slot idle_world) = 1"
  "ws_max_epochs idle_world = 10"
  by (simp_all add: idle_world_def empty_world_def world_new_def)

lemma idle_epoch_credits_again_witness:
  "\<exists>w' out. world_next_epoch sample_world_env (\<lambda>_ _ _ _. True) (topo_engine (\<lambda>_ _ _ _. True) (\<lambda>_ x. x / 2))
      no_caches no_counters 5 idle_world = Some (Continue (w', out))
    \<and> em_included_tx (ep_metrics out) = 0
    \<and> (1 - beta (config (ws_consensus idle_world))) * hm_get_or 0 (score_history (ws_consensus idle_world)) ''n''
      < hm_get_or 0 (score_history (ws_consensus w')) ''n''"
  using credited_contribution
    idle_epoch_credits_again [of idle_world "[credited_blk]" "\<lparr>v_address = ''n'', v_stake = 1, v_hash_power = 0\<rparr>"
      "\<lambda>_ _ _ _. True" sample_world_env "\<lambda>_ _ _ _. True" "\<lambda>_ x. x / 2" no_caches no_counters 5]
    credited_in_set sample_validators_ok
  by (simp add: config_default_valid get_last_epoch_block_def get_last_epoch_slot_def get_last_block_def
      blockchain_new_def)

lemma unelected_block_paid_witness:
  "\<exists>b w' out. block_new sample_world_env 9 (hd_index (blk_header (last (blocks (ws_blockchain sample_world)))) + 1) 0 1
      (hd_hash (blk_header (last (blocks (ws_blockchain sample_world))))) \<lparr>body_transactions = [], body_paths = []\<rparr>
      (sample_wallet 4) = Some (Inr b)
    \<and> world_handle sample_world_env (topo_engine (\<lambda>_ _ _ _. True) (\<lambda>_ x. x / 2)) sample_world (SendBlock b ''x'')
        = Some (w', out)
    \<and> last (blocks (ws_blockchain w')) = b \<and> ws_success w' = ws_success sample_world + 1
    \<and> \<lparr>settle_at_block = hd_index (blk_header b) + reward_settlement_depth (config (ws_consensus sample_world)),
        batch_rewards = [\<lparr>bd_address = w_address (sample_wallet 4), bd_amount = base_reward (ws_consensus sample_world)\<rparr>]\<rparr>
      \<in> set (pending_rewards (ws_consensus w'))"
  by (rule unelected_block_paid) (simp_all add: sample_world_laws sample_world_chain topostake_config_default_def)

end
