(* ===== verification/Security_Eval.thy ===== *)
theory Security_Eval
  imports Topo_Formulas Rust_Text "HOL-Library.Multiset"
begin

text \<open>
  \<^verbatim>\<open>src/src/security_eval.rs\<close>: the evaluator that replays the reward formulas for every
  coalition of relayers and every amount of padding, and reports whether padding ever
  raised the credit of a coalition.  The assertions of the code are panics.
\<close>

section \<open>Definitions\<close>

record padding_case_result =
  pc_depth :: nat
  pc_original_path_length :: nat
  pc_relay_position :: nat
  pc_inserted_identities :: nat
  pc_coalition_assignments :: nat
  pc_worst_original_positions :: string
  pc_base_credit :: real
  pc_padded_credit :: real
  pc_max_ratio :: real
  pc_passed :: bool

definition credit :: "nat \<Rightarrow> nat \<Rightarrow> nat list \<Rightarrow> real" where
  "credit depth path_length positions =
     sum_list (map (\<lambda>position. gamma_for_depth depth position path_length) positions)"

definition positions_label :: "nat list \<Rightarrow> string" where
  "positions_label positions = join_with '';'' (map show_nat positions)"

definition other_positions :: "nat \<Rightarrow> nat \<Rightarrow> nat list" where
  "other_positions path_length relay_position =
     filter (\<lambda>p. p \<noteq> relay_position) [1..<path_length]"

definition mask_positions :: "nat list \<Rightarrow> nat \<Rightarrow> nat list" where
  "mask_positions others bits = map snd (filter (\<lambda>(i, p). bit bits i) (enumerate 0 others))"

definition original_positions :: "nat \<Rightarrow> nat list \<Rightarrow> nat \<Rightarrow> nat list" where
  "original_positions relay_position others bits = sort (relay_position # mask_positions others bits)"

definition padded_positions :: "nat \<Rightarrow> nat \<Rightarrow> nat list \<Rightarrow> nat list" where
  "padded_positions relay_position inserted original =
     sort ([relay_position..<relay_position + inserted + 1]
       @ map (\<lambda>p. if p < relay_position then p else p + inserted)
           (filter (\<lambda>p. p \<noteq> relay_position) original))"

text \<open>One turn of the loop over the masks; the state is the worst case seen so far.\<close>

definition padding_step ::
  "nat \<Rightarrow> nat \<Rightarrow> nat \<Rightarrow> nat \<Rightarrow> real \<times> real \<times> real \<times> nat list \<Rightarrow> nat \<Rightarrow> real \<times> real \<times> real \<times> nat list" where
  "padding_step depth path_length relay_position inserted acc bits =
     (let original = original_positions relay_position (other_positions path_length relay_position) bits;
          padded = padded_positions relay_position inserted original;
          base = credit depth path_length original;
          padded_credit = credit depth (path_length + inserted) padded;
          ratio = padded_credit / base
      in if fst acc < ratio then (ratio, base, padded_credit, original) else acc)"

definition evaluate_padding_case ::
  "nat \<Rightarrow> nat \<Rightarrow> nat \<Rightarrow> nat \<Rightarrow> real \<Rightarrow> padding_case_result run" where
  "evaluate_padding_case depth path_length relay_position inserted tolerance =
     (if \<not> (0 < depth \<and> 2 \<le> path_length \<and> 1 \<le> relay_position \<and> relay_position < path_length \<and> 0 < inserted
            \<and> length (other_positions path_length relay_position) < 63) then None
      else let assignments = 2 ^ length (other_positions path_length relay_position);
               (maximum, worst_base, worst_padded, worst_positions) =
                 foldl (padding_step depth path_length relay_position inserted) (-1, 0, 0, []) [0..<assignments]
        in Some \<lparr>pc_depth = depth, pc_original_path_length = path_length,
                 pc_relay_position = relay_position, pc_inserted_identities = inserted,
                 pc_coalition_assignments = assignments,
                 pc_worst_original_positions = positions_label worst_positions,
                 pc_base_credit = worst_base, pc_padded_credit = worst_padded, pc_max_ratio = maximum,
                 pc_passed = (maximum \<le> 1 + tolerance)\<rparr>)"

definition padding_cases :: "nat list \<Rightarrow> nat \<Rightarrow> (nat \<times> nat \<times> nat \<times> nat) list" where
  "padding_cases depths max_path_hops =
     concat (map (\<lambda>depth. concat (map (\<lambda>path_length. concat (map (\<lambda>relay_position.
       map (\<lambda>inserted. (depth, path_length, relay_position, inserted)) [1..<max_path_hops - path_length + 1])
       [1..<path_length])) [2..<max_path_hops])) depths)"

definition evaluate_padding_grid :: "nat list \<Rightarrow> nat \<Rightarrow> real \<Rightarrow> padding_case_result list run" where
  "evaluate_padding_grid depths max_path_hops tolerance =
     (if max_path_hops < 3 then None
      else those (map (\<lambda>(depth, path_length, relay_position, inserted).
        evaluate_padding_case depth path_length relay_position inserted tolerance)
        (padding_cases depths max_path_hops)))"

section \<open>No coalition gains\<close>

lemma credit_sort: "credit d m (sort ps) = credit d m ps"
  unfolding credit_def by (metis mset_map mset_sort sum_mset_sum_list)

lemma credit_append: "credit d m (ps @ qs) = credit d m ps + credit d m qs"
  by (simp add: credit_def)

lemma credit_Cons: "credit d m (p # ps) = gamma_for_depth d p m + credit d m ps"
  by (simp add: credit_def)

lemma set_mask_positions: "set (mask_positions others bits) \<subseteq> set others"
  by (auto simp: mask_positions_def in_set_enumerate_eq)

lemma credit_original:
  "credit d m (original_positions p others bits) = gamma_for_depth d p m + credit d m (mask_positions others bits)"
  unfolding original_positions_def credit_sort credit_Cons ..

lemma mset_original: "mset (original_positions p others bits) = mset (p # mask_positions others bits)"
  unfolding original_positions_def mset_sort ..

lemma credit_range: "credit d m [p..<p + k + 1] = (\<Sum>j \<le> k. gamma_for_depth d (p + j) m)"
proof -
  have "credit d m [p..<p + k + 1] = (\<Sum>i = p..<p + Suc k. gamma_for_depth d i m)"
    by (simp add: credit_def interv_sum_list_conv_sum_set_nat)
  also have "\<dots> = (\<Sum>j = 0..<Suc k. gamma_for_depth d (p + j) m)"
    using sum.shift_bounds_nat_ivl [of "\<lambda>i. gamma_for_depth d i m" 0 p "Suc k"] by (simp add: add.commute)
  finally show ?thesis by (simp add: atLeast0LessThan lessThan_Suc_atMost)
qed

lemma credit_others:
  assumes "2 \<le> m" and "\<forall>q \<in> set qs. 0 < q \<and> q < m"
  shows "credit d (m + k) (map (\<lambda>q. if q < p then q else q + k) qs) \<le> credit d m qs"
  using assms(2)
proof (induction qs)
  case (Cons q qs)
  then show ?case using gamma_longer [OF assms(1)] gamma_shift [OF assms(1)]
    by (auto simp: credit_Cons intro!: add_mono)
qed (simp add: credit_def)

lemma credit_filter_perm:
  assumes "mset xs = mset (p # ys)" and "p \<notin> set ys"
  shows "credit d m (map f (filter (\<lambda>q. q \<noteq> p) xs)) = credit d m (map f ys)"
proof -
  have "mset (filter (\<lambda>q. q \<noteq> p) xs) = mset (filter (\<lambda>q. q \<noteq> p) (p # ys))"
    unfolding mset_filter assms(1) ..
  also have "filter (\<lambda>q. q \<noteq> p) (p # ys) = ys" using assms(2) by (simp add: filter_id_conv) metis
  finally show ?thesis unfolding credit_def by (metis (no_types) mset_map sum_mset_sum_list)
qed

lemma padded_credit_le:
  assumes "2 \<le> m" and "0 < p" and "p < m"
  shows "credit d (m + k) (padded_positions p k (original_positions p (other_positions m p) bits))
    \<le> credit d m (original_positions p (other_positions m p) bits)"
proof -
  let ?qs = "mask_positions (other_positions m p) bits"
  have qs: "\<forall>q \<in> set ?qs. 0 < q \<and> q < m" "p \<notin> set ?qs"
    using set_mask_positions [of "other_positions m p" bits] by (auto simp: other_positions_def)
  have "credit d (m + k) (padded_positions p k (original_positions p (other_positions m p) bits))
      = (\<Sum>j \<le> k. gamma_for_depth d (p + j) (m + k))
        + credit d (m + k) (map (\<lambda>q. if q < p then q else q + k) ?qs)"
    unfolding padded_positions_def credit_sort credit_append credit_range
      credit_filter_perm [OF mset_original qs(2)] ..
  also have "\<dots> \<le> gamma_for_depth d p m + credit d m ?qs"
    using padding_sum_le [OF assms] credit_others [OF assms(1) qs(1)] by (intro add_mono)
  finally show ?thesis by (simp add: credit_original)
qed

lemma original_credit_pos:
  assumes "0 < d" and "2 \<le> m" and "0 < p" and "p < m"
  shows "0 < credit d m (original_positions p others bits)"
proof -
  have "0 \<le> credit d m ps" for ps
    unfolding credit_def by (intro sum_list_nonneg_map gamma_nonneg)
  with gamma_pos [OF assms] show ?thesis unfolding credit_original by (simp add: add_pos_nonneg)
qed

lemma padding_ratio:
  assumes "0 < d" and "2 \<le> m" and "0 < p" and "p < m"
  shows "credit d (m + k) (padded_positions p k (original_positions p (other_positions m p) bits))
      / credit d m (original_positions p (other_positions m p) bits) \<le> 1"
  using padded_credit_le [OF assms(2-4), of d k bits] original_credit_pos [OF assms] by simp

lemma padded_credit_nonneg: "0 \<le> credit d m ps"
  unfolding credit_def by (intro sum_list_nonneg_map gamma_nonneg)

definition worst_ok :: "real \<times> real \<times> real \<times> nat list \<Rightarrow> bool" where
  "worst_ok acc \<longleftrightarrow> (case acc of (maximum, base, padded, _) \<Rightarrow>
     0 \<le> maximum \<and> maximum \<le> 1 \<and> 0 < base \<and> maximum = padded / base)"

lemma padding_step_ok:
  assumes "0 < d" and "2 \<le> m" and "0 < p" and "p < m" and "worst_ok acc \<or> fst acc = -1"
  shows "worst_ok (padding_step d m p k acc bits)"
proof -
  let ?o = "original_positions p (other_positions m p) bits"
  have "0 \<le> credit d (m + k) (padded_positions p k ?o) / credit d m ?o"
    using padded_credit_nonneg original_credit_pos [OF assms(1-4)] by (simp add: less_imp_le)
  with padding_ratio [OF assms(1-4), of k bits] original_credit_pos [OF assms(1-4)] assms(5)
  show ?thesis by (auto simp: padding_step_def Let_def worst_ok_def split: prod.splits)
qed

lemma padding_loop_ok:
  assumes "0 < d" and "2 \<le> m" and "0 < p" and "p < m" and "ms \<noteq> []"
  shows "worst_ok (foldl (padding_step d m p k) (-1, 0, 0, []) ms)"
proof -
  have keep: "worst_ok (foldl (padding_step d m p k) acc xs)" if "worst_ok acc" for acc xs
    using that by (induction xs arbitrary: acc) (simp_all del: split_paired_All add: padding_step_ok [OF assms(1-4)])
  from assms(5) obtain b bs where "ms = b # bs" by (cases ms) auto
  with keep [OF padding_step_ok [OF assms(1-4), of "(-1, 0, 0, [])" k b], of bs] show ?thesis by simp
qed

lemma evaluate_padding_case_passes:
  assumes "0 < d" and "2 \<le> m" and "0 < p" and "p < m" and "0 < k" and "m \<le> 64" and "0 \<le> tol"
  shows "\<exists>row. evaluate_padding_case d m p k tol = Some row \<and> pc_passed row \<and> pc_max_ratio row \<le> 1
    \<and> 0 < pc_base_credit row \<and> pc_padded_credit row \<le> pc_base_credit row"
proof -
  have "length (other_positions m p) < length [1..<m]"
    unfolding other_positions_def using assms(3,4) by (intro length_filter_less [of p]) auto
  with assms(6) have len: "length (other_positions m p) < 63" by simp
  let ?ms = "[0..<2 ^ length (other_positions m p)]"
  obtain mx b pd ps where r: "foldl (padding_step d m p k) (-1, 0, 0, []) ?ms = (mx, b, pd, ps)"
    by (metis prod_cases4)
  have "worst_ok (mx, b, pd, ps)"
    unfolding r [symmetric] by (rule padding_loop_ok [OF assms(1-4)]) simp
  then have ok: "mx \<le> 1" "0 < b" "pd \<le> b" by (auto simp: worst_ok_def divide_le_eq)
  with len assms r show ?thesis by (simp add: evaluate_padding_case_def Let_def)
qed

text \<open>
  C31.  The padding evaluation passes on every grid.  For positive depths, path limits
  between 3 and 65 and a non-negative tolerance, the evaluator returns a row for every
  case without panicking; in every row the worst coalition keeps a positive base credit,
  its padded credit is not larger, and the row is marked as passed.
\<close>

theorem padding_grid_passes:
  assumes "\<forall>d \<in> set depths. 0 < d" and "3 \<le> max_path_hops" and "max_path_hops \<le> 65" and "0 \<le> tolerance"
  shows "\<exists>rows. evaluate_padding_grid depths max_path_hops tolerance = Some rows
    \<and> length rows = length (padding_cases depths max_path_hops)
    \<and> (\<forall>row \<in> set rows. pc_passed row \<and> pc_max_ratio row \<le> 1 \<and> 0 < pc_base_credit row
        \<and> pc_padded_credit row \<le> pc_base_credit row)"
proof -
  let ?f = "\<lambda>(d, m, p, k). evaluate_padding_case d m p k tolerance"
  let ?ok = "\<lambda>row. pc_passed row \<and> pc_max_ratio row \<le> 1 \<and> 0 < pc_base_credit row
        \<and> pc_padded_credit row \<le> pc_base_credit row"
  have "\<exists>row. ?f c = Some row \<and> ?ok row" if "c \<in> set (padding_cases depths max_path_hops)" for c
  proof -
    from that obtain d m p k where "c = (d, m, p, k)" "0 < d" "2 \<le> m" "m < max_path_hops" "1 \<le> p" "p < m" "1 \<le> k"
      using assms(1) by (auto simp: padding_cases_def)
    with assms(3,4) evaluate_padding_case_passes [of d m p k tolerance] show ?thesis by auto
  qed
  then obtain g where g: "\<And>c. c \<in> set (padding_cases depths max_path_hops) \<Longrightarrow> ?f c = Some (g c) \<and> ?ok (g c)"
    by metis
  have "those (map ?f (padding_cases depths max_path_hops)) = Some (map g (padding_cases depths max_path_hops))"
    unfolding those_map_Some using g by (simp add: list_all2_conv_all_nth)
  with assms(2) g show ?thesis by (auto simp: evaluate_padding_grid_def)
qed

lemma padding_grid_passes_witness:
  "\<exists>rows. evaluate_padding_grid [2, 4, 8] 16 0 = Some rows \<and> length rows = length (padding_cases [2, 4, 8] 16)
    \<and> list_all (\<lambda>row. pc_passed row \<and> pc_max_ratio row \<le> 1 \<and> 0 < pc_base_credit row
        \<and> pc_padded_credit row \<le> pc_base_credit row) rows"
  using padding_grid_passes [of "[2, 4, 8]" 16 0] by (simp add: list_all_iff)

end
