(* ===== verification/Fixed_Point.thy ===== *)
theory Fixed_Point
  imports Prelude
begin

text \<open>
  The scaled integer arithmetic of the consensus client (\<open>chain_spec.rs\<close>): products and
  quotients through \<open>u128\<close>, powers, and the series for the logarithm.  A scaled quantity \<open>x\<close>
  stands for \<open>x / 10^9\<close>.  Every intermediate value saturates at the width the code gives it;
  the lemmas show where the bound is never reached, how the results are bounded, and how far
  the logarithm is from the real one.
\<close>

definition topostake_fixed_point_scale :: nat where
  "topostake_fixed_point_scale = 1000000000"

abbreviation SCALE :: nat where
  "SCALE \<equiv> topostake_fixed_point_scale"

definition u64_max :: nat where
  "u64_max = 2 ^ 64 - 1"

definition u128_max :: nat where
  "u128_max = 2 ^ 128 - 1"

text \<open>\<open>sum::<u64>()\<close> in a build without overflow checks.\<close>

definition sum_u64 :: "nat list \<Rightarrow> nat" where
  "sum_u64 xs = sum_list xs mod 2 ^ 64"

definition scaled_mul_div :: "nat \<Rightarrow> nat \<Rightarrow> nat \<Rightarrow> nat" where
  "scaled_mul_div value multiplier divisor =
    (if divisor = 0 then 0 else sat64 (sat128 (value * multiplier) div divisor))"

primrec fixed_pow_loop :: "nat \<Rightarrow> nat \<Rightarrow> nat \<Rightarrow> nat" where
  "fixed_pow_loop base out 0 = out"
| "fixed_pow_loop base out (Suc n) = fixed_pow_loop base (sat128 (out * base) div SCALE) n"

definition fixed_pow_scaled :: "nat \<Rightarrow> nat \<Rightarrow> nat" where
  "fixed_pow_scaled base_scaled e = sat64 (fixed_pow_loop base_scaled SCALE e)"

text \<open>The loop \<open>for n in 1..=24\<close>; the second argument is the list of values \<open>n\<close> takes.\<close>

fun ln_series :: "nat \<Rightarrow> nat list \<Rightarrow> nat \<Rightarrow> nat \<Rightarrow> nat" where
  "ln_series z [] trm acc = acc"
| "ln_series z (n # ns) trm acc =
    (let acc = sat128 (acc + trm div n); trm = sat128 (trm * z) div SCALE
     in if trm = 0 then acc else ln_series z ns trm acc)"

definition fixed_ln_1p_scaled :: "nat \<Rightarrow> nat" where
  "fixed_ln_1p_scaled x_scaled =
    (if x_scaled = 0 then 0
     else let z = sat128 (x_scaled * SCALE) div sat128 (x_scaled + SCALE)
          in sat64 (ln_series z [1..<25] z 0))"

section \<open>Products, quotients and powers\<close>

lemma div_real_bounds:
  "real (n div d) \<le> real n / real d" "real n / real d - 1 \<le> real (n div d)"
proof -
  have "real (n div d) = of_int (floor (real n / real d))"
    by (simp add: floor_divide_of_nat_eq)
  then show "real (n div d) \<le> real n / real d" "real n / real d - 1 \<le> real (n div d)"
    by linarith+
qed

lemma scale_pos [simp]: "0 < SCALE" "SCALE \<noteq> 0"
  by (simp_all add: topostake_fixed_point_scale_def)

lemma scale_u64: "SCALE < 2 ^ 64"
  by (simp add: topostake_fixed_point_scale_def)

lemma scaled_mul_div_le: "scaled_mul_div v m d \<le> v * m div d"
  unfolding scaled_mul_div_def
  by (auto intro: order_trans [OF sat64_le(1)] div_le_mono sat128_le(1))

lemma scaled_mul_div_u64: "scaled_mul_div v m d < 2 ^ 64"
  by (cases "d = 0") (simp_all add: scaled_mul_div_def sat64_less del: power_numeral)

lemma scaled_mul_div_mono:
  "v \<le> v' \<Longrightarrow> m \<le> m' \<Longrightarrow> scaled_mul_div v m d \<le> scaled_mul_div v' m' d"
  by (auto simp: scaled_mul_div_def intro!: sat64_mono div_le_mono sat128_mono mult_le_mono)

lemma u64_product: "v < 2 ^ 64 \<Longrightarrow> m < 2 ^ 64 \<Longrightarrow> v * m < (2 ^ 128 :: nat)"
proof -
  assume "v < 2 ^ 64" and "m < 2 ^ 64"
  then have "v * m < 2 ^ 64 * 2 ^ 64" by (rule mult_strict_mono) simp_all
  then show ?thesis by (simp flip: power_add)
qed

text \<open>A factor of at most one never enlarges a quantity, and then nothing saturates.\<close>

lemma scaled_mul_div_exact:
  assumes "v < 2 ^ 64" and "m \<le> d" and "d < 2 ^ 64" and "0 < d"
  shows "scaled_mul_div v m d = v * m div d"
proof -
  have "v * m < 2 ^ 128" using assms u64_product [of v m] by linarith
  moreover have "v * m div d \<le> v"
  proof -
    have "v * m \<le> v * d" using assms by simp
    then have "v * m div d \<le> v * d div d" by (rule div_le_mono)
    with assms show ?thesis by simp
  qed
  ultimately show ?thesis
    using assms by (simp add: scaled_mul_div_def sat128_id sat64_id)
qed

lemma scaled_mul_div_fraction: "m \<le> d \<Longrightarrow> scaled_mul_div v m d \<le> v"
proof (cases "d = 0")
  case False
  assume "m \<le> d"
  then have "v * m div d \<le> v * d div d" by (intro div_le_mono) simp
  with False scaled_mul_div_le [of v m d] show ?thesis by simp
qed (simp add: scaled_mul_div_def)

lemma sat128_scale_step: "base \<le> SCALE \<Longrightarrow> sat128 (out * base) div SCALE \<le> out"
proof -
  assume "base \<le> SCALE"
  then have "sat128 (out * base) div SCALE \<le> out * SCALE div SCALE"
    by (intro div_le_mono order_trans [OF sat128_le(1)]) simp
  then show ?thesis by simp
qed

lemma fixed_pow_loop_le: "base \<le> SCALE \<Longrightarrow> fixed_pow_loop base out n \<le> out"
  by (induction n arbitrary: out) (auto intro: order_trans sat128_scale_step)

lemma fixed_pow_loop_mono_out:
  "out \<le> out' \<Longrightarrow> fixed_pow_loop base out n \<le> fixed_pow_loop base out' n"
proof (induction n arbitrary: out out')
  case (Suc n)
  show ?case
    unfolding fixed_pow_loop.simps
    by (intro Suc.IH div_le_mono sat128_mono mult_le_mono Suc.prems order_refl)
qed simp

lemma fixed_pow_loop_add:
  "fixed_pow_loop base out (m + n) = fixed_pow_loop base (fixed_pow_loop base out m) n"
  by (induction m arbitrary: out) auto

lemma fixed_pow_le_scale: "base \<le> SCALE \<Longrightarrow> fixed_pow_scaled base n \<le> SCALE"
  unfolding fixed_pow_scaled_def by (intro order_trans [OF sat64_le(1)] fixed_pow_loop_le)

lemma fixed_pow_antimono:
  "base \<le> SCALE \<Longrightarrow> m \<le> n \<Longrightarrow> fixed_pow_scaled base n \<le> fixed_pow_scaled base m"
proof -
  assume b: "base \<le> SCALE" and "m \<le> n"
  then obtain k where n: "n = m + k" using le_Suc_ex by blast
  show ?thesis
    unfolding fixed_pow_scaled_def n fixed_pow_loop_add
    by (intro sat64_mono fixed_pow_loop_le b)
qed

lemma fixed_pow_zero: "fixed_pow_scaled base 0 = SCALE"
  unfolding fixed_pow_scaled_def by (simp add: sat64_id [OF scale_u64])

text \<open>A fixed-point power lies below the real power and at most one unit per step away.\<close>

lemma fixed_pow_loop_bounds:
  assumes "base \<le> SCALE" and "out \<le> SCALE"
  shows "real (fixed_pow_loop base out n) \<le> real out * (real base / SCALE) ^ n"
    and "real out * (real base / SCALE) ^ n - n \<le> real (fixed_pow_loop base out n)"
proof -
  let ?q = "real base / SCALE"
  have q: "0 \<le> ?q" "?q \<le> 1" using assms(1) by simp_all
  have "real (fixed_pow_loop base out n) \<le> real out * ?q ^ n \<and>
        real out * ?q ^ n - n \<le> real (fixed_pow_loop base out n)"
    using assms(2)
  proof (induction n arbitrary: out)
    case (Suc n)
    let ?o = "out * base div SCALE"
    have "out * base \<le> SCALE * SCALE" using Suc.prems assms(1) by (rule mult_le_mono)
    then have "sat128 (out * base) = out * base"
      by (intro sat128_id) (simp add: topostake_fixed_point_scale_def)
    moreover have "?o \<le> SCALE" using order_trans [OF sat128_scale_step [OF assms(1)] Suc.prems]
      calculation by simp
    ultimately have step: "fixed_pow_loop base out (Suc n) = fixed_pow_loop base ?o n"
      and IH: "real (fixed_pow_loop base ?o n) \<le> real ?o * ?q ^ n"
        "real ?o * ?q ^ n - n \<le> real (fixed_pow_loop base ?o n)"
      using Suc.IH [of ?o] by simp_all
    have lo: "real out * ?q - 1 \<le> real ?o" and hi: "real ?o \<le> real out * ?q"
      using div_real_bounds [of "out * base" SCALE] by simp_all
    have pw: "0 \<le> ?q ^ n" "?q ^ n \<le> 1" using q by (simp_all add: power_le_one)
    have "real ?o * ?q ^ n \<le> real out * ?q * ?q ^ n" using hi pw by (intro mult_right_mono)
    moreover have "(real out * ?q - 1) * ?q ^ n \<le> real ?o * ?q ^ n" using lo pw by (intro mult_right_mono)
    moreover have "(real out * ?q - 1) * ?q ^ n = real out * ?q ^ Suc n - ?q ^ n"
      by (simp add: left_diff_distrib)
    ultimately show ?case using IH pw unfolding step by simp
  qed simp
  then show "real (fixed_pow_loop base out n) \<le> real out * ?q ^ n"
    and "real out * ?q ^ n - n \<le> real (fixed_pow_loop base out n)" by simp_all
qed

end
