(* ===== verification/Beacon_Config.thy ===== *)
theory Beacon_Config
  imports Rust_Text Fixed_Point
begin

text \<open>
  The configuration of the TopoStake fork of the consensus client (\<open>TopoStakeConfig\<close> of
  \<open>chain_spec.rs\<close>): its fields and defaults, the overrides read from the process environment,
  the activation test, and the bounded proposer bonus.  The environment is the argument
  \<open>env\<close>, a partial function from variable names to values.
\<close>

type_synonym env = "string \<Rightarrow> string option"
type_synonym epoch = nat

record score_fixture_entry =
  fx_validator_index :: nat
  fx_score_scaled :: nat

record topo_config =
  topostake_fork_epoch :: "epoch option"
  eta_scaled :: nat
  bonus_cap_scaled :: nat
  score_ema_beta_scaled :: nat
  score_saturation_k_scaled :: nat
  score_target_depth :: nat
  score_cost_reference_wei :: nat
  score_floor_kappa_scaled :: nat
  bonus_zeta_scaled :: nat
  reward_settlement_depth :: nat
  max_path_evidence_len :: nat
  max_path_evidence_bytes :: nat
  max_paths_per_block :: nat
  proposer_fee_ratio_scaled :: nat
  evidence_finality_depth :: nat
  score_activation_delay_epochs :: nat
  evidence_work_limit :: nat
  challenge_work_limit :: nat
  score_fixture :: "score_fixture_entry list"

text \<open>The fields of \<open>ChainSpec\<close> that the TopoStake code and proposer selection read.\<close>

record chain_spec =
  topostake_config :: topo_config
  deposit_chain_id :: nat
  shuffle_round_count :: nat
  max_effective_balance :: nat
  max_effective_balance_electra :: nat
  min_seed_lookahead :: epoch
  max_seed_lookahead :: epoch
  domain_beacon_proposer :: nat
  altair_fork_epoch :: "epoch option"
  bellatrix_fork_epoch :: "epoch option"
  capella_fork_epoch :: "epoch option"
  deneb_fork_epoch :: "epoch option"
  electra_fork_epoch :: "epoch option"
  fulu_fork_epoch :: "epoch option"
  gloas_fork_epoch :: "epoch option"

definition default_topostake_eta_scaled :: nat where
  "default_topostake_eta_scaled = SCALE div 2"

definition default_topostake_bonus_cap_scaled :: nat where
  "default_topostake_bonus_cap_scaled = SCALE"

definition default_topostake_score_ema_beta_scaled :: nat where
  "default_topostake_score_ema_beta_scaled = SCALE * 8 div 10"

definition default_topostake_score_saturation_k_scaled :: nat where
  "default_topostake_score_saturation_k_scaled = SCALE"

definition default_topostake_score_target_depth :: nat where
  "default_topostake_score_target_depth = 4"

definition default_topostake_score_cost_reference_wei :: nat where
  "default_topostake_score_cost_reference_wei = 21000000000000"

definition default_topostake_score_floor_kappa_scaled :: nat where
  "default_topostake_score_floor_kappa_scaled = SCALE"

definition default_topostake_bonus_zeta_scaled :: nat where
  "default_topostake_bonus_zeta_scaled = SCALE"

definition default_topostake_reward_settlement_depth :: nat where
  "default_topostake_reward_settlement_depth = 2"

definition default_topostake_max_path_evidence_len :: nat where
  "default_topostake_max_path_evidence_len = 16"

definition default_topostake_max_path_evidence_bytes :: nat where
  "default_topostake_max_path_evidence_bytes = 65536"

definition default_topostake_max_paths_per_block :: nat where
  "default_topostake_max_paths_per_block = 1024"

definition default_topostake_proposer_fee_ratio_scaled :: nat where
  "default_topostake_proposer_fee_ratio_scaled = SCALE div 2"

definition default_topostake_evidence_finality_depth :: nat where
  "default_topostake_evidence_finality_depth = 1"

definition default_topostake_score_activation_delay_epochs :: nat where
  "default_topostake_score_activation_delay_epochs = 2"

definition default_topostake_evidence_work_limit :: nat where
  "default_topostake_evidence_work_limit = 4096"

definition default_topostake_challenge_work_limit :: nat where
  "default_topostake_challenge_work_limit = 1024"

lemmas topostake_defaults =
  default_topostake_eta_scaled_def default_topostake_bonus_cap_scaled_def
  default_topostake_score_ema_beta_scaled_def default_topostake_score_saturation_k_scaled_def
  default_topostake_score_target_depth_def default_topostake_score_cost_reference_wei_def
  default_topostake_score_floor_kappa_scaled_def default_topostake_bonus_zeta_scaled_def
  default_topostake_reward_settlement_depth_def default_topostake_max_path_evidence_len_def
  default_topostake_max_path_evidence_bytes_def default_topostake_max_paths_per_block_def
  default_topostake_proposer_fee_ratio_scaled_def default_topostake_evidence_finality_depth_def
  default_topostake_score_activation_delay_epochs_def default_topostake_evidence_work_limit_def
  default_topostake_challenge_work_limit_def

definition config_disabled :: topo_config where
  "config_disabled = \<lparr>
     topostake_fork_epoch = None,
     eta_scaled = default_topostake_eta_scaled,
     bonus_cap_scaled = default_topostake_bonus_cap_scaled,
     score_ema_beta_scaled = default_topostake_score_ema_beta_scaled,
     score_saturation_k_scaled = default_topostake_score_saturation_k_scaled,
     score_target_depth = default_topostake_score_target_depth,
     score_cost_reference_wei = default_topostake_score_cost_reference_wei,
     score_floor_kappa_scaled = default_topostake_score_floor_kappa_scaled,
     bonus_zeta_scaled = default_topostake_bonus_zeta_scaled,
     reward_settlement_depth = default_topostake_reward_settlement_depth,
     max_path_evidence_len = default_topostake_max_path_evidence_len,
     max_path_evidence_bytes = default_topostake_max_path_evidence_bytes,
     max_paths_per_block = default_topostake_max_paths_per_block,
     proposer_fee_ratio_scaled = default_topostake_proposer_fee_ratio_scaled,
     evidence_finality_depth = default_topostake_evidence_finality_depth,
     score_activation_delay_epochs = default_topostake_score_activation_delay_epochs,
     evidence_work_limit = default_topostake_evidence_work_limit,
     challenge_work_limit = default_topostake_challenge_work_limit,
     score_fixture = []\<rparr>"

definition devnet_enabled_at :: "epoch \<Rightarrow> topo_config" where
  "devnet_enabled_at fork_epoch = config_disabled\<lparr>topostake_fork_epoch := Some fork_epoch\<rparr>"

section \<open>Overrides from the environment\<close>

definition topostake_env_u64 :: "env \<Rightarrow> string \<Rightarrow> nat option" where
  "topostake_env_u64 env name = Option.bind (env name) (\<lambda>value. parse_u64 (trim value))"

definition topostake_env_epoch :: "env \<Rightarrow> string \<Rightarrow> epoch option" where
  "topostake_env_epoch env name = topostake_env_u64 env name"

definition parse_score_entry :: "string \<Rightarrow> (nat \<times> nat) option" where
  "parse_score_entry entry = do {
     (validator_index, score_scaled) \<leftarrow> split_once (CHR '':'') (trim entry);
     i \<leftarrow> parse_u64 (trim validator_index);
     s \<leftarrow> parse_u64 (trim score_scaled);
     Some (i, s)
   }"

definition topostake_env_score_fixture :: "env \<Rightarrow> (nat \<times> nat) list" where
  "topostake_env_score_fixture env =
    (case env ''TOPOSTAKE_SCORE_FIXTURE'' of
       None \<Rightarrow> []
     | Some value \<Rightarrow> List.map_filter parse_score_entry (split_on (CHR '','') value))"

definition is_disabled :: "env \<Rightarrow> topo_config \<Rightarrow> bool" where
  "is_disabled env c \<longleftrightarrow>
    topostake_fork_epoch c = None \<and> topostake_env_epoch env ''TOPOSTAKE_FORK_EPOCH'' = None"

definition is_enabled_at_epoch :: "env \<Rightarrow> topo_config \<Rightarrow> epoch \<Rightarrow> bool" where
  "is_enabled_at_epoch env c epoch =
    (case (case topostake_fork_epoch c of
             Some e \<Rightarrow> Some e | None \<Rightarrow> topostake_env_epoch env ''TOPOSTAKE_FORK_EPOCH'') of
       None \<Rightarrow> False
     | Some fork_epoch \<Rightarrow> fork_epoch \<le> epoch)"

definition is_topostake_enabled_at_epoch :: "env \<Rightarrow> chain_spec \<Rightarrow> epoch \<Rightarrow> bool" where
  "is_topostake_enabled_at_epoch env spec epoch = is_enabled_at_epoch env (topostake_config spec) epoch"

definition finality_depth :: "env \<Rightarrow> topo_config \<Rightarrow> nat" where
  "finality_depth env c =
    unwrap_or (evidence_finality_depth c) (topostake_env_u64 env ''TOPOSTAKE_EVIDENCE_FINALITY_DEPTH'')"

definition activation_delay :: "env \<Rightarrow> topo_config \<Rightarrow> nat" where
  "activation_delay env c =
    max 1 (unwrap_or (score_activation_delay_epochs c)
      (topostake_env_u64 env ''TOPOSTAKE_SCORE_ACTIVATION_DELAY_EPOCHS''))"

text \<open>\<open>iter().max().unwrap_or(0)\<close>.\<close>

definition max_or_zero :: "nat list \<Rightarrow> nat" where
  "max_or_zero xs = fold max xs 0"

definition score_for_validator :: "env \<Rightarrow> topo_config \<Rightarrow> nat \<Rightarrow> nat" where
  "score_for_validator env c validator_index =
    max_or_zero
      (map fx_score_scaled (filter (\<lambda>f. fx_validator_index f = validator_index) (score_fixture c)) @
       map snd (filter (\<lambda>p. fst p = validator_index) (topostake_env_score_fixture env)))"

section \<open>The proposer bonus\<close>

definition concave_bonus_scaled :: "topo_config \<Rightarrow> nat \<Rightarrow> nat" where
  "concave_bonus_scaled c score_to_stake_scaled =
    (let bonus_denominator = sat128 (bonus_zeta_scaled c + score_to_stake_scaled)
     in if bonus_denominator = 0 then 0
        else sat64 (sat128 (bonus_cap_scaled c * score_to_stake_scaled) div bonus_denominator))"

text \<open>The body of \<open>bonus_scaled_at_epoch_with_score_total\<close> after the score has been looked up.\<close>

definition bonus_of_score :: "topo_config \<Rightarrow> nat \<Rightarrow> nat \<Rightarrow> nat \<Rightarrow> nat \<Rightarrow> nat" where
  "bonus_of_score c score effective_balance total_active_balance active_score_total =
    (if score = 0 \<or> effective_balance = 0 \<or> total_active_balance = 0 then 0
     else let damped_denominator = sat128 (score_floor_kappa_scaled c + active_score_total)
     in if damped_denominator = 0 then 0
     else let damped_score_scaled = sat128 (score * SCALE) div damped_denominator;
              stake_share_scaled = sat128 (effective_balance * SCALE) div total_active_balance
     in if stake_share_scaled = 0 then 0
     else let score_to_stake_scaled = sat128 (damped_score_scaled * SCALE) div stake_share_scaled
     in concave_bonus_scaled c (sat64 score_to_stake_scaled))"

definition eta_effective :: "env \<Rightarrow> topo_config \<Rightarrow> nat" where
  "eta_effective env c =
    min (unwrap_or (eta_scaled c) (topostake_env_u64 env ''TOPOSTAKE_ETA_SCALED'')) SCALE"

definition bonus_multiplier_from_bonus_scaled :: "env \<Rightarrow> topo_config \<Rightarrow> nat \<Rightarrow> nat" where
  "bonus_multiplier_from_bonus_scaled env c bonus_scaled =
    (let capped_bonus = min bonus_scaled (bonus_cap_scaled c);
         bonus = sat128 (eta_effective env c * capped_bonus) div SCALE
     in sat64 (sat128 (SCALE + bonus)))"

definition weight_from_bonus :: "env \<Rightarrow> topo_config \<Rightarrow> nat \<Rightarrow> nat \<Rightarrow> nat" where
  "weight_from_bonus env c effective_balance bonus_scaled =
    sat128 (effective_balance * bonus_multiplier_from_bonus_scaled env c bonus_scaled)"

definition max_proposer_weight_scaled :: "env \<Rightarrow> topo_config \<Rightarrow> nat \<Rightarrow> nat" where
  "max_proposer_weight_scaled env c max_balance =
    sat128 (max_balance * bonus_multiplier_from_bonus_scaled env c (bonus_cap_scaled c))"

record state_skeleton =
  score_epoch :: epoch
  validator_count :: nat
  raw_scores_are_zero :: bool
  normalized_scores_are_zero :: bool

definition zero_scores :: "epoch \<Rightarrow> nat \<Rightarrow> state_skeleton" where
  "zero_scores e n = \<lparr>score_epoch = e, validator_count = n,
     raw_scores_are_zero = True, normalized_scores_are_zero = True\<rparr>"

definition zero_score_state_skeleton ::
    "env \<Rightarrow> topo_config \<Rightarrow> epoch \<Rightarrow> nat \<Rightarrow> state_skeleton option" where
  "zero_score_state_skeleton env c epoch n =
    (if is_enabled_at_epoch env c epoch then Some (zero_scores epoch n) else None)"

section \<open>The bonus is bounded, monotone and absent without a score\<close>

lemma sat128_div_le: "sat128 a div d \<le> a div d"
  by (rule div_le_mono [OF sat128_le(1)])

lemma concave_bonus_cap:
  assumes "bonus_zeta_scaled c < 2 ^ 64" and "r < 2 ^ 64"
  shows "concave_bonus_scaled c r \<le> bonus_cap_scaled c"
proof -
  have den: "sat128 (bonus_zeta_scaled c + r) = bonus_zeta_scaled c + r"
    using assms by (intro sat128_id) simp
  have "sat128 (bonus_cap_scaled c * r) div (bonus_zeta_scaled c + r) \<le> bonus_cap_scaled c"
  proof (cases "bonus_zeta_scaled c + r = 0")
    case False
    have "bonus_cap_scaled c * r div (bonus_zeta_scaled c + r)
        \<le> bonus_cap_scaled c * (bonus_zeta_scaled c + r) div (bonus_zeta_scaled c + r)"
      by (intro div_le_mono mult_le_mono) simp_all
    also have "\<dots> = bonus_cap_scaled c" using False by simp
    finally show ?thesis by (rule order_trans [OF sat128_div_le])
  qed simp
  then show ?thesis
    unfolding concave_bonus_scaled_def Let_def den by (auto intro: order_trans [OF sat64_le(1)])
qed

lemma multiplier_bounds:
  assumes "bonus_cap_scaled c < 2 ^ 63"
  shows "SCALE \<le> bonus_multiplier_from_bonus_scaled env c b"
    and "bonus_multiplier_from_bonus_scaled env c b \<le> SCALE + eta_effective env c * bonus_cap_scaled c div SCALE"
    and "bonus_multiplier_from_bonus_scaled env c b \<le> SCALE + bonus_cap_scaled c"
proof -
  let ?m = "bonus_multiplier_from_bonus_scaled env c b"
  let ?x = "sat128 (eta_effective env c * min b (bonus_cap_scaled c)) div SCALE"
  have x: "?x \<le> eta_effective env c * bonus_cap_scaled c div SCALE"
    by (rule order_trans [OF sat128_div_le]) (intro div_le_mono mult_le_mono, simp_all)
  have "eta_effective env c * bonus_cap_scaled c div SCALE \<le> SCALE * bonus_cap_scaled c div SCALE"
    by (intro div_le_mono mult_le_mono) (simp_all add: eta_effective_def)
  then have y: "eta_effective env c * bonus_cap_scaled c div SCALE \<le> bonus_cap_scaled c" by simp
  have "SCALE + ?x < 2 ^ 64"
    using x y assms by (simp add: topostake_fixed_point_scale_def)
  then have "?m = SCALE + ?x"
    by (simp add: bonus_multiplier_from_bonus_scaled_def Let_def sat64_id sat128_id)
  with x y show "SCALE \<le> ?m" "?m \<le> SCALE + eta_effective env c * bonus_cap_scaled c div SCALE"
    "?m \<le> SCALE + bonus_cap_scaled c" by simp_all
qed

lemma multiplier_mono:
  "b \<le> b' \<Longrightarrow> bonus_multiplier_from_bonus_scaled env c b \<le> bonus_multiplier_from_bonus_scaled env c b'"
proof -
  assume "b \<le> b'"
  then have "min b (bonus_cap_scaled c) \<le> min b' (bonus_cap_scaled c)" by (rule min.mono) simp
  then show ?thesis
    unfolding bonus_multiplier_from_bonus_scaled_def Let_def
    by (intro sat64_mono sat128_mono add_left_mono div_le_mono mult_le_mono order_refl)
qed

lemma weight_mono:
  "b \<le> b' \<Longrightarrow> weight_from_bonus env c e b \<le> weight_from_bonus env c e b'"
  unfolding weight_from_bonus_def by (intro sat128_mono mult_le_mono order_refl multiplier_mono)

lemma fold_max_acc: "a \<le> fold max xs a" for a :: nat
proof (induction xs arbitrary: a)
  case (Cons y xs)
  show ?case unfolding fold_Cons o_apply by (rule order_trans [OF max.cobounded2 Cons.IH])
qed simp

lemma fold_max_ge: "x \<in> set xs \<Longrightarrow> x \<le> fold max xs a" for x :: nat
proof (induction xs arbitrary: a)
  case (Cons y xs)
  then show ?case
    unfolding fold_Cons o_apply using order_trans [OF max.cobounded1 fold_max_acc] by auto
qed simp

lemma max_or_zero_ge: "x \<in> set xs \<Longrightarrow> x \<le> max_or_zero xs"
  unfolding max_or_zero_def by (rule fold_max_ge) simp

lemma concave_bonus_mono:
  assumes "bonus_zeta_scaled c < 2 ^ 64" and "bonus_cap_scaled c < 2 ^ 64" and "r \<le> r'" and "r' < 2 ^ 64"
  shows "concave_bonus_scaled c r \<le> concave_bonus_scaled c r'"
proof -
  let ?z = "bonus_zeta_scaled c" and ?cap = "bonus_cap_scaled c"
  have r: "r < 2 ^ 64" using assms by simp
  have e: "concave_bonus_scaled c s = (if ?z + s = 0 then 0 else sat64 (?cap * s div (?z + s)))"
    if "s < 2 ^ 64" for s
  proof -
    have "sat128 (?z + s) = ?z + s" using assms that by (intro sat128_id) simp
    moreover have "sat128 (?cap * s) = ?cap * s"
      using assms that by (intro sat128_id u64_product)
    ultimately show ?thesis by (simp add: concave_bonus_scaled_def Let_def)
  qed
  have "?cap * r div (?z + r) \<le> ?cap * r' div (?z + r')" if "0 < ?z + r"
  proof -
    have "real r * ?z + real r * r' \<le> real r' * ?z + real r * r'"
      using assms by (intro add_right_mono mult_right_mono) simp_all
    then have "real r * (?z + r') \<le> real r' * (?z + r)" by (simp add: algebra_simps)
    moreover have "0 < real ?z + r" "0 < real ?z + r'" using that assms by linarith+
    ultimately have "real r / (?z + r) \<le> real r' / (?z + r')"
      by (simp add: pos_divide_le_eq pos_le_divide_eq)
    then have "real ?cap * (real r / (?z + r)) \<le> real ?cap * (real r' / (?z + r'))"
      by (rule mult_left_mono) simp
    then have "floor (real (?cap * r) / real (?z + r)) \<le> floor (real (?cap * r') / real (?z + r'))"
      by (intro floor_mono) simp
    then show ?thesis by (simp only: floor_divide_of_nat_eq of_nat_le_iff)
  qed
  then show ?thesis
    unfolding e [OF r] e [OF assms(4)] using assms(3) by (auto intro: sat64_mono)
qed

end
