(* ===== verification/Fixed_Log.thy ===== *)
theory Fixed_Log
  imports Fixed_Point
begin

text \<open>
  Accuracy of \<open>fixed_ln_1p_scaled\<close>.  The loop adds the first 24 terms of the series of
  \<open>- ln (1 - w)\<close> at \<open>w = x / (1 + x)\<close>, each rounded down; leaving it early loses nothing.
  So the result never exceeds the logarithm, is monotone, is within 60 units of the ninth
  decimal for arguments up to one, and stays below the 24th harmonic number however large the
  argument.
\<close>

definition ln_term :: "nat \<Rightarrow> nat \<Rightarrow> nat" where
  "ln_term z k = fixed_pow_loop z z k div Suc k"

definition ln_arg :: "nat \<Rightarrow> nat" where
  "ln_arg x = x * SCALE div (x + SCALE)"

lemma ln_arg_less: "ln_arg x < SCALE"
proof -
  have "x * SCALE < SCALE * (x + SCALE)" by (simp add: algebra_simps)
  then show ?thesis by (simp add: ln_arg_def less_mult_imp_div_less mult.commute)
qed

lemma ln_arg_mono: "x \<le> y \<Longrightarrow> ln_arg x \<le> ln_arg y"
proof -
  assume xy: "x \<le> y"
  have "real x * SCALE / (x + SCALE) \<le> real y * SCALE / (y + SCALE)"
  proof -
    have "real x * y + real x * SCALE \<le> real x * y + real y * SCALE" using xy by simp
    then have "real x * (y + SCALE) \<le> real y * (x + SCALE)" by (simp add: algebra_simps)
    moreover have "0 < real x + SCALE" "0 < real y + SCALE" by (simp_all add: add_nonneg_pos)
    ultimately have "real x / (x + SCALE) \<le> real y / (y + SCALE)"
      by (simp add: pos_divide_le_eq pos_le_divide_eq)
    then have "real x / (x + SCALE) * SCALE \<le> real y / (y + SCALE) * SCALE"
      by (rule mult_right_mono) simp
    then show ?thesis by (simp add: mult.commute)
  qed
  then have "floor (real (x * SCALE) / real (x + SCALE)) \<le> floor (real (y * SCALE) / real (y + SCALE))"
    by (intro floor_mono) simp
  then show ?thesis by (simp only: floor_divide_of_nat_eq ln_arg_def of_nat_le_iff)
qed

section \<open>The loop is a sum\<close>

lemma fixed_pow_loop_zero: "fixed_pow_loop z 0 n = 0"
  by (induction n) (simp_all add: sat128_def)

lemma ln_series_sum:
  assumes "z \<le> SCALE" and "acc \<le> m * SCALE" and "m + j \<le> 24"
  shows "ln_series z [Suc m..<Suc (m + j)] (fixed_pow_loop z z m) acc = acc + (\<Sum>k = m..<m + j. ln_term z k)"
  using assms(2,3)
proof (induction j arbitrary: m acc)
  case (Suc j)
  let ?t = "fixed_pow_loop z z m" and ?a = "acc + ln_term z m"
  have t: "?t \<le> SCALE" using fixed_pow_loop_le [OF assms(1)] assms(1) by (rule order_trans)
  have "ln_term z m \<le> SCALE" unfolding ln_term_def using t by (meson div_le_dividend order_trans)
  with Suc.prems have a: "?a \<le> Suc m * SCALE" by simp
  also have "\<dots> \<le> 24 * SCALE" using Suc.prems by (intro mult_le_mono) simp_all
  finally have "sat128 ?a = ?a"
    by (intro sat128_id) (simp add: topostake_fixed_point_scale_def)
  moreover have "[Suc m..<Suc (m + Suc j)] = Suc m # [Suc (Suc m)..<Suc (Suc m + j)]"
    by (simp add: upt_conv_Cons)
  moreover have nxt: "sat128 (?t * z) div SCALE = fixed_pow_loop z z (Suc m)"
    using fixed_pow_loop_add [of z z m 1] by simp
  ultimately have step: "ln_series z [Suc m..<Suc (m + Suc j)] ?t acc =
      (if fixed_pow_loop z z (Suc m) = 0 then ?a
       else ln_series z [Suc (Suc m)..<Suc (Suc m + j)] (fixed_pow_loop z z (Suc m)) ?a)"
    by (simp only: ln_series.simps Let_def ln_term_def)
  have split: "(\<Sum>k = m..<m + Suc j. ln_term z k) = ln_term z m + (\<Sum>k = Suc m..<Suc m + j. ln_term z k)"
    by (simp add: sum.atLeast_Suc_lessThan)
  show ?case
  proof (cases "fixed_pow_loop z z (Suc m) = 0")
    case True
    have "ln_term z k = 0" if "k \<in> {Suc m..<Suc m + j}" for k
    proof -
      from that obtain i where "k = Suc m + i" by (metis le_Suc_ex atLeastLessThan_iff)
      then show ?thesis
        using fixed_pow_loop_add [of z z "Suc m" i] True by (simp only: ln_term_def fixed_pow_loop_zero div_0)
    qed
    then have "(\<Sum>k = Suc m..<Suc m + j. ln_term z k) = 0" by (intro sum.neutral) simp
    with True show ?thesis by (simp only: step split simp_thms if_True add_0_right)
  next
    case False
    with Suc.IH [OF a] Suc.prems show ?thesis by (simp only: step split if_False)
  qed
qed simp

lemma fixed_ln_sum:
  assumes "x < 2 ^ 64"
  shows "fixed_ln_1p_scaled x = (\<Sum>k<24. ln_term (ln_arg x) k)"
proof (cases "x = 0")
  case True
  then show ?thesis
    by (simp add: fixed_ln_1p_scaled_def ln_arg_def ln_term_def fixed_pow_loop_zero)
next
  case False
  let ?z = "ln_arg x"
  have "x * SCALE < 2 ^ 128" using u64_product [OF assms scale_u64] .
  moreover have "x + SCALE < 2 ^ 128"
    using assms by (simp add: topostake_fixed_point_scale_def)
  ultimately have z: "sat128 (x * SCALE) div sat128 (x + SCALE) = ?z"
    by (simp only: sat128_id ln_arg_def)
  have "ln_series ?z [1..<25] ?z 0 = (\<Sum>k<24. ln_term ?z k)"
    using ln_series_sum [of ?z 0 0 24] ln_arg_less [of x] by (simp add: atLeast0LessThan)
  moreover have "(\<Sum>k<24. ln_term ?z k) \<le> (\<Sum>k<(24::nat). SCALE)"
    unfolding ln_term_def
    using fixed_pow_loop_le [of ?z ?z] less_imp_le [OF ln_arg_less [of x]]
    by (intro sum_mono) (meson div_le_dividend order_trans)
  ultimately have "sat64 (ln_series ?z [1..<25] ?z 0) = (\<Sum>k<24. ln_term ?z k)"
    by (simp add: sat64_id topostake_fixed_point_scale_def)
  with False show ?thesis by (simp only: fixed_ln_1p_scaled_def z Let_def if_False)
qed

section \<open>Monotone and bounded\<close>

lemma fixed_pow_loop_mono_base:
  "b \<le> b' \<Longrightarrow> out \<le> out' \<Longrightarrow> fixed_pow_loop b out n \<le> fixed_pow_loop b' out' n"
proof (induction n arbitrary: out out')
  case (Suc n)
  show ?case
    unfolding fixed_pow_loop.simps
    by (intro Suc.IH Suc.prems div_le_mono sat128_mono mult_le_mono)
qed simp

lemma fixed_ln_mono:
  "x \<le> y \<Longrightarrow> y < 2 ^ 64 \<Longrightarrow> fixed_ln_1p_scaled x \<le> fixed_ln_1p_scaled y"
  using ln_arg_mono [of x y]
  by (auto simp: fixed_ln_sum ln_term_def simp del: power_numeral
      intro!: sum_mono div_le_mono fixed_pow_loop_mono_base)

lemma fixed_ln_harmonic:
  assumes "x < 2 ^ 64"
  shows "fixed_ln_1p_scaled x \<le> 3775958168"
proof -
  have "fixed_ln_1p_scaled x \<le> (\<Sum>k<(24::nat). SCALE div Suc k)"
    unfolding fixed_ln_sum [OF assms] ln_term_def
    using fixed_pow_loop_le [of "ln_arg x" "ln_arg x"] less_imp_le [OF ln_arg_less [of x]]
    by (intro sum_mono div_le_mono) (meson order_trans)
  also have "\<dots> \<le> 3775958168"
    by (simp add: topostake_fixed_point_scale_def lessThan_nat_numeral lessThan_Suc
        flip: numeral_2_eq_2)
  finally show ?thesis .
qed

section \<open>Comparison with the real logarithm\<close>

definition ln_part :: "real \<Rightarrow> nat \<Rightarrow> real" where
  "ln_part w n = (\<Sum>k<n. w ^ Suc k / Suc k)"

lemma ln_part_sums:
  assumes "0 \<le> w" and "w < 1"
  shows "(\<lambda>k. w ^ Suc k / Suc k) sums (- ln (1 - w))"
proof -
  let ?f = "\<lambda>k. w ^ Suc k / Suc k"
  have "summable (\<lambda>k. w ^ k)" using assms by (intro summable_geometric) simp
  moreover have "norm (?f k) \<le> w ^ k" for k
  proof -
    have "w ^ Suc k * (1 / Suc k) \<le> w ^ Suc k" using assms by (intro mult_left_le) simp_all
    also have "\<dots> \<le> w ^ k" using assms by (intro power_decreasing) simp_all
    finally show ?thesis using assms by simp
  qed
  ultimately have sm: "summable ?f" by (rule summable_comparison_test' [where N = 0])
  have "(\<Sum>k. ?f k) = - ln (1 - w)"
  proof (cases "w = 0")
    case False
    have "ln (1 - w) = (\<Sum>k. (-1) ^ k * (1 / real (k + 1)) * (1 - w - 1) ^ Suc k)"
      using assms False by (intro ln_series) auto
    also have "\<dots> = (\<Sum>k. - ?f k)"
    proof (intro arg_cong [of _ _ suminf] ext)
      fix k
      have "(- 1) ^ k * (- w) ^ Suc k = - (w ^ Suc k)"
        by (simp only: power_Suc2 mult.assoc [symmetric] power_mult_distrib [symmetric]) simp
      then show "(- 1) ^ k * (1 / real (k + 1)) * (1 - w - 1) ^ Suc k = - ?f k" by simp
    qed
    also have "\<dots> = - (\<Sum>k. ?f k)" by (rule suminf_minus [OF sm])
    finally show ?thesis by simp
  qed simp
  with summable_sums [OF sm] show ?thesis by (simp only:)
qed

lemma ln_part_le:
  assumes "0 \<le> w" and "w < 1"
  shows "ln_part w n \<le> - ln (1 - w)"
proof -
  have "ln_part w n \<le> (\<Sum>k. w ^ Suc k / Suc k)"
    unfolding ln_part_def
    using assms ln_part_sums [OF assms] by (intro sum_le_suminf) (auto simp: sums_iff)
  with ln_part_sums [OF assms] show ?thesis by (simp add: sums_iff)
qed

lemma ln_part_tail:
  assumes "0 \<le> w" and "w \<le> 1 / 2"
  shows "- ln (1 - w) \<le> ln_part w n + 2 * w ^ Suc n / Suc n"
proof -
  let ?f = "\<lambda>k. w ^ Suc k / Suc k"
  have s: "?f sums (- ln (1 - w))" using assms by (intro ln_part_sums) simp_all
  then have "- ln (1 - w) = ln_part w n + (\<Sum>k. ?f (k + n))"
    unfolding ln_part_def using suminf_split_initial_segment [of ?f n] by (simp add: sums_iff)
  also have "(\<Sum>k. ?f (k + n)) \<le> (\<Sum>k. w ^ Suc n / Suc n * w ^ k)"
  proof (intro suminf_le)
    show "?f (k + n) \<le> w ^ Suc n / Suc n * w ^ k" for k
    proof -
      have "w ^ Suc (k + n) / Suc (k + n) \<le> w ^ Suc (k + n) / Suc n"
        using assms by (intro divide_left_mono) simp_all
      then show ?thesis by (simp add: power_add mult_ac)
    qed
    show "summable (\<lambda>k. ?f (k + n))" using s by (subst summable_iff_shift) (simp add: sums_iff)
    show "summable (\<lambda>k. w ^ Suc n / Suc n * w ^ k)"
      using assms by (intro summable_mult summable_geometric) simp
  qed
  also have "(\<Sum>k. w ^ Suc n / Suc n * w ^ k) = w ^ Suc n / Suc n * (1 / (1 - w))"
    using assms by (subst suminf_mult) (simp_all add: suminf_geometric summable_geometric)
  also have "\<dots> \<le> w ^ Suc n / Suc n * 2"
    using assms by (intro mult_left_mono) (simp_all add: field_simps)
  finally show ?thesis by (simp add: mult.commute)
qed

lemma ln_term_bounds:
  assumes "z \<le> SCALE"
  shows "real (ln_term z k) \<le> SCALE * ((real z / SCALE) ^ Suc k / Suc k)"
    and "SCALE * ((real z / SCALE) ^ Suc k / Suc k) - 2 \<le> real (ln_term z k)"
proof -
  let ?w = "real z / SCALE" and ?t = "fixed_pow_loop z z k"
  have e: "real z * ?w ^ k = SCALE * ?w ^ Suc k" by simp
  note t = fixed_pow_loop_bounds [OF assms assms, of k, unfolded e]
  note d = div_real_bounds [of ?t "Suc k"]
  have "real ?t / Suc k \<le> SCALE * ?w ^ Suc k / Suc k"
    using t(1) by (intro divide_right_mono) simp_all
  with d(1) show "real (ln_term z k) \<le> SCALE * (?w ^ Suc k / Suc k)" by (simp add: ln_term_def)
  have "(SCALE * ?w ^ Suc k - k) / Suc k \<le> real ?t / Suc k"
    using t(2) by (intro divide_right_mono) simp_all
  moreover have "real k / Suc k \<le> 1" by simp
  ultimately show "SCALE * (?w ^ Suc k / Suc k) - 2 \<le> real (ln_term z k)"
    using d(2) unfolding ln_term_def diff_divide_distrib times_divide_eq_right by linarith
qed

lemma ln_sum_bounds:
  assumes "z \<le> SCALE"
  shows "real (\<Sum>k<n. ln_term z k) \<le> SCALE * ln_part (real z / SCALE) n"
    and "SCALE * ln_part (real z / SCALE) n - 2 * real n \<le> real (\<Sum>k<n. ln_term z k)"
proof -
  let ?g = "\<lambda>k. SCALE * ((real z / SCALE) ^ Suc k / Suc k)"
  have e: "SCALE * ln_part (real z / SCALE) n = (\<Sum>k<n. ?g k)"
    by (simp add: ln_part_def sum_distrib_left)
  show "real (\<Sum>k<n. ln_term z k) \<le> SCALE * ln_part (real z / SCALE) n"
    unfolding e of_nat_sum by (intro sum_mono ln_term_bounds(1) assms)
  have "(\<Sum>k<n. ?g k) - 2 * real n = (\<Sum>k<n. ?g k - 2)" by (simp add: sum_subtractf)
  also have "\<dots> \<le> real (\<Sum>k<n. ln_term z k)"
    unfolding of_nat_sum by (intro sum_mono ln_term_bounds(2) assms)
  finally show "SCALE * ln_part (real z / SCALE) n - 2 * real n \<le> real (\<Sum>k<n. ln_term z k)"
    unfolding e .
qed

lemma ratio_bounds:
  fixes a :: real
  assumes "0 \<le> a"
  shows "0 \<le> a / (a + 1)" "a / (a + 1) < 1" "a \<le> 1 \<Longrightarrow> a / (a + 1) \<le> 1 / 2"
  using assms by (simp_all add: divide_less_eq divide_le_eq)

lemma ln_ratio: "0 \<le> a \<Longrightarrow> - ln (1 - a / (a + 1)) = ln (1 + a)" for a :: real
proof -
  assume a: "0 \<le> a"
  then have "1 - a / (a + 1) = inverse (1 + a)" by (simp add: field_simps)
  with a show ?thesis by (simp add: ln_inverse)
qed

lemma ln_gap:
  fixes w y e :: real
  assumes "w \<le> y" and "y \<le> 1 / 2" and "y - w \<le> e"
  shows "- ln (1 - y) \<le> - ln (1 - w) + 2 * e"
proof -
  have "(1 - w) / (1 - y) = 1 + (y - w) / (1 - y)" using assms by (simp add: field_simps)
  then have "ln (1 - w) - ln (1 - y) = ln (1 + (y - w) / (1 - y))"
    using assms ln_divide_pos [of "1 - w" "1 - y"] by simp
  also have "\<dots> \<le> (y - w) / (1 - y)" using assms by (intro ln_add_one_self_le_self) simp
  also have "\<dots> \<le> (y - w) / (1 / 2)" using assms by (intro divide_left_mono) simp_all
  finally show ?thesis using assms(3) by simp
qed

lemma ln_arg_bounds:
  shows "real (ln_arg x) / SCALE \<le> (real x / SCALE) / (real x / SCALE + 1)"
    and "(real x / SCALE) / (real x / SCALE + 1) - 1 / SCALE \<le> real (ln_arg x) / SCALE"
proof -
  have e: "(real x / SCALE) / (real x / SCALE + 1) = real (x * SCALE) / real (x + SCALE) / SCALE"
  proof -
    have "real x / SCALE + 1 = (real x + SCALE) / SCALE" by (simp add: add_divide_distrib)
    then show ?thesis by simp
  qed
  note d = div_real_bounds [of "x * SCALE" "x + SCALE", folded ln_arg_def]
  show "real (ln_arg x) / SCALE \<le> (real x / SCALE) / (real x / SCALE + 1)"
    unfolding e using d(1) by (intro divide_right_mono) simp_all
  show "(real x / SCALE) / (real x / SCALE + 1) - 1 / SCALE \<le> real (ln_arg x) / SCALE"
    unfolding e diff_divide_distrib [symmetric] using d(2) by (intro divide_right_mono) simp_all
qed

text \<open>The series never exceeds the logarithm.\<close>

lemma fixed_ln_upper:
  assumes "x < 2 ^ 64"
  shows "real (fixed_ln_1p_scaled x) \<le> SCALE * ln (1 + real x / SCALE)"
proof -
  let ?w = "real (ln_arg x) / SCALE" and ?a = "real x / SCALE"
  have w: "0 \<le> ?w" "?w < 1" using ln_arg_less [of x] by simp_all
  have "ln_part ?w 24 \<le> - ln (1 - ?w)" using w by (rule ln_part_le)
  also have "\<dots> \<le> - ln (1 - ?a / (?a + 1))"
  proof -
    have "?a / (?a + 1) < 1" by (rule ratio_bounds) simp
    with ln_arg_bounds(1) [of x] w show ?thesis by simp
  qed
  also have "\<dots> = ln (1 + ?a)" by (rule ln_ratio) simp
  finally have "SCALE * ln_part ?w 24 \<le> SCALE * ln (1 + ?a)" by (intro mult_left_mono) simp_all
  with ln_sum_bounds(1) [of "ln_arg x" 24] less_imp_le [OF ln_arg_less [of x]]
  show ?thesis unfolding fixed_ln_sum [OF assms] by linarith
qed

text \<open>For arguments up to one it is at most 60 units of the ninth decimal below it.\<close>

lemma fixed_ln_lower:
  assumes "x \<le> SCALE"
  shows "SCALE * ln (1 + real x / SCALE) - 60 \<le> real (fixed_ln_1p_scaled x)"
proof -
  define a where "a = real x / SCALE"
  define w where "w = real (ln_arg x) / SCALE"
  define y where "y = a / (a + 1)"
  have a: "0 \<le> a" "a \<le> 1" using assms by (simp_all add: a_def)
  have y: "y \<le> 1 / 2" using ratio_bounds(3) [OF a] by (simp add: y_def)
  have w: "0 \<le> w" "w \<le> y" "y - w \<le> 1 / SCALE"
    using ln_arg_bounds [of x, folded a_def, folded w_def y_def] by (simp_all add: w_def)
  have "ln (1 + a) \<le> - ln (1 - w) + 2 * (1 / SCALE)"
    using ln_gap [OF w(2) y w(3)] ln_ratio [OF a(1)] by (simp add: y_def)
  moreover have "- ln (1 - w) \<le> ln_part w 24 + 2 * w ^ 25 / 25"
    using ln_part_tail [OF w(1) order_trans [OF w(2) y], of 24] by simp
  moreover have "w ^ 25 \<le> (1 / 2) ^ 25" by (rule power_mono [OF order_trans [OF w(2) y] w(1)])
  ultimately have "ln (1 + a) \<le> ln_part w 24 + 2 * (1 / 2) ^ 25 / 25 + 2 * (1 / SCALE)" by linarith
  then have "SCALE * ln (1 + a) \<le> SCALE * (ln_part w 24 + 2 * (1 / 2) ^ 25 / 25 + 2 * (1 / SCALE))"
    by (intro mult_left_mono) simp_all
  also have "\<dots> \<le> SCALE * ln_part w 24 + 12"
    unfolding distrib_left by (simp add: topostake_fixed_point_scale_def power_divide)
  also have "\<dots> \<le> real (\<Sum>k<24. ln_term (ln_arg x) k) + 60"
    using ln_sum_bounds(2) [of "ln_arg x" 24] less_imp_le [OF ln_arg_less [of x]]
    by (simp add: w_def)
  also have "(\<Sum>k<24. ln_term (ln_arg x) k) = fixed_ln_1p_scaled x"
    using assms scale_u64 by (intro fixed_ln_sum [symmetric]) simp
  finally show ?thesis by (simp add: a_def)
qed

end
