(* ===== verification/Beacon_Paths.thy ===== *)
theory Beacon_Paths
  imports Beacon_Config Fixed_Log
begin

text \<open>
  Relay paths in the consensus client (\<open>chain_spec.rs\<close>): the text form carried by graffiti and
  its validation, the budget of a path and its division among the relays, the weight of a
  transaction, and the saturation of an epoch's contribution by stake.
\<close>

definition graffiti_evidence_prefix :: string where
  "graffiti_evidence_prefix = ''TPS1:''"

section \<open>Reading and validating a path\<close>

fun first_repeated :: "nat list \<Rightarrow> nat list \<Rightarrow> nat option" where
  "first_repeated seen [] = None"
| "first_repeated seen (v # vs) = (if v \<in> set seen then Some v else first_repeated (v # seen) vs)"

definition validate_topostake_validator_path :: "nat list \<Rightarrow> chain_spec \<Rightarrow> string + unit" where
  "validate_topostake_validator_path path spec =
    (if path = [] then Inl ''empty TopoStake path''
     else if max_path_evidence_len (topostake_config spec) < length path then
       Inl (''TopoStake path length '' @ show_nat (length path) @ '' exceeds max '' @
            show_nat (max_path_evidence_len (topostake_config spec)))
     else case first_repeated [] path of
         Some v \<Rightarrow> Inl (''repeated validator identity in TopoStake path: '' @ show_nat v)
       | None \<Rightarrow> Inr ())"

fun parse_indices :: "string list \<Rightarrow> string + nat list" where
  "parse_indices [] = Inr []"
| "parse_indices (item # items) =
    (case parse_u64 (trim item) of
       None \<Rightarrow> Inl (''invalid validator index: '' @ item)
     | Some v \<Rightarrow> (case parse_indices items of Inl e \<Rightarrow> Inl e | Inr vs \<Rightarrow> Inr (v # vs)))"

definition parse_topostake_validator_path :: "string \<Rightarrow> chain_spec \<Rightarrow> string + nat list" where
  "parse_topostake_validator_path path_csv spec =
    (if path_csv = [] then Inl ''empty TopoStake path''
     else case parse_indices (split_on (CHR '','') path_csv) of
         Inl e \<Rightarrow> Inl e
       | Inr path \<Rightarrow> (case validate_topostake_validator_path path spec of
             Inl e \<Rightarrow> Inl e
           | Inr _ \<Rightarrow> Inr path))"

definition graffiti_text :: "bytes \<Rightarrow> string option" where
  "graffiti_text graffiti = map_option (\<lambda>s. trim (trim_matches (CHR 0x00) s)) (from_utf8 graffiti)"

definition decode_topostake_graffiti_evidence :: "bytes \<Rightarrow> chain_spec \<Rightarrow> string + nat list option" where
  "decode_topostake_graffiti_evidence graffiti spec =
    (case graffiti_text graffiti of
       None \<Rightarrow> Inl ''graffiti is not valid utf8''
     | Some raw \<Rightarrow> (case strip_prefix graffiti_evidence_prefix raw of
           Some path_csv \<Rightarrow> (case parse_topostake_validator_path path_csv spec of
               Inl e \<Rightarrow> Inl e
             | Inr path \<Rightarrow> Inr (Some path))
         | None \<Rightarrow> Inr None))"

section \<open>The value of a path\<close>

definition topostake_transaction_credit_weight_scaled :: "nat \<Rightarrow> nat \<Rightarrow> nat" where
  "topostake_transaction_credit_weight_scaled irrecoverable_cost_wei reference_cost_wei =
    (if irrecoverable_cost_wei = 0 \<or> reference_cost_wei = 0 then 0
     else min (scaled_mul_div irrecoverable_cost_wei SCALE reference_cost_wei) SCALE)"

definition path_depth :: "chain_spec \<Rightarrow> nat" where
  "path_depth spec = max (score_target_depth (topostake_config spec)) 1"

definition path_lambda_scaled :: "chain_spec \<Rightarrow> nat" where
  "path_lambda_scaled spec =
    sat64 (sat128 (sat128 (sat128 (path_depth spec * 2) + 1) * SCALE)
           div sat128 (sat128 (path_depth spec * 3) + 1))"

definition path_r_scaled :: "chain_spec \<Rightarrow> nat" where
  "path_r_scaled spec =
    sat64 (sat128 (path_depth spec * SCALE) div sat128 (sat128 (path_depth spec * 2) + 1))"

definition depth_factor :: "chain_spec \<Rightarrow> nat \<Rightarrow> nat" where
  "depth_factor spec edge_count =
    (if edge_count \<le> path_depth spec then SCALE else sat128 (path_depth spec * SCALE) div edge_count)"

definition topostake_path_budget_scaled :: "nat \<Rightarrow> chain_spec \<Rightarrow> nat" where
  "topostake_path_budget_scaled edge_count spec =
    (if edge_count = 0 then 0
     else let decay = fixed_pow_scaled (path_lambda_scaled spec) (edge_count - 1)
          in sat64 (sat128 (depth_factor spec edge_count * decay) div SCALE))"

definition topostake_path_relay_contributions :: "nat list \<Rightarrow> chain_spec \<Rightarrow> (nat \<times> nat) list" where
  "topostake_path_relay_contributions path spec =
    (if path = [] then []
     else let edge_count = length path - 1
     in if edge_count \<le> 1 then []
     else let budget = topostake_path_budget_scaled edge_count spec
     in if budget = 0 then []
     else let relay_count = edge_count - 1;
              weights = map (fixed_pow_scaled (path_r_scaled spec)) [0..<relay_count];
              weight_sum = sum_list weights
     in if weight_sum = 0 then []
     else filter (\<lambda>p. 0 < snd p)
       (map (\<lambda>(validator_index, weight).
              (validator_index, sat64 (sat128 (budget * weight) div weight_sum)))
         (zip (take relay_count (drop 1 path)) weights)))"

definition topostake_saturate_contribution_scaled :: "nat \<Rightarrow> nat \<Rightarrow> nat \<Rightarrow> nat \<Rightarrow> nat" where
  "topostake_saturate_contribution_scaled raw effective_balance total_active_balance saturation_k =
    (if raw = 0 \<or> effective_balance = 0 \<or> total_active_balance = 0 \<or> saturation_k = 0 then 0
     else let stake_share_scaled = scaled_mul_div effective_balance SCALE total_active_balance
     in if stake_share_scaled = 0 then 0
     else let denominator = scaled_mul_div saturation_k stake_share_scaled SCALE
     in if denominator = 0 then 0
     else let ratio_scaled = scaled_mul_div raw SCALE denominator;
              ln_scaled = fixed_ln_1p_scaled ratio_scaled
     in scaled_mul_div stake_share_scaled ln_scaled SCALE)"

section \<open>Validated paths\<close>

lemma first_repeated_None: "first_repeated seen vs = None \<longleftrightarrow> distinct vs \<and> set vs \<inter> set seen = {}"
  by (induction seen vs rule: first_repeated.induct) auto

lemma validate_path_iff:
  "validate_topostake_validator_path path spec = Inr () \<longleftrightarrow>
    path \<noteq> [] \<and> length path \<le> max_path_evidence_len (topostake_config spec) \<and> distinct path"
  using first_repeated_None [of "[]" path]
  by (cases "first_repeated [] path") (auto simp: validate_topostake_validator_path_def not_less)

lemma validate_path_cases:
  "validate_topostake_validator_path path spec = Inr () \<or>
   (\<exists>e. validate_topostake_validator_path path spec = Inl e)"
  by (cases "validate_topostake_validator_path path spec") auto

section \<open>Text round trip\<close>

definition print_path :: "nat list \<Rightarrow> string" where
  "print_path path = join_with '','' (map show_nat path)"

lemma parse_indices_show:
  "(\<And>v. v \<in> set path \<Longrightarrow> v < 2 ^ 64) \<Longrightarrow> parse_indices (map show_nat path) = Inr path"
  by (induction path) (simp_all add: parse_show_u64)

lemma join_with_not_Nil: "ts \<noteq> [] \<Longrightarrow> [] \<notin> set ts \<Longrightarrow> join_with sep ts \<noteq> []"
  by (induction sep ts rule: join_with.induct) auto

lemma print_path_not_Nil: "path \<noteq> [] \<Longrightarrow> print_path path \<noteq> []"
  unfolding print_path_def by (rule join_with_not_Nil) (auto simp: image_iff show_nat_not_Nil [symmetric])

lemma split_print_path: "path \<noteq> [] \<Longrightarrow> split_on (CHR '','') (print_path path) = map show_nat path"
  unfolding print_path_def
  by (rule split_join) (auto dest!: show_nat_digits simp: is_digit_def)

lemma parse_print_path:
  assumes "validate_topostake_validator_path path spec = Inr ()"
    and "\<And>v. v \<in> set path \<Longrightarrow> v < 2 ^ 64"
  shows "parse_topostake_validator_path (print_path path) spec = Inr path"
proof -
  from assms(1) have "path \<noteq> []" by (simp add: validate_path_iff)
  with assms parse_indices_show [OF assms(2)] show ?thesis
    by (simp add: parse_topostake_validator_path_def split_print_path print_path_not_Nil del: power_numeral)
qed

text \<open>Whatever text is accepted as a path satisfies the validation and fits machine integers.\<close>

lemma parse_indices_u64: "parse_indices ss = Inr vs \<Longrightarrow> v \<in> set vs \<Longrightarrow> v < 2 ^ 64"
  by (induction ss arbitrary: vs)
     (auto split: option.splits sum.splits dest: parse_u64_less simp del: power_numeral)

lemma parse_path_valid:
  assumes "parse_topostake_validator_path s spec = Inr path"
  shows "validate_topostake_validator_path path spec = Inr ()" and "\<forall>v \<in> set path. v < 2 ^ 64"
proof -
  obtain vs where "parse_indices (split_on (CHR '','') s) = Inr vs"
    "validate_topostake_validator_path vs spec = Inr ()" "path = vs"
    using assms unfolding parse_topostake_validator_path_def by (auto split: if_splits sum.splits)
  then show "validate_topostake_validator_path path spec = Inr ()" and "\<forall>v \<in> set path. v < 2 ^ 64"
    by (auto dest: parse_indices_u64 simp del: power_numeral)
qed

section \<open>Bounds of the budget and of its parts\<close>

lemma sat128_quotient_le:
  assumes "a \<le> b * k" and "0 < b" and "1 \<le> k"
  shows "sat128 a div sat128 b \<le> k"
proof (cases "b < 2 ^ 128")
  case True
  have "sat128 a \<le> b * k" using sat128_le(1) assms(1) by (rule order_trans)
  then have "sat128 a div b \<le> b * k div b" by (rule div_le_mono)
  with True assms show ?thesis by (simp add: sat128_id)
next
  case False
  then have "sat128 b = 2 ^ 128 - 1" by (simp add: sat128_def)
  moreover have "sat128 a \<le> 2 ^ 128 - 1" by (rule sat128_le(2))
  ultimately have "sat128 a div sat128 b \<le> 1" by (metis div_le_mono div_self div_by_0 zero_le_one)
  with assms show ?thesis by simp
qed

lemma path_lambda_le: "path_lambda_scaled spec \<le> SCALE"
proof -
  let ?d = "path_depth spec"
  have "sat128 (sat128 (?d * 2) + 1) \<le> sat128 (sat128 (?d * 3) + 1)"
    by (intro sat128_mono add_right_mono) simp
  then have "sat128 (sat128 (?d * 2) + 1) * SCALE \<le> sat128 (sat128 (?d * 3) + 1) * SCALE"
    by (rule mult_right_mono) simp
  moreover have "0 < sat128 (sat128 (?d * 3) + 1)" by (simp add: sat128_def)
  moreover have "sat128 (sat128 x) = sat128 x" for x by (simp add: sat128_def)
  ultimately have "sat128 (sat128 (sat128 (?d * 2) + 1) * SCALE) div sat128 (sat128 (?d * 3) + 1) \<le> SCALE"
    using sat128_quotient_le [of _ "sat128 (sat128 (?d * 3) + 1)" SCALE]
    by (simp add: topostake_fixed_point_scale_def)
  then show ?thesis
    unfolding path_lambda_scaled_def by (rule order_trans [OF sat64_le(1)])
qed

lemma path_r_le: "path_r_scaled spec \<le> SCALE"
proof -
  let ?d = "path_depth spec"
  have "?d * SCALE \<le> (sat128 (?d * 2) + 1) * SCALE \<or> 2 ^ 128 - 1 < ?d * 2"
    by (auto simp: sat128_def)
  then have "sat128 (?d * SCALE) div sat128 (sat128 (?d * 2) + 1) \<le> SCALE"
  proof
    assume "?d * SCALE \<le> (sat128 (?d * 2) + 1) * SCALE"
    then show ?thesis by (rule sat128_quotient_le) (simp_all add: topostake_fixed_point_scale_def)
  next
    assume "2 ^ 128 - 1 < ?d * 2"
    then have "sat128 (sat128 (?d * 2) + 1) = 2 ^ 128 - 1" by (simp add: sat128_def)
    moreover have "sat128 (?d * SCALE) \<le> 2 ^ 128 - 1" by (rule sat128_le(2))
    ultimately have "sat128 (?d * SCALE) div sat128 (sat128 (?d * 2) + 1) \<le> 1"
      by (metis div_le_mono div_self div_by_0 zero_le_one)
    then show ?thesis by (simp add: topostake_fixed_point_scale_def)
  qed
  then show ?thesis unfolding path_r_scaled_def by (rule order_trans [OF sat64_le(1)])
qed

lemma depth_factor_le: "depth_factor spec e \<le> SCALE"
proof (cases "e \<le> path_depth spec")
  case False
  then have "sat128 (path_depth spec * SCALE) div e \<le> e * SCALE div e"
    by (intro div_le_mono order_trans [OF sat128_le(1)]) simp
  with False show ?thesis by (simp add: depth_factor_def)
qed (simp add: depth_factor_def)

lemma depth_factor_antimono: "e \<le> e' \<Longrightarrow> depth_factor spec e' \<le> depth_factor spec e"
proof (cases "e \<le> path_depth spec")
  case True
  then show ?thesis using depth_factor_le by (simp add: depth_factor_def [of spec e])
next
  case False
  assume "e \<le> e'"
  with False show ?thesis by (simp add: depth_factor_def div_le_mono2)
qed

lemma path_budget_eq:
  assumes "0 < e"
  shows "topostake_path_budget_scaled e spec =
    depth_factor spec e * fixed_pow_scaled (path_lambda_scaled spec) (e - 1) div SCALE"
proof -
  let ?p = "depth_factor spec e * fixed_pow_scaled (path_lambda_scaled spec) (e - 1)"
  have "?p \<le> SCALE * SCALE"
    by (intro mult_le_mono depth_factor_le fixed_pow_le_scale path_lambda_le)
  then have "sat128 ?p = ?p" and "sat64 (?p div SCALE) = ?p div SCALE"
    by (auto intro!: sat128_id sat64_id simp: topostake_fixed_point_scale_def)
  with assms show ?thesis by (simp add: topostake_path_budget_scaled_def)
qed

lemma path_budget_le: "topostake_path_budget_scaled e spec \<le> SCALE"
proof (cases "e = 0")
  case False
  have "depth_factor spec e * fixed_pow_scaled (path_lambda_scaled spec) (e - 1) div SCALE
      \<le> SCALE * SCALE div SCALE"
    by (intro div_le_mono mult_le_mono depth_factor_le fixed_pow_le_scale path_lambda_le)
  with False show ?thesis by (simp add: path_budget_eq)
qed (simp add: topostake_path_budget_scaled_def)

text \<open>A longer path never has a larger budget.\<close>

lemma path_budget_antimono:
  "0 < e \<Longrightarrow> e \<le> e' \<Longrightarrow> topostake_path_budget_scaled e' spec \<le> topostake_path_budget_scaled e spec"
  by (simp add: path_budget_eq)
     (intro div_le_mono mult_le_mono depth_factor_antimono fixed_pow_antimono path_lambda_le, simp_all)

lemma sum_list_shares:
  "0 < (W :: nat) \<Longrightarrow> sum_list (map (\<lambda>w. b * w div W) ws) \<le> b * sum_list ws div W"
proof (induction ws)
  case (Cons w ws)
  have "b * w div W + b * sum_list ws div W \<le> (b * w + b * sum_list ws) div W"
    unfolding div_add1_eq [of "b * w" "b * sum_list ws" W] by simp
  with Cons show ?case by (simp add: distrib_left)
qed simp

lemma sum_list_filter_pos: "sum_list (map snd (filter (\<lambda>p. 0 < snd p) ps)) = sum_list (map snd ps)"
  for ps :: "('a \<times> nat) list"
  by (induction ps) auto

text \<open>
  The contributions, when there are any: relay \<open>i\<close> receives its share of the budget, rounded
  down, where the weights fall geometrically along the path.
\<close>

definition relay_weights :: "chain_spec \<Rightarrow> nat \<Rightarrow> nat list" where
  "relay_weights spec n = map (fixed_pow_scaled (path_r_scaled spec)) [0..<n]"

lemma relay_weights_pos: "0 < n \<Longrightarrow> 0 < sum_list (relay_weights spec n)"
proof -
  assume "0 < n"
  then have "SCALE \<in> set (relay_weights spec n)"
    by (auto simp: relay_weights_def image_iff fixed_pow_zero intro!: bexI [of _ 0])
  then have "SCALE \<le> sum_list (relay_weights spec n)" by (rule member_le_sum_list) simp
  then show ?thesis by (simp add: topostake_fixed_point_scale_def)
qed

lemma contributions_eq:
  assumes "2 < length path"
  shows "topostake_path_relay_contributions path spec =
    filter (\<lambda>p. 0 < snd p)
      (map (\<lambda>(v, w). (v, topostake_path_budget_scaled (length path - 1) spec * w
                        div sum_list (relay_weights spec (length path - 2))))
        (zip (butlast (tl path)) (relay_weights spec (length path - 2))))"
proof -
  let ?b = "topostake_path_budget_scaled (length path - 1) spec"
  let ?ws = "relay_weights spec (length path - 2)"
  have inner: "take (length path - 1 - 1) (drop 1 path) = butlast (tl path)"
    by (simp add: butlast_conv_take drop_Suc)
  have ws: "map (fixed_pow_scaled (path_r_scaled spec)) [0..<length path - 1 - 1] = ?ws"
    by (simp add: relay_weights_def numeral_2_eq_2)
  have exact: "sat64 (sat128 (?b * w) div sum_list ?ws) = ?b * w div sum_list ?ws"
    if "w \<in> set ?ws" for w
  proof -
    have "w \<le> SCALE" using that fixed_pow_le_scale [OF path_r_le] by (auto simp: relay_weights_def)
    then have "?b * w \<le> SCALE * SCALE" using path_budget_le by (intro mult_le_mono)
    moreover from this have "?b * w div sum_list ?ws \<le> SCALE * SCALE"
      by (rule order_trans [OF div_le_dividend])
    moreover have "SCALE * SCALE < 2 ^ 64" by (simp add: topostake_fixed_point_scale_def)
    moreover from this have "SCALE * SCALE < 2 ^ 128" by simp
    ultimately show ?thesis by (metis le_less_trans sat64_id sat128_id)
  qed
  have m: "map (\<lambda>(v, w). (v, sat64 (sat128 (?b * w) div sum_list ?ws))) (zip (butlast (tl path)) ?ws) =
      map (\<lambda>(v, w). (v, ?b * w div sum_list ?ws)) (zip (butlast (tl path)) ?ws)"
    by (rule map_cong) (auto dest!: set_zip_rightD intro: exact [simplified])
  have c: "path \<noteq> []" "\<not> length path - 1 \<le> 1" "sum_list ?ws \<noteq> 0"
    using assms relay_weights_pos [of "length path - 2" spec] by (auto simp del: sum_list_eq_0_iff)
  show ?thesis
  proof (cases "?b = 0")
    case True
    have "filter (\<lambda>p. 0 < snd p) (map (\<lambda>(v, w). (v, 0 :: nat)) qs) = []" for qs :: "(nat \<times> nat) list"
      by (auto simp: filter_empty_conv)
    with True show ?thesis
      by (simp add: topostake_path_relay_contributions_def Let_def)
  next
    case False
    with c show ?thesis
      unfolding topostake_path_relay_contributions_def Let_def inner ws m by (simp only: if_False)
  qed
qed

lemma contributions_short: "length path \<le> 2 \<Longrightarrow> topostake_path_relay_contributions path spec = []"
  by (auto simp: topostake_path_relay_contributions_def Let_def)

text \<open>What the relays receive together is at most the budget of the path.\<close>

lemma contributions_sum:
  "sum_list (map snd (topostake_path_relay_contributions path spec))
    \<le> topostake_path_budget_scaled (length path - 1) spec"
proof (cases "2 < length path")
  case True
  let ?b = "topostake_path_budget_scaled (length path - 1) spec"
  let ?ws = "relay_weights spec (length path - 2)"
  have "sum_list (map snd (topostake_path_relay_contributions path spec)) =
      sum_list (map (\<lambda>w. ?b * w div sum_list ?ws) (map snd (zip (butlast (tl path)) ?ws)))"
    unfolding contributions_eq [OF True] sum_list_filter_pos
    by (simp add: comp_def case_prod_unfold)
  also have "map snd (zip (butlast (tl path)) ?ws) = ?ws"
    by (simp add: relay_weights_def numeral_2_eq_2)
  also have "sum_list (map (\<lambda>w. ?b * w div sum_list ?ws) ?ws) \<le> ?b * sum_list ?ws div sum_list ?ws"
    using True by (intro sum_list_shares relay_weights_pos) simp
  also have "\<dots> \<le> ?b" by simp
  finally show ?thesis .
qed (simp add: contributions_short)

lemma contributions_inner:
  assumes "distinct path"
  shows "distinct (map fst (topostake_path_relay_contributions path spec))"
    and "fst ` set (topostake_path_relay_contributions path spec) \<subseteq> set (butlast (tl path))"
    and "\<forall>p \<in> set (topostake_path_relay_contributions path spec). 0 < snd p"
proof -
  let ?ws = "relay_weights spec (length path - 2)"
  let ?f = "\<lambda>(v, w). (v, topostake_path_budget_scaled (length path - 1) spec * w div sum_list ?ws)"
  have fst: "map fst (map ?f ps) = map fst ps" for ps by (simp add: comp_def case_prod_unfold)
  have "distinct (butlast (tl path))" using assms by (simp add: distinct_butlast distinct_tl)
  then have "distinct (map fst (map ?f (zip (butlast (tl path)) ?ws)))"
    unfolding fst by (simp add: map_fst_zip_take)
  then have "distinct (map fst (filter (\<lambda>p. 0 < snd p) (map ?f (zip (butlast (tl path)) ?ws))))"
    by (rule distinct_map_filter)
  then show "distinct (map fst (topostake_path_relay_contributions path spec))"
    by (cases "2 < length path") (simp_all add: contributions_eq contributions_short)
  show "fst ` set (topostake_path_relay_contributions path spec) \<subseteq> set (butlast (tl path))"
    by (cases "2 < length path") (auto simp: contributions_eq contributions_short dest: set_zip_leftD)
  show "\<forall>p \<in> set (topostake_path_relay_contributions path spec). 0 < snd p"
    by (cases "2 < length path") (auto simp: contributions_eq contributions_short)
qed

end
