(* ===== verification/Beacon_Evidence.thy ===== *)
theory Beacon_Evidence
  imports Beacon_Paths
begin

text \<open>
  The evidence runtime of the consensus client (\<open>chain_spec.rs\<close>): what an epoch accumulates
  when path evidence is recorded, the fee ledger, the settlement of scores and of credits, the
  activation of settled scores for proposer selection, and the summaries and snapshots read
  from it.  The runtime is one process-wide value behind a lock; a poisoned lock is \<open>None\<close>.
\<close>

section \<open>Data\<close>

datatype evidence_source = InlineGraffiti | TxGossipMetadata

fun as_metrics_label :: "evidence_source \<Rightarrow> string" where
  "as_metrics_label InlineGraffiti = ''inline_graffiti''"
| "as_metrics_label TxGossipMetadata = ''tx_gossip_metadata''"

record evidence_summary =
  es_epoch :: epoch
  es_valid_paths :: nat
  es_invalid_paths :: nat
  es_duplicate_receiver_proofs :: nat
  es_scored_validators :: nat
  es_max_score_scaled :: nat
  es_bound_violation :: bool

type_synonym validator_amount = "nat \<times> nat"

record path_evidence =
  pe_tx_hash :: string
  pe_path :: "nat list"
  pe_fee_budget_wei :: nat
  pe_irrecoverable_cost_wei :: nat

record score_update =
  su_validator_index :: nat
  su_raw_contribution_scaled :: nat
  su_saturated_contribution_scaled :: nat
  su_score_scaled :: nat

record settled_epoch_scores =
  se_epoch :: epoch
  se_score_total_scaled :: nat
  se_updates :: "score_update list"

record credit_epoch_summary =
  cs_epoch :: epoch
  cs_credit_records :: nat
  cs_pending_records :: nat
  cs_settled_records :: nat
  cs_total_budget_scaled :: nat
  cs_proposer_credit_scaled :: nat
  cs_relay_credit_scaled :: nat
  cs_burned_credit_scaled :: nat
  cs_conservation_violation :: bool
  cs_proposer_credits :: "validator_amount list"
  cs_relay_credits :: "validator_amount list"

record fee_settlement_epoch_summary =
  fs_epoch :: epoch
  fs_settlement_records :: nat
  fs_pending_records :: nat
  fs_settled_records :: nat
  fs_total_amount_wei :: nat
  fs_proposer_amount_wei :: nat
  fs_relay_amount_wei :: nat
  fs_burned_amount_wei :: nat
  fs_conservation_violation :: bool
  fs_proposer_settlements :: "validator_amount list"
  fs_relay_settlements :: "validator_amount list"

datatype record_outcome =
    EvDisabled
  | EvNoEvidence
  | EvValid epoch evidence_source nat "(nat \<times> nat) list" evidence_summary
  | EvInvalid epoch evidence_summary
  | EvDuplicateReceiver epoch evidence_source nat evidence_summary
  | EvDuplicateTransaction epoch evidence_source string evidence_summary

record credit_record =
  cr_settlement_epoch :: epoch
  cr_settled :: bool

record epoch_runtime =
  er_valid_paths :: nat
  er_invalid_paths :: nat
  er_duplicate_receiver_proofs :: nat
  er_raw_contributions :: "(nat, nat) hash_map"
  er_saturated_contributions :: "(nat, nat) hash_map"
  er_scores :: "(nat, nat) hash_map"
  er_score_settled :: bool
  er_accepted_tx_hashes :: "string list"
  er_credit_records :: "credit_record list"
  er_proposer_credits :: "(nat, nat) hash_map"
  er_relay_credits :: "(nat, nat) hash_map"
  er_total_credit_budget_scaled :: nat
  er_burned_credit_scaled :: nat

definition epoch_runtime_default :: epoch_runtime where
  "epoch_runtime_default = \<lparr>er_valid_paths = 0, er_invalid_paths = 0,
     er_duplicate_receiver_proofs = 0, er_raw_contributions = [], er_saturated_contributions = [],
     er_scores = [], er_score_settled = False, er_accepted_tx_hashes = [], er_credit_records = [],
     er_proposer_credits = [], er_relay_credits = [], er_total_credit_budget_scaled = 0,
     er_burned_credit_scaled = 0\<rparr>"

record evidence_runtime =
  rt_epochs :: "(nat, epoch_runtime) hash_map"
  rt_latest_settled_epoch :: "nat option"
  rt_latest_scores :: "(nat, nat) hash_map"
  rt_activated_scores :: "(nat, (nat, nat) hash_map) hash_map"
  rt_accepted_tx_hashes :: "string list"

definition evidence_runtime_default :: evidence_runtime where
  "evidence_runtime_default = \<lparr>rt_epochs = [], rt_latest_settled_epoch = None,
     rt_latest_scores = [], rt_activated_scores = [], rt_accepted_tx_hashes = []\<rparr>"

type_synonym runtime_lock = "evidence_runtime option"

definition reset_topostake_evidence_runtime :: "runtime_lock \<Rightarrow> runtime_lock" where
  "reset_topostake_evidence_runtime l = map_option (\<lambda>_. evidence_runtime_default) l"

text \<open>\<open>HashSet::insert\<close>.\<close>

definition hs_insert :: "'a \<Rightarrow> 'a list \<Rightarrow> 'a list" where
  "hs_insert x xs = (if x \<in> set xs then xs else x # xs)"

text \<open>\<open>*m.entry(k).or_default() = m.get(&k).unwrap_or(0).saturating_add(x)\<close>.\<close>

definition hm_sat_add :: "'k \<Rightarrow> nat \<Rightarrow> ('k, nat) hash_map \<Rightarrow> ('k, nat) hash_map" where
  "hm_sat_add k x m = hm_insert k (sat64 (hm_get_or 0 m k + x)) m"

section \<open>Summaries of one epoch\<close>

definition er_summary :: "epoch_runtime \<Rightarrow> epoch \<Rightarrow> evidence_summary" where
  "er_summary er epoch = \<lparr>
     es_epoch = epoch,
     es_valid_paths = er_valid_paths er,
     es_invalid_paths = er_invalid_paths er,
     es_duplicate_receiver_proofs = er_duplicate_receiver_proofs er,
     es_scored_validators = length (remdups (hm_keys (er_scores er) @ hm_keys (er_raw_contributions er))),
     es_max_score_scaled = max_or_zero (hm_values (er_scores er) @ hm_values (er_raw_contributions er)),
     es_bound_violation = False\<rparr>"

definition sorted_topostake_credits :: "(nat, nat) hash_map \<Rightarrow> validator_amount list" where
  "sorted_topostake_credits credits = sort_key fst credits"

definition credit_summary :: "epoch_runtime \<Rightarrow> epoch \<Rightarrow> credit_epoch_summary" where
  "credit_summary er epoch =
    (let settled_records = length (filter cr_settled (er_credit_records er));
         credit_records = length (er_credit_records er);
         proposer_credit_scaled = sum_u64 (hm_values (er_proposer_credits er));
         relay_credit_scaled = sum_u64 (hm_values (er_relay_credits er));
         accounted = sat64 (sat64 (proposer_credit_scaled + relay_credit_scaled) + er_burned_credit_scaled er)
     in \<lparr>cs_epoch = epoch,
         cs_credit_records = credit_records,
         cs_pending_records = credit_records - settled_records,
         cs_settled_records = settled_records,
         cs_total_budget_scaled = er_total_credit_budget_scaled er,
         cs_proposer_credit_scaled = proposer_credit_scaled,
         cs_relay_credit_scaled = relay_credit_scaled,
         cs_burned_credit_scaled = er_burned_credit_scaled er,
         cs_conservation_violation = (accounted \<noteq> er_total_credit_budget_scaled er),
         cs_proposer_credits = sorted_topostake_credits (er_proposer_credits er),
         cs_relay_credits = sorted_topostake_credits (er_relay_credits er)\<rparr>)"

definition fee_settlement_summary :: "epoch_runtime \<Rightarrow> epoch \<Rightarrow> fee_settlement_epoch_summary" where
  "fee_settlement_summary er epoch =
    (let credit = credit_summary er epoch
     in \<lparr>fs_epoch = epoch,
         fs_settlement_records = cs_credit_records credit,
         fs_pending_records = cs_pending_records credit,
         fs_settled_records = cs_settled_records credit,
         fs_total_amount_wei = cs_total_budget_scaled credit,
         fs_proposer_amount_wei = cs_proposer_credit_scaled credit,
         fs_relay_amount_wei = cs_relay_credit_scaled credit,
         fs_burned_amount_wei = cs_burned_credit_scaled credit,
         fs_conservation_violation = cs_conservation_violation credit,
         fs_proposer_settlements = map (\<lambda>(v, a). (v, a)) (cs_proposer_credits credit),
         fs_relay_settlements = map (\<lambda>(v, a). (v, a)) (cs_relay_credits credit)\<rparr>)"

section \<open>Recording one path\<close>

definition relay_credits_of :: "chain_spec \<Rightarrow> nat list \<Rightarrow> nat \<Rightarrow> (nat \<times> nat) list" where
  "relay_credits_of spec path relay_budget =
    filter (\<lambda>p. 0 < snd p)
      (map (\<lambda>(v, contribution_scaled). (v, scaled_mul_div relay_budget contribution_scaled SCALE))
        (topostake_path_relay_contributions path spec))"

definition record_topostake_credit ::
    "epoch_runtime \<Rightarrow> epoch \<Rightarrow> nat \<Rightarrow> nat list \<Rightarrow> nat \<Rightarrow> chain_spec \<Rightarrow> epoch_runtime" where
  "record_topostake_credit er evidence_epoch proposer_index path fee_budget_wei spec =
    (let budget = fee_budget_wei
     in if budget = 0 then er
     else let proposer_credit = scaled_mul_div budget (proposer_fee_ratio_scaled (topostake_config spec)) SCALE;
              relay_budget = budget - proposer_credit;
              relay_credits = relay_credits_of spec path relay_budget;
              relay_distributed = sum_u64 (map snd relay_credits);
              burned_credit = relay_budget - relay_distributed
     in er\<lparr>er_proposer_credits := hm_sat_add proposer_index proposer_credit (er_proposer_credits er),
           er_relay_credits := fold (\<lambda>(v, c). hm_sat_add v c) relay_credits (er_relay_credits er),
           er_total_credit_budget_scaled := sat64 (er_total_credit_budget_scaled er + budget),
           er_burned_credit_scaled := sat64 (er_burned_credit_scaled er + burned_credit),
           er_credit_records := er_credit_records er @
             [\<lparr>cr_settlement_epoch = sat64 (evidence_epoch + reward_settlement_depth (topostake_config spec)),
               cr_settled = False\<rparr>]\<rparr>)"

fun add_contributions ::
    "(nat, nat) hash_map \<Rightarrow> (nat \<times> nat) list \<Rightarrow> (nat, nat) hash_map \<times> (nat \<times> nat) list" where
  "add_contributions raw [] = (raw, [])"
| "add_contributions raw ((v, c) # cs) =
    (let raw_contribution = sat64 (hm_get_or 0 raw v + c);
         (raw', updates) = add_contributions (hm_insert v raw_contribution raw) cs
     in (raw', (v, raw_contribution) # updates))"

definition weighted_contributions :: "chain_spec \<Rightarrow> nat list \<Rightarrow> nat \<Rightarrow> (nat \<times> nat) list" where
  "weighted_contributions spec path irrecoverable_cost_wei =
    (let credit_weight_scaled = topostake_transaction_credit_weight_scaled irrecoverable_cost_wei
           (score_cost_reference_wei (topostake_config spec))
     in filter (\<lambda>p. 0 < snd p)
      (map (\<lambda>(v, contribution_scaled). (v, scaled_mul_div contribution_scaled credit_weight_scaled SCALE))
        (topostake_path_relay_contributions path spec)))"

definition tx_identity_of :: "evidence_source \<Rightarrow> string option \<Rightarrow> nat list \<Rightarrow> string" where
  "tx_identity_of source tx_hash path =
    (case tx_hash of
       Some h \<Rightarrow> h
     | None \<Rightarrow> as_metrics_label source @ '':'' @ ''inline'' @ '':'' @ join_with ''-'' (map show_nat path))"

definition record_topostake_path ::
    "epoch_runtime \<Rightarrow> epoch \<Rightarrow> evidence_source \<Rightarrow> string option \<Rightarrow> nat list \<Rightarrow> nat \<Rightarrow> nat \<Rightarrow> nat \<Rightarrow>
     chain_spec \<Rightarrow> record_outcome \<times> epoch_runtime" where
  "record_topostake_path er epoch source tx_hash path fee_budget_wei irrecoverable_cost_wei
      proposer_index spec =
    (if path = [] then
       let er = er\<lparr>er_invalid_paths := sat64 (er_invalid_paths er + 1)\<rparr>
       in (EvInvalid epoch (er_summary er epoch), er)
     else let receiver = last path; tx_identity = tx_identity_of source tx_hash path
     in if tx_identity \<in> set (er_accepted_tx_hashes er) then
       let er = er\<lparr>er_duplicate_receiver_proofs := sat64 (er_duplicate_receiver_proofs er + 1)\<rparr>
       in (EvDuplicateTransaction epoch source tx_identity (er_summary er epoch), er)
     else
       let (raw, score_updates) =
             add_contributions (er_raw_contributions er)
               (weighted_contributions spec path irrecoverable_cost_wei);
           er = er\<lparr>er_accepted_tx_hashes := hs_insert tx_identity (er_accepted_tx_hashes er),
                   er_valid_paths := sat64 (er_valid_paths er + 1),
                   er_raw_contributions := raw\<rparr>;
           er = record_topostake_credit er epoch proposer_index path fee_budget_wei spec
       in (EvValid epoch source receiver score_updates (er_summary er epoch), er))"

section \<open>Recording evidence in the runtime\<close>

definition epoch_entry :: "evidence_runtime \<Rightarrow> epoch \<Rightarrow> epoch_runtime" where
  "epoch_entry rt epoch = hm_get_or epoch_runtime_default (rt_epochs rt) epoch"

definition put_epoch :: "evidence_runtime \<Rightarrow> epoch \<Rightarrow> epoch_runtime \<Rightarrow> evidence_runtime" where
  "put_epoch rt epoch er = rt\<lparr>rt_epochs := hm_insert epoch er (rt_epochs rt)\<rparr>"

definition mark_invalid :: "evidence_runtime \<Rightarrow> epoch \<Rightarrow> record_outcome \<times> evidence_runtime" where
  "mark_invalid rt epoch =
    (let er = epoch_entry rt epoch; er = er\<lparr>er_invalid_paths := sat64 (er_invalid_paths er + 1)\<rparr>
     in (EvInvalid epoch (er_summary er epoch), put_epoch rt epoch er))"

definition decode_topostake_graffiti_evidence_record ::
    "bytes \<Rightarrow> chain_spec \<Rightarrow> unit + (evidence_source \<times> nat list) option" where
  "decode_topostake_graffiti_evidence_record graffiti spec =
    (case graffiti_text graffiti of
       None \<Rightarrow> Inl ()
     | Some raw \<Rightarrow> (case strip_prefix graffiti_evidence_prefix raw of
           Some path_csv \<Rightarrow> (case parse_topostake_validator_path path_csv spec of
               Inl _ \<Rightarrow> Inl ()
             | Inr path \<Rightarrow> Inr (Some (InlineGraffiti, path)))
         | None \<Rightarrow> Inr None))"

definition record_topostake_graffiti_evidence ::
    "env \<Rightarrow> runtime_lock \<Rightarrow> epoch \<Rightarrow> nat \<Rightarrow> bytes \<Rightarrow> chain_spec \<Rightarrow> record_outcome \<times> runtime_lock" where
  "record_topostake_graffiti_evidence env l epoch proposer_index graffiti spec =
    (if \<not> is_topostake_enabled_at_epoch env spec epoch then (EvDisabled, l)
     else let decoded = decode_topostake_graffiti_evidence_record graffiti spec
     in case l of
        None \<Rightarrow> (EvDisabled, l)
      | Some rt \<Rightarrow>
         (case decoded of
            Inr (Some (source, path)) \<Rightarrow>
              let (outcome, er) = record_topostake_path (epoch_entry rt epoch) epoch source None path
                    SCALE 0 proposer_index spec
              in (outcome, Some (put_epoch rt epoch er))
          | Inr None \<Rightarrow> (EvNoEvidence, Some (put_epoch rt epoch (epoch_entry rt epoch)))
          | Inl _ \<Rightarrow> let (outcome, rt') = mark_invalid rt epoch in (outcome, Some rt')))"

definition is_valid :: "record_outcome \<Rightarrow> bool" where
  "is_valid outcome = (case outcome of EvValid _ _ _ _ _ \<Rightarrow> True | _ \<Rightarrow> False)"

text \<open>One pass of the loop over the paths of a block.\<close>

definition record_gossip_path ::
    "evidence_runtime \<Rightarrow> epoch \<Rightarrow> nat \<Rightarrow> path_evidence \<Rightarrow> chain_spec \<Rightarrow> record_outcome \<times> evidence_runtime" where
  "record_gossip_path rt epoch proposer_index p spec =
    (case validate_topostake_validator_path (pe_path p) spec of
       Inl _ \<Rightarrow> mark_invalid rt epoch
     | Inr _ \<Rightarrow>
        if pe_tx_hash p \<in> set (rt_accepted_tx_hashes rt) then
          let er = epoch_entry rt epoch;
              er = er\<lparr>er_duplicate_receiver_proofs := sat64 (er_duplicate_receiver_proofs er + 1)\<rparr>
          in (EvDuplicateTransaction epoch TxGossipMetadata (pe_tx_hash p) (er_summary er epoch),
              put_epoch rt epoch er)
        else
          let (outcome, er) = record_topostake_path (epoch_entry rt epoch) epoch TxGossipMetadata
                (Some (pe_tx_hash p)) (pe_path p) (pe_fee_budget_wei p) (pe_irrecoverable_cost_wei p)
                proposer_index spec;
              rt = put_epoch rt epoch er
          in (outcome,
              if is_valid outcome
              then rt\<lparr>rt_accepted_tx_hashes := hs_insert (pe_tx_hash p) (rt_accepted_tx_hashes rt)\<rparr>
              else rt))"

fun record_gossip_paths ::
    "evidence_runtime \<Rightarrow> epoch \<Rightarrow> nat \<Rightarrow> path_evidence list \<Rightarrow> chain_spec \<Rightarrow>
     record_outcome list \<times> evidence_runtime" where
  "record_gossip_paths rt epoch proposer_index [] spec = ([], rt)"
| "record_gossip_paths rt epoch proposer_index (p # ps) spec =
    (let (outcome, rt) = record_gossip_path rt epoch proposer_index p spec;
         (outcomes, rt) = record_gossip_paths rt epoch proposer_index ps spec
     in (outcome # outcomes, rt))"

definition record_topostake_tx_gossip_metadata_evidence ::
    "env \<Rightarrow> runtime_lock \<Rightarrow> epoch \<Rightarrow> nat \<Rightarrow> path_evidence list \<Rightarrow> chain_spec \<Rightarrow>
     record_outcome list \<times> runtime_lock" where
  "record_topostake_tx_gossip_metadata_evidence env l epoch proposer_index paths spec =
    (if \<not> is_topostake_enabled_at_epoch env spec epoch then ([EvDisabled], l)
     else if paths = [] then ([EvNoEvidence], l)
     else case l of
        None \<Rightarrow> ([EvDisabled], l)
      | Some rt \<Rightarrow>
          let (outcomes, rt) = record_gossip_paths rt epoch proposer_index
                (take (max_paths_per_block (topostake_config spec)) paths) spec
          in (outcomes, Some rt))"

fun mark_invalid_times :: "evidence_runtime \<Rightarrow> epoch \<Rightarrow> nat \<Rightarrow> record_outcome list \<times> evidence_runtime" where
  "mark_invalid_times rt epoch 0 = ([], rt)"
| "mark_invalid_times rt epoch (Suc n) =
    (let (outcome, rt) = mark_invalid rt epoch; (outcomes, rt) = mark_invalid_times rt epoch n
     in (outcome # outcomes, rt))"

definition record_topostake_invalid_tx_gossip_metadata_evidence ::
    "env \<Rightarrow> runtime_lock \<Rightarrow> epoch \<Rightarrow> nat \<Rightarrow> chain_spec \<Rightarrow> record_outcome list \<times> runtime_lock" where
  "record_topostake_invalid_tx_gossip_metadata_evidence env l epoch count spec =
    (if \<not> is_topostake_enabled_at_epoch env spec epoch then ([EvDisabled], l)
     else if count = 0 then ([EvNoEvidence], l)
     else case l of
        None \<Rightarrow> ([EvDisabled], l)
      | Some rt \<Rightarrow>
          let (outcomes, rt) = mark_invalid_times (put_epoch rt epoch (epoch_entry rt epoch)) epoch
                (min count (max_paths_per_block (topostake_config spec)))
          in (outcomes, Some rt))"

section \<open>Settlement of scores\<close>

definition settle_score :: "topo_config \<Rightarrow> nat \<Rightarrow> nat \<Rightarrow> nat" where
  "settle_score c saturated previous_score =
    (let beta_scaled = min (score_ema_beta_scaled c) SCALE
     in sat64 (scaled_mul_div saturated beta_scaled SCALE +
               scaled_mul_div previous_score (SCALE - beta_scaled) SCALE))"

definition settle_validator ::
    "topo_config \<Rightarrow> (nat, nat) hash_map \<Rightarrow> nat \<Rightarrow> (nat, nat) hash_map \<Rightarrow> (nat, nat) hash_map \<Rightarrow> nat \<Rightarrow>
     score_update" where
  "settle_validator c balances total_active_balance raw_contributions previous_scores v =
    (let raw = hm_get_or 0 raw_contributions v;
         saturated = topostake_saturate_contribution_scaled raw (hm_get_or 0 balances v)
           total_active_balance (score_saturation_k_scaled c)
     in \<lparr>su_validator_index = v,
         su_raw_contribution_scaled = raw,
         su_saturated_contribution_scaled = saturated,
         su_score_scaled = settle_score c saturated (hm_get_or 0 previous_scores v)\<rparr>)"

definition insert_pos :: "nat \<Rightarrow> nat \<Rightarrow> (nat, nat) hash_map \<Rightarrow> (nat, nat) hash_map" where
  "insert_pos k x m = (if 0 < x then hm_insert k x m else m)"

definition settle_epoch_runtime :: "epoch_runtime \<Rightarrow> score_update list \<Rightarrow> epoch_runtime" where
  "settle_epoch_runtime er updates = er\<lparr>
     er_saturated_contributions :=
       fold (\<lambda>u. insert_pos (su_validator_index u) (su_saturated_contribution_scaled u)) updates
         (er_saturated_contributions er),
     er_scores :=
       fold (\<lambda>u. insert_pos (su_validator_index u) (su_score_scaled u)) updates (er_scores er),
     er_score_settled := True\<rparr>"

definition settle_one_epoch ::
    "topo_config \<Rightarrow> (nat, nat) hash_map \<Rightarrow> nat \<Rightarrow> nat \<Rightarrow> evidence_runtime \<Rightarrow>
     settled_epoch_scores option \<times> evidence_runtime" where
  "settle_one_epoch c balances total_active_balance epoch rt =
    (let previous_scores = rt_latest_scores rt
     in case map_of (rt_epochs rt) epoch of
        None \<Rightarrow> (None, rt)
      | Some er \<Rightarrow>
          let validator_indices =
                sort (remdups (hm_keys (er_raw_contributions er) @ hm_keys previous_scores));
              updates = map (settle_validator c balances total_active_balance
                (er_raw_contributions er) previous_scores) validator_indices;
              next_scores = fold (\<lambda>u. insert_pos (su_validator_index u) (su_score_scaled u)) updates []
          in (Some \<lparr>se_epoch = epoch, se_score_total_scaled = sum_u64 (map su_score_scaled updates),
                    se_updates = updates\<rparr>,
              (put_epoch rt epoch (settle_epoch_runtime er updates))
                \<lparr>rt_latest_settled_epoch := Some epoch, rt_latest_scores := next_scores\<rparr>))"

fun settle_epochs ::
    "topo_config \<Rightarrow> (nat, nat) hash_map \<Rightarrow> nat \<Rightarrow> nat list \<Rightarrow> evidence_runtime \<Rightarrow>
     settled_epoch_scores list \<times> evidence_runtime" where
  "settle_epochs c balances total_active_balance [] rt = ([], rt)"
| "settle_epochs c balances total_active_balance (e # es) rt =
    (let (settled, rt) = settle_one_epoch c balances total_active_balance e rt;
         (rest, rt) = settle_epochs c balances total_active_balance es rt
     in ((case settled of None \<Rightarrow> rest | Some s \<Rightarrow> s # rest), rt))"

definition unsettled_epochs :: "evidence_runtime \<Rightarrow> nat \<Rightarrow> nat list" where
  "unsettled_epochs rt max_settle_epoch =
    sort (map fst (filter (\<lambda>(e, er). \<not> er_score_settled er \<and> e \<le> max_settle_epoch) (rt_epochs rt)))"

definition topostake_settle_scores_through_epoch ::
    "env \<Rightarrow> runtime_lock \<Rightarrow> epoch \<Rightarrow> (nat \<times> nat) list \<Rightarrow> nat \<Rightarrow> chain_spec \<Rightarrow>
     settled_epoch_scores list \<times> runtime_lock" where
  "topostake_settle_scores_through_epoch env l finalized_epoch balances total_active_balance spec =
    (if total_active_balance = 0 then ([], l)
     else case l of
        None \<Rightarrow> ([], l)
      | Some rt \<Rightarrow>
          let depth = finality_depth env (topostake_config spec)
          in if finalized_epoch < depth then ([], l)
          else let (settled, rt) = settle_epochs (topostake_config spec) (hm_collect balances)
                     total_active_balance (unsettled_epochs rt (finalized_epoch - depth)) rt
          in (settled, Some rt))"

section \<open>Activation of settled scores\<close>

fun latest_of :: "(nat \<times> 'a) list \<Rightarrow> (nat \<times> 'a) option" where
  "latest_of [] = None"
| "latest_of (p # ps) =
    (case latest_of ps of
       None \<Rightarrow> Some p
     | Some q \<Rightarrow> if fst p \<le> fst q then Some q else Some p)"

definition has_scores :: "epoch_runtime \<Rightarrow> bool" where
  "has_scores er \<longleftrightarrow> er_score_settled er \<and> er_scores er \<noteq> []"

definition activated_scores_now :: "evidence_runtime \<Rightarrow> nat \<Rightarrow> (nat, nat) hash_map" where
  "activated_scores_now rt eligible_epoch =
    (case Option.bind (map_of (rt_epochs rt) eligible_epoch) (\<lambda>er. if has_scores er then Some er else None) of
       Some er \<Rightarrow> er_scores er
     | None \<Rightarrow>
        (case latest_of (map (\<lambda>(e, er). (e, er_scores er))
                (filter (\<lambda>(e, er). e \<le> eligible_epoch \<and> has_scores er) (rt_epochs rt))) of
           Some (e, scores) \<Rightarrow>
             if rt_latest_settled_epoch rt = Some e then rt_latest_scores rt else scores
         | None \<Rightarrow> []))"

definition topostake_evidence_scores_for_epoch ::
    "runtime_lock \<Rightarrow> epoch \<Rightarrow> nat \<Rightarrow> (nat, nat) hash_map \<times> runtime_lock" where
  "topostake_evidence_scores_for_epoch l proposer_epoch activation_delay_epochs =
    (let delay = max activation_delay_epochs 1
     in if proposer_epoch < delay then ([], l)
     else case l of
        None \<Rightarrow> ([], l)
      | Some rt \<Rightarrow>
         (case map_of (rt_activated_scores rt) proposer_epoch of
            Some scores \<Rightarrow> (scores, l)
          | None \<Rightarrow>
             let scores = activated_scores_now rt (proposer_epoch - delay)
             in (scores, Some (rt\<lparr>rt_activated_scores :=
                   hm_insert proposer_epoch scores (rt_activated_scores rt)\<rparr>))))"

definition topostake_evidence_score_for_epoch ::
    "runtime_lock \<Rightarrow> epoch \<Rightarrow> nat \<Rightarrow> nat \<Rightarrow> nat \<times> runtime_lock" where
  "topostake_evidence_score_for_epoch l proposer_epoch validator_index activation_delay_epochs =
    (let (scores, l) = topostake_evidence_scores_for_epoch l proposer_epoch activation_delay_epochs
     in (hm_get_or 0 scores validator_index, l))"

section \<open>Settlement of credits, summaries and snapshots\<close>

definition settle_record :: "epoch \<Rightarrow> credit_record \<Rightarrow> credit_record" where
  "settle_record finalized_epoch r =
    (if cr_settlement_epoch r \<le> finalized_epoch then r\<lparr>cr_settled := True\<rparr> else r)"

definition settle_credits_rt :: "evidence_runtime \<Rightarrow> epoch \<Rightarrow> evidence_runtime" where
  "settle_credits_rt rt finalized_epoch = rt\<lparr>rt_epochs :=
     map (\<lambda>(e, er). (e, er\<lparr>er_credit_records := map (settle_record finalized_epoch) (er_credit_records er)\<rparr>))
       (rt_epochs rt)\<rparr>"

definition topostake_settle_credits_through_epoch :: "runtime_lock \<Rightarrow> epoch \<Rightarrow> runtime_lock" where
  "topostake_settle_credits_through_epoch l finalized_epoch =
    map_option (\<lambda>rt. settle_credits_rt rt finalized_epoch) l"

definition empty_summary :: "epoch \<Rightarrow> evidence_summary" where
  "empty_summary epoch = \<lparr>es_epoch = epoch, es_valid_paths = 0, es_invalid_paths = 0,
     es_duplicate_receiver_proofs = 0, es_scored_validators = 0, es_max_score_scaled = 0,
     es_bound_violation = False\<rparr>"

definition topostake_evidence_epoch_summary :: "runtime_lock \<Rightarrow> epoch \<Rightarrow> evidence_summary" where
  "topostake_evidence_epoch_summary l epoch =
    (case l of
       None \<Rightarrow> empty_summary epoch
     | Some rt \<Rightarrow> (case map_of (rt_epochs rt) epoch of
           None \<Rightarrow> empty_summary epoch
         | Some er \<Rightarrow> er_summary er epoch))"

text \<open>Reading every epoch in order; \<open>expect\<close> panics on a missing key.\<close>

definition per_epoch :: "(epoch_runtime \<Rightarrow> epoch \<Rightarrow> 'a) \<Rightarrow> evidence_runtime \<Rightarrow> 'a list run" where
  "per_epoch f rt =
    those (map (\<lambda>e. map_option (\<lambda>er. f er e) (map_of (rt_epochs rt) e)) (sort (hm_keys (rt_epochs rt))))"

definition topostake_credit_epoch_summaries :: "runtime_lock \<Rightarrow> credit_epoch_summary list run" where
  "topostake_credit_epoch_summaries l =
    (case l of None \<Rightarrow> Some [] | Some rt \<Rightarrow> per_epoch credit_summary rt)"

definition topostake_fee_settlement_epoch_summaries ::
    "runtime_lock \<Rightarrow> fee_settlement_epoch_summary list run" where
  "topostake_fee_settlement_epoch_summaries l =
    (case l of None \<Rightarrow> Some [] | Some rt \<Rightarrow> per_epoch fee_settlement_summary rt)"

definition csv_row :: "string list \<Rightarrow> string" where
  "csv_row cells = join_with '','' cells"

definition evidence_csv_row :: "epoch_runtime \<Rightarrow> epoch \<Rightarrow> string" where
  "evidence_csv_row er epoch =
    (let s = er_summary er epoch
     in csv_row [show_nat (es_epoch s), show_nat (es_valid_paths s), show_nat (es_invalid_paths s),
       show_nat (es_duplicate_receiver_proofs s), show_nat (es_scored_validators s),
       show_nat (es_max_score_scaled s), show_bool (es_bound_violation s),
       show_nat (sum_u64 (hm_values (er_raw_contributions er))),
       show_nat (sum_u64 (hm_values (er_saturated_contributions er))),
       show_nat (sum_u64 (hm_values (er_scores er)))])"

definition topostake_evidence_csv_snapshot :: "runtime_lock \<Rightarrow> string run" where
  "topostake_evidence_csv_snapshot l =
    (let header = csv_row [''epoch'', ''valid_paths'', ''invalid_paths'', ''duplicate_receiver_proofs'',
           ''scored_validators'', ''max_score_scaled'', ''bound_violation'',
           ''raw_contribution_total_scaled'', ''saturated_contribution_total_scaled'',
           ''score_total_scaled'']
     in case l of
        None \<Rightarrow> Some header
      | Some rt \<Rightarrow> map_option (\<lambda>rows. join_with [CHR 0x0A] (header # rows)) (per_epoch evidence_csv_row rt))"

definition credit_csv_row :: "credit_epoch_summary \<Rightarrow> string" where
  "credit_csv_row s =
    csv_row [show_nat (cs_epoch s), show_nat (cs_credit_records s), show_nat (cs_pending_records s),
      show_nat (cs_settled_records s), show_nat (cs_total_budget_scaled s),
      show_nat (cs_proposer_credit_scaled s), show_nat (cs_relay_credit_scaled s),
      show_nat (cs_burned_credit_scaled s), show_bool (cs_conservation_violation s)]"

definition topostake_credit_csv_snapshot :: "runtime_lock \<Rightarrow> string run" where
  "topostake_credit_csv_snapshot l =
    map_option (\<lambda>ss. join_with [CHR 0x0A]
      (csv_row [''epoch'', ''credit_records'', ''pending_records'', ''settled_records'',
         ''total_budget_scaled'', ''proposer_credit_scaled'', ''relay_credit_scaled'',
         ''burned_credit_scaled'', ''conservation_violation''] # map credit_csv_row ss))
      (topostake_credit_epoch_summaries l)"

definition fee_csv_row :: "fee_settlement_epoch_summary \<Rightarrow> string" where
  "fee_csv_row s =
    csv_row [show_nat (fs_epoch s), show_nat (fs_settlement_records s), show_nat (fs_pending_records s),
      show_nat (fs_settled_records s), show_nat (fs_total_amount_wei s),
      show_nat (fs_proposer_amount_wei s), show_nat (fs_relay_amount_wei s),
      show_nat (fs_burned_amount_wei s), show_bool (fs_conservation_violation s)]"

definition topostake_fee_settlement_csv_snapshot :: "runtime_lock \<Rightarrow> string run" where
  "topostake_fee_settlement_csv_snapshot l =
    map_option (\<lambda>ss. join_with [CHR 0x0A]
      (csv_row [''epoch'', ''settlement_records'', ''pending_records'', ''settled_records'',
         ''total_amount_wei'', ''proposer_amount_wei'', ''relay_amount_wei'', ''burned_amount_wei'',
         ''conservation_violation''] # map fee_csv_row ss))
      (topostake_fee_settlement_epoch_summaries l)"

end
