(* ===== verification/Beacon_Steps.thy ===== *)
theory Beacon_Steps
  imports Beacon_Evidence
begin

text \<open>
  The evidence runtime as a transition system.  Every operation on a live runtime is a step,
  with any arguments; \<open>runtime_reachable\<close> collects the runtimes that any sequence of steps and
  resets can produce.  The locale \<open>epoch_invariant\<close> is the contract of a property
  of one epoch: it lists what each operation does to an epoch and gives the property for every
  epoch of every reachable runtime.
\<close>

inductive runtime_step :: "env \<Rightarrow> chain_spec \<Rightarrow> evidence_runtime \<Rightarrow> evidence_runtime \<Rightarrow> bool"
  for env spec where
  graffiti: "record_topostake_graffiti_evidence env (Some rt) e p g spec = (out, Some rt')
      \<Longrightarrow> runtime_step env spec rt rt'"
| gossip: "record_topostake_tx_gossip_metadata_evidence env (Some rt) e p ps spec = (outs, Some rt')
      \<Longrightarrow> runtime_step env spec rt rt'"
| invalid_gossip: "record_topostake_invalid_tx_gossip_metadata_evidence env (Some rt) e n spec = (outs, Some rt')
      \<Longrightarrow> runtime_step env spec rt rt'"
| scores: "topostake_settle_scores_through_epoch env (Some rt) f balances total_balance spec = (ss, Some rt')
      \<Longrightarrow> runtime_step env spec rt rt'"
| credits: "topostake_settle_credits_through_epoch (Some rt) f = Some rt' \<Longrightarrow> runtime_step env spec rt rt'"
| query: "topostake_evidence_scores_for_epoch (Some rt) e delay = (scs, Some rt')
      \<Longrightarrow> runtime_step env spec rt rt'"

inductive runtime_reachable :: "env \<Rightarrow> chain_spec \<Rightarrow> evidence_runtime \<Rightarrow> bool"
  for env spec where
  start: "runtime_reachable env spec evidence_runtime_default"
| step: "runtime_reachable env spec rt \<Longrightarrow> runtime_step env spec rt rt' \<Longrightarrow> runtime_reachable env spec rt'"
| reset: "runtime_reachable env spec rt \<Longrightarrow> reset_topostake_evidence_runtime (Some rt) = Some rt' \<Longrightarrow>
    runtime_reachable env spec rt'"

section \<open>Accepting a path\<close>

definition accept_path ::
    "epoch_runtime \<Rightarrow> epoch \<Rightarrow> string \<Rightarrow> nat list \<Rightarrow> nat \<Rightarrow> nat \<Rightarrow> nat \<Rightarrow> chain_spec \<Rightarrow> epoch_runtime" where
  "accept_path er epoch tx_identity path fee cost proposer_index spec =
    record_topostake_credit
      (er\<lparr>er_accepted_tx_hashes := hs_insert tx_identity (er_accepted_tx_hashes er),
          er_valid_paths := sat64 (er_valid_paths er + 1),
          er_raw_contributions :=
            fst (add_contributions (er_raw_contributions er) (weighted_contributions spec path cost))\<rparr>)
      epoch proposer_index path fee spec"

lemma record_path_cases:
  assumes "record_topostake_path er epoch source tx path fee cost proposer spec = (out, er')"
  obtains
    (Empty) "path = []" "er' = er\<lparr>er_invalid_paths := sat64 (er_invalid_paths er + 1)\<rparr>"
      "out = EvInvalid epoch (er_summary er' epoch)"
  | (Dup) "path \<noteq> []" "tx_identity_of source tx path \<in> set (er_accepted_tx_hashes er)"
      "er' = er\<lparr>er_duplicate_receiver_proofs := sat64 (er_duplicate_receiver_proofs er + 1)\<rparr>"
      "out = EvDuplicateTransaction epoch source (tx_identity_of source tx path) (er_summary er' epoch)"
  | (Accept) us where "path \<noteq> []" "tx_identity_of source tx path \<notin> set (er_accepted_tx_hashes er)"
      "er' = accept_path er epoch (tx_identity_of source tx path) path fee cost proposer spec"
      "out = EvValid epoch source (last path) us (er_summary er' epoch)"
  using assms
  unfolding record_topostake_path_def accept_path_def Let_def
  by (auto split: if_splits prod.splits)

section \<open>Properties of one epoch\<close>

definition all_epochs :: "(epoch \<Rightarrow> epoch_runtime \<Rightarrow> bool) \<Rightarrow> evidence_runtime \<Rightarrow> bool" where
  "all_epochs P rt \<longleftrightarrow> hm_ok (rt_epochs rt) \<and> (\<forall>(e, er) \<in> set (rt_epochs rt). P e er)"

lemma all_epochs_default: "all_epochs P evidence_runtime_default"
  by (simp add: all_epochs_def evidence_runtime_default_def hm_ok_def)

lemma all_epochs_get: "all_epochs P rt \<Longrightarrow> map_of (rt_epochs rt) e = Some er \<Longrightarrow> P e er"
  by (auto simp: all_epochs_def dest: map_of_SomeD)

lemma all_epochs_put: "all_epochs P rt \<Longrightarrow> P e er \<Longrightarrow> all_epochs P (put_epoch rt e er)"
  by (auto simp: all_epochs_def put_epoch_def hm_ok_insert dest!: set_hm_insert)

lemma all_epochs_cong: "rt_epochs rt = rt_epochs rt' \<Longrightarrow> all_epochs P rt \<longleftrightarrow> all_epochs P rt'"
  by (simp add: all_epochs_def)

lemma settle_one_other:
  "e' \<noteq> e \<Longrightarrow> map_of (rt_epochs (snd (settle_one_epoch c b t e rt))) e' = map_of (rt_epochs rt) e'"
  by (simp add: settle_one_epoch_def Let_def put_epoch_def table_simps split: option.split)

lemma unsettled_epochs_distinct: "hm_ok (rt_epochs rt) \<Longrightarrow> distinct (unsettled_epochs rt m)"
  by (simp add: unsettled_epochs_def hm_ok_def distinct_map_filter)

lemma set_unsettled_epochs:
  assumes "hm_ok (rt_epochs rt)"
  shows "e \<in> set (unsettled_epochs rt m) \<longleftrightarrow>
    e \<le> m \<and> (\<exists>er. map_of (rt_epochs rt) e = Some er \<and> \<not> er_score_settled er)"
  using assms by (auto simp: unsettled_epochs_def hm_ok_def image_iff dest: map_of_SomeD)

locale epoch_invariant =
  fixes I :: "chain_spec \<Rightarrow> epoch \<Rightarrow> epoch_runtime \<Rightarrow> bool"
  assumes default: "I spec e epoch_runtime_default"
    and invalid: "I spec e er \<Longrightarrow> I spec e (er\<lparr>er_invalid_paths := n\<rparr>)"
    and duplicate: "I spec e er \<Longrightarrow> I spec e (er\<lparr>er_duplicate_receiver_proofs := n\<rparr>)"
    and accept: "I spec e er \<Longrightarrow> validate_topostake_validator_path path spec = Inr () \<Longrightarrow>
        tx \<notin> set (er_accepted_tx_hashes er) \<Longrightarrow> I spec e (accept_path er e tx path fee cost p spec)"
    and settle: "I spec e er \<Longrightarrow> \<not> er_score_settled er \<Longrightarrow> distinct (map su_validator_index us) \<Longrightarrow>
        I spec e (settle_epoch_runtime er us)"
    and pay: "I spec e er \<Longrightarrow> I spec e (er\<lparr>er_credit_records := map (settle_record f) (er_credit_records er)\<rparr>)"
begin

lemma entry: "all_epochs (I spec) rt \<Longrightarrow> I spec e (epoch_entry rt e)"
  by (auto simp: epoch_entry_def hm_get_or_def default split: option.splits dest: all_epochs_get)

lemma touch: "all_epochs (I spec) rt \<Longrightarrow> all_epochs (I spec) (put_epoch rt e (epoch_entry rt e))"
  by (intro all_epochs_put entry)

lemma mark: "all_epochs (I spec) rt \<Longrightarrow> all_epochs (I spec) (snd (mark_invalid rt e))"
  by (simp add: mark_invalid_def Let_def all_epochs_put invalid entry)

lemma mark_times: "all_epochs (I spec) rt \<Longrightarrow> all_epochs (I spec) (snd (mark_invalid_times rt e n))"
proof (induction n arbitrary: rt)
  case (Suc n)
  from Suc.IH [OF mark [OF Suc.prems, of e]] show ?case
    by (simp add: case_prod_unfold Let_def)
qed simp

lemma record_path:
  assumes "I spec e er" and "validate_topostake_validator_path path spec = Inr ()"
  shows "I spec e (snd (record_topostake_path er e source tx path fee cost p spec))"
proof -
  obtain out er' where r: "record_topostake_path er e source tx path fee cost p spec = (out, er')"
    by (cases "record_topostake_path er e source tx path fee cost p spec")
  from r show ?thesis
    by (cases rule: record_path_cases) (use r assms in \<open>auto intro: invalid duplicate accept\<close>)
qed

lemma gossip_path:
  assumes "all_epochs (I spec) rt"
  shows "all_epochs (I spec) (snd (record_gossip_path rt e p q spec))"
proof (cases "validate_topostake_validator_path (pe_path q) spec")
  case (Inl m)
  with mark [OF assms] show ?thesis by (simp add: record_gossip_path_def)
next
  case (Inr u)
  have "all_epochs (I spec) (put_epoch rt e (snd (record_topostake_path (epoch_entry rt e) e
      TxGossipMetadata (Some (pe_tx_hash q)) (pe_path q) (pe_fee_budget_wei q)
      (pe_irrecoverable_cost_wei q) p spec)))"
    using Inr by (intro all_epochs_put record_path entry assms) simp
  moreover have "all_epochs (I spec) (put_epoch rt e ((epoch_entry rt e)
      \<lparr>er_duplicate_receiver_proofs := sat64 (er_duplicate_receiver_proofs (epoch_entry rt e) + 1)\<rparr>))"
    by (intro all_epochs_put duplicate entry assms)
  ultimately show ?thesis
    using Inr by (auto simp: record_gossip_path_def Let_def case_prod_unfold all_epochs_def)
qed

lemma gossip_paths:
  "all_epochs (I spec) rt \<Longrightarrow> all_epochs (I spec) (snd (record_gossip_paths rt e p qs spec))"
proof (induction qs arbitrary: rt)
  case (Cons q qs)
  from Cons.IH [OF gossip_path [OF Cons.prems, of e p q]] show ?case
    by (simp add: case_prod_unfold Let_def)
qed simp

lemma one_epoch:
  assumes "all_epochs (I spec) rt" and "\<And>er. map_of (rt_epochs rt) e = Some er \<Longrightarrow> \<not> er_score_settled er"
  shows "all_epochs (I spec) (snd (settle_one_epoch c b t e rt))"
proof (cases "map_of (rt_epochs rt) e")
  case (Some er)
  have "distinct (map su_validator_index (map (settle_validator c b t raw prev) (sort (remdups vs))))"
    for raw prev vs by (simp add: comp_def settle_validator_def Let_def)
  with assms Some have "all_epochs (I spec) (put_epoch rt e (settle_epoch_runtime er
      (map (settle_validator c b t (er_raw_contributions er) (rt_latest_scores rt))
        (sort (remdups (hm_keys (er_raw_contributions er) @ hm_keys (rt_latest_scores rt)))))))"
    by (intro all_epochs_put settle) (auto dest: all_epochs_get)
  with Some show ?thesis by (simp add: settle_one_epoch_def Let_def all_epochs_def)
qed (use assms in \<open>simp add: settle_one_epoch_def\<close>)

lemma epochs:
  assumes "all_epochs (I spec) rt" and "distinct es"
    and "\<And>e er. e \<in> set es \<Longrightarrow> map_of (rt_epochs rt) e = Some er \<Longrightarrow> \<not> er_score_settled er"
  shows "all_epochs (I spec) (snd (settle_epochs c b t es rt))"
  using assms
proof (induction es arbitrary: rt)
  case (Cons e es)
  let ?rt = "snd (settle_one_epoch c b t e rt)"
  have "all_epochs (I spec) ?rt" using Cons.prems by (intro one_epoch) auto
  moreover have "\<not> er_score_settled er" if "e' \<in> set es" "map_of (rt_epochs ?rt) e' = Some er" for e' er
  proof -
    have "e' \<noteq> e" using Cons.prems(2) that(1) by auto
    with that Cons.prems(3) [of e' er] show ?thesis by (simp add: settle_one_other)
  qed
  ultimately have "all_epochs (I spec) (snd (settle_epochs c b t es ?rt))"
    using Cons.IH [of ?rt] Cons.prems(2) by simp
  then show ?case by (simp add: case_prod_unfold Let_def)
qed simp

lemma settle_scores:
  assumes "all_epochs (I spec) rt"
    and "topostake_settle_scores_through_epoch env (Some rt) f bs t spec = (ss, Some rt')"
  shows "all_epochs (I spec) rt'"
proof -
  have ok: "hm_ok (rt_epochs rt)" using assms(1) by (simp add: all_epochs_def)
  have "all_epochs (I spec) (snd (settle_epochs (topostake_config spec) (hm_collect bs) t
      (unsettled_epochs rt m) rt))" for m
    using assms(1) by (rule epochs) (auto simp: unsettled_epochs_distinct ok set_unsettled_epochs)
  with assms show ?thesis
    by (auto simp: topostake_settle_scores_through_epoch_def Let_def case_prod_unfold split: if_splits)
qed

lemma settle_credits: "all_epochs (I spec) rt \<Longrightarrow> all_epochs (I spec) (settle_credits_rt rt f)"
  by (auto simp: all_epochs_def settle_credits_rt_def hm_ok_def comp_def case_prod_unfold intro: pay)

lemma step_preserves:
  assumes "runtime_step env spec rt rt'" and "all_epochs (I spec) rt"
  shows "all_epochs (I spec) rt'"
  using assms(1)
proof (cases rule: runtime_step.cases)
  case (graffiti e p g out)
  have "all_epochs (I spec) (put_epoch rt e (snd (record_topostake_path (epoch_entry rt e) e s None
      path fee cost p spec)))"
    if "parse_topostake_validator_path csv spec = Inr path" for s path fee cost csv
    using parse_path_valid(1) [OF that] by (intro all_epochs_put record_path entry assms)
  with graffiti assms(2) touch [OF assms(2), of e] mark [OF assms(2), of e] show ?thesis
    by (auto simp: record_topostake_graffiti_evidence_def decode_topostake_graffiti_evidence_record_def
        Let_def case_prod_unfold split: if_splits sum.splits option.splits)
next
  case (gossip e p ps outs)
  with assms(2) gossip_paths show ?thesis
    by (auto simp: record_topostake_tx_gossip_metadata_evidence_def Let_def case_prod_unfold split: if_splits)
next
  case (invalid_gossip e n outs)
  with assms(2) mark_times [OF touch] show ?thesis
    by (auto simp: record_topostake_invalid_tx_gossip_metadata_evidence_def Let_def case_prod_unfold
        split: if_splits)
next
  case (scores f balances total_balance ss)
  with assms(2) settle_scores show ?thesis by blast
next
  case (credits f)
  with assms(2) settle_credits show ?thesis by (auto simp: topostake_settle_credits_through_epoch_def)
next
  case (query e delay scs)
  with assms(2) show ?thesis
    by (auto simp: topostake_evidence_scores_for_epoch_def Let_def all_epochs_def
        split: if_splits option.splits)
qed

lemma reachable: "runtime_reachable env spec rt \<Longrightarrow> all_epochs (I spec) rt"
  by (induction rule: runtime_reachable.induct)
     (auto simp: reset_topostake_evidence_runtime_def intro: all_epochs_default step_preserves)

end

section \<open>An example\<close>

text \<open>
  The development network with the default configuration, an empty environment, and a
  transaction relayed once: validator 6 sends it through validator 2 to validator 3.
\<close>

definition no_env :: env where
  "no_env = (\<lambda>_. None)"

definition devnet_spec :: chain_spec where
  "devnet_spec = \<lparr>topostake_config = devnet_enabled_at 0, deposit_chain_id = 7032030,
     shuffle_round_count = 90, max_effective_balance = 32000000000,
     max_effective_balance_electra = 2048000000000, min_seed_lookahead = 1, max_seed_lookahead = 4,
     domain_beacon_proposer = 0, altair_fork_epoch = Some 0, bellatrix_fork_epoch = Some 0,
     capella_fork_epoch = Some 0, deneb_fork_epoch = Some 0, electra_fork_epoch = Some 0,
     fulu_fork_epoch = None, gloas_fork_epoch = None\<rparr>"

definition devnet_hash :: string where
  "devnet_hash = ''0x'' @ replicate 64 (CHR ''a'')"

definition devnet_evidence :: path_evidence where
  "devnet_evidence = \<lparr>pe_tx_hash = devnet_hash, pe_path = [6, 2, 3], pe_fee_budget_wei = 1000000,
     pe_irrecoverable_cost_wei = 21000000000000\<rparr>"

definition devnet_epoch :: epoch_runtime where
  "devnet_epoch = \<lparr>er_valid_paths = 1, er_invalid_paths = 0,
     er_duplicate_receiver_proofs = 0, er_raw_contributions = [(2, 692307692)],
     er_saturated_contributions = [], er_scores = [], er_score_settled = False,
     er_accepted_tx_hashes = [devnet_hash],
     er_credit_records = [\<lparr>cr_settlement_epoch = 7, cr_settled = False\<rparr>],
     er_proposer_credits = [(9, 500000)], er_relay_credits = [(2, 346153)],
     er_total_credit_budget_scaled = 1000000, er_burned_credit_scaled = 153847\<rparr>"

definition devnet_rt :: evidence_runtime where
  "devnet_rt = \<lparr>rt_epochs = [(5, devnet_epoch)], rt_latest_settled_epoch = None,
     rt_latest_scores = [], rt_activated_scores = [], rt_accepted_tx_hashes = [devnet_hash]\<rparr>"

lemmas devnet_defs =
  devnet_spec_def devnet_enabled_at_def config_disabled_def topostake_defaults
  topostake_fixed_point_scale_def

lemma devnet_config:
  "topostake_fork_epoch (topostake_config devnet_spec) = Some 0"
  "score_cost_reference_wei (topostake_config devnet_spec) = 21000000000000"
  "proposer_fee_ratio_scaled (topostake_config devnet_spec) = 500000000"
  "reward_settlement_depth (topostake_config devnet_spec) = 2"
  "max_paths_per_block (topostake_config devnet_spec) = 1024"
  "max_path_evidence_len (topostake_config devnet_spec) = 16"
  "score_ema_beta_scaled (topostake_config devnet_spec) = 800000000"
  "score_saturation_k_scaled (topostake_config devnet_spec) = 1000000000"
  "evidence_finality_depth (topostake_config devnet_spec) = 1"
  "score_activation_delay_epochs (topostake_config devnet_spec) = 2"
  "evidence_work_limit (topostake_config devnet_spec) = 4096"
  by (simp_all add: devnet_defs)

lemma devnet_contributions:
  "topostake_path_relay_contributions [6, 2, 3] devnet_spec = [(2, 692307692)]"
  by (simp add: topostake_path_relay_contributions_def topostake_path_budget_scaled_def Let_def
      path_lambda_scaled_def path_r_scaled_def path_depth_def depth_factor_def
      fixed_pow_scaled_def sat64_def sat128_def devnet_defs)

lemma devnet_accept:
  "record_topostake_path epoch_runtime_default 5 TxGossipMetadata (Some devnet_hash) [6, 2, 3]
     1000000 21000000000000 9 devnet_spec =
   (EvValid 5 TxGossipMetadata 3 [(2, 692307692)] (er_summary devnet_epoch 5), devnet_epoch)"
proof -
  have "weighted_contributions devnet_spec [6, 2, 3] 21000000000000 = [(2, 692307692)]"
    by (simp add: weighted_contributions_def devnet_contributions devnet_config scaled_mul_div_def
        topostake_transaction_credit_weight_scaled_def sat64_def sat128_def
        topostake_fixed_point_scale_def)
  moreover have "relay_credits_of devnet_spec [6, 2, 3] 500000 = [(2, 346153)]"
    by (simp add: relay_credits_of_def devnet_contributions scaled_mul_div_def sat64_def sat128_def
        topostake_fixed_point_scale_def)
  moreover have "scaled_mul_div 1000000 500000000 SCALE = 500000"
    by (simp add: scaled_mul_div_def sat64_def sat128_def topostake_fixed_point_scale_def)
  ultimately show ?thesis
    by (simp add: record_topostake_path_def tx_identity_of_def record_topostake_credit_def
        devnet_config hm_sat_add_def hm_insert_def hm_get_or_def hs_insert_def
        epoch_runtime_default_def devnet_epoch_def sum_u64_def sat64_def Let_def)
qed

lemma devnet_gossip:
  "record_topostake_tx_gossip_metadata_evidence no_env (Some evidence_runtime_default) 5 9
     [devnet_evidence] devnet_spec =
   ([EvValid 5 TxGossipMetadata 3 [(2, 692307692)] (er_summary devnet_epoch 5)], Some devnet_rt)"
proof -
  have "validate_topostake_validator_path [6, 2, 3] devnet_spec = Inr ()"
    by (simp add: validate_path_iff devnet_config)
  moreover have "is_topostake_enabled_at_epoch no_env devnet_spec 5"
    by (simp add: is_topostake_enabled_at_epoch_def is_enabled_at_epoch_def devnet_config)
  ultimately show ?thesis
    by (simp add: record_topostake_tx_gossip_metadata_evidence_def record_gossip_path_def
        devnet_evidence_def epoch_entry_def evidence_runtime_default_def hm_get_or_def devnet_accept
        put_epoch_def hm_insert_def hs_insert_def is_valid_def devnet_rt_def devnet_config Let_def)
qed

lemma devnet_reachable: "runtime_reachable no_env devnet_spec devnet_rt"
  by (rule runtime_reachable.step [OF runtime_reachable.start runtime_step.gossip [OF devnet_gossip]])

end
