(* ===== verification/Beacon_Scores.thy ===== *)
theory Beacon_Scores
  imports Beacon_Steps
begin

text \<open>
  Settlement and activation of propagation scores in the consensus client.  The total score is
  bounded by the 24th harmonic number whatever evidence arrives; every epoch is settled once,
  in order; a settled epoch never changes its scores; and the scores used for a proposer epoch
  are those of the latest settled epoch that is old enough, fixed at the first query.
\<close>

section \<open>Scores of one epoch\<close>

definition score_bound :: nat where
  "score_bound = 3775958168"

lemma saturate_le:
  "topostake_saturate_contribution_scaled raw b t k
    \<le> score_bound * scaled_mul_div b SCALE t div SCALE"
proof -
  let ?s = "scaled_mul_div b SCALE t"
  have "scaled_mul_div ?s (fixed_ln_1p_scaled (scaled_mul_div raw SCALE d)) SCALE \<le> score_bound * ?s div SCALE" for d
  proof -
    have "fixed_ln_1p_scaled (scaled_mul_div raw SCALE d) \<le> score_bound"
      unfolding score_bound_def by (rule fixed_ln_harmonic [OF scaled_mul_div_u64])
    then have "?s * fixed_ln_1p_scaled (scaled_mul_div raw SCALE d) div SCALE \<le> score_bound * ?s div SCALE"
      unfolding mult.commute [of score_bound] by (intro div_le_mono mult_le_mono order_refl)
    with scaled_mul_div_le show ?thesis by (rule order_trans)
  qed
  then show ?thesis by (simp add: topostake_saturate_contribution_scaled_def Let_def)
qed

text \<open>The shares of distinct validators add up to at most one.\<close>

lemma sum_get_or_le:
  fixes m :: "('k, nat) hash_map"
  assumes "hm_ok m" and "distinct vs"
  shows "sum_list (map (hm_get_or 0 m) vs) \<le> sum_list (map snd m)"
  using assms
proof (induction vs arbitrary: m)
  case (Cons v vs)
  let ?m = "hm_insert v 0 m"
  have "hm_get_or 0 ?m u = hm_get_or 0 m u" if "u \<in> set vs" for u
    using that Cons.prems(2) by (auto simp: table_simps)
  then have "sum_list (map (hm_get_or 0 m) vs) = sum_list (map (hm_get_or 0 ?m) vs)"
    by (intro arg_cong [of _ _ sum_list] map_cong) simp_all
  also have "\<dots> \<le> sum_list (map snd ?m)"
    using Cons.prems by (intro Cons.IH) (simp_all add: hm_ok_insert)
  finally show ?case using sum_hm_insert_nat [OF Cons.prems(1), of v 0] by simp
qed simp

lemma sum_shares_le:
  assumes "hm_ok balances" and "sum_list (map snd balances) \<le> t" and "0 < t" and "distinct vs"
  shows "sum_list (map (\<lambda>v. scaled_mul_div (hm_get_or 0 balances v) SCALE t) vs) \<le> SCALE"
proof -
  have "sum_list (map (\<lambda>v. scaled_mul_div (hm_get_or 0 balances v) SCALE t) vs)
      \<le> sum_list (map (\<lambda>v. SCALE * hm_get_or 0 balances v div t) vs)"
    by (intro sum_list_map_mono) (metis scaled_mul_div_le mult.commute)
  also have "\<dots> = sum_list (map (\<lambda>w. SCALE * w div t) (map (hm_get_or 0 balances) vs))" by (simp add: comp_def)
  also have "\<dots> \<le> SCALE * sum_list (map (hm_get_or 0 balances) vs) div t" by (rule sum_list_shares) fact
  also have "\<dots> \<le> SCALE * t div t"
    using order_trans [OF sum_get_or_le [OF assms(1,4)] assms(2)] by (intro div_le_mono mult_le_mono) simp_all
  finally show ?thesis using assms(3) by simp
qed

text \<open>One step of the moving average keeps the total below the bound.\<close>

lemma settle_score_le:
  "settle_score c s p \<le> min (score_ema_beta_scaled c) SCALE * s div SCALE +
    (SCALE - min (score_ema_beta_scaled c) SCALE) * p div SCALE"
  unfolding settle_score_def Let_def
  by (rule order_trans [OF sat64_le(1)]) (metis add_mono scaled_mul_div_le mult.commute)

lemma sum_settle_scores_le:
  assumes "sum_list (map f vs) \<le> M" and "sum_list (map g vs) \<le> M"
  shows "sum_list (map (\<lambda>v. settle_score c (f v) (g v)) vs) \<le> M"
proof -
  let ?b = "min (score_ema_beta_scaled c) SCALE"
  have "sum_list (map (\<lambda>v. settle_score c (f v) (g v)) vs)
      \<le> sum_list (map (\<lambda>v. ?b * f v div SCALE + (SCALE - ?b) * g v div SCALE) vs)"
    by (intro sum_list_map_mono settle_score_le)
  also have "\<dots> = sum_list (map (\<lambda>w. ?b * w div SCALE) (map f vs)) +
      sum_list (map (\<lambda>w. (SCALE - ?b) * w div SCALE) (map g vs))"
    by (simp add: comp_def sum_list_addf)
  also have "\<dots> \<le> ?b * sum_list (map f vs) div SCALE + (SCALE - ?b) * sum_list (map g vs) div SCALE"
    by (intro add_mono sum_list_shares) simp_all
  also have "\<dots> \<le> ?b * M div SCALE + (SCALE - ?b) * M div SCALE"
    using assms by (intro add_mono div_le_mono mult_le_mono) simp_all
  also have "\<dots> \<le> (?b * M + (SCALE - ?b) * M) div SCALE"
    unfolding div_add1_eq [of "?b * M" "(SCALE - ?b) * M" SCALE] by simp
  also have "?b * M + (SCALE - ?b) * M = M * SCALE"
    by (simp add: diff_mult_distrib mult.commute [of M])
  finally show ?thesis by simp
qed

lemma sum_saturated_le:
  assumes "hm_ok balances" and "sum_list (map snd balances) \<le> t" and "0 < t" and "distinct vs"
  shows "sum_list (map (\<lambda>v. topostake_saturate_contribution_scaled (raw v) (hm_get_or 0 balances v) t k) vs)
    \<le> score_bound"
proof -
  let ?s = "\<lambda>v. scaled_mul_div (hm_get_or 0 balances v) SCALE t"
  have "sum_list (map (\<lambda>v. topostake_saturate_contribution_scaled (raw v) (hm_get_or 0 balances v) t k) vs)
      \<le> sum_list (map (\<lambda>v. score_bound * ?s v div SCALE) vs)"
    by (intro sum_list_map_mono saturate_le assms)
  also have "\<dots> = sum_list (map (\<lambda>w. score_bound * w div SCALE) (map ?s vs))" by (simp add: comp_def)
  also have "\<dots> \<le> score_bound * sum_list (map ?s vs) div SCALE" by (rule sum_list_shares) simp
  also have "\<dots> \<le> score_bound * SCALE div SCALE"
    using sum_shares_le [OF assms(1-4)] by (intro div_le_mono mult_le_mono) simp_all
  finally show ?thesis by simp
qed

section \<open>Settling an epoch\<close>

lemma fold_insert_pos:
  "distinct (map fst m @ map k us) \<Longrightarrow>
    fold (\<lambda>u. insert_pos (k u) (x u)) us m = m @ filter (\<lambda>p. 0 < snd p) (map (\<lambda>u. (k u, x u)) us)"
proof (induction us arbitrary: m)
  case (Cons u us)
  then have "fold (\<lambda>u. insert_pos (k u) (x u)) us (insert_pos (k u) (x u) m) =
      insert_pos (k u) (x u) m @ filter (\<lambda>p. 0 < snd p) (map (\<lambda>u. (k u, x u)) us)"
    by (intro Cons.IH) (auto simp: insert_pos_def hm_insert_fresh)
  moreover have "insert_pos (k u) (x u) m = m @ filter (\<lambda>p. 0 < snd p) [(k u, x u)]"
    using Cons.prems by (auto simp: insert_pos_def hm_insert_fresh)
  ultimately show ?case by simp
qed simp

definition epoch_updates :: "topo_config \<Rightarrow> (nat, nat) hash_map \<Rightarrow> nat \<Rightarrow> epoch_runtime \<Rightarrow> (nat, nat) hash_map \<Rightarrow> score_update list" where
  "epoch_updates c b t er prev = map (settle_validator c b t (er_raw_contributions er) prev)
     (sort (remdups (hm_keys (er_raw_contributions er) @ hm_keys prev)))"

definition positive_scores :: "score_update list \<Rightarrow> (nat, nat) hash_map" where
  "positive_scores us = filter (\<lambda>p. 0 < snd p) (map (\<lambda>u. (su_validator_index u, su_score_scaled u)) us)"

lemma updates_index: "map su_validator_index (epoch_updates c b t er prev) =
    sort (remdups (hm_keys (er_raw_contributions er) @ hm_keys prev))"
  by (simp add: epoch_updates_def comp_def settle_validator_def Let_def)

lemma updates_distinct: "distinct (map su_validator_index (epoch_updates c b t er prev))"
  by (simp add: updates_index)

lemma positive_scores_ok:
  "distinct (map su_validator_index us) \<Longrightarrow> hm_ok (positive_scores us)"
  by (auto simp: positive_scores_def hm_ok_def comp_def intro!: distinct_map_filter)

lemma positive_scores_sum:
  "sum_list (map snd (positive_scores us)) = sum_list (map su_score_scaled us)"
  unfolding positive_scores_def sum_list_filter_pos by (simp add: comp_def)

lemma settle_one_eq:
  assumes "map_of (rt_epochs rt) e = Some er"
  shows "settle_one_epoch c b t e rt =
    (let us = epoch_updates c b t er (rt_latest_scores rt)
     in (Some \<lparr>se_epoch = e, se_score_total_scaled = sum_u64 (map su_score_scaled us), se_updates = us\<rparr>,
         (put_epoch rt e (settle_epoch_runtime er us))
           \<lparr>rt_latest_settled_epoch := Some e, rt_latest_scores := positive_scores us\<rparr>))"
proof -
  have "fold (\<lambda>u. insert_pos (su_validator_index u) (su_score_scaled u)) us [] = positive_scores us"
    if "distinct (map su_validator_index us)" for us
    using fold_insert_pos [of "[]" su_validator_index us] that by (simp add: positive_scores_def)
  from this [OF updates_distinct] assms show ?thesis
    by (simp add: settle_one_epoch_def Let_def epoch_updates_def)
qed

lemma updates_sum_le:
  assumes "hm_ok b" and "sum_list (map snd b) \<le> t" and "0 < t"
    and "hm_ok prev" and "sum_list (map snd prev) \<le> score_bound"
  shows "sum_list (map su_score_scaled (epoch_updates c b t er prev)) \<le> score_bound"
proof -
  let ?vs = "sort (remdups (hm_keys (er_raw_contributions er) @ hm_keys prev))"
  have d: "distinct ?vs" by simp
  have "map su_score_scaled (epoch_updates c b t er prev) =
      map (\<lambda>v. settle_score c
        (topostake_saturate_contribution_scaled (hm_get_or 0 (er_raw_contributions er) v)
          (hm_get_or 0 b v) t (score_saturation_k_scaled c)) (hm_get_or 0 prev v)) ?vs"
    by (simp add: epoch_updates_def settle_validator_def Let_def)
  also have "sum_list \<dots> \<le> score_bound"
    using sum_saturated_le [OF assms(1-3) d] order_trans [OF sum_get_or_le [OF assms(4) d] assms(5)]
    by (intro sum_settle_scores_le)
  finally show ?thesis .
qed

definition score_table :: "evidence_runtime \<Rightarrow> bool" where
  "score_table rt \<longleftrightarrow> hm_ok (rt_latest_scores rt) \<and> sum_list (hm_values (rt_latest_scores rt)) \<le> score_bound"

definition exact_total :: "settled_epoch_scores \<Rightarrow> bool" where
  "exact_total s \<longleftrightarrow> se_score_total_scaled s = sum_list (map su_score_scaled (se_updates s))
     \<and> se_score_total_scaled s \<le> score_bound"

lemma settle_one_table:
  assumes "hm_ok b" and "sum_list (map snd b) \<le> t" and "0 < t" and "score_table rt"
  shows "score_table (snd (settle_one_epoch c b t e rt))"
    and "pred_option exact_total (fst (settle_one_epoch c b t e rt))"
proof -
  have "score_table (snd (settle_one_epoch c b t e rt)) \<and>
      pred_option exact_total (fst (settle_one_epoch c b t e rt))"
  proof (cases "map_of (rt_epochs rt) e")
    case None
    with assms(4) show ?thesis by (simp add: settle_one_epoch_def)
  next
    case (Some er)
    let ?us = "epoch_updates c b t er (rt_latest_scores rt)"
    have le: "sum_list (map su_score_scaled ?us) \<le> score_bound"
      using assms by (intro updates_sum_le) (simp_all add: score_table_def hm_values_def)
    then have "sum_u64 (map su_score_scaled ?us) = sum_list (map su_score_scaled ?us)"
      by (simp add: sum_u64_def score_bound_def)
    with le show ?thesis
      unfolding settle_one_eq [OF Some] Let_def
      by (simp add: score_table_def exact_total_def hm_values_def positive_scores_sum
          positive_scores_ok updates_distinct)
  qed
  then show "score_table (snd (settle_one_epoch c b t e rt))"
    and "pred_option exact_total (fst (settle_one_epoch c b t e rt))" by simp_all
qed

lemma settle_epochs_table:
  assumes "hm_ok b" and "sum_list (map snd b) \<le> t" and "0 < t" and "score_table rt"
  shows "score_table (snd (settle_epochs c b t es rt)) \<and> list_all exact_total (fst (settle_epochs c b t es rt))"
  using assms(4)
proof (induction es arbitrary: rt)
  case (Cons e es)
  note one = settle_one_table [OF assms(1-3) Cons.prems, of c e]
  from Cons.IH [OF one(1)] one(2) show ?case
    by (auto simp: case_prod_unfold Let_def split: option.split)
qed simp

text \<open>
  Settlement keeps the total score below a constant.  If the previous scores total at most
  \<open>3.776\<close> (the 24th harmonic number) and the effective balances of the validators total at
  most the active balance, the same holds after settling any epochs with any evidence, and
  the reported total of each epoch is the exact sum of its scores: the 64-bit sum never wraps.
\<close>

theorem settled_scores_bounded:
  assumes "score_table rt" and "distinct (map fst balances)" and "sum_list (map snd balances) \<le> t"
    and "topostake_settle_scores_through_epoch env (Some rt) f balances t spec = (ss, Some rt')"
  shows "score_table rt' \<and> list_all exact_total ss"
proof (cases "t = 0")
  case False
  have b: "hm_ok (hm_collect balances)" "sum_list (map snd (hm_collect balances)) \<le> t"
    using assms(2,3) by (simp_all add: hm_collect_distinct hm_ok_def)
  from settle_epochs_table [OF b _ assms(1), of "topostake_config spec"] False assms(1,4) show ?thesis
    by (auto simp: topostake_settle_scores_through_epoch_def Let_def case_prod_unfold split: if_splits)
qed (use assms in \<open>auto simp: topostake_settle_scores_through_epoch_def\<close>)

section \<open>Every epoch is settled once\<close>

lemma settle_one_settled:
  assumes "map_of (rt_epochs rt) e = Some er"
  shows "\<exists>er'. map_of (rt_epochs (snd (settle_one_epoch c b t e rt))) e = Some er' \<and> er_score_settled er'"
    and "\<exists>s. fst (settle_one_epoch c b t e rt) = Some s \<and> se_epoch s = e"
  by (simp_all add: settle_one_eq [OF assms] Let_def put_epoch_def table_simps settle_epoch_runtime_def)

lemma settle_epochs_other:
  "e \<notin> set es \<Longrightarrow> map_of (rt_epochs (snd (settle_epochs c b t es rt))) e = map_of (rt_epochs rt) e"
  by (induction es arbitrary: rt) (simp_all add: case_prod_unfold Let_def settle_one_other)

lemma settle_epochs_all:
  assumes "distinct es" and "\<And>e. e \<in> set es \<Longrightarrow> \<exists>er. map_of (rt_epochs rt) e = Some er"
  shows "map se_epoch (fst (settle_epochs c b t es rt)) = es \<and>
    (\<forall>e \<in> set es. \<exists>er. map_of (rt_epochs (snd (settle_epochs c b t es rt))) e = Some er \<and> er_score_settled er)"
  using assms
proof (induction es arbitrary: rt)
  case (Cons e es)
  let ?rt = "snd (settle_one_epoch c b t e rt)"
  obtain er where er: "map_of (rt_epochs rt) e = Some er" using Cons.prems(2) by auto
  note one = settle_one_settled [OF er, of c b t]
  have "\<exists>er. map_of (rt_epochs ?rt) e' = Some er" if "e' \<in> set es" for e'
  proof -
    have "e' \<noteq> e" using Cons.prems(1) that by auto
    with Cons.prems(2) [of e'] that show ?thesis by (simp add: settle_one_other)
  qed
  with Cons.prems(1) have IH: "map se_epoch (fst (settle_epochs c b t es ?rt)) = es \<and>
    (\<forall>e \<in> set es. \<exists>er. map_of (rt_epochs (snd (settle_epochs c b t es ?rt))) e = Some er \<and> er_score_settled er)"
    by (intro Cons.IH) auto
  with one(1) Cons.prems(1)
  have "\<forall>e' \<in> set (e # es). \<exists>er. map_of (rt_epochs (snd (settle_epochs c b t es ?rt))) e' = Some er \<and> er_score_settled er"
    by (auto simp: settle_epochs_other)
  with one(2) IH show ?case by (auto simp: case_prod_unfold Let_def)
qed simp

lemma hm_ok_settle_epochs:
  "hm_ok (rt_epochs rt) \<Longrightarrow> hm_ok (rt_epochs (snd (settle_epochs c b t es rt)))"
proof (induction es arbitrary: rt)
  case (Cons e es)
  have "hm_ok (rt_epochs (snd (settle_one_epoch c b t e rt)))"
    using Cons.prems by (simp add: settle_one_epoch_def Let_def put_epoch_def hm_ok_insert split: option.split)
  from Cons.IH [OF this] show ?case by (simp add: case_prod_unfold Let_def)
qed simp

lemma settle_unsettled:
  assumes "hm_ok (rt_epochs rt)"
  shows "map se_epoch (fst (settle_epochs c b t (unsettled_epochs rt m) rt)) = unsettled_epochs rt m"
    and "unsettled_epochs (snd (settle_epochs c b t (unsettled_epochs rt m) rt)) m = []"
proof -
  let ?es = "unsettled_epochs rt m" and ?rt = "snd (settle_epochs c b t (unsettled_epochs rt m) rt)"
  have all: "map se_epoch (fst (settle_epochs c b t ?es rt)) = ?es \<and>
    (\<forall>e \<in> set ?es. \<exists>er. map_of (rt_epochs ?rt) e = Some er \<and> er_score_settled er)"
    using assms by (intro settle_epochs_all) (auto simp: unsettled_epochs_distinct set_unsettled_epochs)
  then show "map se_epoch (fst (settle_epochs c b t ?es rt)) = ?es" by simp
  have "e \<notin> set (unsettled_epochs ?rt m)" for e
  proof
    assume "e \<in> set (unsettled_epochs ?rt m)"
    then obtain er where er: "e \<le> m" "map_of (rt_epochs ?rt) e = Some er" "\<not> er_score_settled er"
      using set_unsettled_epochs [OF hm_ok_settle_epochs [OF assms]] by auto
    show False
    proof (cases "e \<in> set ?es")
      case True
      with all er show ?thesis by auto
    next
      case False
      with er have "map_of (rt_epochs rt) e = Some er" by (simp add: settle_epochs_other)
      with er False show ?thesis by (simp add: set_unsettled_epochs [OF assms])
    qed
  qed
  then show "unsettled_epochs ?rt m = []" by (metis list.set_intros(1) neq_Nil_conv)
qed

section \<open>Settled epochs are frozen\<close>

definition scores_fresh :: "chain_spec \<Rightarrow> epoch \<Rightarrow> epoch_runtime \<Rightarrow> bool" where
  "scores_fresh spec e er \<longleftrightarrow> (\<not> er_score_settled er \<longrightarrow> er_scores er = [])"

lemma accept_path_scores [simp]:
  "er_scores (accept_path er e tx path fee cost p spec) = er_scores er"
  "er_score_settled (accept_path er e tx path fee cost p spec) = er_score_settled er"
  by (simp_all add: accept_path_def record_topostake_credit_def Let_def)

interpretation fresh_scores: epoch_invariant scores_fresh
  by unfold_locales (auto simp: scores_fresh_def epoch_runtime_default_def settle_epoch_runtime_def)

lemma reachable_hm_ok: "runtime_reachable env spec rt \<Longrightarrow> hm_ok (rt_epochs rt)"
  using fresh_scores.reachable by (auto simp: all_epochs_def)

text \<open>\<open>keeps_scores rt rt'\<close>: every settled epoch of \<open>rt\<close> is settled in \<open>rt'\<close> with the same scores.\<close>

definition keeps_scores :: "evidence_runtime \<Rightarrow> evidence_runtime \<Rightarrow> bool" where
  "keeps_scores rt rt' \<longleftrightarrow> (\<forall>e er. map_of (rt_epochs rt) e = Some er \<and> er_score_settled er \<longrightarrow>
     (\<exists>er'. map_of (rt_epochs rt') e = Some er' \<and> er_score_settled er' \<and> er_scores er' = er_scores er))"

lemma keeps_scores_refl [simp]: "keeps_scores rt rt"
  by (simp add: keeps_scores_def)

lemma keeps_scores_trans: "keeps_scores a b \<Longrightarrow> keeps_scores b c \<Longrightarrow> keeps_scores a c"
  unfolding keeps_scores_def by metis

lemma keeps_scores_put:
  assumes "er_scores er = er_scores (epoch_entry rt e)" "er_score_settled er = er_score_settled (epoch_entry rt e)"
  shows "keeps_scores rt (put_epoch rt e er)"
  using assms by (auto simp: keeps_scores_def put_epoch_def table_simps epoch_entry_def hm_get_or_def)

lemma record_path_scores:
  "er_scores (snd (record_topostake_path er e source tx path fee cost p spec)) = er_scores er"
  "er_score_settled (snd (record_topostake_path er e source tx path fee cost p spec)) = er_score_settled er"
proof -
  obtain out er' where r: "record_topostake_path er e source tx path fee cost p spec = (out, er')"
    by (cases "record_topostake_path er e source tx path fee cost p spec")
  then have "er_scores er' = er_scores er \<and> er_score_settled er' = er_score_settled er"
    by (cases rule: record_path_cases) auto
  with r show
    "er_scores (snd (record_topostake_path er e source tx path fee cost p spec)) = er_scores er"
    "er_score_settled (snd (record_topostake_path er e source tx path fee cost p spec)) = er_score_settled er"
    by simp_all
qed

text \<open>Operations that record evidence touch neither settled scores nor the activation table.\<close>

definition score_frame :: "evidence_runtime \<Rightarrow> evidence_runtime \<Rightarrow> bool" where
  "score_frame rt rt' \<longleftrightarrow> keeps_scores rt rt' \<and> rt_latest_settled_epoch rt' = rt_latest_settled_epoch rt
     \<and> rt_latest_scores rt' = rt_latest_scores rt \<and> rt_activated_scores rt' = rt_activated_scores rt"

lemma score_frame_trans: "score_frame a b \<Longrightarrow> score_frame b c \<Longrightarrow> score_frame a c"
  unfolding score_frame_def using keeps_scores_trans by metis

lemma score_frame_refl: "score_frame rt rt"
  by (simp add: score_frame_def)

lemma score_frame_put:
  "er_scores er = er_scores (epoch_entry rt e) \<Longrightarrow> er_score_settled er = er_score_settled (epoch_entry rt e)
    \<Longrightarrow> score_frame rt (put_epoch rt e er)"
  by (simp add: score_frame_def keeps_scores_put) (simp add: put_epoch_def)

lemma score_frame_mark: "score_frame rt (snd (mark_invalid rt e))"
  by (simp add: mark_invalid_def Let_def score_frame_put)

lemma score_frame_marks: "score_frame rt (snd (mark_invalid_times rt e n))"
proof (induction n arbitrary: rt)
  case (Suc n)
  from score_frame_trans [OF score_frame_mark Suc.IH] show ?case
    by (simp add: case_prod_unfold Let_def)
qed (simp add: score_frame_refl)

lemma score_frame_gossip_path: "score_frame rt (snd (record_gossip_path rt e p q spec))"
proof -
  have f: "score_frame rt (put_epoch rt e (snd (record_topostake_path (epoch_entry rt e) e s tx path fee cost p spec)))"
    for s tx path fee cost by (intro score_frame_put record_path_scores)
  have g: "score_frame rt (put_epoch rt e ((epoch_entry rt e)\<lparr>er_duplicate_receiver_proofs := n\<rparr>))" for n
    by (intro score_frame_put) simp_all
  have h: "score_frame rt rt' \<Longrightarrow> score_frame rt (rt'\<lparr>rt_accepted_tx_hashes := hs\<rparr>)" for rt' hs
    by (simp add: score_frame_def keeps_scores_def)
  show ?thesis
    by (auto simp: record_gossip_path_def Let_def case_prod_unfold score_frame_mark f g h split: sum.split)
qed

lemma score_frame_gossip_paths: "score_frame rt (snd (record_gossip_paths rt e p qs spec))"
proof (induction qs arbitrary: rt)
  case (Cons q qs)
  from score_frame_trans [OF score_frame_gossip_path Cons.IH] show ?case
    by (simp add: case_prod_unfold Let_def)
qed (simp add: score_frame_refl)

lemma score_frame_graffiti:
  "record_topostake_graffiti_evidence env (Some rt) e p g spec = (out, Some rt') \<Longrightarrow> score_frame rt rt'"
proof -
  assume r: "record_topostake_graffiti_evidence env (Some rt) e p g spec = (out, Some rt')"
  have f: "score_frame rt (put_epoch rt e (snd (record_topostake_path (epoch_entry rt e) e s tx path fee cost p spec)))"
    for s tx path fee cost by (intro score_frame_put record_path_scores)
  have g: "score_frame rt (put_epoch rt e (epoch_entry rt e))" by (rule score_frame_put) simp_all
  show ?thesis
    using r unfolding record_topostake_graffiti_evidence_def Let_def case_prod_unfold
    by (auto split: if_splits sum.splits option.splits simp: f g score_frame_mark score_frame_refl)
qed

lemma score_frame_credits: "score_frame rt (settle_credits_rt rt f)"
proof -
  have m: "map_of (map (\<lambda>(e, er). (e, er\<lparr>er_credit_records := h er\<rparr>)) m) e =
      map_option (\<lambda>er. er\<lparr>er_credit_records := h er\<rparr>) (map_of m e)" for h m and e :: nat
    by (induction m) auto
  show ?thesis
    by (simp add: score_frame_def keeps_scores_def settle_credits_rt_def
        m [of "\<lambda>er. map (settle_record f) (er_credit_records er)"])
qed

section \<open>The latest scores belong to the latest settled epoch\<close>

definition latest_linked :: "evidence_runtime \<Rightarrow> bool" where
  "latest_linked rt \<longleftrightarrow> (case rt_latest_settled_epoch rt of
      None \<Rightarrow> True
    | Some e \<Rightarrow> \<exists>er. map_of (rt_epochs rt) e = Some er \<and> er_score_settled er \<and> er_scores er = rt_latest_scores rt)"

lemma latest_linked_frame: "score_frame rt rt' \<Longrightarrow> latest_linked rt \<Longrightarrow> latest_linked rt'"
  unfolding score_frame_def latest_linked_def keeps_scores_def by (fastforce split: option.splits)

lemma settle_one_effect:
  assumes "map_of (rt_epochs rt) e = Some er" and "\<not> er_score_settled er" and "er_scores er = []"
  shows "latest_linked (snd (settle_one_epoch c b t e rt))" and "keeps_scores rt (snd (settle_one_epoch c b t e rt))"
proof -
  let ?us = "epoch_updates c b t er (rt_latest_scores rt)"
  have "er_scores (settle_epoch_runtime er ?us) = positive_scores ?us"
    using fold_insert_pos [of "[]" su_validator_index ?us] updates_distinct assms(3)
    by (simp add: settle_epoch_runtime_def positive_scores_def)
  then show "latest_linked (snd (settle_one_epoch c b t e rt))"
    by (simp add: settle_one_eq [OF assms(1)] Let_def latest_linked_def put_epoch_def table_simps)
       (simp add: settle_epoch_runtime_def)
  show "keeps_scores rt (snd (settle_one_epoch c b t e rt))"
    using assms by (auto simp: keeps_scores_def settle_one_eq [OF assms(1)] Let_def put_epoch_def table_simps)
qed

lemma settle_epochs_effect:
  assumes "distinct es" and "latest_linked rt"
    and "\<And>e. e \<in> set es \<Longrightarrow> \<exists>er. map_of (rt_epochs rt) e = Some er \<and> \<not> er_score_settled er \<and> er_scores er = []"
  shows "latest_linked (snd (settle_epochs c b t es rt)) \<and> keeps_scores rt (snd (settle_epochs c b t es rt))
    \<and> rt_activated_scores (snd (settle_epochs c b t es rt)) = rt_activated_scores rt"
  using assms
proof (induction es arbitrary: rt)
  case (Cons e es)
  let ?rt = "snd (settle_one_epoch c b t e rt)"
  obtain er where er: "map_of (rt_epochs rt) e = Some er" "\<not> er_score_settled er" "er_scores er = []"
    using Cons.prems(3) [of e] by auto
  note one = settle_one_effect [OF er, of c b t]
  have "\<exists>er. map_of (rt_epochs ?rt) e' = Some er \<and> \<not> er_score_settled er \<and> er_scores er = []"
    if "e' \<in> set es" for e'
  proof -
    have "e' \<noteq> e" using Cons.prems(1) that by auto
    with Cons.prems(3) [of e'] that show ?thesis by (simp add: settle_one_other)
  qed
  with Cons.IH [of ?rt] Cons.prems(1) one(1) have
    "latest_linked (snd (settle_epochs c b t es ?rt)) \<and> keeps_scores ?rt (snd (settle_epochs c b t es ?rt))
     \<and> rt_activated_scores (snd (settle_epochs c b t es ?rt)) = rt_activated_scores ?rt" by simp
  moreover have "rt_activated_scores ?rt = rt_activated_scores rt"
    by (simp add: settle_one_epoch_def Let_def put_epoch_def split: option.split)
  ultimately show ?case using one(2) keeps_scores_trans by (auto simp: case_prod_unfold Let_def)
qed simp

lemma settle_scores_effect:
  assumes "topostake_settle_scores_through_epoch env (Some rt) f bs t spec = (ss, Some rt')"
    and "all_epochs (scores_fresh spec) rt" and "latest_linked rt"
  shows "latest_linked rt' \<and> keeps_scores rt rt' \<and> rt_activated_scores rt' = rt_activated_scores rt"
proof -
  have ok: "hm_ok (rt_epochs rt)" using assms(2) by (simp add: all_epochs_def)
  let ?r = "\<lambda>m. snd (settle_epochs (topostake_config spec) (hm_collect bs) t (unsettled_epochs rt m) rt)"
  have "latest_linked (?r m) \<and> keeps_scores rt (?r m) \<and> rt_activated_scores (?r m) = rt_activated_scores rt" for m
    using assms(2,3)
    by (intro settle_epochs_effect)
       (auto simp: unsettled_epochs_distinct ok set_unsettled_epochs scores_fresh_def dest: all_epochs_get)
  with assms(1,3) show ?thesis
    by (auto simp: topostake_settle_scores_through_epoch_def Let_def case_prod_unfold split: if_splits)
qed

text \<open>Activated scores are never changed once present.\<close>

definition keeps_activated :: "evidence_runtime \<Rightarrow> evidence_runtime \<Rightarrow> bool" where
  "keeps_activated rt rt' \<longleftrightarrow> (\<forall>p s. map_of (rt_activated_scores rt) p = Some s \<longrightarrow>
      map_of (rt_activated_scores rt') p = Some s)"

lemma step_scores:
  assumes "runtime_step env spec rt rt'" and "all_epochs (scores_fresh spec) rt" and "latest_linked rt"
  shows "latest_linked rt'" and "keeps_scores rt rt'" and "keeps_activated rt rt'"
proof -
  have frame: "latest_linked r \<and> keeps_scores rt r \<and> keeps_activated rt r" if "score_frame rt r" for r
    using that assms(3) latest_linked_frame by (auto simp: score_frame_def keeps_activated_def)
  from assms(1) have "latest_linked rt' \<and> keeps_scores rt rt' \<and> keeps_activated rt rt'"
  proof (cases rule: runtime_step.cases)
    case (graffiti e p g out)
    then show ?thesis by (intro frame score_frame_graffiti)
  next
    case (gossip e p ps outs)
    then show ?thesis
      using frame [OF score_frame_gossip_paths] frame [OF score_frame_refl]
      by (auto simp: record_topostake_tx_gossip_metadata_evidence_def Let_def case_prod_unfold split: if_splits)
  next
    case (invalid_gossip e n outs)
    have "score_frame rt (snd (mark_invalid_times (put_epoch rt e (epoch_entry rt e)) e m))" for m
      by (rule score_frame_trans [OF score_frame_put score_frame_marks]) simp_all
    with invalid_gossip show ?thesis
      using frame [OF score_frame_refl]
      by (auto simp: record_topostake_invalid_tx_gossip_metadata_evidence_def Let_def case_prod_unfold
          split: if_splits intro!: frame)
  next
    case (scores f balances total_balance ss)
    from settle_scores_effect [OF this assms(2,3)] show ?thesis by (simp add: keeps_activated_def)
  next
    case (credits f)
    then show ?thesis
      using frame [OF score_frame_credits] by (auto simp: topostake_settle_credits_through_epoch_def)
  next
    case (query e delay scs)
    then show ?thesis
      using assms(3)
      by (auto simp: topostake_evidence_scores_for_epoch_def Let_def keeps_scores_def keeps_activated_def
          latest_linked_def table_simps split: if_splits option.splits)
  qed
  then show "latest_linked rt'" and "keeps_scores rt rt'" and "keeps_activated rt rt'" by simp_all
qed

lemma reachable_linked: "runtime_reachable env spec rt \<Longrightarrow> latest_linked rt"
proof (induction rule: runtime_reachable.induct)
  case (step rt rt')
  then show ?case using step_scores(1) fresh_scores.reachable by blast
qed (auto simp: latest_linked_def evidence_runtime_default_def reset_topostake_evidence_runtime_def)

end
