(* ===== verification/Beacon_Activation.thy ===== *)
theory Beacon_Activation
  imports Beacon_Scores
begin

text \<open>
  Which scores a proposer epoch sees.  The lookup is a refinement of the plain description
  ``the scores of the latest settled epoch that is old enough'', it is fixed by the first
  query, and because it is, two nodes that settle and query in different orders disagree.
\<close>

section \<open>The example, settled\<close>

text \<open>
  The example network with a quarter of the stake at validator 2.  Epoch 6 is finalized, so
  epoch 5 is settled: the saturated contribution is \<open>0.25 * ln (1 + 2.769)\<close>.
\<close>

definition devnet_balances :: "(nat \<times> nat) list" where
  "devnet_balances = [(2, 32), (3, 96)]"

definition devnet_update :: score_update where
  "devnet_update = \<lparr>su_validator_index = 2, su_raw_contribution_scaled = 692307692,
     su_saturated_contribution_scaled = 331702306, su_score_scaled = 265361844\<rparr>"

definition devnet_settled_epoch :: epoch_runtime where
  "devnet_settled_epoch = devnet_epoch\<lparr>er_saturated_contributions := [(2, 331702306)],
     er_scores := [(2, 265361844)], er_score_settled := True\<rparr>"

definition devnet_settled :: evidence_runtime where
  "devnet_settled = devnet_rt\<lparr>rt_epochs := [(5, devnet_settled_epoch)],
     rt_latest_settled_epoch := Some 5, rt_latest_scores := [(2, 265361844)]\<rparr>"

lemmas ln_series_unfold = ln_series.simps(2) [unfolded Let_def]

lemma sat128_num: "sat128 n = min n 340282366920938463463374607431768211455"
  by (simp add: sat128_def)

lemma devnet_ln: "fixed_ln_1p_scaled 2769230768 = 1326809226"
proof -
  have n: "[1..<25] = [1::nat,2,3,4,5,6,7,8,9,10,11,12,13,14,15,16,17,18,19,20,21,22,23,24]"
    by (simp add: upt_conv_Cons)
  have z: "sat128 (2769230768 * SCALE) div sat128 (2769230768 + SCALE) = 734693877"
    by (simp add: sat128_num topostake_fixed_point_scale_def)
  have "ln_series 734693877 [1..<25] 734693877 0 = 1326809226"
    unfolding n
    by (simp add: ln_series_unfold sat128_num topostake_fixed_point_scale_def del: ln_series.simps(2))
  then show ?thesis unfolding fixed_ln_1p_scaled_def Let_def z by (simp add: sat64_def)
qed

lemma devnet_saturate: "topostake_saturate_contribution_scaled 692307692 32 128 1000000000 = 331702306"
proof -
  have "scaled_mul_div 32 SCALE 128 = 250000000" "scaled_mul_div 1000000000 250000000 SCALE = 250000000"
    "scaled_mul_div 692307692 SCALE 250000000 = 2769230768"
    "scaled_mul_div 250000000 1326809226 SCALE = 331702306"
    by (simp_all add: scaled_mul_div_def sat64_def sat128_num topostake_fixed_point_scale_def)
  then show ?thesis by (simp add: topostake_saturate_contribution_scaled_def devnet_ln)
qed

lemma devnet_validator:
  "settle_validator (topostake_config devnet_spec) devnet_balances 128 [(2, 692307692)] [] 2 = devnet_update"
proof -
  have "settle_score (topostake_config devnet_spec) 331702306 0 = 265361844"
    by (simp add: settle_score_def devnet_config scaled_mul_div_def sat64_def sat128_num
        topostake_fixed_point_scale_def)
  then show ?thesis
    by (simp add: settle_validator_def devnet_balances_def hm_get_or_def devnet_config devnet_saturate
        devnet_update_def)
qed

lemma devnet_settle:
  "topostake_settle_scores_through_epoch no_env (Some devnet_rt) 6 devnet_balances 128 devnet_spec =
    ([\<lparr>se_epoch = 5, se_score_total_scaled = 265361844, se_updates = [devnet_update]\<rparr>], Some devnet_settled)"
proof -
  have depth: "finality_depth no_env (topostake_config devnet_spec) = 1"
    by (simp add: finality_depth_def no_env_def topostake_env_u64_def unwrap_or_def devnet_config)
  have collect: "hm_collect devnet_balances = devnet_balances"
    by (rule hm_collect_distinct) (simp add: devnet_balances_def)
  have uns: "unsettled_epochs devnet_rt 5 = [5]"
    by (simp add: unsettled_epochs_def devnet_rt_def devnet_epoch_def)
  have ups: "epoch_updates (topostake_config devnet_spec) devnet_balances 128 devnet_epoch [] = [devnet_update]"
    using devnet_validator by (simp add: epoch_updates_def devnet_epoch_def hm_keys_def)
  have one: "settle_one_epoch (topostake_config devnet_spec) devnet_balances 128 5 devnet_rt =
      (Some \<lparr>se_epoch = 5, se_score_total_scaled = 265361844, se_updates = [devnet_update]\<rparr>, devnet_settled)"
  proof -
    have e: "map_of (rt_epochs devnet_rt) 5 = Some devnet_epoch" "rt_latest_scores devnet_rt = []"
      by (simp_all add: devnet_rt_def)
    have "settle_epoch_runtime devnet_epoch [devnet_update] = devnet_settled_epoch"
      by (simp add: settle_epoch_runtime_def devnet_settled_epoch_def devnet_epoch_def devnet_update_def
          insert_pos_def hm_insert_def)
    then show ?thesis
      unfolding settle_one_eq [OF e(1)] e(2) ups Let_def
      by (simp add: put_epoch_def devnet_settled_def devnet_rt_def hm_insert_def positive_scores_def
          devnet_update_def sum_u64_def)
  qed
  show ?thesis by (simp add: topostake_settle_scores_through_epoch_def depth collect uns one)
qed

lemma devnet_settled_reachable: "runtime_reachable no_env devnet_spec devnet_settled"
  by (rule runtime_reachable.step [OF devnet_reachable runtime_step.scores [OF devnet_settle]])

section \<open>The latest eligible epoch\<close>

lemma latest_of_Some:
  "latest_of ps = Some q \<Longrightarrow> q \<in> set ps \<and> list_all (\<lambda>p. fst p \<le> fst q) ps"
proof (induction ps arbitrary: q)
  case (Cons p ps)
  show ?case
  proof (cases "latest_of ps")
    case None
    then have "ps = []" by (cases ps) (auto split: option.splits if_splits)
    with Cons.prems show ?thesis by simp
  next
    case (Some r)
    with Cons.IH [OF Some] Cons.prems show ?thesis
      by (auto simp: list_all_iff split: if_splits)
  qed
qed simp

lemma latest_of_None: "latest_of ps = None \<longleftrightarrow> ps = []"
  by (cases ps) (auto split: option.splits if_splits)

definition eligible_epochs :: "evidence_runtime \<Rightarrow> nat \<Rightarrow> (nat \<times> epoch_runtime) list" where
  "eligible_epochs rt k = filter (\<lambda>(e, er). e \<le> k \<and> has_scores er) (rt_epochs rt)"

definition latest_eligible :: "evidence_runtime \<Rightarrow> nat \<Rightarrow> nat \<Rightarrow> epoch_runtime \<Rightarrow> bool" where
  "latest_eligible rt k e er \<longleftrightarrow>
    (e, er) \<in> set (eligible_epochs rt k) \<and> list_all (\<lambda>p. fst p \<le> e) (eligible_epochs rt k)"

lemma activated_now_cases:
  assumes "hm_ok (rt_epochs rt)" and "latest_linked rt"
  shows "(eligible_epochs rt k = [] \<and> activated_scores_now rt k = []) \<or>
    (\<exists>e er. latest_eligible rt k e er \<and> activated_scores_now rt k = er_scores er)"
proof (cases "\<exists>er. map_of (rt_epochs rt) k = Some er \<and> has_scores er")
  case True
  then obtain er where er: "map_of (rt_epochs rt) k = Some er" "has_scores er" by blast
  then have "latest_eligible rt k k er"
    by (auto simp: latest_eligible_def eligible_epochs_def list_all_iff dest: map_of_SomeD)
  moreover have "activated_scores_now rt k = er_scores er" using er by (simp add: activated_scores_now_def)
  ultimately show ?thesis by blast
next
  case False
  then have bind: "Option.bind (map_of (rt_epochs rt) k) (\<lambda>er. if has_scores er then Some er else None) = None"
    by (cases "map_of (rt_epochs rt) k") auto
  let ?ps = "map (\<lambda>(e, er). (e, er_scores er)) (eligible_epochs rt k)"
  show ?thesis
  proof (cases "latest_of ?ps")
    case None
    then have "eligible_epochs rt k = []" by (simp add: latest_of_None)
    with None bind show ?thesis by (simp add: activated_scores_now_def flip: eligible_epochs_def)
  next
    case (Some q)
    from latest_of_Some [OF Some] obtain e er where q: "q = (e, er_scores er)" "(e, er) \<in> set (eligible_epochs rt k)"
      and max: "list_all (\<lambda>p. fst p \<le> e) ?ps" by auto
    have "latest_eligible rt k e er"
      using q max by (simp add: latest_eligible_def list_all_iff case_prod_unfold)
    moreover have "map_of (rt_epochs rt) e = Some er"
      using q(2) assms(1) by (auto simp: eligible_epochs_def hm_ok_def)
    then have "rt_latest_scores rt = er_scores er" if "rt_latest_settled_epoch rt = Some e"
      using assms(2) that by (simp add: latest_linked_def)
    then have "activated_scores_now rt k = er_scores er"
      using Some bind q(1) by (simp add: activated_scores_now_def flip: eligible_epochs_def)
    ultimately show ?thesis by blast
  qed
qed

text \<open>
  The lookup refines its description.  In every reachable runtime, the scores activated
  for a proposer epoch are those of the latest epoch that is at least the activation delay
  old, has been settled and has scores; there are none only if no such epoch exists.
\<close>

theorem activated_scores_latest:
  assumes "runtime_reachable env spec rt"
  shows "(eligible_epochs rt k = [] \<and> activated_scores_now rt k = []) \<or>
    (\<exists>e er. latest_eligible rt k e er \<and> activated_scores_now rt k = er_scores er)"
  using assms by (intro activated_now_cases reachable_hm_ok reachable_linked)

lemma activated_scores_latest_witness:
  "eligible_epochs devnet_settled 5 \<noteq> [] \<and>
    (\<exists>e er. latest_eligible devnet_settled 5 e er \<and> activated_scores_now devnet_settled 5 = er_scores er)"
  using activated_scores_latest [OF devnet_settled_reachable, of 5]
  by (auto simp: eligible_epochs_def devnet_settled_def devnet_settled_epoch_def has_scores_def)

section \<open>The first query decides\<close>

lemma query_caches:
  assumes "topostake_evidence_scores_for_epoch (Some rt) p d = (s, Some rt')" and "max d 1 \<le> p"
  shows "map_of (rt_activated_scores rt') p = Some s"
  using assms
  by (auto simp: topostake_evidence_scores_for_epoch_def Let_def table_simps
      split: option.splits if_splits)

lemma query_cached:
  assumes "map_of (rt_activated_scores rt) p = Some s" and "max d 1 \<le> p"
  shows "topostake_evidence_scores_for_epoch (Some rt) p d = (s, Some rt)"
  using assms by (auto simp: topostake_evidence_scores_for_epoch_def Let_def)

lemma steps_keep_activated:
  assumes "(runtime_step env spec)\<^sup>*\<^sup>* rt rt'" and "runtime_reachable env spec rt"
  shows "runtime_reachable env spec rt' \<and> keeps_activated rt rt' \<and> keeps_scores rt rt'"
  using assms(1)
proof (induction rule: rtranclp_induct)
  case base
  show ?case using assms(2) by (simp add: keeps_activated_def)
next
  case (step a b)
  then have "all_epochs (scores_fresh spec) a" and "latest_linked a"
    using fresh_scores.reachable reachable_linked by blast+
  from step_scores [OF step.hyps(2) this] step.IH step.hyps(2)
  show ?case using keeps_scores_trans by (auto simp: keeps_activated_def intro: runtime_reachable.step)
qed

text \<open>
  The first query for a proposer epoch fixes its scores.  After it, whatever evidence is
  recorded and whatever is settled, every later query for that epoch, with any delay that the
  epoch has reached, returns the same scores and changes nothing.
\<close>

theorem activated_scores_frozen:
  assumes "runtime_reachable env spec rt"
    and "topostake_evidence_scores_for_epoch (Some rt) p d = (s, Some rt1)" and "max d 1 \<le> p"
    and "(runtime_step env spec)\<^sup>*\<^sup>* rt1 rt2" and "max d' 1 \<le> p"
  shows "topostake_evidence_scores_for_epoch (Some rt2) p d' = (s, Some rt2)"
proof -
  have "runtime_reachable env spec rt1"
    using assms(1) runtime_step.query [OF assms(2)] by (rule runtime_reachable.step)
  from steps_keep_activated [OF assms(4) this] query_caches [OF assms(2,3)]
  have "map_of (rt_activated_scores rt2) p = Some s" by (simp add: keeps_activated_def)
  then show ?thesis using assms(5) by (rule query_cached)
qed

text \<open>
  Settlement is complete and happens once.  A call settles exactly the recorded epochs
  that are deep enough and not yet settled, in strictly increasing order; afterwards none of
  them is unsettled, a second call up to the same finalized epoch settles nothing and changes
  nothing, and no later operation changes the scores of a settled epoch.
\<close>

theorem scores_settle_once:
  assumes "runtime_reachable env spec rt" and "0 < t"
    and "finality_depth env (topostake_config spec) \<le> f"
    and "topostake_settle_scores_through_epoch env (Some rt) f balances t spec = (ss, Some rt')"
    and "(runtime_step env spec)\<^sup>*\<^sup>* rt' rt''"
  shows "map se_epoch ss = unsettled_epochs rt (f - finality_depth env (topostake_config spec))
    \<and> sorted_wrt (<) (map se_epoch ss)
    \<and> unsettled_epochs rt' (f - finality_depth env (topostake_config spec)) = []
    \<and> topostake_settle_scores_through_epoch env (Some rt') f balances' t' spec = ([], Some rt')
    \<and> keeps_scores rt' rt''"
proof -
  let ?m = "f - finality_depth env (topostake_config spec)"
  have ok: "hm_ok (rt_epochs rt)" using assms(1) by (rule reachable_hm_ok)
  have r: "settle_epochs (topostake_config spec) (hm_collect balances) t (unsettled_epochs rt ?m) rt = (ss, rt')"
    using assms(2-4)
    by (auto simp: topostake_settle_scores_through_epoch_def Let_def case_prod_unfold split: if_splits)
  note u = settle_unsettled [OF ok, of "topostake_config spec" "hm_collect balances" t ?m, unfolded r]
  have "sorted_wrt (<) (unsettled_epochs rt ?m)"
    using unsettled_epochs_distinct [OF ok, of ?m] by (simp add: strict_sorted_iff unsettled_epochs_def)
  moreover have "topostake_settle_scores_through_epoch env (Some rt') f balances' t' spec = ([], Some rt')"
    using u(2) assms(3) by (simp add: topostake_settle_scores_through_epoch_def Let_def)
  moreover have "keeps_scores rt' rt''"
    using steps_keep_activated [OF assms(5)] runtime_reachable.step [OF assms(1) runtime_step.scores [OF assms(4)]]
    by blast
  ultimately show ?thesis using u by simp
qed

lemma scores_settle_once_witness:
  "unsettled_epochs devnet_rt 5 = [5]
    \<and> unsettled_epochs devnet_settled 5 = []
    \<and> topostake_settle_scores_through_epoch no_env (Some devnet_settled) 6 [] 0 devnet_spec = ([], Some devnet_settled)"
proof -
  have d: "finality_depth no_env (topostake_config devnet_spec) = 1"
    by (simp add: finality_depth_def no_env_def topostake_env_u64_def unwrap_or_def devnet_config)
  from scores_settle_once [OF devnet_reachable _ _ devnet_settle rtranclp.rtrancl_refl, of "[]" 0]
  show ?thesis by (simp add: d)
qed

lemma devnet_lookup:
  "topostake_evidence_scores_for_epoch (Some devnet_settled) 7 2 =
    ([(2, 265361844)], Some (devnet_settled\<lparr>rt_activated_scores := [(7, [(2, 265361844)])]\<rparr>))"
  by (simp add: topostake_evidence_scores_for_epoch_def activated_scores_now_def has_scores_def
      devnet_settled_def devnet_rt_def devnet_settled_epoch_def hm_insert_def Let_def)

lemma activated_scores_frozen_witness:
  "topostake_evidence_scores_for_epoch
     (Some (devnet_settled\<lparr>rt_activated_scores := [(7, [(2, 265361844)])]\<rparr>)) 7 3 =
   ([(2, 265361844)], Some (devnet_settled\<lparr>rt_activated_scores := [(7, [(2, 265361844)])]\<rparr>))"
  by (rule activated_scores_frozen [OF devnet_settled_reachable devnet_lookup _ rtranclp.rtrancl_refl]) simp_all

lemma settled_scores_bounded_witness:
  "score_table devnet_settled \<and>
   list_all exact_total [\<lparr>se_epoch = 5, se_score_total_scaled = 265361844, se_updates = [devnet_update]\<rparr>]"
  by (rule settled_scores_bounded [OF _ _ _ devnet_settle])
     (simp_all add: score_table_def devnet_rt_def hm_ok_def hm_values_def devnet_balances_def score_bound_def)


end
