(* ===== verification/Beacon_Weights.thy ===== *)
theory Beacon_Weights
  imports Beacon_Scores
begin

text \<open>
  The score and weight queries of \<open>TopoStakeConfig\<close> (\<open>chain_spec.rs\<close>) that proposer selection
  uses.  Every query goes through the evidence runtime, which fixes the scores of an epoch at
  the first query, so the queries take and return the runtime.  The theory shows that all
  queries for an epoch see the same scores and that the weight of a validator stays between its
  stake and its stake with the full bonus.
\<close>

section \<open>Queries\<close>

definition score_for_validator_at_epoch ::
    "env \<Rightarrow> topo_config \<Rightarrow> runtime_lock \<Rightarrow> epoch \<Rightarrow> nat \<Rightarrow> nat \<times> runtime_lock" where
  "score_for_validator_at_epoch env c l epoch validator_index =
    (let (scores, l) = topostake_evidence_scores_for_epoch l epoch (activation_delay env c)
     in (max (score_for_validator env c validator_index) (hm_get_or 0 scores validator_index), l))"

definition raise_score :: "(nat, nat) hash_map \<Rightarrow> nat \<times> nat \<Rightarrow> (nat, nat) hash_map" where
  "raise_score scores p = hm_insert (fst p) (max (hm_get_or 0 scores (fst p)) (snd p)) scores"

definition score_total_at_epoch ::
    "env \<Rightarrow> topo_config \<Rightarrow> runtime_lock \<Rightarrow> epoch \<Rightarrow> nat \<times> runtime_lock" where
  "score_total_at_epoch env c l epoch =
    (let scores = foldl raise_score [] (map (\<lambda>f. (fx_validator_index f, fx_score_scaled f)) (score_fixture c));
         scores = foldl raise_score scores (topostake_env_score_fixture env);
         (evidence_scores, l) = topostake_evidence_scores_for_epoch l epoch (activation_delay env c);
         scores = foldl raise_score scores evidence_scores
     in (sum_u64 (hm_values scores), l))"

fun score_total_for_validators_at_epoch ::
    "env \<Rightarrow> topo_config \<Rightarrow> runtime_lock \<Rightarrow> epoch \<Rightarrow> nat list \<Rightarrow> nat \<Rightarrow> nat \<times> runtime_lock" where
  "score_total_for_validators_at_epoch env c l epoch [] acc = (acc, l)"
| "score_total_for_validators_at_epoch env c l epoch (v # vs) acc =
    (let (score, l) = score_for_validator_at_epoch env c l epoch v
     in score_total_for_validators_at_epoch env c l epoch vs (sat64 (acc + score)))"

definition bonus_scaled_at_epoch_with_score_total ::
    "env \<Rightarrow> topo_config \<Rightarrow> runtime_lock \<Rightarrow> epoch \<Rightarrow> nat \<Rightarrow> nat \<Rightarrow> nat \<Rightarrow> nat \<Rightarrow> nat \<times> runtime_lock" where
  "bonus_scaled_at_epoch_with_score_total env c l epoch effective_balance total_active_balance
      validator_index active_score_total =
    (let (score, l) = score_for_validator_at_epoch env c l epoch validator_index
     in (bonus_of_score c score effective_balance total_active_balance active_score_total, l))"

definition bonus_scaled_at_epoch ::
    "env \<Rightarrow> topo_config \<Rightarrow> runtime_lock \<Rightarrow> epoch \<Rightarrow> nat \<Rightarrow> nat \<Rightarrow> nat \<Rightarrow> nat \<times> runtime_lock" where
  "bonus_scaled_at_epoch env c l epoch effective_balance total_active_balance validator_index =
    (let (score_total, l) = score_total_at_epoch env c l epoch
     in bonus_scaled_at_epoch_with_score_total env c l epoch effective_balance total_active_balance
          validator_index score_total)"

definition bonus_multiplier_scaled_at_epoch ::
    "env \<Rightarrow> topo_config \<Rightarrow> runtime_lock \<Rightarrow> epoch \<Rightarrow> nat \<Rightarrow> nat \<Rightarrow> nat \<Rightarrow> nat \<times> runtime_lock" where
  "bonus_multiplier_scaled_at_epoch env c l epoch effective_balance total_active_balance validator_index =
    (let (bonus_scaled, l) = bonus_scaled_at_epoch env c l epoch effective_balance
           total_active_balance validator_index
     in (bonus_multiplier_from_bonus_scaled env c bonus_scaled, l))"

definition proposer_weight_scaled_at_epoch ::
    "env \<Rightarrow> topo_config \<Rightarrow> runtime_lock \<Rightarrow> epoch \<Rightarrow> nat \<Rightarrow> nat \<Rightarrow> nat \<Rightarrow> nat \<times> runtime_lock" where
  "proposer_weight_scaled_at_epoch env c l epoch effective_balance total_active_balance validator_index =
    (let (multiplier, l) = bonus_multiplier_scaled_at_epoch env c l epoch effective_balance
           total_active_balance validator_index
     in (sat128 (effective_balance * multiplier), l))"

definition proposer_weight_scaled_at_epoch_with_score_total ::
    "env \<Rightarrow> topo_config \<Rightarrow> runtime_lock \<Rightarrow> epoch \<Rightarrow> nat \<Rightarrow> nat \<Rightarrow> nat \<Rightarrow> nat \<Rightarrow> nat \<times> runtime_lock" where
  "proposer_weight_scaled_at_epoch_with_score_total env c l epoch effective_balance
      total_active_balance validator_index active_score_total =
    (let (bonus_scaled, l) = bonus_scaled_at_epoch_with_score_total env c l epoch effective_balance
           total_active_balance validator_index active_score_total;
         multiplier = bonus_multiplier_from_bonus_scaled env c bonus_scaled
     in (sat128 (effective_balance * multiplier), l))"

section \<open>All queries of an epoch see the same scores\<close>

definition pinned :: "env \<Rightarrow> topo_config \<Rightarrow> runtime_lock \<Rightarrow> epoch \<Rightarrow> runtime_lock" where
  "pinned env c l epoch = snd (topostake_evidence_scores_for_epoch l epoch (activation_delay env c))"

definition score_now :: "env \<Rightarrow> topo_config \<Rightarrow> runtime_lock \<Rightarrow> epoch \<Rightarrow> nat \<Rightarrow> nat" where
  "score_now env c l epoch v = max (score_for_validator env c v)
    (hm_get_or 0 (fst (topostake_evidence_scores_for_epoch l epoch (activation_delay env c))) v)"

definition weight_now ::
    "env \<Rightarrow> topo_config \<Rightarrow> runtime_lock \<Rightarrow> epoch \<Rightarrow> nat \<Rightarrow> nat \<Rightarrow> nat \<Rightarrow> nat \<Rightarrow> nat" where
  "weight_now env c l epoch eb tab v score_total =
    weight_from_bonus env c eb (bonus_of_score c (score_now env c l epoch v) eb tab score_total)"

lemma query_twice:
  "topostake_evidence_scores_for_epoch (snd (topostake_evidence_scores_for_epoch l e d)) e d
    = topostake_evidence_scores_for_epoch l e d"
proof (cases l)
  case (Some rt)
  then show ?thesis
    by (cases "map_of (rt_activated_scores rt) e")
      (simp_all add: topostake_evidence_scores_for_epoch_def Let_def table_simps)
qed (simp add: topostake_evidence_scores_for_epoch_def Let_def)

lemma pinned_pinned [simp]: "pinned env c (pinned env c l epoch) epoch = pinned env c l epoch"
  by (simp add: pinned_def query_twice)

lemma score_now_pinned [simp]: "score_now env c (pinned env c l epoch) epoch v = score_now env c l epoch v"
  by (simp add: score_now_def pinned_def query_twice)

lemma weight_now_pinned [simp]:
  "weight_now env c (pinned env c l epoch) epoch eb tab v t = weight_now env c l epoch eb tab v t"
  by (simp add: weight_now_def)

lemma score_query:
  "score_for_validator_at_epoch env c l epoch v = (score_now env c l epoch v, pinned env c l epoch)"
  by (simp add: score_for_validator_at_epoch_def score_now_def pinned_def split_def Let_def)

lemma weight_query:
  "proposer_weight_scaled_at_epoch_with_score_total env c l epoch eb tab v t =
    (weight_now env c l epoch eb tab v t, pinned env c l epoch)"
  by (simp add: proposer_weight_scaled_at_epoch_with_score_total_def
      bonus_scaled_at_epoch_with_score_total_def score_query weight_now_def weight_from_bonus_def Let_def)

lemma total_query_Cons:
  "score_total_for_validators_at_epoch env c l epoch (v # vs) acc =
    score_total_for_validators_at_epoch env c (pinned env c l epoch) epoch vs
      (sat64 (acc + score_now env c l epoch v))"
  by (simp add: score_query)

lemma sat64_fold_add: "foldl (\<lambda>a x. sat64 (a + x)) (sat64 a) xs = sat64 (a + sum_list xs)"
proof (induction xs arbitrary: a)
  case (Cons x xs)
  have "sat64 (sat64 a + x) = sat64 (a + x)" by (simp add: sat64_def min_def)
  with Cons [of "a + x"] show ?case by (simp add: add.assoc)
qed simp

lemma total_query:
  assumes "vs \<noteq> []"
  shows "score_total_for_validators_at_epoch env c l epoch vs (sat64 a) =
    (sat64 (a + sum_list (map (score_now env c l epoch) vs)), pinned env c l epoch)"
proof -
  have "score_total_for_validators_at_epoch env c (pinned env c l epoch) epoch us b =
      (foldl (\<lambda>a x. sat64 (a + x)) b (map (score_now env c l epoch) us), pinned env c l epoch)" for us b
    by (induction us arbitrary: b) (simp_all add: score_query)
  moreover obtain v us where vs: "vs = v # us" using assms by (cases vs) auto
  ultimately have "score_total_for_validators_at_epoch env c l epoch vs (sat64 a) =
      (foldl (\<lambda>a x. sat64 (a + x)) (sat64 a) (map (score_now env c l epoch) vs), pinned env c l epoch)"
    by (simp add: total_query_Cons del: score_total_for_validators_at_epoch.simps)
  then show ?thesis by (simp only: sat64_fold_add)
qed

section \<open>Weights are bounded by stake and monotone in the score\<close>

text \<open>A larger score never lowers the bonus of a validator.\<close>

lemma bonus_of_score_mono:
  assumes "bonus_zeta_scaled c < 2 ^ 64" and "bonus_cap_scaled c < 2 ^ 64" and "s \<le> s'"
  shows "bonus_of_score c s eb tab t \<le> bonus_of_score c s' eb tab t"
proof (cases "s = 0")
  case False
  have "sat64 (sat128 (sat128 (s * SCALE) div d * SCALE) div q)
      \<le> sat64 (sat128 (sat128 (s' * SCALE) div d * SCALE) div q)" for d q
    using assms(3) by (intro sat64_mono div_le_mono sat128_mono mult_le_mono) simp_all
  then have "concave_bonus_scaled c (sat64 (sat128 (sat128 (s * SCALE) div d * SCALE) div q))
      \<le> concave_bonus_scaled c (sat64 (sat128 (sat128 (s' * SCALE) div d * SCALE) div q))" for d q
    by (rule concave_bonus_mono [OF assms(1,2) _ sat64_less])
  then show ?thesis using False assms(3) by (simp add: bonus_of_score_def Let_def)
qed (simp add: bonus_of_score_def)

lemma multiplier_u64: "bonus_multiplier_from_bonus_scaled env c b < 2 ^ 64"
  unfolding bonus_multiplier_from_bonus_scaled_def Let_def by (rule sat64_less)

lemma weight_exact:
  "eb < 2 ^ 64 \<Longrightarrow> weight_from_bonus env c eb b = eb * bonus_multiplier_from_bonus_scaled env c b"
  unfolding weight_from_bonus_def by (intro sat128_id u64_product multiplier_u64)

lemma no_bonus: "bonus_multiplier_from_bonus_scaled env c 0 = SCALE"
  by (simp add: bonus_multiplier_from_bonus_scaled_def sat128_def sat64_def topostake_fixed_point_scale_def)

text \<open>
  C23. For 64-bit balances and a bonus cap below \<open>2 ^ 63\<close>, the proposer weight of a validator
  is at least its effective balance in fixed point and at most that balance with the full
  bonus \<open>eta * cap\<close>, whatever the evidence runtime, the score totals and the active balance are;
  a validator without a score has exactly the weight of its stake; and with the same totals a
  runtime in which its score is larger gives it no smaller weight.
\<close>

theorem proposer_weight_bounded:
  fixes env :: env and c :: topo_config and epoch :: epoch and eb tab v t :: nat
  assumes "eb < 2 ^ 64" and "bonus_cap_scaled c < 2 ^ 63" and "bonus_zeta_scaled c < 2 ^ 64"
  defines "w \<equiv> \<lambda>l. fst (proposer_weight_scaled_at_epoch_with_score_total env c l epoch eb tab v t)"
    and "score \<equiv> \<lambda>l. fst (score_for_validator_at_epoch env c l epoch v)"
  shows "eb * SCALE \<le> w l \<and> w l \<le> eb * (SCALE + eta_effective env c * bonus_cap_scaled c div SCALE)
    \<and> (score l = 0 \<longrightarrow> w l = eb * SCALE) \<and> (score l \<le> score l' \<longrightarrow> w l \<le> w l')"
proof (intro conjI impI)
  have w: "w l = weight_now env c l epoch eb tab v t" for l by (simp add: w_def weight_query)
  have s: "score l = score_now env c l epoch v" for l by (simp add: score_def score_query)
  note exact = w weight_now_def weight_exact [OF assms(1)]
  show "eb * SCALE \<le> w l" "w l \<le> eb * (SCALE + eta_effective env c * bonus_cap_scaled c div SCALE)"
    unfolding exact by (rule mult_le_mono2, rule multiplier_bounds [OF assms(2)])+
  show "w l = eb * SCALE" if "score l = 0"
    using that unfolding exact s by (simp add: bonus_of_score_def no_bonus)
  show "w l \<le> w l'" if "score l \<le> score l'"
    using that assms(2,3) unfolding w weight_now_def s
    by (intro weight_mono bonus_of_score_mono) simp_all
qed

theorem proposer_weight_bounded_witness:
  "let w = fst (proposer_weight_scaled_at_epoch_with_score_total no_env (topostake_config devnet_spec)
         (Some devnet_rt) 5 32000000000 64000000000 3 0)
   in 32000000000 * SCALE \<le> w \<and> w \<le> 32000000000 * (SCALE + SCALE div 2)"
proof -
  have "bonus_cap_scaled (topostake_config devnet_spec) = SCALE"
    "bonus_zeta_scaled (topostake_config devnet_spec) = SCALE"
    "eta_effective no_env (topostake_config devnet_spec) = SCALE div 2"
    by (simp_all add: devnet_spec_def devnet_enabled_at_def config_disabled_def topostake_defaults
        eta_effective_def topostake_env_u64_def no_env_def unwrap_or_def topostake_fixed_point_scale_def)
  then show ?thesis
    using proposer_weight_bounded [of 32000000000 "topostake_config devnet_spec" no_env
        "Some devnet_rt" 5 64000000000 3 0]
    by (simp add: Let_def topostake_fixed_point_scale_def)
qed

end
