(* ===== verification/Swap_Shuffle.thy ===== *)
theory Swap_Shuffle
  imports Prelude
begin

text \<open>
  The swap-or-not shuffle of the consensus client (\<open>consensus/swap_or_not_shuffle\<close>):
  \<open>compute_shuffled_index\<close> moves one index through all rounds, \<open>shuffle_list\<close> permutes a whole
  list in place and reuses each digest for 256 positions and each byte of it for eight.  The
  hash function is the argument \<open>sha\<close>; the code relies on digests of 32 bytes.  The theory shows
  that every round is an involution, that the shuffle is a permutation, and that the in-place
  routine computes the permutation of the reference routine, or its inverse.
\<close>

definition digest_law :: "(bytes \<Rightarrow> bytes) \<Rightarrow> bool" where
  "digest_law sha \<longleftrightarrow> (\<forall>b. length (sha b) = 32)"

section \<open>One index\<close>

definition hash_with_round :: "(bytes \<Rightarrow> bytes) \<Rightarrow> bytes \<Rightarrow> nat \<Rightarrow> bytes" where
  "hash_with_round sha seed r = sha (seed @ [word_of_nat r])"

definition hash_with_round_and_position :: "(bytes \<Rightarrow> bytes) \<Rightarrow> bytes \<Rightarrow> nat \<Rightarrow> nat \<Rightarrow> bytes" where
  "hash_with_round_and_position sha seed r position =
    sha (seed @ [word_of_nat r] @ take 4 (to_le_bytes (position div 256)))"

definition bytes_to_int64 :: "bytes \<Rightarrow> nat" where
  "bytes_to_int64 bs = from_le_bytes (take 8 bs)"

definition do_round :: "(bytes \<Rightarrow> bytes) \<Rightarrow> bytes \<Rightarrow> nat \<Rightarrow> nat \<Rightarrow> nat \<Rightarrow> nat \<Rightarrow> nat" where
  "do_round sha seed index pivot r list_size =
    (let flip = (pivot + (list_size - index)) mod list_size;
         position = max index flip;
         source = hash_with_round_and_position sha seed r position;
         byte = source ! ((position mod 256) div 8);
         bit_v = drop_bit (position mod 8) byte mod 2
     in if bit_v = 1 then flip else index)"

definition round_pivot :: "(bytes \<Rightarrow> bytes) \<Rightarrow> bytes \<Rightarrow> nat \<Rightarrow> nat \<Rightarrow> nat" where
  "round_pivot sha seed r list_size = bytes_to_int64 (hash_with_round sha seed r) mod list_size"

definition shuffle_size_ok :: "nat \<Rightarrow> bool" where
  "shuffle_size_ok list_size \<longleftrightarrow>
    \<not> (list_size = 0 \<or> list_size > (2 ^ 64 - 1) div 2 \<or> list_size > 2 ^ 24)"

definition compute_shuffled_index ::
    "(bytes \<Rightarrow> bytes) \<Rightarrow> nat \<Rightarrow> nat \<Rightarrow> bytes \<Rightarrow> nat \<Rightarrow> nat option" where
  "compute_shuffled_index sha index list_size seed shuffle_round_count =
    (if \<not> shuffle_size_ok list_size \<or> index \<ge> list_size then None
     else Some (foldl (\<lambda>index r.
       do_round sha seed index (round_pivot sha seed r list_size) r list_size)
       index [0..<shuffle_round_count]))"

section \<open>A whole list in place\<close>

text \<open>The 37-byte buffer: 32 bytes of seed, the round, and four bytes of position.\<close>

definition buf_new :: "bytes \<Rightarrow> bytes run" where
  "buf_new seed = (if length seed = 32 then Some (seed @ replicate 5 0) else None)"

definition set_round :: "bytes \<Rightarrow> nat \<Rightarrow> bytes" where
  "set_round buf r = buf[32 := word_of_nat r]"

definition raw_pivot :: "(bytes \<Rightarrow> bytes) \<Rightarrow> bytes \<Rightarrow> nat" where
  "raw_pivot sha buf = from_le_bytes (take 8 (sha (take 33 buf)))"

definition mix_in_position :: "bytes \<Rightarrow> nat \<Rightarrow> bytes" where
  "mix_in_position buf position = take 33 buf @ take 4 (to_le_bytes position)"

definition swap :: "'a list \<Rightarrow> nat \<Rightarrow> nat \<Rightarrow> 'a list run" where
  "swap xs i j = (if i < length xs \<and> j < length xs then Some (xs[i := xs ! j, j := xs ! i]) else None)"

text \<open>
  One of the two mirrored loops: \<open>n\<close> passes with \<open>i\<close> rising and \<open>j\<close> falling.  The digest is
  renewed when \<open>j\<close> enters a new block of 256 positions and the byte when it enters a new one.
\<close>

fun swap_loop ::
    "(bytes \<Rightarrow> bytes) \<Rightarrow> bytes \<Rightarrow> bytes \<Rightarrow> byte \<Rightarrow> 'a list \<Rightarrow> nat \<Rightarrow> nat \<Rightarrow> nat \<Rightarrow> (bytes \<times> 'a list) run" where
  "swap_loop sha buf source byte_v input i j 0 = Some (buf, input)"
| "swap_loop sha buf source byte_v input i j (Suc n) =
    (let (buf, source) =
           (if j mod 256 = 255 then let buf = mix_in_position buf (j div 256) in (buf, sha buf)
            else (buf, source));
         byte_v = (if j mod 8 = 7 then source ! ((j mod 256) div 8) else byte_v);
         bit_v = drop_bit (j mod 8) byte_v mod 2
     in if bit_v = 1
        then Option.bind (swap input i j) (\<lambda>input. swap_loop sha buf source byte_v input (i + 1) (j - 1) n)
        else swap_loop sha buf source byte_v input (i + 1) (j - 1) n)"

definition swap_pass ::
    "(bytes \<Rightarrow> bytes) \<Rightarrow> bytes \<Rightarrow> 'a list \<Rightarrow> nat \<Rightarrow> nat \<Rightarrow> nat \<Rightarrow> (bytes \<times> 'a list) run" where
  "swap_pass sha buf input i j n =
    (let buf = mix_in_position buf (j div 256); source = sha buf
     in swap_loop sha buf source (source ! ((j mod 256) div 8)) input i j n)"

definition shuffle_round ::
    "(bytes \<Rightarrow> bytes) \<Rightarrow> nat \<Rightarrow> bytes \<times> 'a list \<Rightarrow> nat \<Rightarrow> (bytes \<times> 'a list) run" where
  "shuffle_round sha list_size st r =
    (let (buf, input) = st; buf = set_round buf r;
         pivot = raw_pivot sha buf mod list_size
     in do {
       (buf, input) \<leftarrow> swap_pass sha buf input 0 pivot ((pivot + 1) div 2);
       swap_pass sha buf input (pivot + 1) (list_size - 1) ((pivot + list_size + 1) div 2 - (pivot + 1))
     })"

fun shuffle_rounds ::
    "(bytes \<Rightarrow> bytes) \<Rightarrow> nat \<Rightarrow> nat list \<Rightarrow> bytes \<times> 'a list \<Rightarrow> (bytes \<times> 'a list) run" where
  "shuffle_rounds sha list_size [] st = Some st"
| "shuffle_rounds sha list_size (r # rs) st =
    Option.bind (shuffle_round sha list_size st r) (shuffle_rounds sha list_size rs)"

text \<open>The outer result is the panic of \<open>Buf::new\<close>, the inner one the returned option.\<close>

definition shuffle_list ::
    "(bytes \<Rightarrow> bytes) \<Rightarrow> 'a list \<Rightarrow> nat \<Rightarrow> bytes \<Rightarrow> bool \<Rightarrow> 'a list option run" where
  "shuffle_list sha input rounds seed forwards =
    (let list_size = length input
     in if \<not> shuffle_size_ok list_size \<or> rounds = 0 then Some None
     else do {
       buf \<leftarrow> buf_new seed;
       (buf, input) \<leftarrow> shuffle_rounds sha list_size
         (if forwards then [0..<rounds] else rev [0..<rounds]) (buf, input);
       Some (Some input)
     })"

section \<open>A round is an involution\<close>

definition flip_of :: "nat \<Rightarrow> nat \<Rightarrow> nat \<Rightarrow> nat" where
  "flip_of pivot n index = (pivot + (n - index)) mod n"

definition bit_at :: "(bytes \<Rightarrow> bytes) \<Rightarrow> bytes \<Rightarrow> nat \<Rightarrow> nat \<Rightarrow> bool" where
  "bit_at sha seed r position \<longleftrightarrow>
    drop_bit (position mod 8)
      (hash_with_round_and_position sha seed r position ! ((position mod 256) div 8)) mod 2 = 1"

lemma do_round_eq:
  "do_round sha seed index pivot r n =
    (let flip = flip_of pivot n index in if bit_at sha seed r (max index flip) then flip else index)"
  by (simp add: do_round_def bit_at_def flip_of_def Let_def)

lemma flip_cases:
  assumes "pivot < n" and "i < n"
  shows "flip_of pivot n i = (if i \<le> pivot then pivot - i else pivot + n - i)"
proof (cases "i \<le> pivot")
  case True
  then have e: "pivot + (n - i) = n + (pivot - i)" using assms by simp
  have "(n + (pivot - i)) mod n = pivot - i" using assms(1) by (subst mod_add_self1) simp
  then show ?thesis using True unfolding flip_of_def e by simp
next
  case False
  then have "(pivot + n - i) mod n = pivot + n - i" using assms by (intro mod_less) linarith
  then show ?thesis using False assms by (simp add: flip_of_def)
qed

lemma flip_less: "pivot < n \<Longrightarrow> i < n \<Longrightarrow> flip_of pivot n i < n"
  by (simp add: flip_of_def)

lemma flip_flip: "pivot < n \<Longrightarrow> i < n \<Longrightarrow> flip_of pivot n (flip_of pivot n i) = i"
  using flip_less [of pivot n i] by (auto simp: flip_cases)

lemma do_round_less: "pivot < n \<Longrightarrow> i < n \<Longrightarrow> do_round sha seed i pivot r n < n"
  by (simp add: do_round_eq Let_def flip_less)

lemma do_round_involution:
  "pivot < n \<Longrightarrow> i < n \<Longrightarrow> do_round sha seed (do_round sha seed i pivot r n) pivot r n = i"
  by (simp add: do_round_eq Let_def flip_flip max.commute)

section \<open>The shuffle is a permutation\<close>

definition round_at :: "(bytes \<Rightarrow> bytes) \<Rightarrow> bytes \<Rightarrow> nat \<Rightarrow> nat \<Rightarrow> nat \<Rightarrow> nat" where
  "round_at sha seed n index r = do_round sha seed index (round_pivot sha seed r n) r n"

lemma round_at_less: "i < n \<Longrightarrow> round_at sha seed n i r < n"
  unfolding round_at_def by (rule do_round_less) (simp_all add: round_pivot_def)

lemma round_at_involution: "i < n \<Longrightarrow> round_at sha seed n (round_at sha seed n i r) r = i"
  unfolding round_at_def by (rule do_round_involution) (simp_all add: round_pivot_def)

lemma rounds_less: "i < n \<Longrightarrow> foldl (round_at sha seed n) i rs < n"
  by (induction rs arbitrary: i) (simp_all add: round_at_less)

lemma rounds_inverse:
  "i < n \<Longrightarrow> foldl (round_at sha seed n) (foldl (round_at sha seed n) i rs) (rev rs) = i"
  by (induction rs arbitrary: i) (simp_all add: round_at_less round_at_involution)

lemma compute_shuffled_index_eq:
  "compute_shuffled_index sha i n seed rounds =
    (if shuffle_size_ok n \<and> i < n then Some (foldl (round_at sha seed n) i [0..<rounds]) else None)"
  by (simp add: compute_shuffled_index_def round_at_def [abs_def] not_le)

lemma rounds_bij: "bij_betw (\<lambda>i. foldl (round_at sha seed n) i rs) {..<n} {..<n}"
proof (rule bij_betw_byWitness [where f' = "\<lambda>i. foldl (round_at sha seed n) i (rev rs)"])
  show "\<forall>a\<in>{..<n}. foldl (round_at sha seed n) (foldl (round_at sha seed n) a rs) (rev rs) = a"
    by (simp add: rounds_inverse)
  show "\<forall>a\<in>{..<n}. foldl (round_at sha seed n) (foldl (round_at sha seed n) a (rev rs)) rs = a"
    using rounds_inverse [of _ n sha seed "rev rs"] by simp
qed (auto simp: rounds_less)

section \<open>The mirrored loops\<close>

text \<open>
  What a loop does to the list: position \<open>x\<close> within one of the two ranges is exchanged with
  its mirror image \<open>i + j - x\<close> when the bit of the larger of both positions is set.
\<close>

definition mirrored :: "(nat \<Rightarrow> bool) \<Rightarrow> nat \<Rightarrow> nat \<Rightarrow> nat \<Rightarrow> 'a list \<Rightarrow> nat \<Rightarrow> 'a" where
  "mirrored bt i j n xs x =
    (if (i \<le> x \<and> x < i + n \<or> j < x + n \<and> x \<le> j) \<and> bt (max x (i + j - x)) then xs ! (i + j - x) else xs ! x)"

text \<open>The loop without its cached digest and byte.\<close>

fun plain_loop :: "(nat \<Rightarrow> bool) \<Rightarrow> 'a list \<Rightarrow> nat \<Rightarrow> nat \<Rightarrow> nat \<Rightarrow> 'a list" where
  "plain_loop bt xs i j 0 = xs"
| "plain_loop bt xs i j (Suc n) =
    plain_loop bt (if bt j then xs[i := xs ! j, j := xs ! i] else xs) (i + 1) (j - 1) n"

lemma length_plain_loop [simp]: "length (plain_loop bt xs i j n) = length xs"
  by (induction bt xs i j n rule: plain_loop.induct) auto

lemma plain_loop_nth:
  assumes "2 * n + i \<le> j + 1" and "j < length xs" and "x < length xs"
  shows "plain_loop bt xs i j n ! x = mirrored bt i j n xs x"
  using assms
proof (induction bt xs i j n rule: plain_loop.induct)
  case (2 bt xs i j n)
  define ys where "ys = (if bt j then xs[i := xs ! j, j := xs ! i] else xs)"
  have ij: "i < j" "i + 1 + (j - 1) = i + j" using "2.prems"(1) by simp_all
  have ys: "ys ! y = (if bt j \<and> y = i then xs ! j else if bt j \<and> y = j then xs ! i else xs ! y)"
    if "y < length xs" for y
    using that "2.prems" ij by (auto simp: ys_def nth_list_update)
  have "plain_loop bt xs i j (Suc n) ! x = mirrored bt (i + 1) (j - 1) n ys x"
    using "2.IH" "2.prems" by (simp add: ys_def)
  also have "\<dots> = mirrored bt i j (Suc n) xs x"
  proof (cases "x = i \<or> x = j")
    case True
    then show ?thesis using "2.prems" ij by (auto simp: mirrored_def ys)
  next
    case False
    let ?in = "i + 1 \<le> x \<and> x < i + 1 + n \<or> j - 1 < x + n \<and> x \<le> j - 1"
    have range: "?in \<longleftrightarrow> i \<le> x \<and> x < i + Suc n \<or> j < x + Suc n \<and> x \<le> j"
      using False ij "2.prems" by auto
    have "ys ! (i + j - x) = xs ! (i + j - x)" if ?in
      using False that ij "2.prems" by (subst ys) auto
    then show ?thesis
      unfolding mirrored_def ij(2) range using False "2.prems" by (auto simp: ys range)
  qed
  finally show ?case .
qed (auto simp: mirrored_def)

text \<open>The buffer holds the seed and the round; its last four bytes vary.\<close>

definition buf_for :: "bytes \<Rightarrow> nat \<Rightarrow> bytes \<Rightarrow> bool" where
  "buf_for seed r buf \<longleftrightarrow> length seed = 32 \<and> take 33 buf = seed @ [word_of_nat r] \<and> length buf = 37"

lemma mix_buf:
  assumes "buf_for seed r buf"
  shows "buf_for seed r (mix_in_position buf (j div 256))"
    and "sha (mix_in_position buf (j div 256)) = hash_with_round_and_position sha seed r j"
  using assms by (simp_all add: buf_for_def mix_in_position_def hash_with_round_and_position_def)

definition cached ::
    "(bytes \<Rightarrow> bytes) \<Rightarrow> bytes \<Rightarrow> nat \<Rightarrow> nat \<Rightarrow> bytes \<Rightarrow> byte \<Rightarrow> bool" where
  "cached sha seed r j source byte_v \<longleftrightarrow>
    (j mod 256 \<noteq> 255 \<longrightarrow> source = hash_with_round_and_position sha seed r j) \<and>
    (j mod 8 \<noteq> 7 \<longrightarrow> byte_v = hash_with_round_and_position sha seed r j ! ((j mod 256) div 8))"

lemma same_block:
  assumes "0 < j" and "(j - 1) mod 256 \<noteq> (255 :: nat)"
  shows "(j - 1) div 256 = j div 256"
proof -
  have "(Suc (j - 1)) div 256 = (j - 1) div 256"
    using assms(2) by (simp add: div_Suc mod_Suc)
  with assms(1) show ?thesis by simp
qed

lemma same_byte:
  assumes "0 < j" and "(j - 1) mod 8 \<noteq> (7 :: nat)"
  shows "(j - 1) div 256 = j div 256" and "(j - 1) mod 256 div 8 = j mod 256 div 8"
proof -
  have "(j - 1) mod 256 mod 8 \<noteq> 7" using assms(2) by (simp add: mod_mod_cancel)
  then have ne: "(j - 1) mod 256 \<noteq> 255" by auto
  then show "(j - 1) div 256 = j div 256" by (rule same_block [OF assms(1)])
  have "Suc (j - 1) mod 256 = Suc ((j - 1) mod 256)" using ne by (simp add: mod_Suc)
  then have "j mod 256 = Suc ((j - 1) mod 256)" using assms(1) by simp
  moreover have "Suc ((j - 1) mod 256) div 8 = (j - 1) mod 256 div 8"
    using \<open>(j - 1) mod 256 mod 8 \<noteq> 7\<close> by (simp add: div_Suc mod_Suc)
  ultimately show "(j - 1) mod 256 div 8 = j mod 256 div 8" by simp
qed

lemma cached_step:
  assumes "0 < j"
  shows "cached sha seed r (j - 1) (hash_with_round_and_position sha seed r j)
    (hash_with_round_and_position sha seed r j ! ((j mod 256) div 8))"
  unfolding cached_def hash_with_round_and_position_def
  using same_block [OF assms] same_byte [OF assms] by simp

lemma swap_loop_plain:
  assumes "cached sha seed r j source byte_v" and "buf_for seed r buf"
    and "2 * n + i \<le> j + 1" and "j < length xs"
  shows "\<exists>buf'. buf_for seed r buf' \<and>
    swap_loop sha buf source byte_v xs i j n = Some (buf', plain_loop (bit_at sha seed r) xs i j n)"
  using assms
proof (induction n arbitrary: buf source byte_v xs i j)
  case (Suc n)
  let ?h = "hash_with_round_and_position sha seed r j"
  let ?b = "?h ! ((j mod 256) div 8)"
  let ?buf = "if j mod 256 = 255 then mix_in_position buf (j div 256) else buf"
  have j: "0 < j" "i < j" using Suc.prems(3) by simp_all
  have buf: "buf_for seed r ?buf" using Suc.prems(2) mix_buf by simp
  have src: "(if j mod 256 = 255 then sha ?buf else source) = ?h"
    using Suc.prems(1,2) by (simp add: cached_def mix_buf(2))
  have byte: "(if j mod 8 = 7 then ?b else byte_v) = ?b" using Suc.prems(1) by (simp add: cached_def)
  define ys where "ys = (if bit_at sha seed r j then xs[i := xs ! j, j := xs ! i] else xs)"
  have "swap_loop sha buf source byte_v xs i j (Suc n) = swap_loop sha ?buf ?h ?b ys (i + 1) (j - 1) n"
    using src byte j Suc.prems(4)
    by (auto simp: ys_def swap_def Let_def bit_at_def split: if_splits)
  moreover have "\<exists>buf'. buf_for seed r buf' \<and> swap_loop sha ?buf ?h ?b ys (i + 1) (j - 1) n
      = Some (buf', plain_loop (bit_at sha seed r) ys (i + 1) (j - 1) n)"
    using Suc.prems(3,4) by (intro Suc.IH cached_step buf j) (simp_all add: ys_def)
  ultimately show ?case by (simp add: ys_def)
qed simp

lemma swap_pass_plain:
  assumes "buf_for seed r buf" and "2 * n + i \<le> j + 1" and "j < length xs"
  shows "\<exists>buf'. buf_for seed r buf' \<and>
    swap_pass sha buf xs i j n = Some (buf', plain_loop (bit_at sha seed r) xs i j n)"
  unfolding swap_pass_def Let_def mix_buf(2) [OF assms(1)]
  using assms by (intro swap_loop_plain) (simp_all add: mix_buf(1) cached_def)

text \<open>Both loops of a round together exchange every position with its flip, when its bit is set.\<close>

lemma two_passes_nth:
  fixes xs :: "'a list" and p :: nat and bt :: "nat \<Rightarrow> bool"
  assumes p: "p < length xs" and x: "x < length xs"
  defines "n \<equiv> length xs"
  defines "ys \<equiv> plain_loop bt xs 0 p ((p + 1) div 2)"
  shows "plain_loop bt ys (p + 1) (n - 1) ((p + n + 1) div 2 - (p + 1)) ! x =
    xs ! (let f = flip_of p n x in if bt (max x f) then f else x)"
proof -
  let ?m1 = "(p + 1) div 2" and ?m2 = "(p + n + 1) div 2 - (p + 1)"
  have ly: "length ys = n" by (simp add: ys_def n_def)
  have y: "ys ! u = mirrored bt 0 p ?m1 xs u" if "u < n" for u
    unfolding ys_def by (rule plain_loop_nth) (use p that in \<open>simp_all add: n_def\<close>)
  have out: "ys ! u = xs ! u" if "p < u" "u < n" for u
  proof -
    have "\<not> u < ?m1" using that(1) by linarith
    then show ?thesis using that y by (simp add: mirrored_def)
  qed
  have "plain_loop bt ys (p + 1) (n - 1) ?m2 ! x = mirrored bt (p + 1) (n - 1) ?m2 ys x"
    by (rule plain_loop_nth) (use p x ly in \<open>simp_all add: n_def\<close>)
  also have "\<dots> = xs ! (let f = flip_of p n x in if bt (max x f) then f else x)"
  proof (cases "x \<le> p")
    case True
    then have "mirrored bt (p + 1) (n - 1) ?m2 ys x = ys ! x" by (auto simp: mirrored_def)
    moreover have "p - x = x" if "\<not> (x < ?m1 \<or> p < x + ?m1)" using that True by linarith
    ultimately show ?thesis
      using True p x y by (auto simp: n_def mirrored_def flip_cases Let_def)
  next
    case False
    let ?f = "p + n - x"
    have f: "p + 1 + (n - 1) - x = ?f" "p < ?f" "?f < n" using False p x by (simp_all add: n_def)
    then have "ys ! x = xs ! x" "ys ! ?f = xs ! ?f" using False x out by (simp_all add: n_def)
    moreover have "?f = x" if "\<not> (x < p + 1 + ?m2 \<or> n - 1 < x + ?m2)"
      using that False x unfolding n_def by linarith
    moreover have "flip_of p n x = ?f" using False p x by (simp add: n_def flip_cases)
    ultimately show ?thesis
      using False x f by (auto simp: n_def mirrored_def Let_def)
  qed
  finally show ?thesis .
qed

text \<open>A round of the in-place shuffle moves to every position the element its round index names.\<close>

lemma shuffle_round_step:
  assumes "length seed = 32" and "length buf = 37" and "take 32 buf = seed" and "xs \<noteq> []"
  shows "\<exists>buf'. length buf' = 37 \<and> take 32 buf' = seed \<and>
    shuffle_round sha (length xs) (buf, xs) r =
      Some (buf', map (\<lambda>i. xs ! round_at sha seed (length xs) i r) [0..<length xs])"
proof -
  let ?n = "length xs" and ?bt = "bit_at sha seed r"
  define buf0 where "buf0 = set_round buf r"
  have "buf = seed @ drop 32 buf" using assms(3) append_take_drop_id [of 32 buf] by simp
  then obtain a t where buf: "buf = seed @ a # t" using assms(1,2) by (cases "drop 32 buf") auto
  then have b0: "buf_for seed r buf0"
    using assms(1,2) by (simp add: buf0_def set_round_def buf_for_def list_update_append)
  define p where "p = raw_pivot sha buf0 mod ?n"
  have p: "p < ?n" using assms(4) by (simp add: p_def)
  have pivot: "p = round_pivot sha seed r ?n"
    using b0 by (simp add: p_def raw_pivot_def round_pivot_def bytes_to_int64_def hash_with_round_def buf_for_def)
  let ?m1 = "(p + 1) div 2" and ?m2 = "(p + ?n + 1) div 2 - (p + 1)"
  define ys where "ys = plain_loop ?bt xs 0 p ?m1"
  define zs where "zs = plain_loop ?bt ys (p + 1) (?n - 1) ?m2"
  obtain buf1 where b1: "buf_for seed r buf1" and s1: "swap_pass sha buf0 xs 0 p ?m1 = Some (buf1, ys)"
    using swap_pass_plain [OF b0, of ?m1 0 p xs] p unfolding ys_def by auto
  have "2 * ?m2 + (p + 1) \<le> ?n - 1 + 1" and "?n - 1 < length ys"
    using p assms(4) by (simp_all add: ys_def)
  then obtain buf2 where b2: "buf_for seed r buf2"
      and s2: "swap_pass sha buf1 ys (p + 1) (?n - 1) ?m2 = Some (buf2, zs)"
    using swap_pass_plain [OF b1] unfolding zs_def by blast
  have "zs = map (\<lambda>i. xs ! round_at sha seed ?n i r) [0..<?n]"
    using two_passes_nth [OF p, of _ ?bt]
    by (intro nth_equalityI) (simp_all add: zs_def ys_def round_at_def do_round_eq pivot [symmetric] Let_def)
  moreover have "shuffle_round sha ?n (buf, xs) r = Some (buf2, zs)"
    unfolding shuffle_round_def using s1 s2 by (simp add: Let_def buf0_def [symmetric] p_def [symmetric])
  moreover have "take 32 (take 33 buf2) = seed" using b2 by (simp add: buf_for_def del: take_take)
  ultimately show ?thesis using b2 by (auto simp: buf_for_def)
qed

lemma shuffle_rounds_eq:
  assumes "length seed = 32" and "length buf = 37" and "take 32 buf = seed" and "xs \<noteq> []"
  shows "\<exists>buf'. shuffle_rounds sha (length xs) rs (buf, xs) =
    Some (buf', map (\<lambda>i. xs ! foldl (round_at sha seed (length xs)) i (rev rs)) [0..<length xs])"
  using assms(2-4)
proof (induction rs arbitrary: buf xs)
  case Nil
  then show ?case by (simp add: map_nth)
next
  case (Cons r rs)
  let ?n = "length xs"
  define ys where "ys = map (\<lambda>i. xs ! round_at sha seed ?n i r) [0..<?n]"
  obtain buf1 where b1: "length buf1 = 37" "take 32 buf1 = seed"
    and s: "shuffle_round sha ?n (buf, xs) r = Some (buf1, ys)"
    using shuffle_round_step [OF assms(1) Cons.prems, of sha r] unfolding ys_def by blast
  have len: "length ys = ?n" and ne: "ys \<noteq> []" using Cons.prems(3) by (simp_all add: ys_def)
  obtain buf2 where "shuffle_rounds sha ?n rs (buf1, ys) =
      Some (buf2, map (\<lambda>i. ys ! foldl (round_at sha seed ?n) i (rev rs)) [0..<?n])"
    using Cons.IH [OF b1 ne] unfolding len by blast
  moreover have "map (\<lambda>i. ys ! foldl (round_at sha seed ?n) i (rev rs)) [0..<?n]
      = map (\<lambda>i. xs ! foldl (round_at sha seed ?n) i (rev (r # rs))) [0..<?n]"
    by (rule map_cong [OF refl]) (simp add: ys_def rounds_less)
  ultimately show ?case using s by simp
qed

lemma shuffle_list_eq:
  assumes "length seed = 32" and "shuffle_size_ok (length xs)" and "0 < rounds"
  shows "shuffle_list sha xs rounds seed forwards =
    Some (Some (map (\<lambda>i. xs ! foldl (round_at sha seed (length xs)) i
      (if forwards then rev [0..<rounds] else [0..<rounds])) [0..<length xs]))"
proof -
  have ne: "xs \<noteq> []" using assms(2) by (auto simp: shuffle_size_ok_def)
  let ?rs = "if forwards then [0..<rounds] else rev [0..<rounds]"
  obtain buf where "shuffle_rounds sha (length xs) ?rs (seed @ replicate 5 0, xs) =
      Some (buf, map (\<lambda>i. xs ! foldl (round_at sha seed (length xs)) i (rev ?rs)) [0..<length xs])"
    using shuffle_rounds_eq [of seed "seed @ replicate 5 0" xs sha ?rs] assms(1) ne by auto
  then show ?thesis
    using assms by (simp add: shuffle_list_def buf_new_def Let_def)
qed

section \<open>The in-place shuffle computes the permutation of the reference\<close>

text \<open>
  C22. Un-shuffling a list in place puts at every position \<open>i\<close> the element at
  \<open>compute_shuffled_index i\<close>, this index map is a permutation of the positions, and
  shuffling a list forwards is undone by un-shuffling it: the cached digests, the cached bytes
  and the two mirrored loops with their halved ranges compute exactly the reference permutation.
\<close>

theorem shuffle_list_correct:
  assumes "shuffle_size_ok (length xs)" and "0 < rounds" and "length seed = 32"
  shows "shuffle_list sha xs rounds seed False =
      Some (Some (map (\<lambda>i. xs ! the (compute_shuffled_index sha i (length xs) seed rounds)) [0..<length xs]))
    \<and> bij_betw (\<lambda>i. the (compute_shuffled_index sha i (length xs) seed rounds)) {..<length xs} {..<length xs}
    \<and> (\<exists>ys. shuffle_list sha xs rounds seed True = Some (Some ys) \<and>
         shuffle_list sha ys rounds seed False = Some (Some xs))"
proof (intro conjI)
  let ?n = "length xs"
  let ?f = "\<lambda>rs i. foldl (round_at sha seed ?n) i rs"
  have idx: "the (compute_shuffled_index sha i ?n seed rounds) = ?f [0..<rounds] i" if "i < ?n" for i
    using assms(1) that by (simp add: compute_shuffled_index_eq)
  then show "shuffle_list sha xs rounds seed False =
      Some (Some (map (\<lambda>i. xs ! the (compute_shuffled_index sha i ?n seed rounds)) [0..<?n]))"
    using assms by (simp add: shuffle_list_eq)
  show "bij_betw (\<lambda>i. the (compute_shuffled_index sha i ?n seed rounds)) {..<?n} {..<?n}"
    using rounds_bij [of sha seed ?n "[0..<rounds]"] by (subst bij_betw_cong [OF idx]) simp_all
  let ?ys = "map (\<lambda>i. xs ! ?f (rev [0..<rounds]) i) [0..<?n]"
  have "map (\<lambda>i. ?ys ! ?f [0..<rounds] i) [0..<?n] = xs"
    using rounds_inverse [of _ ?n sha seed "[0..<rounds]"]
    by (intro nth_equalityI) (simp_all add: rounds_less)
  then have "shuffle_list sha ?ys rounds seed False = Some (Some xs)"
    using shuffle_list_eq [of seed ?ys rounds sha False] assms by simp
  moreover have "shuffle_list sha xs rounds seed True = Some (Some ?ys)"
    using assms by (simp add: shuffle_list_eq)
  ultimately show "\<exists>ys. shuffle_list sha xs rounds seed True = Some (Some ys) \<and>
      shuffle_list sha ys rounds seed False = Some (Some xs)" by blast
qed

text \<open>A digest that exchanges the first two of three positions.\<close>

definition small_digest :: "bytes \<Rightarrow> bytes" where
  "small_digest b = 7 # replicate 31 0"

lemma from_le_bytes_zeros: "from_le_bytes (replicate n 0) = 0"
  by (induction n) (simp_all add: from_le_bytes_def)

lemma from_le_bytes_small: "from_le_bytes (b # replicate n 0) = unat b"
  using from_le_bytes_zeros [of n] by (simp add: from_le_bytes_def)

theorem shuffle_list_correct_witness:
  "shuffle_list small_digest [10, 20, 30 :: nat] 1 (replicate 32 9) False = Some (Some [20, 10, 30])"
proof -
  have ok: "shuffle_size_ok (length [10, 20, 30 :: nat])" and ok3: "shuffle_size_ok 3"
    by (simp_all add: shuffle_size_ok_def)
  have pivot: "round_pivot small_digest (replicate 32 9) 0 3 = 1"
    by (simp add: round_pivot_def bytes_to_int64_def hash_with_round_def small_digest_def
        take_Cons' from_le_bytes_small)
  have "map (\<lambda>i. the (compute_shuffled_index small_digest i 3 (replicate 32 9) 1)) [0..<3] = [1, 0, 2]"
    using ok3 by (simp add: compute_shuffled_index_eq round_at_def pivot do_round_def upt_rec
        hash_with_round_and_position_def small_digest_def Let_def max_def)
  then show ?thesis
    using shuffle_list_correct [OF ok, of 1 "replicate 32 9" small_digest]
    by (simp add: upt_rec eval_nat_numeral)
qed

end
