(* ===== verification/Beacon_Proposer.thy ===== *)
theory Beacon_Proposer
  imports Beacon_Weights Swap_Shuffle
begin

text \<open>
  Proposer selection of the consensus client (\<open>beacon_state.rs\<close>): the fork schedule, the random
  values drawn from a seed, the stake-only selection, the TopoStake selection by weights, and
  their callers.  The hash function and the checked arithmetic of the \<open>safe_arith\<close> crate are
  the fields of \<open>libs\<close>; the selection loops are unbounded, so a result \<open>None\<close> is a loop that
  never ends.  Gauges set along the way are not part of the state.
\<close>

section \<open>Checked arithmetic and hashing\<close>

datatype arith_error = Overflow | DivisionByZero

record libs =
  lib_hash :: "bytes \<Rightarrow> bytes"
  safe_add :: "nat \<Rightarrow> nat \<Rightarrow> arith_error + nat"
  safe_sub :: "nat \<Rightarrow> nat \<Rightarrow> arith_error + nat"
  safe_mul :: "nat \<Rightarrow> nat \<Rightarrow> arith_error + nat"
  safe_div :: "nat \<Rightarrow> nat \<Rightarrow> arith_error + nat"
  safe_rem :: "nat \<Rightarrow> nat \<Rightarrow> arith_error + nat"

text \<open>Digests of 32 bytes; sums, differences and products of \<open>u64\<close> values or an overflow error.\<close>

definition libs_ok :: "libs \<Rightarrow> bool" where
  "libs_ok L \<longleftrightarrow> digest_law (lib_hash L) \<and>
    (\<forall>a b. safe_add L a b = (if a + b < 2 ^ 64 then Inr (a + b) else Inl Overflow)) \<and>
    (\<forall>a b. safe_sub L a b = (if b \<le> a then Inr (a - b) else Inl Overflow)) \<and>
    (\<forall>a b. safe_mul L a b = (if a * b < 2 ^ 64 then Inr (a * b) else Inl Overflow)) \<and>
    (\<forall>a b. safe_div L a b = (if b = 0 then Inl DivisionByZero else Inr (a div b))) \<and>
    (\<forall>a b. safe_rem L a b = (if b = 0 then Inl DivisionByZero else Inr (a mod b)))"

section \<open>Forks\<close>

datatype fork_name = Base | Altair | Bellatrix | Capella | Deneb | Electra | Fulu | Gloas

fun fork_rank :: "fork_name \<Rightarrow> nat" where
  "fork_rank Base = 0" | "fork_rank Altair = 1" | "fork_rank Bellatrix = 2" | "fork_rank Capella = 3"
| "fork_rank Deneb = 4" | "fork_rank Electra = 5" | "fork_rank Fulu = 6" | "fork_rank Gloas = 7"

lemma fork_rank_inj: "fork_rank a = fork_rank b \<Longrightarrow> a = b"
  by (cases a; cases b) simp_all

instantiation fork_name :: linorder
begin

definition less_eq_fork_name :: "fork_name \<Rightarrow> fork_name \<Rightarrow> bool" where
  "less_eq_fork_name a b \<longleftrightarrow> fork_rank a \<le> fork_rank b"

definition less_fork_name :: "fork_name \<Rightarrow> fork_name \<Rightarrow> bool" where
  "less_fork_name a b \<longleftrightarrow> fork_rank a < fork_rank b"

instance
  by standard (auto simp: less_eq_fork_name_def less_fork_name_def dest: fork_rank_inj)

end

definition electra_enabled :: "fork_name \<Rightarrow> bool" where
  "electra_enabled f \<longleftrightarrow> Electra \<le> f"

definition fulu_enabled :: "fork_name \<Rightarrow> bool" where
  "fulu_enabled f \<longleftrightarrow> Fulu \<le> f"

definition gloas_enabled :: "fork_name \<Rightarrow> bool" where
  "gloas_enabled f \<longleftrightarrow> Gloas \<le> f"

definition fork_name_at_epoch :: "chain_spec \<Rightarrow> epoch \<Rightarrow> fork_name" where
  "fork_name_at_epoch spec epoch =
    (case find (\<lambda>(fork_epoch, _). case fork_epoch of Some e \<Rightarrow> e \<le> epoch | None \<Rightarrow> False)
        [(gloas_fork_epoch spec, Gloas), (fulu_fork_epoch spec, Fulu),
         (electra_fork_epoch spec, Electra), (deneb_fork_epoch spec, Deneb),
         (capella_fork_epoch spec, Capella), (bellatrix_fork_epoch spec, Bellatrix),
         (altair_fork_epoch spec, Altair)] of
       Some (_, f) \<Rightarrow> f
     | None \<Rightarrow> Base)"

definition max_effective_balance_for_fork :: "chain_spec \<Rightarrow> fork_name \<Rightarrow> nat" where
  "max_effective_balance_for_fork spec f =
    (if electra_enabled f then max_effective_balance_electra spec else max_effective_balance spec)"

section \<open>The beacon state\<close>

text \<open>The constants of the \<open>EthSpec\<close> type parameter; both are positive by construction.\<close>

record eth_spec =
  slots_per_epoch :: nat
  epochs_per_historical_vector :: nat

record registry_validator =
  effective_balance :: nat
  activation_epoch :: epoch
  exit_epoch :: epoch

record beacon_state =
  bs_slot :: nat
  bs_fork :: fork_name
  bs_validators :: "registry_validator list"
  bs_randao_mixes :: "bytes list"
  bs_proposer_lookahead :: "nat list option"

datatype state_error =
    InsufficientValidators | UnableToShuffle | ShuffleIndexOutOfBounds nat | UnknownValidator nat
  | InvalidIndicesCount | SlotOutOfBounds | EpochOutOfBounds | RandaoMixesOutOfBounds nat
  | ProposerLookaheadOutOfBounds nat
  | ComputeProposerIndicesPastEpoch epoch epoch
  | ComputeProposerIndicesInsufficientLookahead epoch epoch
  | ComputeProposerIndicesExcessiveLookahead epoch epoch
  | ArithError arith_error

text \<open>The question mark operator, and the conversion of arithmetic errors it performs.\<close>

definition and_then :: "'e + 'a \<Rightarrow> ('a \<Rightarrow> 'e + 'b) \<Rightarrow> 'e + 'b" where
  "and_then r f = (case r of Inl e \<Rightarrow> Inl e | Inr x \<Rightarrow> f x)"

definition arith :: "arith_error + 'a \<Rightarrow> state_error + 'a" where
  "arith r = (case r of Inl e \<Rightarrow> Inl (ArithError e) | Inr x \<Rightarrow> Inr x)"

lemma and_then_simps [simp]: "and_then (Inl e) f = Inl e" "and_then (Inr x) f = f x"
  by (simp_all add: and_then_def)

lemma arith_simps [simp]: "arith (Inl e) = Inl (ArithError e)" "arith (Inr x) = Inr x"
  by (simp_all add: arith_def)

definition slot_epoch :: "eth_spec \<Rightarrow> nat \<Rightarrow> epoch" where
  "slot_epoch E slot = slot div slots_per_epoch E"

definition start_slot :: "eth_spec \<Rightarrow> epoch \<Rightarrow> nat" where
  "start_slot E epoch = sat64 (epoch * slots_per_epoch E)"

definition current_epoch :: "eth_spec \<Rightarrow> beacon_state \<Rightarrow> epoch" where
  "current_epoch E st = slot_epoch E (bs_slot st)"

definition get_effective_balance :: "beacon_state \<Rightarrow> nat \<Rightarrow> state_error + nat" where
  "get_effective_balance st v =
    (if v < length (bs_validators st) then Inr (effective_balance (bs_validators st ! v))
     else Inl (UnknownValidator v))"

definition is_active_at :: "registry_validator \<Rightarrow> epoch \<Rightarrow> bool" where
  "is_active_at v epoch \<longleftrightarrow> activation_epoch v \<le> epoch \<and> epoch < exit_epoch v"

definition active_indices :: "registry_validator list \<Rightarrow> epoch \<Rightarrow> nat list" where
  "active_indices vs epoch = map fst (filter (\<lambda>(_, v). is_active_at v epoch) (enumerate 0 vs))"

definition compute_activation_exit_epoch :: "libs \<Rightarrow> chain_spec \<Rightarrow> epoch \<Rightarrow> state_error + epoch" where
  "compute_activation_exit_epoch L spec epoch =
    and_then (arith (safe_add L epoch 1)) (\<lambda>e. arith (safe_add L e (max_seed_lookahead spec)))"

definition get_active_validator_indices ::
    "libs \<Rightarrow> eth_spec \<Rightarrow> beacon_state \<Rightarrow> epoch \<Rightarrow> chain_spec \<Rightarrow> state_error + nat list" where
  "get_active_validator_indices L E st epoch spec =
    and_then (compute_activation_exit_epoch L spec (current_epoch E st)) (\<lambda>bound.
      if bound \<le> epoch then Inl EpochOutOfBounds else Inr (active_indices (bs_validators st) epoch))"

section \<open>Random values\<close>

definition MAX_RANDOM_BYTE :: nat where
  "MAX_RANDOM_BYTE = 2 ^ 8 - 1"

definition MAX_RANDOM_VALUE :: nat where
  "MAX_RANDOM_VALUE = 2 ^ 16 - 1"

definition max_random_value :: "beacon_state \<Rightarrow> nat" where
  "max_random_value st = (if electra_enabled (bs_fork st) then MAX_RANDOM_VALUE else MAX_RANDOM_BYTE)"

definition shuffling_random_byte :: "libs \<Rightarrow> nat \<Rightarrow> bytes \<Rightarrow> state_error + nat" where
  "shuffling_random_byte L i seed =
    and_then (arith (safe_div L i 32)) (\<lambda>q.
    and_then (arith (safe_rem L i 32)) (\<lambda>index.
      let digest = lib_hash L (seed @ to_le_bytes q)
      in if index < length digest then Inr (unat (digest ! index)) else Inl (ShuffleIndexOutOfBounds index)))"

definition shuffling_random_u16_electra :: "libs \<Rightarrow> nat \<Rightarrow> bytes \<Rightarrow> state_error + nat" where
  "shuffling_random_u16_electra L i seed =
    and_then (arith (safe_div L i 16)) (\<lambda>q.
    and_then (arith (safe_rem L i 16)) (\<lambda>k.
    and_then (arith (safe_mul L k 2)) (\<lambda>offset.
    and_then (arith (safe_add L offset 2)) (\<lambda>stop.
      let digest = lib_hash L (seed @ to_le_bytes q)
      in if stop \<le> length digest then Inr (from_le_bytes (take 2 (drop offset digest)))
         else Inl (ShuffleIndexOutOfBounds offset)))))"

definition shuffling_random_value :: "libs \<Rightarrow> beacon_state \<Rightarrow> nat \<Rightarrow> bytes \<Rightarrow> state_error + nat" where
  "shuffling_random_value L st i seed =
    (if electra_enabled (bs_fork st) then shuffling_random_u16_electra L i seed
     else shuffling_random_byte L i seed)"

section \<open>Selection loops\<close>

text \<open>
  The loops try the candidates for \<open>i\<close> = 0, 1, 2 and so on until one is accepted or an error
  occurs; each pass yields an error, an accepted value, or nothing.
\<close>

partial_function (option) retry_loop ::
    "libs \<Rightarrow> (nat \<Rightarrow> 's \<Rightarrow> (state_error + 'a option) \<times> 's) \<Rightarrow> 's \<Rightarrow> nat \<Rightarrow> ((state_error + 'a) \<times> 's) option" where
  [code]: "retry_loop L body s i =
    (case body i s of
       (Inl e, s) \<Rightarrow> Some (Inl e, s)
     | (Inr (Some v), s) \<Rightarrow> Some (Inr v, s)
     | (Inr None, s) \<Rightarrow>
         (case safe_add L i 1 of
            Inl e \<Rightarrow> Some (Inl (ArithError e), s)
          | Inr i \<Rightarrow> retry_loop L body s i))"

text \<open>The candidate of pass \<open>i\<close>.\<close>

definition candidate_at :: "libs \<Rightarrow> chain_spec \<Rightarrow> nat list \<Rightarrow> bytes \<Rightarrow> nat \<Rightarrow> state_error + nat" where
  "candidate_at L spec indices seed i =
    and_then (arith (safe_rem L i (length indices))) (\<lambda>k.
      case compute_shuffled_index (lib_hash L) k (length indices) seed (shuffle_round_count spec) of
        None \<Rightarrow> Inl UnableToShuffle
      | Some shuffled_index \<Rightarrow>
          if shuffled_index < length indices then Inr (indices ! shuffled_index)
          else Inl (ShuffleIndexOutOfBounds shuffled_index))"

definition stake_pass ::
    "libs \<Rightarrow> beacon_state \<Rightarrow> nat list \<Rightarrow> bytes \<Rightarrow> chain_spec \<Rightarrow> nat \<Rightarrow> state_error + nat option" where
  "stake_pass L st indices seed spec i =
    and_then (candidate_at L spec indices seed i) (\<lambda>candidate_index.
    and_then (shuffling_random_value L st i seed) (\<lambda>random_value.
    and_then (get_effective_balance st candidate_index) (\<lambda>balance.
    and_then (arith (safe_mul L balance (max_random_value st))) (\<lambda>left.
    and_then (arith (safe_mul L (max_effective_balance_for_fork spec (bs_fork st)) random_value)) (\<lambda>right.
      Inr (if right \<le> left then Some candidate_index else None))))))"

definition compute_proposer_index ::
    "libs \<Rightarrow> beacon_state \<Rightarrow> nat list \<Rightarrow> bytes \<Rightarrow> chain_spec \<Rightarrow> (state_error + nat) option" where
  "compute_proposer_index L st indices seed spec =
    (if indices = [] then Some (Inl InsufficientValidators)
     else map_option fst (retry_loop L (\<lambda>i s. (stake_pass L st indices seed spec i, s)) () 0))"

section \<open>TopoStake selection\<close>

fun total_active_balance :: "libs \<Rightarrow> beacon_state \<Rightarrow> nat list \<Rightarrow> nat \<Rightarrow> state_error + nat" where
  "total_active_balance L st [] acc = Inr acc"
| "total_active_balance L st (v # vs) acc =
    and_then (get_effective_balance st v) (\<lambda>b.
    and_then (arith (safe_add L acc b)) (\<lambda>acc. total_active_balance L st vs acc))"

text \<open>The pass that reports scores and weights: its queries and its early return.\<close>

fun report_weights ::
    "env \<Rightarrow> beacon_state \<Rightarrow> topo_config \<Rightarrow> runtime_lock \<Rightarrow> epoch \<Rightarrow> nat list \<Rightarrow> nat \<Rightarrow> nat \<Rightarrow>
     (state_error + unit) \<times> runtime_lock" where
  "report_weights env st c l epoch [] tab t = (Inr (), l)"
| "report_weights env st c l epoch (v # vs) tab t =
    (case get_effective_balance st v of
       Inl e \<Rightarrow> (Inl e, l)
     | Inr b \<Rightarrow>
         (let (score, l) = score_for_validator_at_epoch env c l epoch v;
              (weight, l) = proposer_weight_scaled_at_epoch_with_score_total env c l epoch b tab v t
          in report_weights env st c l epoch vs tab t))"

fun collect_weights ::
    "env \<Rightarrow> beacon_state \<Rightarrow> topo_config \<Rightarrow> runtime_lock \<Rightarrow> epoch \<Rightarrow> nat list \<Rightarrow> nat \<Rightarrow> nat \<Rightarrow>
     (state_error + nat list) \<times> runtime_lock" where
  "collect_weights env st c l epoch [] tab t = (Inr [], l)"
| "collect_weights env st c l epoch (v # vs) tab t =
    (case get_effective_balance st v of
       Inl e \<Rightarrow> (Inl e, l)
     | Inr b \<Rightarrow>
         (let (weight, l) = proposer_weight_scaled_at_epoch_with_score_total env c l epoch b tab v t;
              (rest, l) = collect_weights env st c l epoch vs tab t
          in (and_then rest (\<lambda>ws. Inr (weight # ws)), l)))"

definition max_of :: "nat list \<Rightarrow> nat option" where
  "max_of ws = (case ws of [] \<Rightarrow> None | w # ws \<Rightarrow> Some (fold max ws w))"

definition topostake_pass ::
    "libs \<Rightarrow> env \<Rightarrow> beacon_state \<Rightarrow> epoch \<Rightarrow> nat list \<Rightarrow> bytes \<Rightarrow> chain_spec \<Rightarrow> nat \<Rightarrow> nat \<Rightarrow> nat \<Rightarrow>
     nat \<Rightarrow> runtime_lock \<Rightarrow> (state_error + nat option) \<times> runtime_lock" where
  "topostake_pass L env st epoch indices seed spec tab t max_proposer_weight i l =
    (case and_then (candidate_at L spec indices seed i) (\<lambda>candidate_index.
          and_then (shuffling_random_value L st i seed) (\<lambda>random_value.
          and_then (get_effective_balance st candidate_index) (\<lambda>balance.
            Inr (candidate_index, random_value, balance)))) of
       Inl e \<Rightarrow> (Inl e, l)
     | Inr (candidate_index, random_value, balance) \<Rightarrow>
         (let (candidate_weight, l) = proposer_weight_scaled_at_epoch_with_score_total env
                (topostake_config spec) l epoch balance tab candidate_index t
          in (Inr (if sat128 (max_proposer_weight * random_value) \<le> sat128 (candidate_weight * max_random_value st)
                   then Some candidate_index else None), l)))"

definition compute_topostake_proposer_index ::
    "libs \<Rightarrow> env \<Rightarrow> beacon_state \<Rightarrow> runtime_lock \<Rightarrow> epoch \<Rightarrow> nat list \<Rightarrow> bytes \<Rightarrow> chain_spec \<Rightarrow>
     ((state_error + nat) \<times> runtime_lock) option" where
  "compute_topostake_proposer_index L env st l epoch indices seed spec =
    (if indices = [] then Some (Inl InsufficientValidators, l)
     else case total_active_balance L st indices 0 of
       Inl e \<Rightarrow> Some (Inl e, l)
     | Inr tab \<Rightarrow>
        (let (t, l) = score_total_for_validators_at_epoch env (topostake_config spec) l epoch indices 0
         in case report_weights env st (topostake_config spec) l epoch indices tab t of
           (Inl e, l) \<Rightarrow> Some (Inl e, l)
         | (Inr _, l) \<Rightarrow>
            (case collect_weights env st (topostake_config spec) l epoch indices tab t of
               (Inl e, l) \<Rightarrow> Some (Inl e, l)
             | (Inr ws, l) \<Rightarrow>
                (case max_of ws of
                   None \<Rightarrow> Some (Inl InsufficientValidators, l)
                 | Some max_proposer_weight \<Rightarrow>
                     retry_loop L (topostake_pass L env st epoch indices seed spec tab t max_proposer_weight) l 0))))"

definition compute_beacon_proposer_index_for_epoch ::
    "libs \<Rightarrow> env \<Rightarrow> beacon_state \<Rightarrow> runtime_lock \<Rightarrow> epoch \<Rightarrow> nat list \<Rightarrow> bytes \<Rightarrow> chain_spec \<Rightarrow>
     ((state_error + nat) \<times> runtime_lock) option" where
  "compute_beacon_proposer_index_for_epoch L env st l epoch indices seed spec =
    (if is_topostake_enabled_at_epoch env spec epoch \<and> \<not> gloas_enabled (fork_name_at_epoch spec epoch)
     then compute_topostake_proposer_index L env st l epoch indices seed spec
     else map_option (\<lambda>r. (r, l)) (compute_proposer_index L st indices seed spec))"

section \<open>Shared facts\<close>

lemma libs_laws:
  assumes "libs_ok L"
  shows "length (lib_hash L b) = 32"
    and "safe_add L x y = (if x + y < 2 ^ 64 then Inr (x + y) else Inl Overflow)"
    and "safe_sub L x y = (if y \<le> x then Inr (x - y) else Inl Overflow)"
    and "safe_mul L x y = (if x * y < 2 ^ 64 then Inr (x * y) else Inl Overflow)"
    and "safe_div L x y = (if y = 0 then Inl DivisionByZero else Inr (x div y))"
    and "safe_rem L x y = (if y = 0 then Inl DivisionByZero else Inr (x mod y))"
  using assms unfolding libs_ok_def digest_law_def by blast+

text \<open>Drawing a random value never fails and stays below the maximum of the fork.\<close>

lemma random_value_ok:
  assumes "libs_ok L"
  obtains r where "shuffling_random_value L st i seed = Inr r" and "r \<le> max_random_value st"
proof (cases "electra_enabled (bs_fork st)")
  case True
  have k: "i mod 16 * 2 + 2 \<le> 32" using mod_less_divisor [of 16 i] by linarith
  let ?bs = "take 2 (drop (i mod 16 * 2) (lib_hash L (seed @ to_le_bytes (i div 16))))"
  have "from_le_bytes ?bs < 256 ^ length ?bs" by (rule from_le_bytes_less)
  moreover have "length ?bs = 2" using k by (simp add: libs_laws [OF assms])
  ultimately have r: "from_le_bytes ?bs \<le> max_random_value st"
    using True by (simp add: max_random_value_def MAX_RANDOM_VALUE_def)
  have "shuffling_random_value L st i seed = Inr (from_le_bytes ?bs)"
    using True k by (simp add: shuffling_random_value_def shuffling_random_u16_electra_def libs_laws [OF assms])
  from that [OF this r] show ?thesis .
next
  case False
  let ?b = "lib_hash L (seed @ to_le_bytes (i div 32)) ! (i mod 32)"
  have "unat ?b < 2 ^ LENGTH(8)" by (rule unsigned_less)
  then have r: "unat ?b \<le> max_random_value st"
    using False by (simp add: max_random_value_def MAX_RANDOM_BYTE_def)
  have "shuffling_random_value L st i seed = Inr (unat ?b)"
    using False by (simp add: shuffling_random_value_def shuffling_random_byte_def libs_laws [OF assms])
  from that [OF this r] show ?thesis .
qed

text \<open>The index of the candidate of pass \<open>i\<close>.\<close>

definition candidate :: "libs \<Rightarrow> chain_spec \<Rightarrow> nat list \<Rightarrow> bytes \<Rightarrow> nat \<Rightarrow> nat" where
  "candidate L spec indices seed i = indices ! the (compute_shuffled_index (lib_hash L)
     (i mod length indices) (length indices) seed (shuffle_round_count spec))"

lemma candidate_at_eq:
  assumes "libs_ok L" and "shuffle_size_ok (length indices)"
  shows "candidate_at L spec indices seed i = Inr (candidate L spec indices seed i)"
    and "candidate L spec indices seed i \<in> set indices"
proof -
  let ?n = "length indices"
  have n: "0 < ?n" using assms(2) by (simp add: shuffle_size_ok_def)
  then have i: "i mod ?n < ?n" by simp
  then have s: "compute_shuffled_index (lib_hash L) (i mod ?n) ?n seed (shuffle_round_count spec) =
      Some (foldl (round_at (lib_hash L) seed ?n) (i mod ?n) [0..<shuffle_round_count spec])"
    using assms(2) by (simp add: compute_shuffled_index_eq)
  then show "candidate_at L spec indices seed i = Inr (candidate L spec indices seed i)"
    using n rounds_less [OF i] by (simp add: candidate_at_def candidate_def libs_laws [OF assms(1)])
  show "candidate L spec indices seed i \<in> set indices"
    using s rounds_less [OF i] by (simp add: candidate_def)
qed

text \<open>Within one round of passes every index is a candidate.\<close>

lemma every_candidate:
  assumes "shuffle_size_ok (length indices)" and "v \<in> set indices"
  obtains k where "k < length indices" and "candidate L spec indices seed k = v"
proof -
  let ?n = "length indices"
  define f where "f i = foldl (round_at (lib_hash L) seed ?n) i [0..<shuffle_round_count spec]" for i
  obtain x where x: "x < ?n" "indices ! x = v" using assms(2) by (auto simp: in_set_conv_nth)
  have "f ` {..<?n} = {..<?n}" unfolding f_def by (rule bij_betw_imp_surj_on [OF rounds_bij])
  with x(1) have "x \<in> f ` {..<?n}" by simp
  then obtain k where k: "k < ?n" "f k = x" by auto
  then have "candidate L spec indices seed k = v"
    using assms(1) x by (simp add: candidate_def compute_shuffled_index_eq f_def [symmetric])
  with k(1) show ?thesis by (rule that)
qed

text \<open>The loop stops at the first pass that accepts.\<close>

lemma retry_first:
  assumes "libs_ok L" and "body k s = (Inr (Some v), s)" and "k < 2 ^ 64"
    and "\<And>j. a \<le> j \<Longrightarrow> j < k \<Longrightarrow> body j s = (Inr None, s)" and "a \<le> k"
  shows "retry_loop L body s a = Some (Inr v, s)"
  using assms(5,4)
proof (induction rule: inc_induct)
  case base
  then show ?case using assms(2) by (simp add: retry_loop.simps)
next
  case (step j)
  then have "body j s = (Inr None, s)" and "retry_loop L body s (Suc j) = Some (Inr v, s)" by auto
  moreover have "j + 1 < 2 ^ 64" using step(2) assms(3) by simp
  ultimately show ?case by (subst retry_loop.simps) (simp add: libs_laws [OF assms(1)])
qed

section \<open>What TopoStake selection computes\<close>

definition balance_of :: "beacon_state \<Rightarrow> nat \<Rightarrow> nat" where
  "balance_of st v = effective_balance (bs_validators st ! v)"

text \<open>The weights of an epoch, from the scores the epoch is fixed to.\<close>

definition selection_weight ::
    "env \<Rightarrow> beacon_state \<Rightarrow> runtime_lock \<Rightarrow> epoch \<Rightarrow> nat list \<Rightarrow> chain_spec \<Rightarrow> nat \<Rightarrow> nat" where
  "selection_weight env st l epoch indices spec v =
    weight_now env (topostake_config spec) l epoch (balance_of st v) (sum_list (map (balance_of st) indices)) v
      (sat64 (sum_list (map (score_now env (topostake_config spec) l epoch) indices)))"

definition topostake_accepts ::
    "libs \<Rightarrow> env \<Rightarrow> beacon_state \<Rightarrow> runtime_lock \<Rightarrow> epoch \<Rightarrow> nat list \<Rightarrow> bytes \<Rightarrow> chain_spec \<Rightarrow> nat \<Rightarrow> bool" where
  "topostake_accepts L env st l epoch indices seed spec i \<longleftrightarrow>
    (let w = selection_weight env st l epoch indices spec
     in case shuffling_random_value L st i seed of
          Inl _ \<Rightarrow> False
        | Inr r \<Rightarrow> sat128 (Max (w ` set indices) * r)
            \<le> sat128 (w (candidate L spec indices seed i) * max_random_value st))"

lemma total_active_balance_eq:
  assumes "libs_ok L" and "set vs \<subseteq> {..<length (bs_validators st)}"
    and "acc + sum_list (map (balance_of st) vs) < 2 ^ 64"
  shows "total_active_balance L st vs acc = Inr (acc + sum_list (map (balance_of st) vs))"
  using assms(2,3)
proof (induction vs arbitrary: acc)
  case (Cons v vs)
  have "acc + balance_of st v < 2 ^ 64" using Cons.prems(2) by simp
  with Cons show ?case
    by (simp add: get_effective_balance_def libs_laws [OF assms(1)] balance_of_def [symmetric] add.assoc)
qed simp

lemma report_weights_eq:
  assumes "set vs \<subseteq> {..<length (bs_validators st)}"
  shows "report_weights env st c (pinned env c l epoch) epoch vs tab t = (Inr (), pinned env c l epoch)"
  using assms by (induction vs) (simp_all add: get_effective_balance_def score_query weight_query)

lemma collect_weights_eq:
  assumes "set vs \<subseteq> {..<length (bs_validators st)}"
  shows "collect_weights env st c (pinned env c l epoch) epoch vs tab t =
    (Inr (map (\<lambda>v. weight_now env c l epoch (balance_of st v) tab v t) vs), pinned env c l epoch)"
  using assms by (induction vs) (simp_all add: get_effective_balance_def weight_query balance_of_def)

lemma max_of_eq: "ws \<noteq> [] \<Longrightarrow> max_of ws = Some (Max (set ws))"
proof (cases ws)
  case (Cons w us)
  then show ?thesis unfolding Cons max_of_def Max.set_eq_fold by simp
qed simp

lemma topostake_pass_eq:
  fixes spec :: chain_spec and env :: env and epoch :: epoch and l :: runtime_lock
  assumes "libs_ok L" and "shuffle_size_ok (length indices)"
    and "set indices \<subseteq> {..<length (bs_validators st)}"
  defines "c \<equiv> topostake_config spec"
  defines "tab \<equiv> sum_list (map (balance_of st) indices)"
  defines "t \<equiv> sat64 (sum_list (map (score_now env c l epoch) indices))"
  shows "topostake_pass L env st epoch indices seed spec tab t
      (Max (selection_weight env st l epoch indices spec ` set indices)) i (pinned env c l epoch)
    = (Inr (if topostake_accepts L env st l epoch indices seed spec i
        then Some (candidate L spec indices seed i) else None), pinned env c l epoch)"
proof -
  obtain r where r: "shuffling_random_value L st i seed = Inr r" using random_value_ok [OF assms(1)] .
  note cand = candidate_at_eq [OF assms(1,2), of spec seed i]
  have "candidate L spec indices seed i < length (bs_validators st)" using cand(2) assms(3) by auto
  then show ?thesis
    unfolding topostake_pass_def topostake_accepts_def cand(1) r
    by (simp add: get_effective_balance_def weight_query selection_weight_def Let_def
        c_def tab_def t_def balance_of_def [symmetric])
qed

text \<open>A candidate of the largest weight is accepted whatever value is drawn.\<close>

lemma heaviest_accepted:
  assumes "libs_ok L" and "shuffle_size_ok (length indices)"
  shows "\<exists>k < length indices. topostake_accepts L env st l epoch indices seed spec k"
proof -
  let ?w = "selection_weight env st l epoch indices spec"
  have "set indices \<noteq> {}" using assms(2) by (auto simp: shuffle_size_ok_def)
  then have "Max (?w ` set indices) \<in> ?w ` set indices" by (intro Max_in) auto
  then obtain v where v: "v \<in> set indices" "Max (?w ` set indices) = ?w v" by auto
  obtain k where k: "k < length indices" "candidate L spec indices seed k = v"
    using every_candidate [OF assms(2) v(1)] .
  obtain r where "shuffling_random_value L st k seed = Inr r" "r \<le> max_random_value st"
    using random_value_ok [OF assms(1)] .
  then have "topostake_accepts L env st l epoch indices seed spec k"
    using k(2) v(2) by (simp add: topostake_accepts_def Let_def sat128_mono)
  with k(1) show ?thesis by blast
qed

lemma topostake_selection_loop:
  assumes "libs_ok L" and "shuffle_size_ok (length indices)"
    and "set indices \<subseteq> {..<length (bs_validators st)}"
    and "sum_list (map (balance_of st) indices) < 2 ^ 64"
  shows "\<exists>k < length indices.
    compute_topostake_proposer_index L env st l epoch indices seed spec =
      Some (Inr (candidate L spec indices seed k), pinned env (topostake_config spec) l epoch)
    \<and> candidate L spec indices seed k \<in> set indices
    \<and> topostake_accepts L env st l epoch indices seed spec k
    \<and> (\<forall>j < k. \<not> topostake_accepts L env st l epoch indices seed spec j)"
proof -
  let ?acc = "topostake_accepts L env st l epoch indices seed spec"
  let ?c = "topostake_config spec" and ?w = "selection_weight env st l epoch indices spec"
  have ne: "indices \<noteq> []" and small: "length indices < 2 ^ 64"
    using assms(2) by (auto simp: shuffle_size_ok_def)
  obtain k0 where k0: "k0 < length indices" "?acc k0" using heaviest_accepted [OF assms(1,2)] by blast
  define k where "k = (LEAST i. ?acc i)"
  have acc: "?acc k" and least: "\<And>j. j < k \<Longrightarrow> \<not> ?acc j" and "k \<le> k0"
    unfolding k_def using k0(2) by (auto intro: LeastI Least_le dest: not_less_Least)
  then have k: "k < length indices" using k0(1) by simp
  let ?tab = "sum_list (map (balance_of st) indices)"
  let ?t = "sat64 (sum_list (map (score_now env ?c l epoch) indices))"
  note pass = topostake_pass_eq [OF assms(1-3), where env = env and l = l and epoch = epoch
      and spec = spec and seed = seed]
  have loop: "retry_loop L (topostake_pass L env st epoch indices seed spec ?tab ?t (Max (?w ` set indices)))
      (pinned env ?c l epoch) 0 = Some (Inr (candidate L spec indices seed k), pinned env ?c l epoch)"
    by (rule retry_first [OF assms(1), where k = k]) (use acc least k small in \<open>simp_all add: pass\<close>)
  have total: "total_active_balance L st indices 0 = Inr ?tab"
    using total_active_balance_eq [OF assms(1,3), of 0] assms(4) by simp
  have score: "score_total_for_validators_at_epoch env ?c l epoch indices 0 = (?t, pinned env ?c l epoch)"
    using total_query [OF ne, of env ?c l epoch 0] by (simp add: sat64_def)
  have weights: "collect_weights env st ?c (pinned env ?c l epoch) epoch indices ?tab ?t =
      (Inr (map ?w indices), pinned env ?c l epoch)"
    by (simp add: collect_weights_eq [OF assms(3)] selection_weight_def)
  have "max_of (map ?w indices) = Some (Max (?w ` set indices))" using ne by (simp add: max_of_eq)
  then have "compute_topostake_proposer_index L env st l epoch indices seed spec =
      Some (Inr (candidate L spec indices seed k), pinned env ?c l epoch)"
    unfolding compute_topostake_proposer_index_def using ne total score weights loop
    by (simp add: report_weights_eq [OF assms(3)])
  with k acc least candidate_at_eq(2) [OF assms(1,2)] show ?thesis by blast
qed

text \<open>
  C20. TopoStake proposer selection always ends with a proposer: for known validators whose
  total balance fits 64 bits, and at most \<open>2 ^ 24\<close> of them, the loop returns after at most as many
  passes as there are validators, without an error, and its result is the candidate of the
  first pass whose drawn value is covered by the candidate's share of the largest weight.
  The weights are those of the scores the epoch is fixed to, and the query leaves the runtime
  with exactly these scores fixed.
\<close>

theorem topostake_selection_returns:
  assumes "libs_ok L" and "shuffle_size_ok (length indices)"
    and "set indices \<subseteq> {..<length (bs_validators st)}"
    and "sum_list (map (balance_of st) indices) < 2 ^ 64"
  shows "\<exists>k < length indices.
    compute_topostake_proposer_index L env st l epoch indices seed spec =
      Some (Inr (candidate L spec indices seed k), pinned env (topostake_config spec) l epoch)
    \<and> candidate L spec indices seed k \<in> set indices
    \<and> topostake_accepts L env st l epoch indices seed spec k
    \<and> (\<forall>j < k. \<not> topostake_accepts L env st l epoch indices seed spec j)"
  by (rule topostake_selection_loop [OF assms])

text \<open>Libraries with a digest of zeros, and a state with three validators.\<close>

definition checked_libs :: libs where
  "checked_libs = \<lparr>lib_hash = \<lambda>b. replicate 32 0,
     safe_add = \<lambda>a b. if a + b < 2 ^ 64 then Inr (a + b) else Inl Overflow,
     safe_sub = \<lambda>a b. if b \<le> a then Inr (a - b) else Inl Overflow,
     safe_mul = \<lambda>a b. if a * b < 2 ^ 64 then Inr (a * b) else Inl Overflow,
     safe_div = \<lambda>a b. if b = 0 then Inl DivisionByZero else Inr (a div b),
     safe_rem = \<lambda>a b. if b = 0 then Inl DivisionByZero else Inr (a mod b)\<rparr>"

definition devnet_state :: beacon_state where
  "devnet_state = \<lparr>bs_slot = 160, bs_fork = Electra,
     bs_validators = replicate 3 \<lparr>effective_balance = 32000000000, activation_epoch = 0,
       exit_epoch = 2 ^ 64 - 1\<rparr>,
     bs_randao_mixes = replicate 64 (replicate 32 0), bs_proposer_lookahead = None\<rparr>"

lemma checked_libs_ok: "libs_ok checked_libs"
  by (simp add: libs_ok_def checked_libs_def digest_law_def)

lemma zero_digest_round: "i < n \<Longrightarrow> round_at (lib_hash checked_libs) seed n i r = i"
  by (simp add: round_at_def do_round_def hash_with_round_and_position_def checked_libs_def Let_def)

lemma zero_digest_rounds: "i < n \<Longrightarrow> foldl (round_at (lib_hash checked_libs) seed n) i rs = i"
  by (induction rs) (simp_all add: zero_digest_round)

lemma devnet_first_candidate: "candidate checked_libs spec [2, 0] seed 0 = 2"
  by (simp add: candidate_def compute_shuffled_index_eq shuffle_size_ok_def zero_digest_rounds)

lemma devnet_first_random: "shuffling_random_value checked_libs devnet_state 0 seed = Inr 0"
  by (simp add: shuffling_random_value_def devnet_state_def electra_enabled_def
      shuffling_random_u16_electra_def checked_libs_def from_le_bytes_zeros)

theorem topostake_selection_returns_witness:
  "compute_topostake_proposer_index checked_libs no_env devnet_state (Some devnet_rt) 5 [2, 0]
      (replicate 32 9) devnet_spec
    = Some (Inr 2, pinned no_env (topostake_config devnet_spec) (Some devnet_rt) 5)"
proof -
  have "shuffle_size_ok (length [2, 0 :: nat])"
    "set [2, 0] \<subseteq> {..<length (bs_validators devnet_state)}"
    "sum_list (map (balance_of devnet_state) [2, 0]) < 2 ^ 64"
    by (simp_all add: shuffle_size_ok_def devnet_state_def balance_of_def)
  from topostake_selection_returns [OF checked_libs_ok this, of no_env "Some devnet_rt" 5 "replicate 32 9" devnet_spec]
  obtain k where "compute_topostake_proposer_index checked_libs no_env devnet_state (Some devnet_rt) 5 [2, 0]
      (replicate 32 9) devnet_spec = Some (Inr (candidate checked_libs devnet_spec [2, 0] (replicate 32 9) k),
        pinned no_env (topostake_config devnet_spec) (Some devnet_rt) 5)"
    and least: "\<And>j. j < k \<Longrightarrow> \<not> topostake_accepts checked_libs no_env devnet_state (Some devnet_rt) 5 [2, 0]
      (replicate 32 9) devnet_spec j" by blast
  moreover have "k = 0"
    using least [of 0] by (cases k) (simp_all add: topostake_accepts_def devnet_first_random sat128_def Let_def)
  ultimately show ?thesis by (simp add: devnet_first_candidate)
qed

end
