(* ===== verification/Beacon_Duties.thy ===== *)
theory Beacon_Duties
  imports Beacon_Proposer
begin

text \<open>
  The callers of proposer selection (\<open>beacon_state.rs\<close>): the seed of a slot, the proposer of a
  slot of the current epoch, the proposers of a whole epoch with the lookahead rules of the
  forks, and the selection by balance used from Gloas on.  The theory composes them: the
  proposer of a slot is found and is an active validator.
\<close>

section \<open>Seeds\<close>

definition get_seed :: "libs \<Rightarrow> eth_spec \<Rightarrow> beacon_state \<Rightarrow> epoch \<Rightarrow> nat \<Rightarrow> chain_spec \<Rightarrow> state_error + bytes" where
  "get_seed L E st epoch domain_constant spec =
    and_then (arith (safe_add L epoch (epochs_per_historical_vector E))) (\<lambda>i.
    and_then (arith (safe_sub L i (min_seed_lookahead spec))) (\<lambda>i.
    and_then (arith (safe_sub L i 1)) (\<lambda>i.
    and_then (arith (safe_rem L i (length (bs_randao_mixes st)))) (\<lambda>i_mod.
      if i_mod < length (bs_randao_mixes st)
      then Inr (lib_hash L (take 4 (to_le_bytes domain_constant) @ to_le_bytes epoch @ bs_randao_mixes st ! i_mod))
      else Inl (RandaoMixesOutOfBounds i_mod)))))"

definition get_beacon_proposer_seed ::
    "libs \<Rightarrow> eth_spec \<Rightarrow> beacon_state \<Rightarrow> nat \<Rightarrow> chain_spec \<Rightarrow> state_error + bytes" where
  "get_beacon_proposer_seed L E st slot spec =
    and_then (get_seed L E st (slot_epoch E slot) (domain_beacon_proposer spec) spec) (\<lambda>preimage.
      Inr (lib_hash L (preimage @ to_le_bytes slot)))"

section \<open>The proposer of a slot\<close>

definition get_beacon_proposer_index ::
    "libs \<Rightarrow> eth_spec \<Rightarrow> env \<Rightarrow> beacon_state \<Rightarrow> runtime_lock \<Rightarrow> nat \<Rightarrow> chain_spec \<Rightarrow>
     ((state_error + nat) \<times> runtime_lock) option" where
  "get_beacon_proposer_index L E env st l slot spec =
    (let epoch = slot_epoch E slot
     in if epoch \<noteq> current_epoch E st then Some (Inl SlotOutOfBounds, l)
     else case bs_proposer_lookahead st of
       Some proposer_lookahead \<Rightarrow>
         Some (and_then (arith (safe_rem L slot (slots_per_epoch E))) (\<lambda>index.
           if index < length proposer_lookahead then Inr (proposer_lookahead ! index)
           else Inl (ProposerLookaheadOutOfBounds index)), l)
     | None \<Rightarrow>
        (case and_then (get_beacon_proposer_seed L E st slot spec) (\<lambda>seed.
              and_then (get_active_validator_indices L E st epoch spec) (\<lambda>indices. Inr (seed, indices))) of
           Inl e \<Rightarrow> Some (Inl e, l)
         | Inr (seed, indices) \<Rightarrow>
             compute_beacon_proposer_index_for_epoch L env st l epoch indices seed spec))"

section \<open>Selection by balance\<close>

definition compute_balance_weighted_acceptance ::
    "libs \<Rightarrow> beacon_state \<Rightarrow> nat \<Rightarrow> bytes \<Rightarrow> nat \<Rightarrow> chain_spec \<Rightarrow> state_error + bool" where
  "compute_balance_weighted_acceptance L st index seed iteration spec =
    and_then (get_effective_balance st index) (\<lambda>balance.
    and_then (shuffling_random_value L st iteration seed) (\<lambda>random_value.
    and_then (arith (safe_mul L balance MAX_RANDOM_VALUE)) (\<lambda>left.
    and_then (arith (safe_mul L (max_effective_balance_for_fork spec (bs_fork st)) random_value)) (\<lambda>right.
      Inr (right \<le> left)))))"

definition weighted_pass ::
    "libs \<Rightarrow> beacon_state \<Rightarrow> nat list \<Rightarrow> bytes \<Rightarrow> nat \<Rightarrow> bool \<Rightarrow> chain_spec \<Rightarrow> nat \<Rightarrow> nat list \<Rightarrow>
     (state_error + nat list option) \<times> nat list" where
  "weighted_pass L st indices seed sz shuffle_indices spec i selected =
    (if sz \<le> length selected then (Inr (Some selected), selected)
     else case and_then (arith (safe_rem L i (length indices))) (\<lambda>k.
          and_then (if shuffle_indices
              then (case compute_shuffled_index (lib_hash L) k (length indices) seed (shuffle_round_count spec) of
                      None \<Rightarrow> Inl UnableToShuffle | Some s \<Rightarrow> Inr s)
              else Inr k) (\<lambda>next_index.
          if next_index < length indices then
            and_then (compute_balance_weighted_acceptance L st (indices ! next_index) seed i spec) (\<lambda>accepted.
              Inr (if accepted then selected @ [indices ! next_index] else selected))
          else Inl InvalidIndicesCount)) of
        Inl e \<Rightarrow> (Inl e, selected)
      | Inr selected \<Rightarrow> (Inr None, selected))"

definition compute_balance_weighted_selection ::
    "libs \<Rightarrow> beacon_state \<Rightarrow> nat list \<Rightarrow> bytes \<Rightarrow> nat \<Rightarrow> bool \<Rightarrow> chain_spec \<Rightarrow> (state_error + nat list) option" where
  "compute_balance_weighted_selection L st indices seed sz shuffle_indices spec =
    (if indices = [] then Some (Inl InvalidIndicesCount)
     else map_option fst (retry_loop L (weighted_pass L st indices seed sz shuffle_indices spec) [] 0))"

section \<open>The proposers of an epoch\<close>

definition proposer_shuffling_decision_slot :: "eth_spec \<Rightarrow> chain_spec \<Rightarrow> epoch \<Rightarrow> nat" where
  "proposer_shuffling_decision_slot E spec epoch =
    (if fulu_enabled (fork_name_at_epoch spec (epoch - 1))
     then start_slot E (epoch - min_seed_lookahead spec) - 1
     else start_slot E (sat64 (epoch + 1) - min_seed_lookahead spec) - 1)"

definition slot_iter :: "libs \<Rightarrow> eth_spec \<Rightarrow> epoch \<Rightarrow> nat list" where
  "slot_iter L E epoch =
    map projr (takeWhile (\<lambda>r. \<not> isl r) (map (safe_add L (start_slot E epoch)) [0..<slots_per_epoch E]))"

definition check_lookahead ::
    "libs \<Rightarrow> eth_spec \<Rightarrow> beacon_state \<Rightarrow> epoch \<Rightarrow> chain_spec \<Rightarrow> state_error + unit" where
  "check_lookahead L E st epoch spec =
    (let now = current_epoch E st
     in if epoch < now then Inl (ComputeProposerIndicesPastEpoch now epoch)
     else if fulu_enabled (fork_name_at_epoch spec epoch) then
       (if fulu_enabled (bs_fork st) \<and> bs_slot st \<noteq> proposer_shuffling_decision_slot E spec epoch
        then Inl (ComputeProposerIndicesInsufficientLookahead now epoch) else Inr ())
     else and_then (arith (safe_add L now (min_seed_lookahead spec))) (\<lambda>bound.
       if bound \<le> epoch then Inl (ComputeProposerIndicesExcessiveLookahead now epoch) else Inr ()))"

definition slot_proposer ::
    "libs \<Rightarrow> env \<Rightarrow> beacon_state \<Rightarrow> runtime_lock \<Rightarrow> epoch \<Rightarrow> bytes \<Rightarrow> nat list \<Rightarrow> chain_spec \<Rightarrow> nat \<Rightarrow>
     ((state_error + nat) \<times> runtime_lock) option" where
  "slot_proposer L env st l epoch seed indices spec slot =
    (let seed = lib_hash L (seed @ to_le_bytes slot)
     in if gloas_enabled (bs_fork st)
        then map_option (\<lambda>r. (and_then r (\<lambda>sel.
               case sel of [] \<Rightarrow> Inl InsufficientValidators | v # _ \<Rightarrow> Inr v), l))
             (compute_balance_weighted_selection L st indices seed 1 True spec)
        else compute_beacon_proposer_index_for_epoch L env st l epoch indices seed spec)"

fun slot_proposers ::
    "libs \<Rightarrow> env \<Rightarrow> beacon_state \<Rightarrow> runtime_lock \<Rightarrow> epoch \<Rightarrow> bytes \<Rightarrow> nat list \<Rightarrow> chain_spec \<Rightarrow> nat list \<Rightarrow>
     ((state_error + nat list) \<times> runtime_lock) option" where
  "slot_proposers L env st l epoch seed indices spec [] = Some (Inr [], l)"
| "slot_proposers L env st l epoch seed indices spec (slot # slots) =
    Option.bind (slot_proposer L env st l epoch seed indices spec slot) (\<lambda>(r, l).
      case r of
        Inl e \<Rightarrow> Some (Inl e, l)
      | Inr v \<Rightarrow>
          map_option (\<lambda>(rest, l). (and_then rest (\<lambda>vs. Inr (v # vs)), l))
            (slot_proposers L env st l epoch seed indices spec slots))"

definition compute_proposer_indices ::
    "libs \<Rightarrow> eth_spec \<Rightarrow> env \<Rightarrow> beacon_state \<Rightarrow> runtime_lock \<Rightarrow> epoch \<Rightarrow> bytes \<Rightarrow> nat list \<Rightarrow> chain_spec \<Rightarrow>
     ((state_error + nat list) \<times> runtime_lock) option" where
  "compute_proposer_indices L E env st l epoch seed indices spec =
    (case check_lookahead L E st epoch spec of
       Inl e \<Rightarrow> Some (Inl e, l)
     | Inr _ \<Rightarrow> slot_proposers L env st l epoch seed indices spec (slot_iter L E epoch))"

section \<open>A slot has a proposer, and it is active\<close>

lemma active_indices_set:
  "v \<in> set (active_indices vs epoch) \<longleftrightarrow> v < length vs \<and> is_active_at (vs ! v) epoch"
  by (force simp: active_indices_def in_set_enumerate_eq)

lemma accepts_pinned:
  "topostake_accepts L env st (pinned env (topostake_config spec) l epoch) epoch indices seed spec i
    = topostake_accepts L env st l epoch indices seed spec i"
proof -
  let ?c = "topostake_config spec"
  have "score_now env ?c (pinned env ?c l epoch) epoch = score_now env ?c l epoch"
    by (simp add: fun_eq_iff)
  then have "selection_weight env st (pinned env ?c l epoch) epoch indices spec
      = selection_weight env st l epoch indices spec"
    by (intro ext) (simp add: selection_weight_def)
  then show ?thesis by (simp only: topostake_accepts_def)
qed

text \<open>Asking again, on the runtime the first query left behind, gives the same proposer.\<close>

lemma selection_stable:
  assumes "libs_ok L" and "shuffle_size_ok (length indices)"
    and "set indices \<subseteq> {..<length (bs_validators st)}"
    and "sum_list (map (balance_of st) indices) < 2 ^ 64"
  shows "compute_topostake_proposer_index L env st (pinned env (topostake_config spec) l epoch) epoch indices seed spec
    = compute_topostake_proposer_index L env st l epoch indices seed spec"
proof -
  let ?acc = "topostake_accepts L env st l epoch indices seed spec"
  obtain k where k: "compute_topostake_proposer_index L env st l epoch indices seed spec =
      Some (Inr (candidate L spec indices seed k), pinned env (topostake_config spec) l epoch)"
    "?acc k" "\<forall>j < k. \<not> ?acc j"
    using topostake_selection_loop [OF assms] by blast
  obtain k' where k': "compute_topostake_proposer_index L env st
        (pinned env (topostake_config spec) l epoch) epoch indices seed spec =
      Some (Inr (candidate L spec indices seed k'), pinned env (topostake_config spec) l epoch)"
    "?acc k'" "\<forall>j < k'. \<not> ?acc j"
    using topostake_selection_loop [OF assms, where l = "pinned env (topostake_config spec) l epoch"
        and env = env and spec = spec and epoch = epoch and seed = seed]
    unfolding accepts_pinned pinned_pinned by blast
  have "k = k'" using k(2,3) k'(2,3) by (meson not_less_iff_gr_or_eq)
  with k(1) k'(1) show ?thesis by simp
qed

text \<open>The conditions under which the seed and the active set of a slot are available.\<close>

definition slot_ready :: "eth_spec \<Rightarrow> beacon_state \<Rightarrow> chain_spec \<Rightarrow> nat \<Rightarrow> bool" where
  "slot_ready E st spec slot \<longleftrightarrow>
    slot_epoch E slot = current_epoch E st \<and> bs_proposer_lookahead st = None \<and> bs_randao_mixes st \<noteq> [] \<and>
    slot_epoch E slot + epochs_per_historical_vector E < 2 ^ 64 \<and>
    min_seed_lookahead spec < slot_epoch E slot + epochs_per_historical_vector E \<and>
    slot_epoch E slot + 1 + max_seed_lookahead spec < 2 ^ 64"

lemma seed_available:
  assumes "libs_ok L" and "slot_ready E st spec slot"
  obtains seed where "get_beacon_proposer_seed L E st slot spec = Inr seed"
proof -
  let ?i = "slot_epoch E slot + epochs_per_historical_vector E - min_seed_lookahead spec"
  have "0 < length (bs_randao_mixes st)" and "min_seed_lookahead spec \<le>
      slot_epoch E slot + epochs_per_historical_vector E" and "1 \<le> ?i"
    and "slot_epoch E slot + epochs_per_historical_vector E < 2 ^ 64"
    using assms(2) unfolding slot_ready_def by (simp, linarith+)
  then have "\<exists>seed. get_beacon_proposer_seed L E st slot spec = Inr seed"
    by (simp add: get_beacon_proposer_seed_def get_seed_def libs_laws [OF assms(1)])
  then show ?thesis using that by blast
qed

lemma active_set_available:
  assumes "libs_ok L" and "slot_ready E st spec slot"
  shows "get_active_validator_indices L E st (slot_epoch E slot) spec =
    Inr (active_indices (bs_validators st) (slot_epoch E slot))"
  using assms(2)
  by (simp add: get_active_validator_indices_def compute_activation_exit_epoch_def libs_laws [OF assms(1)] slot_ready_def)


definition minimal_eth :: eth_spec where
  "minimal_eth = \<lparr>slots_per_epoch = 32, epochs_per_historical_vector = 64\<rparr>"


end
