(* ===== verification/Relay_Registry.thy ===== *)
theory Relay_Registry
  imports Rust_Text
begin

text \<open>
  Relay identities of the consensus client (\<open>per_block_processing.rs\<close>): hexadecimal text,
  normalised addresses, the public relay registry and how it is loaded, and the statements
  relayers sign.  The hash function and the BLS operations of \<open>blst\<close> are the fields of
  \<open>relay_crypto\<close>; reading files and parsing JSON are arguments.
\<close>

record relay_crypto =
  sha_256 :: "bytes \<Rightarrow> bytes"
  pk_from_bytes :: "bytes \<Rightarrow> bytes option"
  sig_from_bytes :: "bytes \<Rightarrow> bytes option"
  sig_verify :: "bytes \<Rightarrow> bytes \<Rightarrow> bytes \<Rightarrow> bytes \<Rightarrow> bool"
  sig_aggregate_verify :: "bytes \<Rightarrow> bytes list \<Rightarrow> bytes \<Rightarrow> bytes list \<Rightarrow> bool"
  sk_sign :: "bytes \<Rightarrow> bytes \<Rightarrow> bytes \<Rightarrow> bytes"
  sk_to_pk :: "bytes \<Rightarrow> bytes"
  sig_aggregate :: "bytes list \<Rightarrow> bytes option"

section \<open>Hexadecimal text\<close>

definition hex_char :: "nat \<Rightarrow> char" where
  "hex_char nibble =
    (if nibble < 10 then char_of (48 + nibble) else if nibble < 15 then char_of (87 + nibble) else CHR ''f'')"

definition hex_bytes :: "bytes \<Rightarrow> string" where
  "hex_bytes bs = ''0x'' @ concat (map (\<lambda>b. [hex_char (unat b div 16), hex_char (unat b mod 16)]) bs)"

definition unprefixed :: "string \<Rightarrow> string" where
  "unprefixed s = (case strip_prefix ''0x'' s of Some h \<Rightarrow> h | None \<Rightarrow> s)"

fun hex_pairs :: "string \<Rightarrow> bytes option" where
  "hex_pairs (a # b # r) =
    (case from_str_radix 16 256 [a, b] of
       None \<Rightarrow> None
     | Some n \<Rightarrow> map_option (\<lambda>bs. word_of_nat n # bs) (hex_pairs r))"
| "hex_pairs _ = Some []"

definition hex_bytes_exact :: "nat \<Rightarrow> string \<Rightarrow> bytes option" where
  "hex_bytes_exact n input =
    (let hex = unprefixed (trim input)
     in if length hex \<noteq> sat64 (n * 2) \<or> \<not> list_all is_ascii_hexdigit hex then None else hex_pairs hex)"

section \<open>Addresses\<close>

definition fallback_topostake_relay_address :: "nat \<Rightarrow> string" where
  "fallback_topostake_relay_address validator_index =
    ''0x'' @ hex_bytes (replicate 12 0 @ to_be_bytes (sat64 (validator_index + 1)))"

definition normalize_topostake_relay_address :: "string \<Rightarrow> string option" where
  "normalize_topostake_relay_address address =
    (let trimmed = trim address
     in if trimmed = [] then None
     else let hex = unprefixed trimmed
     in if length hex = 40 \<and> list_all is_ascii_hexdigit hex then Some (''0x'' @ to_ascii_lowercase hex)
        else Some (to_ascii_lowercase trimmed))"

section \<open>The registry\<close>

record relay_registry =
  pubkeys_by_address :: "(string, bytes) hash_map"
  validator_addresses :: "(nat, string) hash_map"
  payout_addresses :: "(nat, string) hash_map"
  address_validators :: "(string, nat) hash_map"
  el_rpc_urls :: "(nat, string) hash_map"
  cl_http_urls :: "(nat, string) hash_map"

record registry_entry =
  re_validator_index :: nat
  re_relay_address :: "string option"
  re_payout_address :: "string option"
  re_service_name :: "string option"
  re_cl_service_name :: "string option"
  re_relay_pubkey :: string

definition registry_default :: relay_registry where
  "registry_default = \<lparr>pubkeys_by_address = [], validator_addresses = [], payout_addresses = [],
     address_validators = [], el_rpc_urls = [], cl_http_urls = []\<rparr>"

definition registry_pubkey :: "relay_registry \<Rightarrow> string \<Rightarrow> bytes option" where
  "registry_pubkey reg address =
    Option.bind (normalize_topostake_relay_address address) (map_of (pubkeys_by_address reg))"

definition registry_validator_index :: "relay_registry \<Rightarrow> string \<Rightarrow> nat option" where
  "registry_validator_index reg address =
    Option.bind (normalize_topostake_relay_address address) (map_of (address_validators reg))"

definition address_for_validator :: "relay_registry \<Rightarrow> nat \<Rightarrow> string option \<Rightarrow> string" where
  "address_for_validator reg validator_index address =
    (case normalize_topostake_relay_address (case address of Some a \<Rightarrow> a | None \<Rightarrow> []) of
       Some a \<Rightarrow> a
     | None \<Rightarrow> (case map_of (validator_addresses reg) validator_index of
           Some a \<Rightarrow> a
         | None \<Rightarrow> fallback_topostake_relay_address validator_index))"

definition payout_address_for_validator :: "relay_registry \<Rightarrow> nat \<Rightarrow> string" where
  "payout_address_for_validator reg validator_index =
    (case map_of (payout_addresses reg) validator_index of
       Some a \<Rightarrow> a
     | None \<Rightarrow> (case map_of (validator_addresses reg) validator_index of
           Some a \<Rightarrow> a
         | None \<Rightarrow> fallback_topostake_relay_address validator_index))"

definition derive_topostake_cl_service_name :: "string \<Rightarrow> string option" where
  "derive_topostake_cl_service_name el_service_name =
    Option.bind (strip_prefix ''el-'' (trim el_service_name)) (\<lambda>rest.
    Option.bind (strip_suffix ''-geth-lighthouse'' rest) (\<lambda>node.
      Some (''cl-'' @ node @ ''-lighthouse-geth'')))"

definition non_empty :: "string \<Rightarrow> string option" where
  "non_empty s = (if trim s = [] then None else Some (trim s))"

definition entry_address :: "registry_entry \<Rightarrow> string" where
  "entry_address e =
    (case normalize_topostake_relay_address
        (case re_relay_address e of Some a \<Rightarrow> a | None \<Rightarrow> (case re_payout_address e of Some a \<Rightarrow> a | None \<Rightarrow> [])) of
       Some a \<Rightarrow> a
     | None \<Rightarrow> fallback_topostake_relay_address (re_validator_index e))"

definition entry_cl_service :: "registry_entry \<Rightarrow> string option" where
  "entry_cl_service e =
    (case Option.bind (re_cl_service_name e) non_empty of
       Some s \<Rightarrow> Some s
     | None \<Rightarrow> Option.bind (re_service_name e) derive_topostake_cl_service_name)"

definition put_some :: "'k \<Rightarrow> 'v option \<Rightarrow> ('k, 'v) hash_map \<Rightarrow> ('k, 'v) hash_map" where
  "put_some k v m = (case v of None \<Rightarrow> m | Some x \<Rightarrow> hm_insert k x m)"

definition add_relay :: "relay_registry \<Rightarrow> registry_entry \<Rightarrow> relay_registry" where
  "add_relay reg e =
    (case hex_bytes_exact 96 (re_relay_pubkey e) of
       None \<Rightarrow> reg
     | Some pubkey \<Rightarrow>
        let v = re_validator_index e; address = entry_address e
        in reg\<lparr>validator_addresses := hm_insert v address (validator_addresses reg),
               payout_addresses := put_some v
                 (Option.bind (re_payout_address e) normalize_topostake_relay_address) (payout_addresses reg),
               address_validators := hm_insert address v (address_validators reg),
               pubkeys_by_address := hm_insert address pubkey (pubkeys_by_address reg),
               el_rpc_urls := put_some v
                 (map_option (\<lambda>s. ''http://'' @ s @ '':8545'') (Option.bind (re_service_name e) non_empty))
                 (el_rpc_urls reg),
               cl_http_urls := put_some v
                 (map_option (\<lambda>s. ''http://'' @ s @ '':4000'') (entry_cl_service e)) (cl_http_urls reg)\<rparr>)"

definition load_topostake_relay_public_registry ::
    "(string \<Rightarrow> string option) \<Rightarrow> (string \<Rightarrow> string option) \<Rightarrow> (string \<Rightarrow> registry_entry list option) \<Rightarrow> relay_registry" where
  "load_topostake_relay_public_registry env read_file parse_json =
    (let raw = (case Option.bind (env ''TOPOSTAKE_RELAY_PUBLIC_REGISTRY_JSON'')
                  (\<lambda>value. if trim value = [] then None else Some value) of
                  Some value \<Rightarrow> Some value
                | None \<Rightarrow> Option.bind (env ''TOPOSTAKE_RELAY_PUBLIC_REGISTRY'') read_file)
     in case Option.bind raw parse_json of
          None \<Rightarrow> registry_default
        | Some relays \<Rightarrow> foldl add_relay registry_default relays)"

section \<open>Signed statements\<close>

definition topostake_tx_path_domain :: bytes where
  "topostake_tx_path_domain = as_bytes ''TOPOSTAKE_TX_PATH_V1''"

definition hash_identity_lh :: "relay_crypto \<Rightarrow> string \<Rightarrow> bytes" where
  "hash_identity_lh C identity =
    sha_256 C (as_bytes (case normalize_topostake_relay_address identity of
       Some a \<Rightarrow> a | None \<Rightarrow> to_ascii_lowercase (trim identity)))"

definition origin_statement :: "relay_crypto \<Rightarrow> nat \<Rightarrow> nat \<Rightarrow> bytes \<Rightarrow> string \<Rightarrow> bytes" where
  "origin_statement C chain_id epoch tx_hash address =
    sha_256 C (topostake_tx_path_domain @ to_be_bytes chain_id @ to_be_bytes epoch @ tx_hash @
      hash_identity_lh C address)"

definition chain_value :: "relay_crypto \<Rightarrow> bytes \<Rightarrow> nat \<Rightarrow> nat \<Rightarrow> string list \<Rightarrow> nat \<Rightarrow> bytes" where
  "chain_value C tx_hash chain_id epoch nodes node_idx =
    (let input = topostake_tx_path_domain @ to_be_bytes chain_id @ tx_hash @ to_be_bytes epoch
     in case nodes of
          [] \<Rightarrow> sha_256 C input
        | v # vs \<Rightarrow>
            foldl (\<lambda>chain node. sha_256 C (chain @ hash_identity_lh C node))
              (sha_256 C (input @ hash_identity_lh C v))
              (take (min node_idx (length nodes - 1)) vs))"

definition edge_statement_lh :: "relay_crypto \<Rightarrow> bytes \<Rightarrow> string \<Rightarrow> string \<Rightarrow> bytes" where
  "edge_statement_lh C pre from to =
    sha_256 C (topostake_tx_path_domain @ pre @ hash_identity_lh C from @ hash_identity_lh C to)"

section \<open>Reading back hexadecimal text\<close>

lemma of_char_hex_char: "n < 16 \<Longrightarrow> of_char (hex_char n) = (if n < 10 then 48 + n else 87 + n :: nat)"
  by (auto simp: hex_char_def)

lemma digit_val_hex_char [simp]: "n < 16 \<Longrightarrow> digit_val (hex_char n) = n"
  by (simp add: digit_val_def of_char_hex_char Let_def)

lemma hex_char_digit [simp]: "n < 16 \<Longrightarrow> is_ascii_hexdigit (hex_char n)"
  by (simp add: is_ascii_hexdigit_def)

lemma hexdigit_printable: "is_ascii_hexdigit c \<Longrightarrow> printable c"
  by (auto simp: is_ascii_hexdigit_def digit_val_def printable_def Let_def split: if_splits)

lemma nibbles: "unat (b :: byte) div 16 < 16" "unat b mod 16 < 16"
proof -
  have "unat b < 2 ^ LENGTH(8)" by (rule unsigned_less)
  then show "unat b div 16 < 16" by simp
qed simp

lemma hex_pairs_print:
  "hex_pairs (concat (map (\<lambda>b. [hex_char (unat b div 16), hex_char (unat b mod 16)]) bs)) = Some bs"
proof (induction bs)
  case (Cons b bs)
  have "hex_char (unat b div 16) \<noteq> CHR ''+''"
    using hex_char_digit [OF nibbles(1), of b] by (auto simp: is_ascii_hexdigit_def digit_val_def)
  moreover have "unat b < 2 ^ LENGTH(8)" by (rule unsigned_less)
  ultimately have "from_str_radix 16 256 [hex_char (unat b div 16), hex_char (unat b mod 16)] = Some (unat b)"
    using nibbles [of b] by (simp add: from_str_radix_def)
  with Cons show ?case by simp
qed simp

lemma hex_bytes_digits:
  "list_all is_ascii_hexdigit (concat (map (\<lambda>b. [hex_char (unat b div 16), hex_char (unat (b::byte) mod 16)]) bs))"
  using nibbles by (induction bs) auto

lemma length_hex_body:
  "length (concat (map (\<lambda>b. [hex_char (unat b div 16), hex_char (unat (b::byte) mod 16)]) bs)) = 2 * length bs"
  by (induction bs) auto

lemma unprefixed_0x [simp]: "unprefixed (CHR ''0'' # CHR ''x'' # s) = s"
  by (simp add: unprefixed_def strip_prefix_def)

lemma trim_0x:
  assumes "list_all is_ascii_hexdigit s"
  shows "trim (CHR ''0'' # CHR ''x'' # s) = CHR ''0'' # CHR ''x'' # s"
proof (rule trim_id)
  have "printable (last (CHR ''0'' # CHR ''x'' # s))"
    using assms hexdigit_printable by (cases "s = []") (auto simp: list_all_iff printable_def)
  then show "CHR ''0'' # CHR ''x'' # s = [] \<or> printable (hd (CHR ''0'' # CHR ''x'' # s)) \<and>
      printable (last (CHR ''0'' # CHR ''x'' # s))" by (simp add: printable_def)
qed

lemma hex_bytes_read_back:
  assumes "length bs = n" and "n < 2 ^ 60"
  shows "hex_bytes_exact n (hex_bytes bs) = Some bs"
  using assms hex_bytes_digits [of bs]
  by (simp add: hex_bytes_exact_def hex_bytes_def trim_0x length_hex_body hex_pairs_print sat64_id)

section \<open>Normal forms\<close>

lemma digit_val_lower: "is_ascii_hexdigit (ascii_lower c) = is_ascii_hexdigit c"
  unfolding is_ascii_hexdigit_def digit_val_def of_char_ascii_lower Let_def by auto

lemma hexdigits_lower [simp]: "list_all is_ascii_hexdigit (to_ascii_lowercase s) = list_all is_ascii_hexdigit s"
  by (simp add: to_ascii_lowercase_def list_all_iff digit_val_lower)

lemma length_lower [simp]: "length (to_ascii_lowercase s) = length s"
  by (simp add: to_ascii_lowercase_def)

lemma lower_Nil [simp]: "to_ascii_lowercase s = [] \<longleftrightarrow> s = []"
  by (simp add: to_ascii_lowercase_def)

lemma lower_0x [simp]: "to_ascii_lowercase (CHR ''0'' # CHR ''x'' # s) = CHR ''0'' # CHR ''x'' # to_ascii_lowercase s"
  by (simp add: to_ascii_lowercase_def ascii_lower_def)

lemma unprefixed_cases: "s = CHR ''0'' # CHR ''x'' # unprefixed s \<or> unprefixed s = s"
  by (auto simp: unprefixed_def strip_prefix_def prefix_def split: option.splits)

lemma x_not_hexdigit: "\<not> is_ascii_hexdigit (CHR ''x'')"
  by (simp add: is_ascii_hexdigit_def digit_val_def)

lemma unprefixed_hexdigits: "list_all is_ascii_hexdigit t \<Longrightarrow> unprefixed t = t"
  using unprefixed_cases [of t] x_not_hexdigit by (metis list.pred_inject(2))

text \<open>A normalised address is its own normal form.\<close>

lemma normalize_idem:
  assumes "normalize_topostake_relay_address a = Some b"
  shows "normalize_topostake_relay_address b = Some b"
proof -
  define t where "t = trim a"
  have t: "t \<noteq> []" "trim t = t" using assms by (auto simp: t_def normalize_topostake_relay_address_def Let_def split: if_splits)
  show ?thesis
  proof (cases "length (unprefixed t) = 40 \<and> list_all is_ascii_hexdigit (unprefixed t)")
    case True
    then have "b = CHR ''0'' # CHR ''x'' # to_ascii_lowercase (unprefixed t)"
      using assms t by (simp add: normalize_topostake_relay_address_def t_def [symmetric] Let_def)
    with True show ?thesis by (simp add: normalize_topostake_relay_address_def trim_0x Let_def)
  next
    case False
    then have b: "b = to_ascii_lowercase t"
      using assms t by (auto simp: normalize_topostake_relay_address_def t_def [symmetric] Let_def split: if_splits)
    have trim_b: "trim b = b" by (simp add: b trim_lower t)
    have "b = CHR ''0'' # CHR ''x'' # to_ascii_lowercase (unprefixed b)"
      if "length (unprefixed b) = 40" "list_all is_ascii_hexdigit (unprefixed b)"
      using unprefixed_cases [of b]
    proof
      assume e: "b = CHR ''0'' # CHR ''x'' # unprefixed b"
      then have "to_ascii_lowercase b = CHR ''0'' # CHR ''x'' # to_ascii_lowercase (unprefixed b)"
        by (metis lower_0x)
      then show ?thesis by (simp add: b)
    next
      assume "unprefixed b = b"
      then have "length t = 40" and "list_all is_ascii_hexdigit t" using that by (simp_all add: b)
      moreover have "unprefixed t = t"
        using \<open>list_all is_ascii_hexdigit t\<close> by (rule unprefixed_hexdigits)
      ultimately show ?thesis using False by simp
    qed
    moreover have "b \<noteq> []" and "to_ascii_lowercase b = b" using t by (simp_all add: b)
    ultimately show ?thesis by (auto simp: normalize_topostake_relay_address_def trim_b Let_def)
  qed
qed

lemma lower_hex_char: "n < 16 \<Longrightarrow> ascii_lower (hex_char n) = hex_char n"
  by (simp add: ascii_lower_def Let_def of_char_hex_char)

lemma hex_bytes_lower: "to_ascii_lowercase (hex_bytes bs) = hex_bytes bs"
  using nibbles lower_hex_char
  by (simp add: hex_bytes_def to_ascii_lowercase_def map_concat o_def ascii_lower_def Let_def)

text \<open>The fallback address is a fixed text, though not the text of a 20-byte address.\<close>

lemma fallback_normal:
  "normalize_topostake_relay_address (fallback_topostake_relay_address v) = Some (fallback_topostake_relay_address v)"
proof -
  define s where "s = concat (map (\<lambda>b. [hex_char (unat b div 16), hex_char (unat (b::byte) mod 16)])
    (replicate 12 0 @ to_be_bytes (sat64 (v + 1))))"
  have f: "fallback_topostake_relay_address v = ''0x0x'' @ s"
    by (simp add: fallback_topostake_relay_address_def hex_bytes_def s_def)
  have len: "length s = 40" unfolding s_def length_hex_body by simp
  have "printable (last (''0x0x'' @ s))"
    using hex_bytes_digits [of "replicate 12 0 @ to_be_bytes (sat64 (v + 1))"] len hexdigit_printable
    unfolding s_def [symmetric] by (cases s rule: rev_cases) (auto simp: list_all_iff)
  then have "trim (''0x0x'' @ s) = ''0x0x'' @ s" by (intro trim_id) (simp add: printable_def)
  moreover have "to_ascii_lowercase (''0x0x'' @ s) = ''0x0x'' @ s"
    using hex_bytes_lower [of "replicate 12 0 @ to_be_bytes (sat64 (v + 1))"]
    by (simp add: hex_bytes_def s_def)
  moreover have "unprefixed (''0x0x'' @ s) = ''0x'' @ s" by simp
  ultimately show ?thesis by (simp add: f normalize_topostake_relay_address_def Let_def len)
qed

section \<open>Registered relays can be looked up\<close>

text \<open>
  Every registered address is in normal form and has a key of 96 bytes, and every address
  recorded for a validator is registered.
\<close>

definition registry_ok :: "relay_registry \<Rightarrow> bool" where
  "registry_ok reg \<longleftrightarrow>
    (\<forall>a pk. map_of (pubkeys_by_address reg) a = Some pk \<longrightarrow>
      normalize_topostake_relay_address a = Some a \<and> length pk = 96) \<and>
    (\<forall>v a. map_of (validator_addresses reg) v = Some a \<longrightarrow> a \<in> fst ` set (pubkeys_by_address reg))"

lemma length_hex_pairs: "hex_pairs s = Some bs \<Longrightarrow> length bs = length s div 2"
  by (induction s arbitrary: bs rule: hex_pairs.induct) (auto split: option.splits)

lemma hex_bytes_exact_length: "hex_bytes_exact n s = Some bs \<Longrightarrow> n < 2 ^ 60 \<Longrightarrow> length bs = n"
  by (auto simp: hex_bytes_exact_def Let_def sat64_id dest: length_hex_pairs split: if_splits)

lemma entry_address_normal: "normalize_topostake_relay_address (entry_address e) = Some (entry_address e)"
  unfolding entry_address_def
  by (auto simp: fallback_normal split: option.splits dest: normalize_idem)

lemma add_relay_ok: "registry_ok reg \<Longrightarrow> registry_ok (add_relay reg e)"
proof (cases "hex_bytes_exact 96 (re_relay_pubkey e)")
  case (Some pk)
  assume ok: "registry_ok reg"
  have "length pk = 96" by (rule hex_bytes_exact_length [OF Some]) simp
  moreover have "fst ` set (hm_insert a pk m) = insert a (fst ` set m)" for a :: string and m
    using keys_hm_insert [of a pk m] by simp
  ultimately show ?thesis
    using ok entry_address_normal [of e] Some
    by (auto simp: registry_ok_def add_relay_def table_simps Let_def split: if_splits)
qed (simp add: add_relay_def)

lemma loaded_registry_ok: "registry_ok (load_topostake_relay_public_registry env read_file parse_json)"
proof -
  have base: "registry_ok registry_default" by (simp add: registry_ok_def registry_default_def)
  have "registry_ok reg \<Longrightarrow> registry_ok (foldl add_relay reg es)" for reg es
    by (induction es arbitrary: reg) (simp_all add: add_relay_ok)
  with base show ?thesis
    unfolding load_topostake_relay_public_registry_def Let_def
    by (auto split: option.split)
qed

lemma registered_key:
  assumes "registry_ok reg" and "map_of (validator_addresses reg) v = Some a"
  obtains pk where "address_for_validator reg v None = a" and "registry_pubkey reg a = Some pk" and "length pk = 96"
proof -
  have "address_for_validator reg v None = a"
    using assms(2) by (simp add: address_for_validator_def normalize_topostake_relay_address_def trim_id)
  moreover obtain pk where "map_of (pubkeys_by_address reg) a = Some pk"
    using assms by (fastforce simp: registry_ok_def map_of_eq_None_iff dest: weak_map_of_SomeI)
  moreover from this have "registry_pubkey reg a = Some pk" "length pk = 96"
    using assms(1) by (auto simp: registry_ok_def registry_pubkey_def)
  ultimately show ?thesis using that by blast
qed

end
