(* ===== verification/Go_Text.thy ===== *)
theory Go_Text
  imports Relay_Registry "HOL-Library.List_Lexorder" "HOL-Library.Char_ord"
begin

text \<open>
  Text and addresses of the execution client (\<open>go-ethereum\<close>): the functions of Go's
  \<open>strings\<close>, \<open>encoding/hex\<close> and \<open>math/big\<close> packages it uses, the hexadecimal addresses of
  \<open>common/types.go\<close> and \<open>common/bytes.go\<close>, and the relay addresses of
  \<open>eth/topostake/metadata.go\<close>.  Lower case of text outside ASCII is the argument \<open>U\<close>.
\<close>

section \<open>Text\<close>

definition is_ascii :: "char \<Rightarrow> bool" where
  "is_ascii c \<longleftrightarrow> of_char c < (128 :: nat)"

definition to_lower :: "(string \<Rightarrow> string) \<Rightarrow> string \<Rightarrow> string" where
  "to_lower U s = (if list_all is_ascii s then to_ascii_lowercase s else U s)"

definition getenv :: "(string \<Rightarrow> string option) \<Rightarrow> string \<Rightarrow> string" where
  "getenv env key = (case env key of None \<Rightarrow> [] | Some v \<Rightarrow> v)"

text \<open>\<open>hex.DecodeString\<close>: the bytes before the first error, and whether there was none.\<close>

fun hex_decode :: "string \<Rightarrow> bytes \<times> bool" where
  "hex_decode (a # b # r) =
    (if is_ascii_hexdigit a \<and> is_ascii_hexdigit b
     then let (bs, ok) = hex_decode r in (word_of_nat (16 * digit_val a + digit_val b) # bs, ok)
     else ([], False))"
| "hex_decode [_] = ([], False)"
| "hex_decode [] = ([], True)"

text \<open>
  \<open>amountFromDecimal\<close>: a signed decimal number as \<open>big.Int.SetString\<close> reads it, not
  negative and of at most 256 bits.
\<close>

definition amountFromDecimal :: "string \<Rightarrow> nat option" where
  "amountFromDecimal input =
    (let s = trim input;
         negative = (s \<noteq> [] \<and> hd s = CHR ''-'');
         digits = (if s \<noteq> [] \<and> hd s \<in> {CHR ''-'', CHR ''+''} then tl s else s)
     in if digits = [] then None
     else case parse_digits 10 (2 ^ 256) 0 digits of
       None \<Rightarrow> None
     | Some n \<Rightarrow> if negative \<and> n \<noteq> 0 then None else Some n)"

section \<open>Addresses\<close>

definition has0xPrefix :: "string \<Rightarrow> bool" where
  "has0xPrefix s \<longleftrightarrow> 2 \<le> length s \<and> s ! 0 = CHR ''0'' \<and> (s ! 1 = CHR ''x'' \<or> s ! 1 = CHR ''X'')"

definition isHex :: "string \<Rightarrow> bool" where
  "isHex s \<longleftrightarrow> length s mod 2 = 0 \<and> list_all is_ascii_hexdigit s"

definition Hex2Bytes :: "string \<Rightarrow> bytes" where
  "Hex2Bytes s = fst (hex_decode s)"

definition FromHex :: "string \<Rightarrow> bytes" where
  "FromHex s =
    (let s = (if has0xPrefix s then drop 2 s else s);
         s = (if length s mod 2 = 1 then CHR ''0'' # s else s)
     in Hex2Bytes s)"

definition BytesToAddress :: "bytes \<Rightarrow> bytes" where
  "BytesToAddress b =
    (let b = (if 20 < length b then drop (length b - 20) b else b)
     in replicate (20 - length b) 0 @ b)"

definition HexToAddress :: "string \<Rightarrow> bytes" where
  "HexToAddress s = BytesToAddress (FromHex s)"

definition IsHexAddress :: "string \<Rightarrow> bool" where
  "IsHexAddress s = (let s = (if has0xPrefix s then drop 2 s else s) in length s = 2 * 20 \<and> isHex s)"

text \<open>The checksummed form of an address in lower case is its plain hexadecimal form.\<close>

definition normalizeRelayAddress :: "(string \<Rightarrow> string) \<Rightarrow> string \<Rightarrow> string" where
  "normalizeRelayAddress U address =
    (let address = trim address
     in if address = [] then []
     else if IsHexAddress address then hex_bytes (HexToAddress address)
     else let address = unprefixed (to_lower U address)
     in if length address = 40 \<and> snd (hex_decode address) then hex_bytes (HexToAddress (''0x'' @ address))
        else to_lower U address)"

section \<open>Laws\<close>

lemma hex_decode_length: "snd (hex_decode s) \<Longrightarrow> 2 * length (fst (hex_decode s)) = length s"
  by (induction s rule: hex_decode.induct) (auto simp: case_prod_unfold Let_def split: if_splits)

lemma hex_decode_ok: "snd (hex_decode s) \<longleftrightarrow> even (length s) \<and> list_all is_ascii_hexdigit s"
  by (induction s rule: hex_decode.induct) (auto simp: case_prod_unfold Let_def)

lemma hex_decode_print:
  "hex_decode (concat (map (\<lambda>b. [hex_char (unat b div 16), hex_char (unat b mod 16)]) bs)) = (bs, True)"
  by (induction bs) (simp_all add: nibbles)

lemma length_BytesToAddress [simp]: "length (BytesToAddress b) = 20"
  by (simp add: BytesToAddress_def Let_def)

lemma length_HexToAddress [simp]: "length (HexToAddress s) = 20"
  by (simp add: HexToAddress_def)

lemma BytesToAddress_id: "length b = 20 \<Longrightarrow> BytesToAddress b = b"
  by (simp add: BytesToAddress_def)

lemma has0xPrefix_hex_bytes [simp]: "has0xPrefix (hex_bytes bs)"
  by (simp add: has0xPrefix_def hex_bytes_def)

lemma drop_hex_bytes: "drop 2 (hex_bytes bs) = concat (map (\<lambda>b. [hex_char (unat b div 16), hex_char (unat b mod 16)]) bs)"
  by (simp add: hex_bytes_def)

text \<open>Printing the bytes of an address and reading them back is the identity.\<close>

lemma HexToAddress_hex_bytes: "length bs = 20 \<Longrightarrow> HexToAddress (hex_bytes bs) = bs"
  using length_hex_body [of bs]
  by (simp add: HexToAddress_def FromHex_def drop_hex_bytes Hex2Bytes_def hex_decode_print BytesToAddress_id)

lemma IsHexAddress_hex_bytes: "length bs = 20 \<Longrightarrow> IsHexAddress (hex_bytes bs)"
  using length_hex_body [of bs] hex_bytes_digits [of bs]
  by (simp add: IsHexAddress_def drop_hex_bytes isHex_def)

end
