(* ===== verification/Geth_Settlement.thy ===== *)
theory Geth_Settlement
  imports Go_Text
begin

text \<open>
  Fee settlement in the execution client (\<open>eth/topostake/metadata.go\<close>): submission of a
  settlement payload, its commitment in the extra data of a block, the block-carried records,
  and the execution of a committed settlement against the fee escrow, by the block builder
  (\<open>miner/worker.go\<close>) and by block import (\<open>core/state_processor.go\<close>).  Amounts of the
  account state are 256-bit words.  SHA-256 is the argument \<open>H\<close>.
\<close>

section \<open>Data\<close>

record settlement_record =
  st_id :: string
  st_epoch :: nat
  st_role :: string
  st_validator_index :: nat
  st_payout_address :: string
  st_amount_wei :: string

record settlement_payload =
  sp_domain :: string
  sp_finalized_epoch :: nat
  sp_epoch :: nat
  sp_records :: "settlement_record list"

record block_record =
  br_finalized_epoch :: nat
  br_epoch :: nat
  br_role :: string
  br_validator_index :: nat
  br_payout_address :: string
  br_amount_wei :: string
  br_id :: string

record settlement_store =
  settlements :: "(string, settlement_payload) hash_map"
  settlementsByRoot :: "(bytes, settlement_payload) hash_map"
  settlementRootByKey :: "(string, bytes) hash_map"
  executedSettlements :: "string list"
  settlementOrder :: "string list"

definition empty_store :: settlement_store where
  "empty_store = \<lparr>settlements = [], settlementsByRoot = [], settlementRootByKey = [],
     executedSettlements = [], settlementOrder = []\<rparr>"

type_synonym uint256 = "256 word"

type_synonym balances = "(bytes, uint256) hash_map"

datatype settlement_error =
    InvalidDomain string
  | EmptyPayload
  | InvalidRole string
  | MissingPayout string
  | InvalidAmount string
  | EpochMismatch nat nat
  | DuplicateId string
  | EmptyRecords
  | MixedEpochs
  | RootMismatch bytes bytes
  | MissingBlockRecords bytes
  | InvalidCommittedAmount bytes
  | ZeroTotal bytes
  | InsufficientEscrow bytes uint256 uint256

section \<open>Switches\<close>

definition FeeEscrowEnabled :: "(string \<Rightarrow> string) \<Rightarrow> (string \<Rightarrow> string option) \<Rightarrow> bool" where
  "FeeEscrowEnabled U env \<longleftrightarrow>
    to_lower U (trim (getenv env ''TOPOSTAKE_FEE_ESCROW'')) \<in> {''1'', ''true'', ''yes'', ''on'', ''escrow''}"

definition SettlementMutationEnabled :: "(string \<Rightarrow> string) \<Rightarrow> (string \<Rightarrow> string option) \<Rightarrow> bool" where
  "SettlementMutationEnabled U env \<longleftrightarrow>
    to_lower U (trim (getenv env ''TOPOSTAKE_SETTLEMENT_MUTATION'')) \<in> {''1'', ''true'', ''yes'', ''on''}"

definition FeeEscrowAddress :: bytes where
  "FeeEscrowAddress = HexToAddress ''0x0000000000000000000000000000000000705000''"

definition FeeRecipient :: "(string \<Rightarrow> string) \<Rightarrow> (string \<Rightarrow> string option) \<Rightarrow> bytes \<Rightarrow> bytes" where
  "FeeRecipient U env coinbase = (if FeeEscrowEnabled U env then FeeEscrowAddress else coinbase)"

section \<open>Keys, identifiers and roots\<close>

definition zero_hash :: bytes where
  "zero_hash = replicate 32 0"

definition settlement_domain :: string where
  "settlement_domain = ''TOPOSTAKE_FEE_SETTLEMENT_V1''"

definition settlementPayloadKey :: "nat \<Rightarrow> nat \<Rightarrow> string" where
  "settlementPayloadKey finalized_epoch epoch = show_nat epoch"

definition settlementRecordID :: "(string \<Rightarrow> string) \<Rightarrow> settlement_record \<Rightarrow> string" where
  "settlementRecordID U r =
    show_nat (st_epoch r) @ '':'' @ st_role r @ '':'' @ show_nat (st_validator_index r) @ '':'' @
    normalizeRelayAddress U (st_payout_address r) @ '':'' @ trim (st_amount_wei r)"

definition record_bytes :: "(string \<Rightarrow> string) \<Rightarrow> settlement_record \<Rightarrow> bytes" where
  "record_bytes U r =
    [0] @ as_bytes (st_id r) @ [0] @ as_bytes (st_role r) @ to_be_bytes (st_validator_index r) @
    [0] @ as_bytes (normalizeRelayAddress U (st_payout_address r)) @
    [0] @ as_bytes (trim (st_amount_wei r))"

definition settlementPayloadRoot :: "(string \<Rightarrow> string) \<Rightarrow> (bytes \<Rightarrow> bytes) \<Rightarrow> settlement_payload \<Rightarrow> bytes" where
  "settlementPayloadRoot U H p =
    H (as_bytes ''TOPOSTAKE_FEE_SETTLEMENT_ROOT_V1'' @ [0] @ as_bytes (sp_domain p) @
       to_be_bytes (sp_finalized_epoch p) @ to_be_bytes (sp_epoch p) @
       concat (map (record_bytes U) (sort_key st_id (sp_records p))))"

definition settlement_extra_prefix :: bytes where
  "settlement_extra_prefix = as_bytes ''TSS1''"

definition settlementPayloadCommitment :: "bytes \<Rightarrow> bytes" where
  "settlementPayloadCommitment rt = settlement_extra_prefix @ take 28 rt"

definition commitment :: "(string \<Rightarrow> string) \<Rightarrow> (bytes \<Rightarrow> bytes) \<Rightarrow> settlement_payload \<Rightarrow> bytes" where
  "commitment U H p = settlementPayloadCommitment (settlementPayloadRoot U H p)"

section \<open>Submission\<close>

definition checked_record ::
    "(string \<Rightarrow> string) \<Rightarrow> nat \<Rightarrow> settlement_record \<Rightarrow> settlement_error + settlement_record" where
  "checked_record U epoch r =
    (let r = r\<lparr>st_role := to_lower U (trim (st_role r))\<rparr>
     in if st_role r \<notin> {''proposer'', ''relay'', ''burned''} then Inl (InvalidRole (st_role r))
     else let r = r\<lparr>st_payout_address := normalizeRelayAddress U (st_payout_address r)\<rparr>
     in if st_role r \<noteq> ''burned'' \<and> st_payout_address r = [] then Inl (MissingPayout (st_role r))
     else if amountFromDecimal (st_amount_wei r) = None then Inl (InvalidAmount (st_amount_wei r))
     else let r = (if st_epoch r = 0 then r\<lparr>st_epoch := epoch\<rparr> else r)
     in if st_epoch r \<noteq> epoch then Inl (EpochMismatch (st_epoch r) epoch)
     else Inr (if trim (st_id r) = [] then r\<lparr>st_id := settlementRecordID U r\<rparr> else r))"

fun checked_records ::
    "(string \<Rightarrow> string) \<Rightarrow> nat \<Rightarrow> settlement_record list \<Rightarrow> string list \<Rightarrow> settlement_error + settlement_record list" where
  "checked_records U epoch [] seen = Inr []"
| "checked_records U epoch (r # rs) seen =
    (case checked_record U epoch r of
       Inl e \<Rightarrow> Inl e
     | Inr r \<Rightarrow>
        if st_id r \<in> set seen then Inl (DuplicateId (st_id r))
        else (case checked_records U epoch rs (st_id r # seen) of Inl e \<Rightarrow> Inl e | Inr rs \<Rightarrow> Inr (r # rs)))"

definition root_for_key :: "settlement_store \<Rightarrow> string \<Rightarrow> bytes" where
  "root_for_key s key = hm_get_or zero_hash (settlementRootByKey s) key"

definition forget_root :: "settlement_store \<Rightarrow> string \<Rightarrow> settlement_store" where
  "forget_root s key =
    (if root_for_key s key = zero_hash then s
     else s\<lparr>settlementsByRoot := hm_remove (root_for_key s key) (settlementsByRoot s)\<rparr>)"

text \<open>The loop that keeps at most 128 settlements.\<close>

fun evict_oldest :: "string list \<Rightarrow> settlement_store \<Rightarrow> settlement_store" where
  "evict_oldest [] s = s\<lparr>settlementOrder := []\<rparr>"
| "evict_oldest (oldest # order) s =
    (if length (oldest # order) \<le> 128 then s\<lparr>settlementOrder := oldest # order\<rparr>
     else if oldest \<in> set (executedSettlements s) then evict_oldest order s
     else let s = forget_root s oldest
     in evict_oldest order (s\<lparr>settlements := hm_remove oldest (settlements s),
                             settlementRootByKey := hm_remove oldest (settlementRootByKey s)\<rparr>))"

definition SubmitSettlement ::
    "(string \<Rightarrow> string) \<Rightarrow> (bytes \<Rightarrow> bytes) \<Rightarrow> settlement_store \<Rightarrow> settlement_payload \<Rightarrow>
     (settlement_error + nat) \<times> settlement_store" where
  "SubmitSettlement U H s payload =
    (let payload = (if trim (sp_domain payload) = [] then payload\<lparr>sp_domain := settlement_domain\<rparr> else payload)
     in if sp_domain payload \<noteq> settlement_domain then (Inl (InvalidDomain (sp_domain payload)), s)
     else if sp_records payload = [] then (Inl EmptyPayload, s)
     else let key = settlementPayloadKey (sp_finalized_epoch payload) (sp_epoch payload)
     in case checked_records U (sp_epoch payload) (sp_records payload) [] of
       Inl e \<Rightarrow> (Inl e, s)
     | Inr records \<Rightarrow>
        if key \<in> set (executedSettlements s) then (Inr 0, s)
        else let payload = payload\<lparr>sp_records := records\<rparr>;
                 s = (if map_of (settlements s) key = None then s\<lparr>settlementOrder := settlementOrder s @ [key]\<rparr>
                      else forget_root s key);
                 r = commitment U H payload;
                 s = s\<lparr>settlements := hm_insert key payload (settlements s),
                       settlementsByRoot := hm_insert r payload (settlementsByRoot s),
                       settlementRootByKey := hm_insert key r (settlementRootByKey s)\<rparr>
             in (Inr (length records), evict_oldest (settlementOrder s) s))"

definition PendingSettlementRoot ::
    "(string \<Rightarrow> string) \<Rightarrow> (string \<Rightarrow> string option) \<Rightarrow> settlement_store \<Rightarrow> bytes" where
  "PendingSettlementRoot U env s =
    (if \<not> FeeEscrowEnabled U env then zero_hash
     else case find (\<lambda>key. key \<notin> set (executedSettlements s) \<and> root_for_key s key \<noteq> zero_hash) (settlementOrder s) of
       None \<Rightarrow> zero_hash
     | Some key \<Rightarrow> root_for_key s key)"

definition SettlementRecordsForRoot :: "settlement_store \<Rightarrow> bytes \<Rightarrow> block_record list" where
  "SettlementRecordsForRoot s r =
    (if r = zero_hash then []
     else case map_of (settlementsByRoot s) r of
       None \<Rightarrow> []
     | Some payload \<Rightarrow> map (\<lambda>record. \<lparr>br_finalized_epoch = sp_finalized_epoch payload,
           br_epoch = sp_epoch payload, br_role = st_role record,
           br_validator_index = st_validator_index record, br_payout_address = st_payout_address record,
           br_amount_wei = trim (st_amount_wei record), br_id = st_id record\<rparr>) (sp_records payload))"

definition SettlementRoot :: "settlement_store \<Rightarrow> nat \<Rightarrow> nat \<Rightarrow> bytes" where
  "SettlementRoot s finalized_epoch epoch = root_for_key s (settlementPayloadKey finalized_epoch epoch)"

section \<open>Execution\<close>

definition GetBalance :: "balances \<Rightarrow> bytes \<Rightarrow> uint256" where
  "GetBalance b addr = hm_get_or 0 b addr"

definition AddBalance :: "bytes \<Rightarrow> uint256 \<Rightarrow> balances \<Rightarrow> balances" where
  "AddBalance addr amount b = (if amount = 0 then b else hm_insert addr (GetBalance b addr + amount) b)"

definition SubBalance :: "bytes \<Rightarrow> uint256 \<Rightarrow> balances \<Rightarrow> balances" where
  "SubBalance addr amount b = (if amount = 0 then b else hm_insert addr (GetBalance b addr - amount) b)"

definition settlement_of_block_record :: "(string \<Rightarrow> string) \<Rightarrow> block_record \<Rightarrow> settlement_record" where
  "settlement_of_block_record U r =
    (let t = \<lparr>st_id = trim (br_id r), st_epoch = br_epoch r, st_role = to_lower U (trim (br_role r)),
              st_validator_index = br_validator_index r,
              st_payout_address = normalizeRelayAddress U (br_payout_address r),
              st_amount_wei = trim (br_amount_wei r)\<rparr>
     in if st_id t = [] then t\<lparr>st_id := settlementRecordID U t\<rparr> else t)"

definition settlementPayloadFromBlockRecords ::
    "(string \<Rightarrow> string) \<Rightarrow> block_record list \<Rightarrow> settlement_error + settlement_payload" where
  "settlementPayloadFromBlockRecords U records =
    (if records = [] then Inl EmptyRecords
     else let f = br_finalized_epoch (hd records); e = br_epoch (hd records)
     in if list_ex (\<lambda>r. br_finalized_epoch r \<noteq> f \<or> br_epoch r \<noteq> e) records then Inl MixedEpochs
     else Inr \<lparr>sp_domain = settlement_domain, sp_finalized_epoch = f, sp_epoch = e,
               sp_records = map (settlement_of_block_record U) records\<rparr>)"

definition mark_executed :: "string \<Rightarrow> settlement_store \<Rightarrow> settlement_store" where
  "mark_executed key s = s\<lparr>executedSettlements := List.insert key (executedSettlements s)\<rparr>"

definition settlement_amounts :: "settlement_payload \<Rightarrow> uint256 list option" where
  "settlement_amounts p =
    those (map (\<lambda>r. map_option of_nat (amountFromDecimal (st_amount_wei r))) (sp_records p))"

definition pay_records :: "(settlement_record \<times> uint256) list \<Rightarrow> balances \<Rightarrow> balances" where
  "pay_records rs b =
    foldl (\<lambda>b (r, amount). if st_role r = ''burned'' then b else AddBalance (HexToAddress (st_payout_address r)) amount b) b rs"

text \<open>The part of \<open>applyCommittedSettlement\<close> after the payload is known.\<close>

definition execute_payload ::
    "(string \<Rightarrow> string) \<Rightarrow> (string \<Rightarrow> string option) \<Rightarrow> settlement_store \<Rightarrow> balances \<Rightarrow> bytes \<Rightarrow> settlement_payload \<Rightarrow>
     bool \<Rightarrow> bool \<Rightarrow> (settlement_error + nat) \<times> settlement_store \<times> balances" where
  "execute_payload U env s b committed payload hasBlockRecords markExecuted =
    (let key = settlementPayloadKey (sp_finalized_epoch payload) (sp_epoch payload)
     in if markExecuted \<and> \<not> hasBlockRecords \<and> key \<in> set (executedSettlements s) then (Inr 0, s, b)
     else if \<not> SettlementMutationEnabled U env then
       (Inr 0, if markExecuted then mark_executed key s else s, b)
     else case settlement_amounts payload of
       None \<Rightarrow> (Inl (InvalidCommittedAmount committed), s, b)
     | Some amounts \<Rightarrow>
        let sum = sum_list amounts
        in if sum = 0 then (Inl (ZeroTotal committed), s, b)
        else if GetBalance b FeeEscrowAddress < sum then
          (Inl (InsufficientEscrow committed (GetBalance b FeeEscrowAddress) sum), s, b)
        else (Inr 1, if markExecuted then mark_executed key s else s,
              pay_records (zip (sp_records payload) amounts) (SubBalance FeeEscrowAddress sum b)))"

definition applyCommittedSettlement ::
    "(string \<Rightarrow> string) \<Rightarrow> (bytes \<Rightarrow> bytes) \<Rightarrow> (string \<Rightarrow> string option) \<Rightarrow> settlement_store \<Rightarrow> balances \<Rightarrow> bytes \<Rightarrow>
     block_record list \<Rightarrow> bool \<Rightarrow> (settlement_error + nat) \<times> settlement_store \<times> balances" where
  "applyCommittedSettlement U H env s b committed blockRecords markExecuted =
    (if \<not> FeeEscrowEnabled U env then (Inr 0, s, b)
     else if committed = zero_hash then (Inr 0, s, b)
     else if blockRecords \<noteq> [] then
       (case settlementPayloadFromBlockRecords U blockRecords of
          Inl e \<Rightarrow> (Inl e, s, b)
        | Inr converted \<Rightarrow>
           if commitment U H converted \<noteq> committed
           then (Inl (RootMismatch committed (commitment U H converted)), s, b)
           else execute_payload U env s b committed converted True markExecuted)
     else if SettlementMutationEnabled U env then (Inl (MissingBlockRecords committed), s, b)
     else case map_of (settlementsByRoot s) committed of
       None \<Rightarrow> (Inr 0, s, b)
     | Some payload \<Rightarrow> execute_payload U env s b committed payload False markExecuted)"

definition SettlementRootFromExtra :: "bytes \<Rightarrow> bytes" where
  "SettlementRootFromExtra extra =
    (if length extra \<noteq> 32 then zero_hash
     else if take (length settlement_extra_prefix) extra \<noteq> settlement_extra_prefix then zero_hash
     else extra)"

definition SettlementExtraFromRoot :: "bytes \<Rightarrow> bytes" where
  "SettlementExtraFromRoot r = (if r = zero_hash then [] else r)"

section \<open>Building and importing a block\<close>

definition header_extra :: "(string \<Rightarrow> string) \<Rightarrow> (string \<Rightarrow> string option) \<Rightarrow> settlement_store \<Rightarrow> bytes \<Rightarrow> bytes" where
  "header_extra U env s config_extra =
    (let r = PendingSettlementRoot U env s in if r = zero_hash then config_extra else SettlementExtraFromRoot r)"

definition build_settlement ::
    "(string \<Rightarrow> string) \<Rightarrow> (bytes \<Rightarrow> bytes) \<Rightarrow> (string \<Rightarrow> string option) \<Rightarrow> settlement_store \<Rightarrow> balances \<Rightarrow> bytes \<Rightarrow>
     settlement_error + (block_record list \<times> settlement_store \<times> balances)" where
  "build_settlement U H env s b extra =
    (let r = SettlementRootFromExtra extra; records = (if r = zero_hash then [] else SettlementRecordsForRoot s r)
     in if r \<noteq> zero_hash \<and> SettlementMutationEnabled U env \<and> records = [] then Inl (MissingBlockRecords r)
     else case applyCommittedSettlement U H env s b r records False of
       (Inl e, _, _) \<Rightarrow> Inl e
     | (Inr _, s, b) \<Rightarrow> Inr (records, s, b))"

definition import_settlement ::
    "(string \<Rightarrow> string) \<Rightarrow> (bytes \<Rightarrow> bytes) \<Rightarrow> (string \<Rightarrow> string option) \<Rightarrow> settlement_store \<Rightarrow> balances \<Rightarrow> bytes \<Rightarrow>
     block_record list \<Rightarrow> settlement_error + (settlement_store \<times> balances)" where
  "import_settlement U H env s b extra records =
    (case applyCommittedSettlement U H env s b (SettlementRootFromExtra extra) records True of
       (Inl e, _, _) \<Rightarrow> Inl e
     | (Inr _, s, b) \<Rightarrow> Inr (s, b))"

section \<open>Roots in the extra data\<close>

lemma settlement_extra_prefix_length [simp]: "length settlement_extra_prefix = 4"
  by (simp add: settlement_extra_prefix_def as_bytes_def)

lemma commitment_length: "length (H x) = 32 \<Longrightarrow> length (settlementPayloadCommitment (H x)) = 32"
  by (simp add: settlementPayloadCommitment_def)

lemma commitment_not_zero: "settlementPayloadCommitment r \<noteq> zero_hash"
proof -
  have "hd (settlementPayloadCommitment r) = 84"
    by (simp add: settlementPayloadCommitment_def settlement_extra_prefix_def as_bytes_def)
  then show ?thesis by (auto simp: zero_hash_def)
qed

lemma commitment_extra:
  assumes "\<And>x. length (H x) = 32"
  shows "SettlementRootFromExtra (SettlementExtraFromRoot (commitment U H p)) = commitment U H p"
  using assms commitment_not_zero [of "settlementPayloadRoot U H p"]
  by (simp add: SettlementRootFromExtra_def SettlementExtraFromRoot_def commitment_def settlementPayloadRoot_def
      settlementPayloadCommitment_def)

section \<open>The account state\<close>

lemma GetBalance_Add: "GetBalance (AddBalance a x b) a' = (if a' = a then GetBalance b a + x else GetBalance b a')"
  by (simp add: AddBalance_def GetBalance_def table_simps)

lemma GetBalance_Sub: "GetBalance (SubBalance a x b) a' = (if a' = a then GetBalance b a - x else GetBalance b a')"
  by (simp add: SubBalance_def GetBalance_def table_simps)

text \<open>What the records pay to an address.\<close>

definition paid_to :: "bytes \<Rightarrow> (settlement_record \<times> uint256) list \<Rightarrow> uint256" where
  "paid_to a rs = (\<Sum>(r, x)\<leftarrow>rs. if st_role r \<noteq> ''burned'' \<and> HexToAddress (st_payout_address r) = a then x else 0)"

lemma GetBalance_pay: "GetBalance (pay_records rs b) a = GetBalance b a + paid_to a rs"
  unfolding pay_records_def paid_to_def
  by (induction rs arbitrary: b) (auto simp: GetBalance_Add algebra_simps)

section \<open>Conservation\<close>

definition total_supply :: "balances \<Rightarrow> nat" where
  "total_supply b = (\<Sum>x\<leftarrow>map snd b. unat x)"

lemma supply_nat: "total_supply b = sum_list (map snd (map (\<lambda>(a, x). (a, unat x)) b))"
  by (simp add: total_supply_def case_prod_unfold comp_def)

lemma map_hm_insert:
  "map (\<lambda>(a, x). (a, f x)) (hm_insert k v m) = hm_insert k (f v) (map (\<lambda>(a, x). (a, f x)) m)"
  unfolding hm_insert_def by (induction m) auto

lemma hm_get_or_map_snd: "f d = e \<Longrightarrow> hm_get_or e (map (\<lambda>(a, x). (a, f x)) m) k = f (hm_get_or d m k)"
  unfolding hm_get_or_def map_of_map by (cases "map_of m k") simp_all

lemma hm_ok_map_snd: "hm_ok (map (\<lambda>(a, x). (a, f x)) m) \<longleftrightarrow> hm_ok m"
  by (simp add: hm_ok_def case_prod_unfold comp_def)

lemma supply_insert: "hm_ok b \<Longrightarrow> total_supply (hm_insert a x b) + unat (GetBalance b a) = total_supply b + unat x"
  unfolding supply_nat map_hm_insert GetBalance_def
  using sum_hm_insert_nat [of "map (\<lambda>(a, x). (a, unat x)) b" a "unat x"]
  by (simp add: hm_ok_map_snd hm_get_or_map_snd [of unat 0 0])

lemma GetBalance_le_supply: "unat (GetBalance b a) \<le> total_supply b"
  unfolding supply_nat GetBalance_def
  using hm_get_or_le_sum [of "map (\<lambda>(a, x). (a, unat x)) b" a] by (simp add: hm_get_or_map_snd [of unat 0 0])

lemma unat_add_256: "unat (x :: uint256) + unat y < 2 ^ 256 \<Longrightarrow> unat (x + y) = unat x + unat y"
  by (simp add: unat_word_ariths)

lemma supply_Add:
  assumes "hm_ok b" and "total_supply b + unat x < 2 ^ 256"
  shows "total_supply (AddBalance a x b) = total_supply b + unat x" and "hm_ok (AddBalance a x b)"
proof -
  have "unat (GetBalance b a + x) = unat (GetBalance b a) + unat x"
    using GetBalance_le_supply [of b a] assms(2) by (intro unat_add_256) simp
  with supply_insert [OF assms(1), of a "GetBalance b a + x"]
  show "total_supply (AddBalance a x b) = total_supply b + unat x" by (auto simp: AddBalance_def)
qed (use assms(1) in \<open>simp add: AddBalance_def hm_ok_insert\<close>)

lemma supply_Sub:
  assumes "hm_ok b" and "x \<le> GetBalance b a"
  shows "total_supply (SubBalance a x b) + unat x = total_supply b" and "hm_ok (SubBalance a x b)"
proof -
  have "unat (GetBalance b a - x) = unat (GetBalance b a) - unat x"
    using assms(2) by (rule unat_sub)
  moreover have "unat x \<le> unat (GetBalance b a)" using assms(2) by (simp add: word_le_nat_alt)
  ultimately show "total_supply (SubBalance a x b) + unat x = total_supply b"
    using supply_insert [OF assms(1), of a "GetBalance b a - x"] GetBalance_le_supply [of b a]
    by (auto simp: SubBalance_def)
qed (use assms(1) in \<open>simp add: SubBalance_def hm_ok_insert\<close>)

definition amount_paid :: "(settlement_record \<times> uint256) list \<Rightarrow> nat" where
  "amount_paid rs = (\<Sum>(r, x)\<leftarrow>rs. if st_role r = ''burned'' then 0 else unat x)"

definition amount_burned :: "(settlement_record \<times> uint256) list \<Rightarrow> nat" where
  "amount_burned rs = (\<Sum>(r, x)\<leftarrow>rs. if st_role r = ''burned'' then unat x else 0)"

lemma amounts_split:
  "length rs = length xs \<Longrightarrow> amount_paid (zip rs xs) + amount_burned (zip rs xs) = (\<Sum>x\<leftarrow>xs. unat x)"
  unfolding amount_paid_def amount_burned_def by (induction rs xs rule: list_induct2) auto

lemma supply_pay:
  "hm_ok b \<Longrightarrow> total_supply b + amount_paid rs < 2 ^ 256 \<Longrightarrow>
    total_supply (pay_records rs b) = total_supply b + amount_paid rs \<and> hm_ok (pay_records rs b)"
proof (induction rs arbitrary: b)
  case (Cons r rs)
  then show ?case
    using supply_Add [of b "snd r" "HexToAddress (st_payout_address (fst r))"]
    by (cases r) (auto simp: pay_records_def amount_paid_def)
qed (simp add: pay_records_def amount_paid_def)

lemma unat_sum_256: "(\<Sum>x\<leftarrow>xs. unat (x :: uint256)) < 2 ^ 256 \<Longrightarrow> unat (sum_list xs) = (\<Sum>x\<leftarrow>xs. unat x)"
  by (induction xs) (auto simp: unat_add_256)

lemma settlement_amounts_length: "settlement_amounts p = Some xs \<Longrightarrow> length xs = length (sp_records p)"
  unfolding settlement_amounts_def those_map_Some by (auto dest: list_all2_lengthD)

text \<open>What a settlement that was applied has done.\<close>

lemma applied_settlement:
  assumes "applyCommittedSettlement U H env s b committed records mark = (Inr 1, s', b')"
  obtains payload amounts where "settlementPayloadFromBlockRecords U records = Inr payload"
    and "commitment U H payload = committed" and "settlement_amounts payload = Some amounts"
    and "sum_list amounts \<noteq> 0" and "sum_list amounts \<le> GetBalance b FeeEscrowAddress"
    and "b' = pay_records (zip (sp_records payload) amounts) (SubBalance FeeEscrowAddress (sum_list amounts) b)"
    and "FeeEscrowEnabled U env" and "SettlementMutationEnabled U env" and "committed \<noteq> zero_hash" and "records \<noteq> []"
  using assms
  by (auto simp: applyCommittedSettlement_def execute_payload_def Let_def not_less
      split: if_splits sum.splits option.splits)


section \<open>Agreement\<close>

lemma execute_outcome:
  "hasRecords \<or> \<not> SettlementMutationEnabled U env \<Longrightarrow>
    (\<lambda>(r, s, b). (map_sum id (\<lambda>_. ()) r, b)) (execute_payload U env s1 b committed p hasRecords mark1) =
    (\<lambda>(r, s, b). (map_sum id (\<lambda>_. ()) r, b)) (execute_payload U env s2 b committed p hasRecords mark2)"
  by (auto simp: execute_payload_def Let_def split: option.splits)

lemma apply_outcome:
  "(\<lambda>(r, s, b). (map_sum id (\<lambda>_. ()) r, b)) (applyCommittedSettlement U H env s1 b committed records mark1) =
   (\<lambda>(r, s, b). (map_sum id (\<lambda>_. ()) r, b)) (applyCommittedSettlement U H env s2 b committed records mark2)"
proof -
  have quiet: "(\<lambda>(r, s, b). (map_sum id (\<lambda>_. ()) r, b)) (execute_payload U env s b committed p False mark) = (Inr (), b)"
    if "\<not> SettlementMutationEnabled U env" for s p mark
    using that by (simp add: execute_payload_def Let_def)
  show ?thesis
    using quiet execute_outcome [of True U env s1 b committed _ mark1 s2 mark2]
    unfolding applyCommittedSettlement_def by (auto split: sum.split option.split)
qed

text \<open>
  C15.  Execution nodes agree on settlements.  The outcome of importing a block, its error or the
  accounts after it, does not depend on which settlements a node has seen or executed: any
  two nodes compute the same.  And a block that a builder has built with its pending settlement
  is imported by every node, with the accounts the builder computed.
\<close>

theorem settlement_outcome_agreed:
  "map_sum id snd (import_settlement U H env s1 b extra records) =
     map_sum id snd (import_settlement U H env s2 b extra records) \<and>
   (build_settlement U H env s1 b extra = Inr (built, s1', b') \<longrightarrow>
     (\<exists>s2'. import_settlement U H env s2 b extra built = Inr (s2', b')))"
proof (intro conjI impI)
  let ?apply = "\<lambda>s records. applyCommittedSettlement U H env s b (SettlementRootFromExtra extra) records"
  show "map_sum id snd (import_settlement U H env s1 b extra records) =
      map_sum id snd (import_settlement U H env s2 b extra records)"
    using apply_outcome [of U H env s1 b "SettlementRootFromExtra extra" records True s2 True]
    by (auto simp: import_settlement_def split: prod.splits sum.splits)
  assume "build_settlement U H env s1 b extra = Inr (built, s1', b')"
  then obtain n where "?apply s1 built False = (Inr n, s1', b')"
    by (auto simp: build_settlement_def Let_def split: if_splits prod.splits sum.splits)
  with apply_outcome [of U H env s1 b "SettlementRootFromExtra extra" built False s2 True]
  show "\<exists>s2'. import_settlement U H env s2 b extra built = Inr (s2', b')"
    by (auto simp: import_settlement_def split: prod.splits sum.splits)
qed

section \<open>Payloads in normal form\<close>

definition clean_record :: "(string \<Rightarrow> string) \<Rightarrow> nat \<Rightarrow> settlement_record \<Rightarrow> bool" where
  "clean_record U epoch r \<longleftrightarrow> trim (st_id r) = st_id r \<and> st_id r \<noteq> [] \<and> st_epoch r = epoch \<and>
    st_role r \<in> {''proposer'', ''relay'', ''burned''} \<and>
    normalizeRelayAddress U (st_payout_address r) = st_payout_address r \<and>
    (st_role r = ''burned'' \<or> st_payout_address r \<noteq> []) \<and>
    trim (st_amount_wei r) = st_amount_wei r \<and> amountFromDecimal (st_amount_wei r) \<noteq> None"

definition clean_payload :: "(string \<Rightarrow> string) \<Rightarrow> settlement_payload \<Rightarrow> bool" where
  "clean_payload U p \<longleftrightarrow> sp_domain p = settlement_domain \<and> sp_records p \<noteq> [] \<and>
    list_all (clean_record U (sp_epoch p)) (sp_records p) \<and> distinct (map st_id (sp_records p))"

definition block_records :: "settlement_payload \<Rightarrow> block_record list" where
  "block_records p = map (\<lambda>r. \<lparr>br_finalized_epoch = sp_finalized_epoch p, br_epoch = sp_epoch p,
     br_role = st_role r, br_validator_index = st_validator_index r, br_payout_address = st_payout_address r,
     br_amount_wei = trim (st_amount_wei r), br_id = st_id r\<rparr>) (sp_records p)"

lemma roles_lower: "role \<in> {''proposer'', ''relay'', ''burned''} \<Longrightarrow> to_lower U (trim role) = role"
proof -
  have "trim ''proposer'' = ''proposer''" "trim ''relay'' = ''relay''" "trim ''burned'' = ''burned''"
    "to_ascii_lowercase ''proposer'' = ''proposer''" "to_ascii_lowercase ''relay'' = ''relay''"
    "to_ascii_lowercase ''burned'' = ''burned''" "list_all is_ascii ''proposer''" "list_all is_ascii ''relay''"
    "list_all is_ascii ''burned''"
    by code_simp+
  then show "role \<in> {''proposer'', ''relay'', ''burned''} \<Longrightarrow> to_lower U (trim role) = role"
    by (auto simp: to_lower_def)
qed

lemma checked_record_clean: "clean_record U epoch r \<Longrightarrow> checked_record U epoch r = Inr r"
  using roles_lower [of "st_role r" U] unfolding clean_record_def checked_record_def Let_def by (cases r) auto

lemma checked_records_clean:
  "list_all (clean_record U epoch) rs \<Longrightarrow> distinct (map st_id rs) \<Longrightarrow> set (map st_id rs) \<inter> set seen = {} \<Longrightarrow>
    checked_records U epoch rs seen = Inr rs"
  by (induction rs arbitrary: seen) (auto simp: checked_record_clean)

text \<open>The records carried by a block give back the payload they were made from.\<close>

lemma block_record_round_trip:
  assumes "clean_record U (sp_epoch p) r"
  shows "settlement_of_block_record U \<lparr>br_finalized_epoch = sp_finalized_epoch p, br_epoch = sp_epoch p,
     br_role = st_role r, br_validator_index = st_validator_index r, br_payout_address = st_payout_address r,
     br_amount_wei = trim (st_amount_wei r), br_id = st_id r\<rparr> = r"
  using assms roles_lower [of "st_role r" U]
  unfolding clean_record_def settlement_of_block_record_def Let_def by (cases r) auto

lemma block_records_round_trip:
  assumes "clean_payload U p"
  shows "settlementPayloadFromBlockRecords U (block_records p) = Inr p"
proof -
  obtain d f e rs where p: "p = \<lparr>sp_domain = d, sp_finalized_epoch = f, sp_epoch = e, sp_records = rs\<rparr>" by (cases p)
  have "map (settlement_of_block_record U) (block_records p) = sp_records p"
    unfolding block_records_def map_map comp_def
    using assms block_record_round_trip [of U p] by (intro map_idI) (auto simp: clean_payload_def list_all_iff)
  moreover have "rs \<noteq> []" "d = settlement_domain" using assms by (auto simp: clean_payload_def p)
  ultimately show ?thesis
    by (auto simp: settlementPayloadFromBlockRecords_def block_records_def p Let_def list_ex_iff hd_map)
qed

lemma records_for_root:
  "map_of (settlementsByRoot s) r = Some p \<Longrightarrow> r \<noteq> zero_hash \<Longrightarrow> SettlementRecordsForRoot s r = block_records p"
  by (simp add: SettlementRecordsForRoot_def block_records_def)

lemma evict_short: "length order \<le> 128 \<Longrightarrow> evict_oldest order s = s\<lparr>settlementOrder := order\<rparr>"
  by (cases order) auto

lemma find_last: "(\<And>x. x \<in> set xs \<Longrightarrow> \<not> P x) \<Longrightarrow> P k \<Longrightarrow> find P (xs @ [k]) = Some k"
  by (induction xs) auto

text \<open>Submission to a node without other pending settlements.\<close>

definition no_pending :: "settlement_store \<Rightarrow> bool" where
  "no_pending s \<longleftrightarrow> length (settlementOrder s) < 128 \<and> set (settlementOrder s) \<subseteq> set (executedSettlements s) \<and>
    set (map fst (settlements s)) \<subseteq> set (executedSettlements s)"

lemma submit_clean:
  assumes "clean_payload U p" and "no_pending s" and "show_nat (sp_epoch p) \<notin> set (executedSettlements s)"
  obtains s' where "SubmitSettlement U H s p = (Inr (length (sp_records p)), s')"
    and "map_of (settlementsByRoot s') (commitment U H p) = Some p"
    and "executedSettlements s' = executedSettlements s"
    and "FeeEscrowEnabled U env \<Longrightarrow> PendingSettlementRoot U env s' = commitment U H p"
proof -
  let ?key = "show_nat (sp_epoch p)"
  define s1 where "s1 = s\<lparr>settlementOrder := settlementOrder s @ [?key],
    settlements := hm_insert ?key p (settlements s),
    settlementsByRoot := hm_insert (commitment U H p) p (settlementsByRoot s),
    settlementRootByKey := hm_insert ?key (commitment U H p) (settlementRootByKey s)\<rparr>"
  have d: "trim settlement_domain \<noteq> []" by code_simp
  have fresh: "map_of (settlements s) ?key = None"
    using assms(2,3) by (auto simp: no_pending_def map_of_eq_None_iff)
  have "checked_records U (sp_epoch p) (sp_records p) [] = Inr (sp_records p)"
    using assms(1) by (intro checked_records_clean) (auto simp: clean_payload_def)
  moreover have "sp_domain p = settlement_domain" "sp_records p \<noteq> []" using assms(1) by (auto simp: clean_payload_def)
  moreover have "p\<lparr>sp_records := sp_records p\<rparr> = p" by simp
  ultimately have sub: "SubmitSettlement U H s p = (Inr (length (sp_records p)), evict_oldest (settlementOrder s1) s1)"
    unfolding SubmitSettlement_def Let_def settlementPayloadKey_def s1_def using d fresh assms(3) by simp
  have "length (settlementOrder s1) \<le> 128" using assms(2) by (simp add: s1_def no_pending_def)
  then have e: "evict_oldest (settlementOrder s1) s1 = s1" by (simp add: evict_short)
  have "find (\<lambda>key. key \<notin> set (executedSettlements s1) \<and> root_for_key s1 key \<noteq> zero_hash) (settlementOrder s1) = Some ?key"
    using assms(2,3) commitment_not_zero [of "settlementPayloadRoot U H p"]
    by (auto simp: s1_def no_pending_def root_for_key_def commitment_def table_simps intro!: find_last)
  moreover have "root_for_key s1 ?key = commitment U H p" by (simp add: s1_def root_for_key_def table_simps)
  ultimately have "FeeEscrowEnabled U env \<Longrightarrow> PendingSettlementRoot U env s1 = commitment U H p"
    by (simp add: PendingSettlementRoot_def)
  with that [of s1] sub show ?thesis unfolding e by (simp add: s1_def table_simps)
qed

section \<open>Executing a payload in normal form\<close>

lemma apply_clean:
  assumes "clean_payload U p" and "FeeEscrowEnabled U env"
  shows "applyCommittedSettlement U H env s b (commitment U H p) (block_records p) mark =
    execute_payload U env s b (commitment U H p) p True mark"
proof -
  have "block_records p \<noteq> []" using assms(1) by (simp add: block_records_def clean_payload_def)
  with assms block_records_round_trip [OF assms(1)] commitment_not_zero [of "settlementPayloadRoot U H p"]
  show ?thesis by (simp add: applyCommittedSettlement_def commitment_def)
qed

lemma root_from_commitment:
  assumes "\<And>x. length (H x) = 32"
  shows "SettlementRootFromExtra (commitment U H p) = commitment U H p"
  using commitment_extra [where H = H and U = U and p = p, OF assms] commitment_not_zero [of "settlementPayloadRoot U H p"]
  by (simp add: SettlementExtraFromRoot_def commitment_def)

lemma import_clean:
  assumes "clean_payload U p" and "FeeEscrowEnabled U env" and "\<And>x. length (H x) = 32"
  shows "import_settlement U H env s b (commitment U H p) (block_records p) =
    (case execute_payload U env s b (commitment U H p) p True True of
       (Inl e, _, _) \<Rightarrow> Inl e | (Inr _, s, b) \<Rightarrow> Inr (s, b))"
  unfolding import_settlement_def root_from_commitment [OF assms(3)] apply_clean [OF assms(1,2)] ..

lemma build_clean:
  assumes "clean_payload U p" and "FeeEscrowEnabled U env" and "\<And>x. length (H x) = 32"
    and "map_of (settlementsByRoot s) (commitment U H p) = Some p"
    and "PendingSettlementRoot U env s = commitment U H p"
  shows "header_extra U env s config_extra = commitment U H p"
    and "build_settlement U H env s b (header_extra U env s config_extra) =
      (case execute_payload U env s b (commitment U H p) p True False of
         (Inl e, _, _) \<Rightarrow> Inl e | (Inr _, s, b) \<Rightarrow> Inr (block_records p, s, b))"
proof -
  have nz: "commitment U H p \<noteq> zero_hash" by (simp add: commitment_def commitment_not_zero)
  with assms(5) show extra: "header_extra U env s config_extra = commitment U H p"
    by (simp add: header_extra_def SettlementExtraFromRoot_def)
  have "block_records p \<noteq> []" using assms(1) by (simp add: block_records_def clean_payload_def)
  then show "build_settlement U H env s b (header_extra U env s config_extra) =
      (case execute_payload U env s b (commitment U H p) p True False of
         (Inl e, _, _) \<Rightarrow> Inl e | (Inr _, s, b) \<Rightarrow> Inr (block_records p, s, b))"
    unfolding extra build_settlement_def root_from_commitment [OF assms(3)] Let_def
    unfolding records_for_root [OF assms(4) nz] using nz by (simp add: apply_clean [OF assms(1,2)])
qed

lemma execute_clean:
  assumes "SettlementMutationEnabled U env" and "settlement_amounts p = Some amounts" and "sum_list amounts \<noteq> 0"
    and "sum_list amounts \<le> GetBalance b FeeEscrowAddress"
  shows "execute_payload U env s b c p True mark =
    (Inr 1, if mark then mark_executed (show_nat (sp_epoch p)) s else s,
     pay_records (zip (sp_records p) amounts) (SubBalance FeeEscrowAddress (sum_list amounts) b))"
  using assms by (simp add: execute_payload_def settlementPayloadKey_def Let_def not_less [symmetric])

lemma parse_digits_decimal: "n < 2 ^ 256 \<Longrightarrow> amountFromDecimal (show_nat n) = Some n"
proof -
  assume n: "n < 2 ^ 256"
  obtain c r where s: "show_nat n = c # r" by (cases "show_nat n") auto
  then have "is_digit c" using show_nat_digits [of c n] by simp
  then have "c \<noteq> CHR ''-''" "c \<noteq> CHR ''+''" by (auto simp: is_digit_def)
  with s parse_digits_show [OF n] trim_show_nat [of n] show ?thesis by (simp add: amountFromDecimal_def Let_def)
qed

lemma hex_bytes_not_Nil [simp]: "hex_bytes bs \<noteq> []"
  by (simp add: hex_bytes_def)

lemma trim_hex_bytes: "trim (hex_bytes bs) = hex_bytes bs"
  using trim_0x [OF hex_bytes_digits [of bs]] by (simp add: hex_bytes_def)

lemma normalize_hex_bytes: "length bs = 20 \<Longrightarrow> normalizeRelayAddress U (hex_bytes bs) = hex_bytes bs"
  by (simp add: normalizeRelayAddress_def trim_hex_bytes IsHexAddress_hex_bytes HexToAddress_hex_bytes)

text \<open>
  C35.  A block can pay the escrow to anyone.  The records of a block are checked only against
  the commitment in the same block: for every account with a 20-byte address, every amount the
  escrow holds, and every epoch, even one whose settlement was executed before, some block
  makes every node pay that amount to that account.
\<close>

theorem forged_settlement_drains_escrow:
  assumes "FeeEscrowEnabled U env" and "SettlementMutationEnabled U env" and "\<And>x. length (H x) = 32"
    and "length a = 20" and "a \<noteq> FeeEscrowAddress" and "x \<noteq> 0" and "x \<le> GetBalance b FeeEscrowAddress"
  shows "\<exists>extra records. list_all (\<lambda>r. br_epoch r = epoch) records \<and>
    (\<forall>s. \<exists>s' b'. import_settlement U H env s b extra records = Inr (s', b') \<and>
      GetBalance b' a = GetBalance b a + x \<and>
      GetBalance b' FeeEscrowAddress = GetBalance b FeeEscrowAddress - x)"
proof -
  let ?r = "\<lparr>st_id = ''x'', st_epoch = epoch, st_role = ''relay'', st_validator_index = 0,
    st_payout_address = hex_bytes a, st_amount_wei = show_nat (unat x)\<rparr>"
  define p where "p = \<lparr>sp_domain = settlement_domain, sp_finalized_epoch = 0, sp_epoch = epoch, sp_records = [?r]\<rparr>"
  have "unat x < 2 ^ LENGTH(256)" by (rule unsigned_less)
  then have amount: "amountFromDecimal (show_nat (unat x)) = Some (unat x)" by (intro parse_digits_decimal) simp
  have "trim ''x'' = ''x''" by code_simp
  with amount have clean: "clean_payload U p"
    by (simp add: clean_payload_def clean_record_def p_def normalize_hex_bytes assms(4))
  have amounts: "settlement_amounts p = Some [x]" by (simp add: settlement_amounts_def p_def amount)
  have "list_all (\<lambda>r. br_epoch r = epoch) (block_records p)" by (simp add: block_records_def p_def)
  moreover have "\<exists>s' b'. import_settlement U H env s b (commitment U H p) (block_records p) = Inr (s', b') \<and>
      GetBalance b' a = GetBalance b a + x \<and>
      GetBalance b' FeeEscrowAddress = GetBalance b FeeEscrowAddress - x" for s
    unfolding import_clean [OF clean assms(1,3)]
    using execute_clean [OF assms(2) amounts, of b s] assms(4-7)
    by (simp add: GetBalance_pay GetBalance_Sub paid_to_def p_def HexToAddress_hex_bytes)
  ultimately show ?thesis by blast
qed

text \<open>
  A settlement of nothing stops block building.  A node with no other pending settlement
  accepts a well-formed settlement whose amounts add up to zero; from then on building a block
  fails, whatever the accounts hold and whatever extra data is configured, and the node keeps
  the settlement as its next one.
\<close>

theorem zero_settlement_stops_building:
  assumes "FeeEscrowEnabled U env" and "SettlementMutationEnabled U env" and "\<And>x. length (H x) = 32"
    and "no_pending s" and "show_nat (sp_epoch p) \<notin> set (executedSettlements s)"
    and "clean_payload U p" and "settlement_amounts p = Some amounts" and "sum_list amounts = 0"
  shows "\<exists>s'. SubmitSettlement U H s p = (Inr (length (sp_records p)), s') \<and>
    (\<forall>b config_extra. build_settlement U H env s' b (header_extra U env s' config_extra) = Inl (ZeroTotal (commitment U H p)))"
proof -
  obtain s' where s': "SubmitSettlement U H s p = (Inr (length (sp_records p)), s')"
      "map_of (settlementsByRoot s') (commitment U H p) = Some p" "PendingSettlementRoot U env s' = commitment U H p"
    using submit_clean [OF assms(6,4,5)] assms(1) by metis
  have "execute_payload U env s' b (commitment U H p) p True False = (Inl (ZeroTotal (commitment U H p)), s', b)" for b
    using assms(2,7,8) by (simp add: execute_payload_def Let_def)
  with build_clean(2) [OF assms(6,1,3) s'(2,3)] s'(1) show ?thesis by auto
qed

section \<open>Concrete settlements\<close>

definition geth_env :: "string \<Rightarrow> string option" where
  "geth_env = (\<lambda>key. if key \<in> {''TOPOSTAKE_FEE_ESCROW'', ''TOPOSTAKE_SETTLEMENT_MUTATION''} then Some ''on'' else None)"

definition zero_digest :: "bytes \<Rightarrow> bytes" where
  "zero_digest = (\<lambda>_. replicate 32 0)"

definition relay_account :: bytes where
  "relay_account = replicate 20 1"

definition two_records :: "nat \<Rightarrow> nat \<Rightarrow> string \<Rightarrow> settlement_payload" where
  "two_records m n role = \<lparr>sp_domain = settlement_domain, sp_finalized_epoch = 7, sp_epoch = 5, sp_records =
     [\<lparr>st_id = ''a'', st_epoch = 5, st_role = ''relay'', st_validator_index = 2,
       st_payout_address = hex_bytes relay_account, st_amount_wei = show_nat m\<rparr>,
      \<lparr>st_id = ''b'', st_epoch = 5, st_role = role, st_validator_index = 3,
       st_payout_address = hex_bytes relay_account, st_amount_wei = show_nat n\<rparr>]\<rparr>"

lemma geth_env_on [simp]: "FeeEscrowEnabled id geth_env" "SettlementMutationEnabled id geth_env"
proof -
  have "trim ''on'' = ''on''" "to_lower id ''on'' = ''on''" by code_simp+
  then show "FeeEscrowEnabled id geth_env" "SettlementMutationEnabled id geth_env"
    by (simp_all add: FeeEscrowEnabled_def SettlementMutationEnabled_def getenv_def geth_env_def)
qed

lemma zero_digest_length [simp]: "length (zero_digest x) = 32"
  by (simp add: zero_digest_def)

lemma relay_account_not_escrow: "relay_account \<noteq> FeeEscrowAddress" "length relay_account = 20"
proof -
  have "hd FeeEscrowAddress = 0" by code_simp
  moreover have "hd relay_account = 1" by (simp add: relay_account_def)
  ultimately show "relay_account \<noteq> FeeEscrowAddress" by auto
  show "length relay_account = 20" by (simp add: relay_account_def)
qed

lemma two_records_clean:
  assumes "m < 2 ^ 256" and "n < 2 ^ 256" and "role \<in> {''relay'', ''burned''}"
  shows "clean_payload id (two_records m n role)"
    and "settlement_amounts (two_records m n role) = Some [of_nat m, of_nat n]"
proof -
  have "trim ''a'' = ''a''" "trim ''b'' = ''b''" by code_simp+
  with assms show "clean_payload id (two_records m n role)"
      "settlement_amounts (two_records m n role) = Some [of_nat m, of_nat n]"
    by (auto simp: clean_payload_def clean_record_def two_records_def normalize_hex_bytes relay_account_not_escrow
        settlement_amounts_def parse_digits_decimal simp del: power_numeral)
qed


lemma settlement_outcome_agreed_witness:
  "\<exists>built s1 b' s2'. build_settlement id zero_digest geth_env
      (snd (SubmitSettlement id zero_digest empty_store (two_records 600 300 ''burned''))) [(FeeEscrowAddress, 1000)]
      (commitment id zero_digest (two_records 600 300 ''burned'')) = Inr (built, s1, b') \<and>
    import_settlement id zero_digest geth_env empty_store [(FeeEscrowAddress, 1000)]
      (commitment id zero_digest (two_records 600 300 ''burned'')) built = Inr (s2', b')"
proof -
  let ?p = "two_records 600 300 ''burned''" and ?b = "[(FeeEscrowAddress, 1000 :: uint256)]"
  have "(600 :: nat) < 2 ^ 256" "(300 :: nat) < 2 ^ 256" by simp_all
  note clean = two_records_clean [OF this, of "''burned''", simplified]
  have "no_pending empty_store" "show_nat (sp_epoch ?p) \<notin> set (executedSettlements empty_store)"
    by (simp_all add: no_pending_def empty_store_def)
  then obtain s where s: "SubmitSettlement id zero_digest empty_store ?p = (Inr (length (sp_records ?p)), s)"
      "map_of (settlementsByRoot s) (commitment id zero_digest ?p) = Some ?p"
      "PendingSettlementRoot id geth_env s = commitment id zero_digest ?p"
    using submit_clean [OF clean(1), of empty_store zero_digest geth_env] geth_env_on(1) by metis
  note build = build_clean [where H = zero_digest, OF clean(1) geth_env_on(1) zero_digest_length s(2,3)]
  have "GetBalance ?b FeeEscrowAddress = 1000" by (simp add: GetBalance_def hm_get_or_def)
  then obtain b' where "build_settlement id zero_digest geth_env s ?b (commitment id zero_digest ?p) = Inr (block_records ?p, s, b')"
    using build(2) [where b = ?b] execute_clean [OF geth_env_on(2) clean(2), of ?b s _ False] unfolding build(1) by simp
  with settlement_outcome_agreed [of id zero_digest geth_env s ?b "commitment id zero_digest ?p" _ empty_store "block_records ?p" s b']
  show ?thesis unfolding s(1) by auto
qed

lemma forged_settlement_drains_escrow_witness:
  "\<exists>extra records s' b'. import_settlement id zero_digest geth_env
      (mark_executed (show_nat 5) empty_store) [(FeeEscrowAddress, 1000)] extra records = Inr (s', b') \<and>
    GetBalance b' relay_account = 1000 \<and> GetBalance b' FeeEscrowAddress = 0"
proof -
  let ?b = "[(FeeEscrowAddress, 1000 :: uint256)]"
  have bal: "GetBalance ?b FeeEscrowAddress = 1000" "GetBalance ?b relay_account = 0"
    using relay_account_not_escrow by (simp_all add: GetBalance_def hm_get_or_def)
  show ?thesis
    using forged_settlement_drains_escrow [where H = zero_digest and b = ?b and x = 1000 and epoch = 5,
        OF geth_env_on zero_digest_length relay_account_not_escrow(2,1)] bal
    by fastforce
qed

lemma zero_settlement_stops_building_witness:
  "\<exists>s'. SubmitSettlement id zero_digest empty_store (two_records 0 0 ''relay'') = (Inr 2, s') \<and>
    build_settlement id zero_digest geth_env s' [(FeeEscrowAddress, 1000)] (header_extra id geth_env s' []) =
      Inl (ZeroTotal (commitment id zero_digest (two_records 0 0 ''relay'')))"
proof -
  have "(0 :: nat) < 2 ^ 256" by simp
  note clean = two_records_clean [OF this this, of "''relay''", simplified]
  have "no_pending empty_store" "show_nat (sp_epoch (two_records 0 0 ''relay'')) \<notin> set (executedSettlements empty_store)"
    by (simp_all add: no_pending_def empty_store_def)
  from zero_settlement_stops_building [where H = zero_digest, OF geth_env_on zero_digest_length this clean] show ?thesis
    by (auto simp: two_records_def)
qed

text \<open>
  The sum of the amounts wraps at 256 bits before it is compared with the escrow: when two
  amounts add up to \<open>2 ^ 256 + x\<close>, an escrow that holds no more than \<open>x\<close> pays either of them.
\<close>

lemma settlement_sum_wraps:
  assumes "m < 2 ^ 256" and "n < 2 ^ 256" and "m + n = 2 ^ 256 + x" and "0 < x"
  shows "\<exists>s' b'. import_settlement id zero_digest geth_env empty_store [(FeeEscrowAddress, of_nat x)]
      (commitment id zero_digest (two_records m n ''burned'')) (block_records (two_records m n ''burned'')) = Inr (s', b') \<and>
    unat (GetBalance b' relay_account) = m"
proof -
  let ?p = "two_records m n ''burned''" and ?b = "[(FeeEscrowAddress, of_nat x :: uint256)]"
  note clean = two_records_clean [OF assms(1,2), of "''burned''", simplified insert_iff simp_thms]
  have bal: "GetBalance ?b FeeEscrowAddress = of_nat x" "GetBalance ?b relay_account = 0"
    using relay_account_not_escrow by (simp_all add: GetBalance_def hm_get_or_def)
  have zero: "(of_nat (2 ^ 256) :: uint256) = 0" by simp
  have sum: "sum_list [of_nat m, of_nat n] = (of_nat x :: uint256)"
    using arg_cong [OF assms(3), of "of_nat :: nat \<Rightarrow> uint256"] zero by (simp del: power_numeral)
  have x: "x < 2 ^ 256" using assms(1-3) by linarith
  have small: "unat (of_nat k :: uint256) = k" if "k < 2 ^ 256" for k
    using that by (simp add: unat_of_nat)
  have "(of_nat x :: uint256) \<noteq> 0" using small [OF x] assms(4) by (metis less_irrefl unat_0)
  with execute_clean [OF geth_env_on(2) clean(2), of ?b empty_store _ True] sum bal
  have run: "import_settlement id zero_digest geth_env empty_store ?b (commitment id zero_digest ?p) (block_records ?p) =
      Inr (mark_executed (show_nat (sp_epoch ?p)) empty_store,
        pay_records (zip (sp_records ?p) [of_nat m, of_nat n]) (SubBalance FeeEscrowAddress (of_nat x) ?b))"
    by (simp add: import_clean [where H = zero_digest, OF clean(1) geth_env_on(1) zero_digest_length])
  have "paid_to relay_account (zip (sp_records ?p) [of_nat m, of_nat n]) = of_nat m"
    by (simp add: paid_to_def two_records_def HexToAddress_hex_bytes relay_account_not_escrow)
  then show ?thesis
    using run bal relay_account_not_escrow small [OF assms(1)] by (simp add: GetBalance_pay GetBalance_Sub)
qed

end
