(* ===== verification/Beacon_Ledger.thy ===== *)
theory Beacon_Ledger
  imports Beacon_Steps
begin

text \<open>
  The fee ledger of the consensus client.  Every recorded fee is divided into the proposer's
  part, the relays' parts and what is burned, and nothing is lost or created, as long as the
  epoch's total stays below the largest \<open>u64\<close>.  A transaction is credited at most once however
  often, and in whatever epoch, its evidence is presented.
\<close>

section \<open>One fee\<close>

lemma sum_scaled_le:
  "sum_list (map (\<lambda>p. scaled_mul_div b (snd p) SCALE) ps) \<le> b * sum_list (map snd ps) div SCALE"
  for ps :: "('a \<times> nat) list"
proof -
  have "sum_list (map (\<lambda>p. scaled_mul_div b (snd p) SCALE) ps)
      \<le> sum_list (map (\<lambda>p. b * snd p div SCALE) ps)"
    by (intro sum_list_map_mono scaled_mul_div_le)
  also have "\<dots> = sum_list (map (\<lambda>w. b * w div SCALE) (map snd ps))" by (simp add: comp_def)
  also have "\<dots> \<le> b * sum_list (map snd ps) div SCALE" by (rule sum_list_shares) simp
  finally show ?thesis .
qed

text \<open>The relays of a path share at most the relay budget.\<close>

lemma relay_credits_sum: "sum_list (map snd (relay_credits_of spec path b)) \<le> b"
proof -
  let ?cs = "topostake_path_relay_contributions path spec"
  have "sum_list (map snd (relay_credits_of spec path b)) =
      sum_list (map (\<lambda>p. scaled_mul_div b (snd p) SCALE) ?cs)"
    unfolding relay_credits_of_def sum_list_filter_pos by (simp add: comp_def case_prod_unfold)
  also have "\<dots> \<le> b * sum_list (map snd ?cs) div SCALE" by (rule sum_scaled_le)
  also have "\<dots> \<le> b * SCALE div SCALE"
    using order_trans [OF contributions_sum path_budget_le] by (intro div_le_mono mult_le_mono) simp_all
  finally show ?thesis by simp
qed

lemma sum_u64_exact: "sum_list xs < 2 ^ 64 \<Longrightarrow> sum_u64 xs = sum_list xs"
  by (simp add: sum_u64_def)

lemma hm_sat_add_sum:
  assumes "hm_ok m" and "sum_list (map snd m) + x < 2 ^ 64"
  shows "hm_ok (hm_sat_add k x m)" and "sum_list (map snd (hm_sat_add k x m)) = sum_list (map snd m) + x"
proof -
  have "hm_get_or 0 m k + x < 2 ^ 64" using assms(2) hm_get_or_le_sum [of m k] by linarith
  then have "sat64 (hm_get_or 0 m k + x) = hm_get_or 0 m k + x" by (rule sat64_id)
  with sum_hm_insert_nat [OF assms(1), of k "hm_get_or 0 m k + x"]
  show "sum_list (map snd (hm_sat_add k x m)) = sum_list (map snd m) + x"
    by (simp add: hm_sat_add_def)
  show "hm_ok (hm_sat_add k x m)" using assms(1) by (simp add: hm_sat_add_def hm_ok_insert)
qed

lemma hm_ok_fold_sat_add: "hm_ok m \<Longrightarrow> hm_ok (fold (\<lambda>(v, c). hm_sat_add v c) cs m)"
  by (induction cs arbitrary: m) (auto simp: hm_sat_add_def hm_ok_insert)

lemma fold_sat_add_sum:
  assumes "hm_ok m" and "sum_list (map snd m) + sum_list (map snd cs) < 2 ^ 64"
  shows "sum_list (map snd (fold (\<lambda>(v, c). hm_sat_add v c) cs m)) = sum_list (map snd m) + sum_list (map snd cs)"
  using assms
proof (induction cs arbitrary: m)
  case (Cons p cs)
  obtain v c where p: "p = (v, c)" by (cases p)
  have "sum_list (map snd m) + c < 2 ^ 64" using Cons.prems(2) by (simp add: p)
  note add = hm_sat_add_sum [OF Cons.prems(1) this, of v]
  from Cons.IH [OF add(1)] Cons.prems(2) show ?case by (simp add: p add(2) add.assoc)
qed simp

section \<open>The ledger of an epoch\<close>

definition ledger_balanced :: "epoch_runtime \<Rightarrow> bool" where
  "ledger_balanced er \<longleftrightarrow>
    sum_list (hm_values (er_proposer_credits er)) + sum_list (hm_values (er_relay_credits er)) +
      er_burned_credit_scaled er = er_total_credit_budget_scaled er"

definition ledger_ok :: "chain_spec \<Rightarrow> epoch \<Rightarrow> epoch_runtime \<Rightarrow> bool" where
  "ledger_ok spec e er \<longleftrightarrow>
    hm_ok (er_proposer_credits er) \<and> hm_ok (er_relay_credits er) \<and>
    (proposer_fee_ratio_scaled (topostake_config spec) \<le> SCALE \<longrightarrow>
      er_total_credit_budget_scaled er < u64_max \<longrightarrow> ledger_balanced er)"

lemma u64_max_less: "n < u64_max \<Longrightarrow> n < 2 ^ 64"
  unfolding u64_max_def by simp

lemma sat64_below_max: "sat64 n < u64_max \<Longrightarrow> sat64 n = n \<and> n < u64_max"
  by (auto simp: sat64_def u64_max_def min_def split: if_splits)

lemma record_credit_ledger:
  assumes "ledger_ok spec e er"
  shows "ledger_ok spec e (record_topostake_credit er epoch proposer path fee spec)"
proof (cases "fee = 0")
  case True
  with assms show ?thesis by (simp add: record_topostake_credit_def)
next
  case False
  let ?er = "record_topostake_credit er epoch proposer path fee spec"
  let ?pc = "scaled_mul_div fee (proposer_fee_ratio_scaled (topostake_config spec)) SCALE"
  let ?cs = "relay_credits_of spec path (fee - ?pc)"
  let ?P = "er_proposer_credits er" and ?R = "er_relay_credits er"
  have ok: "hm_ok ?P" "hm_ok ?R" using assms by (simp_all add: ledger_ok_def)
  have "ledger_balanced ?er"
    if ratio: "proposer_fee_ratio_scaled (topostake_config spec) \<le> SCALE"
      and tot: "er_total_credit_budget_scaled ?er < u64_max"
  proof -
    have sum: "er_total_credit_budget_scaled ?er = er_total_credit_budget_scaled er + fee"
      "er_total_credit_budget_scaled er + fee < u64_max"
      using tot False sat64_below_max [of "er_total_credit_budget_scaled er + fee"]
      by (simp_all add: record_topostake_credit_def Let_def)
    then have bal: "ledger_balanced er" using assms ratio by (simp add: ledger_ok_def)
    have lt: "er_total_credit_budget_scaled er + fee < 2 ^ 64" using sum by (intro u64_max_less)
    have pc: "?pc \<le> fee" using ratio by (rule scaled_mul_div_fraction)
    have cs: "sum_list (map snd ?cs) \<le> fee - ?pc" by (rule relay_credits_sum)
    have dist: "sum_u64 (map snd ?cs) = sum_list (map snd ?cs)"
      using cs lt by (intro sum_u64_exact) linarith
    have b: "sum_list (map snd ?P) + sum_list (map snd ?R) + er_burned_credit_scaled er =
        er_total_credit_budget_scaled er"
      using bal by (simp add: ledger_balanced_def hm_values_def)
    have P: "sum_list (map snd (hm_sat_add proposer ?pc ?P)) = sum_list (map snd ?P) + ?pc"
      using b lt pc by (intro hm_sat_add_sum ok) linarith
    have R: "sum_list (map snd (fold (\<lambda>(v, c). hm_sat_add v c) ?cs ?R)) =
        sum_list (map snd ?R) + sum_list (map snd ?cs)"
      using b lt cs by (intro fold_sat_add_sum ok) linarith
    have B: "sat64 (er_burned_credit_scaled er + (fee - ?pc - sum_list (map snd ?cs))) =
        er_burned_credit_scaled er + (fee - ?pc - sum_list (map snd ?cs))"
      using b lt by (intro sat64_id) linarith
    have "ledger_balanced ?er \<longleftrightarrow>
        (sum_list (map snd ?P) + ?pc) + (sum_list (map snd ?R) + sum_list (map snd ?cs)) +
        (er_burned_credit_scaled er + (fee - ?pc - sum_list (map snd ?cs))) =
        er_total_credit_budget_scaled er + fee"
      using False sum(1)
      by (simp add: ledger_balanced_def record_topostake_credit_def Let_def hm_values_def P R B dist
          del: diff_diff_left)
    with b pc cs show ?thesis by linarith
  qed
  moreover have "hm_ok (er_proposer_credits ?er)" "hm_ok (er_relay_credits ?er)"
    using ok False
    by (simp_all add: record_topostake_credit_def Let_def hm_ok_fold_sat_add)
       (simp add: hm_sat_add_def hm_ok_insert)
  ultimately show ?thesis by (simp add: ledger_ok_def)
qed

interpretation fee_ledger: epoch_invariant ledger_ok
proof unfold_locales
  fix spec e er path tx fee cost p
  assume "ledger_ok spec e er"
  then show "ledger_ok spec e (accept_path er e tx path fee cost p spec)"
    unfolding accept_path_def
    by (intro record_credit_ledger) (simp add: ledger_ok_def ledger_balanced_def)
qed (auto simp: ledger_ok_def ledger_balanced_def epoch_runtime_default_def hm_ok_def hm_values_def
    settle_epoch_runtime_def)

lemma ledger_summary:
  assumes "ledger_balanced er" and "er_total_credit_budget_scaled er < u64_max"
  shows "cs_proposer_credit_scaled (credit_summary er e) + cs_relay_credit_scaled (credit_summary er e) +
      cs_burned_credit_scaled (credit_summary er e) = cs_total_budget_scaled (credit_summary er e)"
    and "\<not> cs_conservation_violation (credit_summary er e)"
proof -
  let ?p = "sum_list (hm_values (er_proposer_credits er))"
  let ?r = "sum_list (hm_values (er_relay_credits er))"
  have b: "?p + ?r + er_burned_credit_scaled er = er_total_credit_budget_scaled er"
    using assms(1) by (simp add: ledger_balanced_def)
  have lt: "er_total_credit_budget_scaled er < 2 ^ 64" using assms(2) by (rule u64_max_less)
  have s: "sum_u64 (hm_values (er_proposer_credits er)) = ?p" "sum_u64 (hm_values (er_relay_credits er)) = ?r"
    using b lt by (auto intro!: sum_u64_exact simp del: power_numeral)
  have "sat64 (sat64 (?p + ?r) + er_burned_credit_scaled er) = er_total_credit_budget_scaled er"
    using b lt by (simp add: sat64_id del: power_numeral)
  with b s show "cs_proposer_credit_scaled (credit_summary er e) + cs_relay_credit_scaled (credit_summary er e) +
      cs_burned_credit_scaled (credit_summary er e) = cs_total_budget_scaled (credit_summary er e)"
    and "\<not> cs_conservation_violation (credit_summary er e)"
    by (simp_all add: credit_summary_def Let_def)
qed

text \<open>
  C8.  The fee ledger conserves value.  In every epoch of every runtime that operations can
  produce, what the proposers, the relays and the burn account received adds up to the fees
  recorded, and the summary reports no violation, provided the configured proposer ratio is
  at most one and the epoch's total is below the largest \<open>u64\<close>.
\<close>

theorem fee_ledger_conserved:
  assumes "runtime_reachable env spec rt"
    and "proposer_fee_ratio_scaled (topostake_config spec) \<le> SCALE"
    and "map_of (rt_epochs rt) e = Some er"
    and "er_total_credit_budget_scaled er < u64_max"
  shows "let s = credit_summary er e in
    cs_proposer_credit_scaled s + cs_relay_credit_scaled s + cs_burned_credit_scaled s = cs_total_budget_scaled s
    \<and> cs_total_budget_scaled s = er_total_credit_budget_scaled er
    \<and> \<not> cs_conservation_violation s"
proof -
  have "ledger_ok spec e er"
    using fee_ledger.reachable [OF assms(1)] assms(3) by (rule all_epochs_get)
  then have "ledger_balanced er" using assms by (simp add: ledger_ok_def)
  from ledger_summary [OF this assms(4), of e] show ?thesis
    unfolding Let_def by (simp add: credit_summary_def Let_def)
qed

lemma fee_ledger_conserved_witness:
  "let s = credit_summary devnet_epoch 5 in
    cs_proposer_credit_scaled s + cs_relay_credit_scaled s + cs_burned_credit_scaled s = cs_total_budget_scaled s
    \<and> cs_total_budget_scaled s = er_total_credit_budget_scaled devnet_epoch
    \<and> \<not> cs_conservation_violation s"
  by (rule fee_ledger_conserved [OF devnet_reachable])
     (simp_all add: devnet_config topostake_fixed_point_scale_def devnet_rt_def devnet_epoch_def u64_max_def)

section \<open>A transaction is credited once\<close>

text \<open>What an epoch has credited so far.\<close>

definition ledger_view :: "epoch_runtime \<Rightarrow> (nat, nat) hash_map \<times> (nat, nat) hash_map \<times> (nat, nat) hash_map \<times>
    nat \<times> nat \<times> credit_record list" where
  "ledger_view er = (er_raw_contributions er, er_proposer_credits er, er_relay_credits er,
     er_total_credit_budget_scaled er, er_burned_credit_scaled er, er_credit_records er)"

lemma epoch_entry_put: "epoch_entry (put_epoch rt e er) e' = (if e' = e then er else epoch_entry rt e')"
  by (simp add: epoch_entry_def put_epoch_def table_simps)

lemma accepted_put [simp]: "rt_accepted_tx_hashes (put_epoch rt e er) = rt_accepted_tx_hashes rt"
  by (simp add: put_epoch_def)

lemma mark_invalid_frame:
  "rt_accepted_tx_hashes (snd (mark_invalid rt e)) = rt_accepted_tx_hashes rt"
  "ledger_view (epoch_entry (snd (mark_invalid rt e)) e') = ledger_view (epoch_entry rt e')"
  "\<not> is_valid (fst (mark_invalid rt e))"
  by (simp_all add: mark_invalid_def Let_def epoch_entry_put ledger_view_def is_valid_def)

lemma gossip_path_accepted:
  "set (rt_accepted_tx_hashes rt) \<subseteq> set (rt_accepted_tx_hashes (snd (record_gossip_path rt e p q spec)))"
  using mark_invalid_frame(1) [of rt e]
  by (auto simp: record_gossip_path_def Let_def case_prod_unfold hs_insert_def split: sum.splits)

lemma gossip_path_valid_registers:
  "is_valid (fst (record_gossip_path rt e p q spec)) \<Longrightarrow>
    pe_tx_hash q \<in> set (rt_accepted_tx_hashes (snd (record_gossip_path rt e p q spec)))"
  using mark_invalid_frame(3) [of rt e]
  by (auto simp: record_gossip_path_def Let_def case_prod_unfold hs_insert_def is_valid_def
      split: sum.splits if_splits)

text \<open>Evidence for a transaction that was accepted before changes no ledger.\<close>

lemma gossip_path_replay:
  assumes "pe_tx_hash q \<in> set (rt_accepted_tx_hashes rt)"
  shows "\<not> is_valid (fst (record_gossip_path rt e p q spec))"
    and "ledger_view (epoch_entry (snd (record_gossip_path rt e p q spec)) e') = ledger_view (epoch_entry rt e')"
  using assms mark_invalid_frame [of rt e]
  by (simp_all add: record_gossip_path_def Let_def is_valid_def epoch_entry_put ledger_view_def split: sum.split)

lemma gossip_paths_accepted:
  "set (rt_accepted_tx_hashes rt) \<subseteq> set (rt_accepted_tx_hashes (snd (record_gossip_paths rt e p qs spec)))"
proof (induction qs arbitrary: rt)
  case (Cons q qs)
  from order_trans [OF gossip_path_accepted Cons.IH] show ?case
    by (simp add: case_prod_unfold Let_def)
qed simp

lemma mark_times_accepted:
  "rt_accepted_tx_hashes (snd (mark_invalid_times rt e n)) = rt_accepted_tx_hashes rt"
  by (induction n arbitrary: rt) (simp_all add: case_prod_unfold Let_def mark_invalid_frame(1))

lemma settle_epochs_accepted:
  "rt_accepted_tx_hashes (snd (settle_epochs c b t es rt)) = rt_accepted_tx_hashes rt"
proof (induction es arbitrary: rt)
  case (Cons e es)
  have "rt_accepted_tx_hashes (snd (settle_one_epoch c b t e rt)) = rt_accepted_tx_hashes rt"
    by (simp add: settle_one_epoch_def Let_def split: option.split)
  with Cons show ?case by (simp add: case_prod_unfold Let_def)
qed simp

lemma step_accepted:
  "runtime_step env spec rt rt' \<Longrightarrow> set (rt_accepted_tx_hashes rt) \<subseteq> set (rt_accepted_tx_hashes rt')"
proof (induction rule: runtime_step.induct)
  case (graffiti rt e p g out rt')
  with mark_invalid_frame(1) [of rt e] show ?case
    by (auto simp: record_topostake_graffiti_evidence_def Let_def case_prod_unfold
        split: if_splits sum.splits option.splits)
next
  case (gossip rt e p ps outs rt')
  with gossip_paths_accepted [of rt e p _ spec] show ?case
    by (auto simp: record_topostake_tx_gossip_metadata_evidence_def Let_def case_prod_unfold split: if_splits)
next
  case (invalid_gossip rt e n outs rt')
  then show ?case
    by (auto simp: record_topostake_invalid_tx_gossip_metadata_evidence_def Let_def case_prod_unfold
        mark_times_accepted split: if_splits)
next
  case (scores rt f balances total_balance ss rt')
  then show ?case
    by (auto simp: topostake_settle_scores_through_epoch_def Let_def case_prod_unfold
        settle_epochs_accepted split: if_splits)
next
  case (credits rt f rt')
  then show ?case by (auto simp: topostake_settle_credits_through_epoch_def settle_credits_rt_def)
next
  case (query rt e delay scs rt')
  then show ?case
    by (auto simp: topostake_evidence_scores_for_epoch_def Let_def split: if_splits option.splits)
qed

lemma steps_accepted:
  "(runtime_step env spec)\<^sup>*\<^sup>* rt rt' \<Longrightarrow> set (rt_accepted_tx_hashes rt) \<subseteq> set (rt_accepted_tx_hashes rt')"
  by (induction rule: rtranclp_induct) (auto dest: step_accepted)

text \<open>
  C9.  No transaction is credited twice.  Once path evidence for a transaction has been
  accepted, then after any further operations, evidence for the same transaction, with any
  path, fee, proposer and epoch, is not accepted and leaves the contributions and the fee
  ledger of every epoch as they were.
\<close>

theorem transaction_credited_once:
  assumes "record_gossip_path rt e p q spec = (out, rt1)" and "is_valid out"
    and "(runtime_step env spec)\<^sup>*\<^sup>* rt1 rt2"
    and "pe_tx_hash q' = pe_tx_hash q"
    and "record_gossip_path rt2 e' p' q' spec = (out', rt3)"
  shows "\<not> is_valid out' \<and> ledger_view (epoch_entry rt3 k) = ledger_view (epoch_entry rt2 k)"
proof -
  have "pe_tx_hash q \<in> set (rt_accepted_tx_hashes rt1)"
    using gossip_path_valid_registers [of rt e p q spec] assms(1,2) by simp
  with steps_accepted [OF assms(3)] have "pe_tx_hash q' \<in> set (rt_accepted_tx_hashes rt2)"
    using assms(4) by auto
  from gossip_path_replay [OF this, of e' p' spec] assms(5) show ?thesis by simp
qed

lemma devnet_gossip_path:
  "record_gossip_path evidence_runtime_default 5 9 devnet_evidence devnet_spec =
    (EvValid 5 TxGossipMetadata 3 [(2, 692307692)] (er_summary devnet_epoch 5), devnet_rt)"
proof -
  have "validate_topostake_validator_path [6, 2, 3] devnet_spec = Inr ()"
    by (simp add: validate_path_iff devnet_config)
  then show ?thesis
    by (simp add: record_gossip_path_def devnet_evidence_def epoch_entry_def evidence_runtime_default_def
        hm_get_or_def devnet_accept put_epoch_def hm_insert_def hs_insert_def is_valid_def devnet_rt_def Let_def)
qed

lemma transaction_credited_once_witness:
  "let (out, rt) = record_gossip_path devnet_rt 6 2
         (devnet_evidence\<lparr>pe_path := [2, 6], pe_fee_budget_wei := 7\<rparr>) devnet_spec
   in \<not> is_valid out \<and> ledger_view (epoch_entry rt 5) = ledger_view (epoch_entry devnet_rt 5)"
proof -
  let ?q = "devnet_evidence\<lparr>pe_path := [2, 6], pe_fee_budget_wei := 7\<rparr>"
  obtain out rt where r: "record_gossip_path devnet_rt 6 2 ?q devnet_spec = (out, rt)"
    by (cases "record_gossip_path devnet_rt 6 2 ?q devnet_spec")
  have "\<not> is_valid out \<and> ledger_view (epoch_entry rt 5) = ledger_view (epoch_entry devnet_rt 5)"
    by (rule transaction_credited_once [OF devnet_gossip_path _ rtranclp.rtrancl_refl [of "runtime_step no_env devnet_spec"] _ r])
       (simp_all add: is_valid_def)
  with r show ?thesis by simp
qed

end
