(* ===== verification/Block_Evidence.thy ===== *)
theory Block_Evidence
  imports Relay_Registry Beacon_Ledger Beacon_Proposer
begin

text \<open>
  Evidence carried by a beacon block (\<open>per_block_processing.rs\<close>): the inline records, the
  signature statements they stand for, the verification of the one aggregate signature of a
  block, and the recording of verified records in the evidence runtime.
\<close>

section \<open>Records\<close>

record inline_record =
  ir_tx_hash :: bytes
  ir_epoch :: nat
  ir_priority_fee_wei :: nat
  ir_irrecoverable_cost_wei :: nat
  ir_relay_path :: "nat list"
  ir_aggregate_signature :: bytes

record signature_record =
  sr_signer :: string
  sr_statement :: bytes
  sr_signature :: bytes

definition topostake_inline_record_requires_signature :: "inline_record \<Rightarrow> bool" where
  "topostake_inline_record_requires_signature r \<longleftrightarrow> ir_relay_path r \<noteq> []"

definition topostake_inline_aggregate_signature :: "inline_record \<Rightarrow> bytes option" where
  "topostake_inline_aggregate_signature r =
    (if length (ir_aggregate_signature r) = 48 then Some (ir_aggregate_signature r) else None)"

definition unsigned_record :: "string \<Rightarrow> bytes \<Rightarrow> signature_record" where
  "unsigned_record signer statement =
    \<lparr>sr_signer = signer, sr_statement = statement, sr_signature = replicate 48 0\<rparr>"

definition edge_records ::
    "relay_crypto \<Rightarrow> inline_record \<Rightarrow> nat \<Rightarrow> string list \<Rightarrow> nat \<Rightarrow> signature_record list" where
  "edge_records C r chain_id addresses edge_index =
    (let pre = chain_value C (ir_tx_hash r) chain_id (ir_epoch r) addresses edge_index;
         statement = edge_statement_lh C pre (addresses ! edge_index) (addresses ! (edge_index + 1))
     in [unsigned_record (addresses ! edge_index) statement,
         unsigned_record (addresses ! (edge_index + 1)) statement])"

definition topostake_inline_signature_records ::
    "relay_crypto \<Rightarrow> inline_record \<Rightarrow> relay_registry \<Rightarrow> nat \<Rightarrow> signature_record list option" where
  "topostake_inline_signature_records C r reg chain_id =
    (let path = ir_relay_path r
     in if path = [] then None
     else let addresses = map (\<lambda>v. address_for_validator reg v None) path
     in if list_ex (\<lambda>a. registry_pubkey reg a = None) addresses then None
     else let signature_records =
            [unsigned_record (addresses ! 0) (origin_statement C chain_id (ir_epoch r) (ir_tx_hash r) (addresses ! 0))]
     in if length path = 1 then Some signature_records
        else Some (signature_records @
          concat (map (edge_records C r chain_id addresses) [0..<length addresses - 1])))"

section \<open>Aggregate verification\<close>

definition verify_topostake_signature ::
    "relay_crypto \<Rightarrow> bytes option \<Rightarrow> string \<Rightarrow> bytes \<Rightarrow> bool" where
  "verify_topostake_signature C pubkey signature statement =
    (case pubkey of
       None \<Rightarrow> False
     | Some pubkey \<Rightarrow> (case hex_bytes_exact 48 signature of
           None \<Rightarrow> False
         | Some signature \<Rightarrow> (case pk_from_bytes C pubkey of
               None \<Rightarrow> False
             | Some pubkey \<Rightarrow> (case sig_from_bytes C signature of
                   None \<Rightarrow> False
                 | Some signature \<Rightarrow> sig_verify C signature statement topostake_tx_path_domain pubkey))))"

definition verify_topostake_aggregate_signature_bytes ::
    "relay_crypto \<Rightarrow> relay_registry \<Rightarrow> bytes \<Rightarrow> signature_record list \<Rightarrow> bool" where
  "verify_topostake_aggregate_signature_bytes C reg signature records =
    (case sig_from_bytes C signature of
       None \<Rightarrow> False
     | Some signature \<Rightarrow>
        (case those (map (\<lambda>r. Option.bind (registry_pubkey reg (sr_signer r)) (pk_from_bytes C)) records) of
           None \<Rightarrow> False
         | Some pubkeys \<Rightarrow>
             sig_aggregate_verify C signature (map sr_statement records) topostake_tx_path_domain pubkeys))"

definition verify_topostake_aggregate_signature ::
    "relay_crypto \<Rightarrow> relay_registry \<Rightarrow> string \<Rightarrow> signature_record list \<Rightarrow> bool" where
  "verify_topostake_aggregate_signature C reg signature records =
    (case hex_bytes_exact 48 signature of
       None \<Rightarrow> False
     | Some signature \<Rightarrow> verify_topostake_aggregate_signature_bytes C reg signature records)"

text \<open>The loop over the records of a block: \<open>None\<close> is its \<open>return false\<close>.\<close>

fun inline_aggregate ::
    "relay_crypto \<Rightarrow> relay_registry \<Rightarrow> nat \<Rightarrow> inline_record list \<Rightarrow> bytes option \<Rightarrow> signature_record list \<Rightarrow>
     (bytes option \<times> signature_record list) option" where
  "inline_aggregate C reg chain_id [] aggregate_signature signature_records =
    Some (aggregate_signature, signature_records)"
| "inline_aggregate C reg chain_id (r # rs) aggregate_signature signature_records =
    (if \<not> topostake_inline_record_requires_signature r
     then inline_aggregate C reg chain_id rs aggregate_signature signature_records
     else case topostake_inline_aggregate_signature r of
       None \<Rightarrow> None
     | Some record_signature \<Rightarrow>
        if (case aggregate_signature of Some expected \<Rightarrow> record_signature \<noteq> expected | None \<Rightarrow> False) then None
        else (case topostake_inline_signature_records C r reg chain_id of
            None \<Rightarrow> None
          | Some per_tx_records \<Rightarrow>
              inline_aggregate C reg chain_id rs (Some record_signature) (signature_records @ per_tx_records)))"

definition evidence_work_units :: "inline_record list \<Rightarrow> nat" where
  "evidence_work_units records = foldl (\<lambda>work r. sat64 (work + length (ir_relay_path r))) 0 records"

definition verify_topostake_inline_block_aggregate ::
    "relay_crypto \<Rightarrow> inline_record list \<Rightarrow> relay_registry \<Rightarrow> chain_spec \<Rightarrow> bool" where
  "verify_topostake_inline_block_aggregate C records reg spec =
    (if records = [] then True
     else if evidence_work_limit (topostake_config spec) < evidence_work_units records then False
     else case inline_aggregate C reg (deposit_chain_id spec) records None [] of
       None \<Rightarrow> False
     | Some (None, _) \<Rightarrow> True
     | Some (Some aggregate_signature, signature_records) \<Rightarrow>
         verify_topostake_aggregate_signature_bytes C reg aggregate_signature signature_records)"

section \<open>Recording the evidence of a block\<close>

definition topostake_path_evidence_from_inline_record :: "inline_record \<Rightarrow> path_evidence option" where
  "topostake_path_evidence_from_inline_record r =
    (if ir_relay_path r = [] then None
     else Some \<lparr>pe_tx_hash = hex_bytes (ir_tx_hash r), pe_path = ir_relay_path r,
       pe_fee_budget_wei = ir_priority_fee_wei r, pe_irrecoverable_cost_wei = ir_irrecoverable_cost_wei r\<rparr>)"

definition record_topostake_tx_gossip_metadata_for_block ::
    "env \<Rightarrow> relay_crypto \<Rightarrow> relay_registry \<Rightarrow> eth_spec \<Rightarrow> runtime_lock \<Rightarrow> nat \<Rightarrow> inline_record list \<Rightarrow> nat \<Rightarrow>
     chain_spec \<Rightarrow> record_outcome list \<times> runtime_lock" where
  "record_topostake_tx_gossip_metadata_for_block env C reg E l slot inline_records proposer_index spec =
    (let epoch = slot_epoch E slot
     in if \<not> is_topostake_enabled_at_epoch env spec epoch then ([], l)
     else if inline_records = [] then ([], l)
     else if list_ex (\<lambda>r. epoch < ir_epoch r) inline_records then
       record_topostake_invalid_tx_gossip_metadata_evidence env l epoch (length inline_records) spec
     else if \<not> verify_topostake_inline_block_aggregate C inline_records reg spec then
       record_topostake_invalid_tx_gossip_metadata_evidence env l epoch (length inline_records) spec
     else
       let stale_count = length (filter (\<lambda>r. ir_epoch r < epoch) inline_records);
           inline_paths = List.map_filter topostake_path_evidence_from_inline_record
             (filter (\<lambda>r. ir_epoch r = epoch) inline_records);
           (outcomes, l) = (if stale_count = 0 then ([], l)
             else record_topostake_invalid_tx_gossip_metadata_evidence env l epoch stale_count spec)
       in if inline_paths = [] then (outcomes, l)
          else let (more, l) = record_topostake_tx_gossip_metadata_evidence env l epoch proposer_index inline_paths spec
          in (outcomes @ more, l))"

section \<open>What a verified block shows\<close>

lemma evidence_work_units_eq: "evidence_work_units records = sat64 (\<Sum>r\<leftarrow>records. length (ir_relay_path r))"
proof -
  have "foldl (\<lambda>work r. sat64 (work + length (ir_relay_path r))) (sat64 n) rs =
      sat64 (n + (\<Sum>r\<leftarrow>rs. length (ir_relay_path r)))" for n and rs :: "inline_record list"
  proof (induction rs arbitrary: n)
    case (Cons r rs)
    have "sat64 (sat64 n + length (ir_relay_path r)) = sat64 (n + length (ir_relay_path r))"
      by (auto simp: sat64_def)
    with Cons.IH [of "n + length (ir_relay_path r)"] show ?case by (simp add: add.assoc)
  qed simp
  from this [of 0 records] show ?thesis by (simp add: evidence_work_units_def sat64_def)
qed

lemma inline_aggregate_spec:
  assumes "inline_aggregate C reg chain_id rs agg recs = Some (agg', recs')"
  shows "set recs \<subseteq> set recs'" and "agg \<noteq> None \<Longrightarrow> agg' = agg"
    and "r \<in> set rs \<Longrightarrow> ir_relay_path r \<noteq> [] \<Longrightarrow>
      agg' = Some (ir_aggregate_signature r) \<and> length (ir_aggregate_signature r) = 48 \<and>
      (\<exists>per_tx. topostake_inline_signature_records C r reg chain_id = Some per_tx \<and> set per_tx \<subseteq> set recs')"
  using assms
proof (induction rs arbitrary: agg recs)
  case (Cons q rs)
  { case 1 with Cons.IH(1) show ?case by (fastforce split: if_splits option.splits) }
  { case 2 with Cons.IH(2) show ?case
      by (cases agg) (auto split: if_splits option.splits) }
  { case 3
    show ?case
    proof (cases "ir_relay_path q = []")
      case True
      with 3 Cons.IH(3) [of agg recs] show ?thesis
        by (auto simp: topostake_inline_record_requires_signature_def)
    next
      case False
      with 3(3) obtain per_tx where q: "length (ir_aggregate_signature q) = 48"
          "topostake_inline_signature_records C q reg chain_id = Some per_tx"
        and rest: "inline_aggregate C reg chain_id rs (Some (ir_aggregate_signature q)) (recs @ per_tx) = Some (agg', recs')"
        by (auto simp: topostake_inline_record_requires_signature_def topostake_inline_aggregate_signature_def
            split: if_splits option.splits)
      from Cons.IH(1) [OF rest] Cons.IH(2) [OF _ rest] q Cons.IH(3) [OF _ _ rest] 3(1,2) show ?thesis by auto
    qed }
qed auto

text \<open>The addresses of the relayers of a record, and the statements its path stands for.\<close>

definition record_addresses :: "relay_registry \<Rightarrow> inline_record \<Rightarrow> string list" where
  "record_addresses reg r = map (\<lambda>v. address_for_validator reg v None) (ir_relay_path r)"

definition hop_statement :: "relay_crypto \<Rightarrow> relay_registry \<Rightarrow> nat \<Rightarrow> inline_record \<Rightarrow> nat \<Rightarrow> bytes" where
  "hop_statement C reg chain_id r i =
    (let as = record_addresses reg r
     in edge_statement_lh C (chain_value C (ir_tx_hash r) chain_id (ir_epoch r) as i) (as ! i) (as ! (i + 1)))"

lemma signature_records_cover:
  assumes "topostake_inline_signature_records C r reg chain_id = Some per_tx"
  shows "unsigned_record (record_addresses reg r ! 0)
      (origin_statement C chain_id (ir_epoch r) (ir_tx_hash r) (record_addresses reg r ! 0)) \<in> set per_tx"
    and "i + 1 < length (ir_relay_path r) \<Longrightarrow>
      {unsigned_record (record_addresses reg r ! i) (hop_statement C reg chain_id r i),
       unsigned_record (record_addresses reg r ! (i + 1)) (hop_statement C reg chain_id r i)} \<subseteq> set per_tx"
  using assms
  by (auto simp: topostake_inline_signature_records_def record_addresses_def hop_statement_def edge_records_def
      Let_def less_diff_conv split: if_splits intro!: bexI [of _ i])

text \<open>
  C12.  A verified block shows who relayed what.  If the evidence of a block is verified, then
  for each of its records with a path: the record carries the 48 bytes of the block's aggregate
  signature; that signature was verified against a list of statements in which the origin's
  statement on the transaction and, for every hop, the statement of the hop under both of its
  ends appear; every statement was verified under the key registered for its signer; and the
  paths of all records together have no more nodes than the work limit allows.
\<close>

theorem inline_aggregate_sound:
  assumes "verify_topostake_inline_block_aggregate C records reg spec"
    and "r \<in> set records" and "ir_relay_path r \<noteq> []"
    and "evidence_work_limit (topostake_config spec) < u64_max"
  shows "length (ir_aggregate_signature r) = 48 \<and>
    (\<Sum>q\<leftarrow>records. length (ir_relay_path q)) \<le> evidence_work_limit (topostake_config spec) \<and>
    (\<exists>signature recs pubkeys.
      sig_from_bytes C (ir_aggregate_signature r) = Some signature \<and>
      sig_aggregate_verify C signature (map sr_statement recs) topostake_tx_path_domain pubkeys \<and>
      list_all2 (\<lambda>q pubkey. \<exists>key. registry_pubkey reg (sr_signer q) = Some key \<and> pk_from_bytes C key = Some pubkey)
        recs pubkeys \<and>
      unsigned_record (record_addresses reg r ! 0)
        (origin_statement C (deposit_chain_id spec) (ir_epoch r) (ir_tx_hash r) (record_addresses reg r ! 0)) \<in> set recs \<and>
      (\<forall>i. i + 1 < length (ir_relay_path r) \<longrightarrow>
        unsigned_record (record_addresses reg r ! i) (hop_statement C reg (deposit_chain_id spec) r i) \<in> set recs \<and>
        unsigned_record (record_addresses reg r ! (i + 1)) (hop_statement C reg (deposit_chain_id spec) r i) \<in> set recs))"
proof -
  have "records \<noteq> []" using assms(2) by auto
  with assms(1) obtain agg recs where
      work: "evidence_work_units records \<le> evidence_work_limit (topostake_config spec)"
    and run: "inline_aggregate C reg (deposit_chain_id spec) records None [] = Some (agg, recs)"
    and ok: "\<And>sg. agg = Some sg \<Longrightarrow> verify_topostake_aggregate_signature_bytes C reg sg recs"
    by (auto simp: verify_topostake_inline_block_aggregate_def split: if_splits option.splits)
  from inline_aggregate_spec(3) [OF run assms(2,3)] obtain per_tx where
      agg: "agg = Some (ir_aggregate_signature r)" "length (ir_aggregate_signature r) = 48"
    and per_tx: "topostake_inline_signature_records C r reg (deposit_chain_id spec) = Some per_tx" "set per_tx \<subseteq> set recs"
    by blast
  from ok [OF agg(1)] obtain signature pubkeys where
      "sig_from_bytes C (ir_aggregate_signature r) = Some signature"
      "sig_aggregate_verify C signature (map sr_statement recs) topostake_tx_path_domain pubkeys"
      "list_all2 (\<lambda>q pubkey. Option.bind (registry_pubkey reg (sr_signer q)) (pk_from_bytes C) = Some pubkey) recs pubkeys"
    by (auto simp: verify_topostake_aggregate_signature_bytes_def those_map_Some split: option.splits)
  moreover have "(\<Sum>q\<leftarrow>records. length (ir_relay_path q)) \<le> evidence_work_limit (topostake_config spec)"
    using work assms(4) sat64_below_max [of "\<Sum>q\<leftarrow>records. length (ir_relay_path q)"]
    by (simp add: evidence_work_units_eq)
  moreover note signature_records_cover [OF per_tx(1)] per_tx(2) agg(2)
  ultimately show ?thesis
    by (auto simp: bind_eq_Some_conv)
qed

section \<open>Blocks and the fee ledger\<close>

lemma mark_times_ledger: "ledger_view (epoch_entry (snd (mark_invalid_times rt e n)) k) = ledger_view (epoch_entry rt k)"
  by (induction n arbitrary: rt) (simp_all add: case_prod_unfold Let_def mark_invalid_frame(2))

lemma gossip_path_ledger:
  assumes "ledger_view (epoch_entry (snd (record_gossip_path rt e p q spec)) k) \<noteq> ledger_view (epoch_entry rt k)"
  shows "k = e \<and> validate_topostake_validator_path (pe_path q) spec = Inr () \<and> pe_tx_hash q \<notin> set (rt_accepted_tx_hashes rt)"
  using assms gossip_path_replay(2) [of q rt e p spec k] mark_invalid_frame(2) [of rt e k]
  by (auto simp: record_gossip_path_def Let_def case_prod_unfold epoch_entry_def put_epoch_def hm_get_or_def table_simps
      split: sum.splits if_splits)

lemma gossip_paths_ledger:
  assumes "ledger_view (epoch_entry (snd (record_gossip_paths rt e p qs spec)) k) \<noteq> ledger_view (epoch_entry rt k)"
  obtains q where "k = e" and "q \<in> set qs" and "validate_topostake_validator_path (pe_path q) spec = Inr ()"
    and "pe_tx_hash q \<notin> set (rt_accepted_tx_hashes rt)"
  using assms
proof (induction qs arbitrary: rt thesis)
  case (Cons q qs)
  let ?rt = "snd (record_gossip_path rt e p q spec)"
  show ?case
  proof (cases "ledger_view (epoch_entry ?rt k) = ledger_view (epoch_entry rt k)")
    case True
    with Cons.prems(2) have "ledger_view (epoch_entry (snd (record_gossip_paths ?rt e p qs spec)) k) \<noteq> ledger_view (epoch_entry ?rt k)"
      by (simp add: case_prod_unfold Let_def)
    from Cons.IH [OF _ this] obtain q' where "k = e" "q' \<in> set qs"
        "validate_topostake_validator_path (pe_path q') spec = Inr ()" "pe_tx_hash q' \<notin> set (rt_accepted_tx_hashes ?rt)"
      by blast
    with gossip_path_accepted [of rt e p q spec] show ?thesis by (intro Cons.prems(1) [of q']) auto
  next
    case False
    from gossip_path_ledger [OF False] show ?thesis by (intro Cons.prems(1) [of q]) auto
  qed
qed simp

lemma invalid_evidence_frame:
  assumes "record_topostake_invalid_tx_gossip_metadata_evidence env (Some rt) e n spec = (outs, l)"
  obtains rt' where "l = Some rt'" and "(runtime_step env spec)\<^sup>*\<^sup>* rt rt'" and "rt_accepted_tx_hashes rt' = rt_accepted_tx_hashes rt"
    and "\<And>k. ledger_view (epoch_entry rt' k) = ledger_view (epoch_entry rt k)"
proof -
  obtain rt' where l: "l = Some rt'" "rt_accepted_tx_hashes rt' = rt_accepted_tx_hashes rt"
      "\<And>k. ledger_view (epoch_entry rt' k) = ledger_view (epoch_entry rt k)"
    using assms
    by (auto simp: record_topostake_invalid_tx_gossip_metadata_evidence_def Let_def case_prod_unfold mark_times_ledger
        mark_times_accepted epoch_entry_put split: if_splits)
  with assms r_into_rtranclp [of "runtime_step env spec", OF runtime_step.invalid_gossip] show ?thesis by (intro that [of rt']) auto
qed

text \<open>Recording a block is a sequence of steps of the evidence runtime.\<close>

lemma gossip_evidence_frame:
  assumes "record_topostake_tx_gossip_metadata_evidence env (Some rt) e p ps spec = (outs, l)"
  obtains rt' where "l = Some rt'" and "(runtime_step env spec)\<^sup>*\<^sup>* rt rt'"
    and "\<And>k. ledger_view (epoch_entry rt' k) \<noteq> ledger_view (epoch_entry rt k) \<Longrightarrow>
      \<exists>q \<in> set ps. k = e \<and> validate_topostake_validator_path (pe_path q) spec = Inr () \<and> pe_tx_hash q \<notin> set (rt_accepted_tx_hashes rt)"
proof -
  have "\<exists>rt'. l = Some rt' \<and> (\<forall>k. ledger_view (epoch_entry rt' k) \<noteq> ledger_view (epoch_entry rt k) \<longrightarrow>
      (\<exists>q \<in> set ps. k = e \<and> validate_topostake_validator_path (pe_path q) spec = Inr () \<and> pe_tx_hash q \<notin> set (rt_accepted_tx_hashes rt)))"
    using assms
    by (auto simp: record_topostake_tx_gossip_metadata_evidence_def Let_def case_prod_unfold
        elim!: gossip_paths_ledger dest: in_set_takeD split: if_splits)
  then obtain rt' where "l = Some rt'"
    "\<And>k. ledger_view (epoch_entry rt' k) \<noteq> ledger_view (epoch_entry rt k) \<Longrightarrow>
      \<exists>q \<in> set ps. k = e \<and> validate_topostake_validator_path (pe_path q) spec = Inr () \<and> pe_tx_hash q \<notin> set (rt_accepted_tx_hashes rt)"
    by blast
  with assms r_into_rtranclp [of "runtime_step env spec", OF runtime_step.gossip] show ?thesis by (intro that [of rt']) auto
qed

lemma block_evidence_frame:
  assumes "record_topostake_tx_gossip_metadata_for_block env C reg E (Some rt) slot records proposer spec = (outs, l)"
  obtains rt' where "l = Some rt'" and "(runtime_step env spec)\<^sup>*\<^sup>* rt rt'"
    and "\<And>k. ledger_view (epoch_entry rt' k) \<noteq> ledger_view (epoch_entry rt k) \<Longrightarrow>
      k = slot_epoch E slot \<and> verify_topostake_inline_block_aggregate C records reg spec \<and>
      (\<forall>r \<in> set records. ir_epoch r \<le> k) \<and>
      (\<exists>r \<in> set records. ir_epoch r = k \<and> ir_relay_path r \<noteq> [] \<and>
        validate_topostake_validator_path (ir_relay_path r) spec = Inr () \<and>
        hex_bytes (ir_tx_hash r) \<notin> set (rt_accepted_tx_hashes rt))"
proof -
  let ?e = "slot_epoch E slot"
  let ?invalid = "\<lambda>n. record_topostake_invalid_tx_gossip_metadata_evidence env (Some rt) ?e n spec"
  define stale where "stale = length (filter (\<lambda>r. ir_epoch r < ?e) records)"
  define paths where
    "paths = List.map_filter topostake_path_evidence_from_inline_record (filter (\<lambda>r. ir_epoch r = ?e) records)"
  define l1 where "l1 = (if stale = 0 then Some rt else snd (?invalid stale))"
  consider (quiet) "l = Some rt" | (rejected) n where "?invalid n = (outs, l)"
    | (verified) "verify_topostake_inline_block_aggregate C records reg spec" "\<forall>r \<in> set records. ir_epoch r \<le> ?e"
        "l = (if paths = [] then l1 else snd (record_topostake_tx_gossip_metadata_evidence env l1 ?e proposer paths spec))"
    using assms
    unfolding record_topostake_tx_gossip_metadata_for_block_def Let_def stale_def [symmetric] paths_def [symmetric] l1_def
    by (auto simp: list_ex_iff case_prod_unfold not_less split: if_splits)
  then show ?thesis
  proof cases
    case quiet
    with that show ?thesis by blast
  next
    case rejected
    from invalid_evidence_frame [OF this] that show ?thesis by metis
  next
    case verified
    obtain rt1 where rt1: "l1 = Some rt1" "(runtime_step env spec)\<^sup>*\<^sup>* rt rt1"
        "rt_accepted_tx_hashes rt1 = rt_accepted_tx_hashes rt"
        "\<And>k. ledger_view (epoch_entry rt1 k) = ledger_view (epoch_entry rt k)"
    proof (cases "stale = 0")
      case False
      show ?thesis
        by (rule invalid_evidence_frame [OF surjective_pairing, of env rt ?e stale spec])
           (rule that, simp only: l1_def False if_False, assumption+)
    qed (simp add: l1_def that)
    obtain rt2 where rt2: "l = Some rt2" "(runtime_step env spec)\<^sup>*\<^sup>* rt1 rt2"
        "\<And>k. ledger_view (epoch_entry rt2 k) \<noteq> ledger_view (epoch_entry rt1 k) \<Longrightarrow>
          \<exists>q \<in> set paths. k = ?e \<and> validate_topostake_validator_path (pe_path q) spec = Inr () \<and> pe_tx_hash q \<notin> set (rt_accepted_tx_hashes rt1)"
    proof (cases "paths = []")
      case False
      show ?thesis
        by (rule gossip_evidence_frame [OF surjective_pairing, of env rt1 ?e proposer paths spec])
           (rule that, simp only: verified(3) rt1(1) False if_False, assumption+)
    qed (simp add: verified(3) rt1(1) that)
    have paths: "\<exists>r \<in> set records. ir_epoch r = ?e \<and> ir_relay_path r \<noteq> [] \<and> pe_path q = ir_relay_path r \<and>
        pe_tx_hash q = hex_bytes (ir_tx_hash r)" if "q \<in> set paths" for q
      using that unfolding paths_def
      by (auto simp: map_filter_def topostake_path_evidence_from_inline_record_def split: if_splits)
    show ?thesis
      by (rule that [of rt2]) (use rt1 rt2 verified(1,2) paths in \<open>auto dest!: rt2(3)\<close>, (metis paths)+)
  qed
qed

text \<open>
  C13.  Only verified evidence moves the ledger.  If recording a block changes the contributions,
  credits or burned fees of an epoch, then that epoch is the block's own, the aggregate
  signature of the block's evidence was verified, no record is of a later epoch, and some
  record of this epoch has a valid path for a transaction that had not been accepted before.
\<close>

theorem ledger_moves_on_verified_evidence:
  assumes "record_topostake_tx_gossip_metadata_for_block env C reg E (Some rt) slot records proposer spec = (outs, Some rt')"
    and "ledger_view (epoch_entry rt' k) \<noteq> ledger_view (epoch_entry rt k)"
  shows "k = slot_epoch E slot \<and> verify_topostake_inline_block_aggregate C records reg spec \<and>
    (\<forall>r \<in> set records. ir_epoch r \<le> k) \<and>
    (\<exists>r \<in> set records. ir_epoch r = k \<and> ir_relay_path r \<noteq> [] \<and>
      validate_topostake_validator_path (ir_relay_path r) spec = Inr () \<and>
      hex_bytes (ir_tx_hash r) \<notin> set (rt_accepted_tx_hashes rt))"
  using block_evidence_frame [OF assms(1)] assms(2) by (metis option.inject)

section \<open>A concrete block\<close>

text \<open>
  An instance of the cryptographic operations in which a signature is the sum of the bytes of
  key and message, so that aggregation adds signatures; and a block of the development network
  whose single record is the path from validator 6 through 2 to 3.
\<close>

definition additive_crypto :: relay_crypto where
  "additive_crypto = \<lparr>
     sha_256 = (\<lambda>m. replicate 32 (of_nat (length m))),
     pk_from_bytes = Some, sig_from_bytes = Some,
     sig_verify = (\<lambda>sg m d pk. sg = replicate 48 (sum_list m + sum_list pk)),
     sig_aggregate_verify = (\<lambda>sg ms d pks. sg = replicate 48 (sum_list (concat ms) + sum_list (concat pks))),
     sk_sign = (\<lambda>sk m d. replicate 48 (sum_list m + sum_list sk)),
     sk_to_pk = id,
     sig_aggregate = (\<lambda>sgs. if sgs = [] then None else Some (replicate 48 (\<Sum>sg\<leftarrow>sgs. hd sg)))\<rparr>"

definition devnet_registry :: relay_registry where
  "devnet_registry = registry_default\<lparr>
     pubkeys_by_address := [(''r6'', replicate 96 6), (''r2'', replicate 96 2), (''r3'', replicate 96 3)],
     validator_addresses := [(6, ''r6''), (2, ''r2''), (3, ''r3'')]\<rparr>"

definition devnet_record :: inline_record where
  "devnet_record = \<lparr>ir_tx_hash = replicate 32 0xAA, ir_epoch = 5, ir_priority_fee_wei = 1000000,
     ir_irrecoverable_cost_wei = 21000000000000, ir_relay_path = [6, 2, 3],
     ir_aggregate_signature = replicate 48 0xA0\<rparr>"

lemma devnet_names [simp]:
  "normalize_topostake_relay_address ''r6'' = Some ''r6''" "normalize_topostake_relay_address ''r2'' = Some ''r2''"
  "normalize_topostake_relay_address ''r3'' = Some ''r3''" "normalize_topostake_relay_address [] = None"
  by code_simp+

lemma devnet_addresses:
  "address_for_validator devnet_registry 6 None = ''r6''" "registry_pubkey devnet_registry ''r6'' = Some (replicate 96 6)"
  "address_for_validator devnet_registry 2 None = ''r2''" "registry_pubkey devnet_registry ''r2'' = Some (replicate 96 2)"
  "address_for_validator devnet_registry 3 None = ''r3''" "registry_pubkey devnet_registry ''r3'' = Some (replicate 96 3)"
  by (simp_all add: address_for_validator_def registry_pubkey_def devnet_registry_def)

lemma devnet_verified: "verify_topostake_inline_block_aggregate additive_crypto [devnet_record] devnet_registry devnet_spec"
proof -
  have domain: "length topostake_tx_path_domain = 20" by (simp add: topostake_tx_path_domain_def as_bytes_def)
  have "topostake_inline_signature_records additive_crypto devnet_record devnet_registry 7032030 =
    Some [unsigned_record ''r6'' (replicate 32 100), unsigned_record ''r6'' (replicate 32 116),
      unsigned_record ''r2'' (replicate 32 116), unsigned_record ''r2'' (replicate 32 116),
      unsigned_record ''r3'' (replicate 32 116)]"
    by (simp add: topostake_inline_signature_records_def devnet_record_def devnet_addresses Let_def upt_rec
        edge_records_def origin_statement_def chain_value_def edge_statement_lh_def hash_identity_lh_def
        additive_crypto_def domain)
  moreover have "ir_relay_path devnet_record = [6, 2, 3]" "ir_aggregate_signature devnet_record = replicate 48 0xA0"
    "deposit_chain_id devnet_spec = 7032030" by (simp_all add: devnet_record_def devnet_spec_def)
  moreover have "sig_from_bytes additive_crypto = Some" "pk_from_bytes additive_crypto = Some"
    "sig_aggregate_verify additive_crypto sg ms d pks \<longleftrightarrow> sg = replicate 48 (sum_list (concat ms) + sum_list (concat pks))"
    for sg ms d pks by (simp_all add: additive_crypto_def)
  ultimately show ?thesis
    by (simp add: verify_topostake_inline_block_aggregate_def evidence_work_units_def devnet_config
        topostake_inline_record_requires_signature_def topostake_inline_aggregate_signature_def
        verify_topostake_aggregate_signature_bytes_def devnet_addresses unsigned_record_def sat64_def
        sum_list_replicate)
qed

lemma inline_aggregate_sound_witness:
  "(\<exists>pubkeys recs. sig_aggregate_verify additive_crypto (ir_aggregate_signature devnet_record)
      (map sr_statement recs) topostake_tx_path_domain pubkeys \<and>
    unsigned_record ''r2'' (hop_statement additive_crypto devnet_registry 7032030 devnet_record 1) \<in> set recs)"
proof -
  have path: "ir_relay_path devnet_record = [6, 2, 3]" by (simp add: devnet_record_def)
  have chain: "deposit_chain_id devnet_spec = 7032030" by (simp add: devnet_spec_def)
  have exact: "sig_from_bytes additive_crypto = Some" by (simp add: additive_crypto_def)
  have "record_addresses devnet_registry devnet_record ! 1 = ''r2''"
    by (simp add: record_addresses_def path devnet_addresses)
  with inline_aggregate_sound [OF devnet_verified, of devnet_record] show ?thesis
    unfolding chain exact by (fastforce simp: path devnet_config u64_max_def)
qed

lemma hex_bytes_devnet: "hex_bytes (replicate 32 0xAA) = devnet_hash"
proof -
  have "concat (replicate n [c, c]) = replicate (2 * n) c" for n and c :: char by (induction n) simp_all
  moreover have "char_of (97 :: nat) = CHR ''a''" by code_simp
  ultimately show ?thesis by (simp add: hex_bytes_def devnet_hash_def hex_char_def map_replicate)
qed

lemma devnet_block:
  "record_topostake_tx_gossip_metadata_for_block no_env additive_crypto devnet_registry \<lparr>slots_per_epoch = 32, epochs_per_historical_vector = 64\<rparr>
     (Some evidence_runtime_default) 163 [devnet_record] 9 devnet_spec =
   ([EvValid 5 TxGossipMetadata 3 [(2, 692307692)] (er_summary devnet_epoch 5)], Some devnet_rt)"
proof -
  have "topostake_path_evidence_from_inline_record devnet_record = Some devnet_evidence"
    by (simp add: topostake_path_evidence_from_inline_record_def devnet_record_def devnet_evidence_def hex_bytes_devnet)
  moreover have "ir_epoch devnet_record = 5" by (simp add: devnet_record_def)
  moreover have "is_topostake_enabled_at_epoch no_env devnet_spec 5"
    by (simp add: is_topostake_enabled_at_epoch_def is_enabled_at_epoch_def devnet_config)
  ultimately show ?thesis
    by (simp add: record_topostake_tx_gossip_metadata_for_block_def slot_epoch_def devnet_verified devnet_gossip map_filter_def Let_def)
qed

lemma ledger_moves_on_verified_evidence_witness:
  "ledger_view (epoch_entry devnet_rt 5) \<noteq> ledger_view (epoch_entry evidence_runtime_default 5) \<and>
   verify_topostake_inline_block_aggregate additive_crypto [devnet_record] devnet_registry devnet_spec"
proof -
  have moved: "ledger_view (epoch_entry devnet_rt 5) \<noteq> ledger_view (epoch_entry evidence_runtime_default 5)"
    by (simp add: ledger_view_def epoch_entry_def hm_get_or_def devnet_rt_def devnet_epoch_def
        evidence_runtime_default_def epoch_runtime_default_def)
  from ledger_moves_on_verified_evidence [OF devnet_block this] moved show ?thesis by simp
qed


end
