(* ===== verification/Settlement_Submit.thy ===== *)
theory Settlement_Submit
  imports Block_Evidence
begin

text \<open>
  Submission of finalised fee settlements by the consensus client to its execution clients
  (\<open>per_block_processing.rs\<close>): choosing the endpoints, the settlement records of an epoch, the
  JSON-RPC exchange over HTTP with its chunked bodies, and the loop over the settled epochs,
  together with the other work done at every block when finality may have moved.  Sockets,
  name resolution and the JSON library are the fields of \<open>rpc_world\<close>; the state of the
  network is threaded through every exchange.
\<close>

section \<open>JSON and the network\<close>

datatype json = JNum nat | JStr string | JArr "json list" | JObj "(string \<times> json) list" | JOther

fun json_get :: "string \<Rightarrow> json \<Rightarrow> json option" where
  "json_get key (JObj m) = map_of m key"
| "json_get key _ = None"

record el_endpoint =
  ep_cl_service_name :: string
  ep_el_rpc_url :: string

record 'w rpc_world =
  exchange :: "'w \<Rightarrow> string \<Rightarrow> nat \<Rightarrow> string \<Rightarrow> (string + string) \<times> 'w"
  json_text :: "json \<Rightarrow> string"
  json_read :: "string \<Rightarrow> json option"
  el_registry_read :: "string \<Rightarrow> el_endpoint list option"
  udp_local_ip :: "string \<Rightarrow> nat \<Rightarrow> string option"
  resolve_ips :: "string \<Rightarrow> string list"

section \<open>Endpoints\<close>

record http_endpoint =
  he_host :: string
  he_port :: nat
  he_path :: string

definition http_endpoint_parse :: "string \<Rightarrow> string + http_endpoint" where
  "http_endpoint_parse raw =
    (case strip_prefix ''http://'' raw of
       None \<Rightarrow> Inl ''TOPOSTAKE_EL_RPC_URL must use http://''
     | Some without_scheme \<Rightarrow>
        let (authority, path) = (case split_once (CHR ''/'') without_scheme of
              Some (authority, path) \<Rightarrow> (authority, ''/'' @ path)
            | None \<Rightarrow> (without_scheme, ''/''))
        in if authority = [] then Inl ''TOPOSTAKE_EL_RPC_URL is missing host''
        else case (case rsplit_once (CHR '':'') authority of
              Some (host, port) \<Rightarrow> (case from_str_radix 10 (2 ^ 16) port of
                  None \<Rightarrow> Inl ''TOPOSTAKE_EL_RPC_URL has invalid port''
                | Some port \<Rightarrow> Inr (host, port))
            | None \<Rightarrow> Inr (authority, 8545)) of
           Inl e \<Rightarrow> Inl e
         | Inr (host, port) \<Rightarrow>
            if host = [] then Inl ''TOPOSTAKE_EL_RPC_URL is missing host''
            else Inr \<lparr>he_host = host, he_port = port, he_path = path\<rparr>)"

definition host_header :: "http_endpoint \<Rightarrow> string" where
  "host_header e = he_host e @ '':'' @ show_nat (he_port e)"

fun local_ip_for_registry :: "('w, 'b) rpc_world_scheme \<Rightarrow> el_endpoint list \<Rightarrow> string + string" where
  "local_ip_for_registry W [] = Inl ''could not determine local CL IP for TopoStake EL RPC registry''"
| "local_ip_for_registry W (e # es) =
    (case http_endpoint_parse (ep_el_rpc_url e) of
       Inl err \<Rightarrow> Inl err
     | Inr parsed \<Rightarrow> (case udp_local_ip W (he_host parsed) (he_port parsed) of
           Some ip \<Rightarrow> Inr ip
         | None \<Rightarrow> local_ip_for_registry W es))"

definition select_topostake_el_rpc_url_from_registry ::
    "env \<Rightarrow> ('w, 'b) rpc_world_scheme \<Rightarrow> string \<Rightarrow> string + string" where
  "select_topostake_el_rpc_url_from_registry env W raw =
    (case el_registry_read W raw of
       None \<Rightarrow> Inl ''invalid EL RPC registry json''
     | Some endpoints \<Rightarrow>
        let named = (case env ''TOPOSTAKE_CL_SERVICE_NAME'' of
              None \<Rightarrow> None
            | Some name \<Rightarrow> if trim name = [] then None
                else find (\<lambda>e. ep_cl_service_name e = trim name) endpoints)
        in case named of
           Some e \<Rightarrow> Inr (ep_el_rpc_url e)
         | None \<Rightarrow> (case local_ip_for_registry W endpoints of
             Inl err \<Rightarrow> Inl err
           | Inr local_ip \<Rightarrow>
              (case find (\<lambda>e. local_ip \<in> set (resolve_ips W (ep_cl_service_name e))) endpoints of
                 Some e \<Rightarrow> Inr (ep_el_rpc_url e)
               | None \<Rightarrow> Inl ''no matching TopoStake EL RPC registry endpoint for local CL'')))"

definition configured_url :: "env \<Rightarrow> string option" where
  "configured_url env = Option.bind (env ''TOPOSTAKE_EL_RPC_URL'') non_empty"

definition topostake_el_rpc_url :: "env \<Rightarrow> ('w, 'b) rpc_world_scheme \<Rightarrow> string option" where
  "topostake_el_rpc_url env W =
    (case configured_url env of
       Some url \<Rightarrow> Some url
     | None \<Rightarrow> Option.bind (env ''TOPOSTAKE_EL_RPC_REGISTRY_JSON'') (\<lambda>registry.
         case select_topostake_el_rpc_url_from_registry env W registry of Inl _ \<Rightarrow> None | Inr url \<Rightarrow> Some url))"

definition topostake_el_rpc_urls :: "env \<Rightarrow> ('w, 'b) rpc_world_scheme \<Rightarrow> string list" where
  "topostake_el_rpc_urls env W =
    (let single = (case topostake_el_rpc_url env W of None \<Rightarrow> [] | Some url \<Rightarrow> [url])
     in case configured_url env of
       Some url \<Rightarrow> [url]
     | None \<Rightarrow> (case env ''TOPOSTAKE_EL_RPC_REGISTRY_JSON'' of
           None \<Rightarrow> single
         | Some raw \<Rightarrow> (case el_registry_read W raw of
               None \<Rightarrow> single
             | Some endpoints \<Rightarrow>
                let urls = foldl (\<lambda>urls e. if trim (ep_el_rpc_url e) \<noteq> [] \<and> ep_el_rpc_url e \<notin> set urls
                                   then urls @ [ep_el_rpc_url e] else urls) [] endpoints
                in if urls = [] then single else urls)))"

section \<open>HTTP responses\<close>

text \<open>Slicing text panics outside character boundaries.\<close>

definition char_boundary :: "string \<Rightarrow> nat \<Rightarrow> bool" where
  "char_boundary s i \<longleftrightarrow> i = 0 \<or> i = length s \<or> i < length s \<and> \<not> utf8_cont (of_char (s ! i))"

lemma split_once_str_length: "split_once_str p s = Some (a, b) \<Longrightarrow> length a + length p + length b = length s"
  by (induction p s arbitrary: a rule: split_once_str.induct) (auto split: if_splits dest: prefix_length_le)

text \<open>
  \<open>size + 2\<close> is computed in 64 bits; without overflow checks it wraps, and the slice after it
  is then out of range.
\<close>

function decode_chunked :: "string \<Rightarrow> string \<Rightarrow> (string + string) run" where
  "decode_chunked decoded rest =
    (case split_once_str [CHR 0x0D, CHR 0x0A] rest of
       None \<Rightarrow> Some (Inl ''invalid chunked response: missing chunk size'')
     | Some (size_hex, after_size) \<Rightarrow>
        (case from_str_radix 16 (2 ^ 64) (trim size_hex) of
           None \<Rightarrow> Some (Inl ''invalid chunked response: bad chunk size'')
         | Some chunk \<Rightarrow>
            if chunk = 0 then Some (Inr decoded)
            else if length after_size < (chunk + 2) mod 2 ^ 64
              then Some (Inl ''invalid chunked response: truncated chunk'')
            else if \<not> (chunk \<le> length after_size \<and> char_boundary after_size chunk) then None
            else if \<not> (chunk + 2 \<le> length after_size \<and> char_boundary after_size (chunk + 2)) then None
            else decode_chunked (decoded @ take chunk after_size) (drop (chunk + 2) after_size)))"
  by pat_completeness auto
termination
  by (relation "measure (\<lambda>(d, r). length r)") (auto dest!: split_once_str_length)

declare decode_chunked.simps [simp del]

definition decode_chunked_http_body :: "string \<Rightarrow> (string + string) run" where
  "decode_chunked_http_body body = decode_chunked [] body"

definition crlf :: string where
  "crlf = [CHR 0x0D, CHR 0x0A]"

definition http_request :: "http_endpoint \<Rightarrow> string \<Rightarrow> string" where
  "http_request e body =
    ''POST '' @ he_path e @ '' HTTP/1.1'' @ crlf @ ''Host: '' @ host_header e @ crlf @
    ''Content-Type: application/json'' @ crlf @ ''Content-Length: '' @ show_nat (length body) @ crlf @
    ''Connection: close'' @ crlf @ crlf @ body"

definition contains_str :: "string \<Rightarrow> string \<Rightarrow> bool" where
  "contains_str s pat \<longleftrightarrow> split_once_str pat s \<noteq> None"

definition rpc_response :: "('w, 'b) rpc_world_scheme \<Rightarrow> string \<Rightarrow> (string + unit) run" where
  "rpc_response W response =
    (case split_once_str (crlf @ crlf) response of
       None \<Rightarrow> Some (Inl ''missing HTTP response body'')
     | Some (headers, json_body) \<Rightarrow>
        if \<not> prefix ''HTTP/1.1 200'' headers \<and> \<not> prefix ''HTTP/1.0 200'' headers
        then Some (Inl ''TopoStake settlement RPC returned non-200'')
        else case (if contains_str (to_ascii_lowercase headers) ''transfer-encoding: chunked''
                   then decode_chunked_http_body json_body else Some (Inr json_body)) of
           None \<Rightarrow> None
         | Some (Inl e) \<Rightarrow> Some (Inl e)
         | Some (Inr json_body) \<Rightarrow>
            (case json_read W json_body of
               None \<Rightarrow> Some (Inl ''invalid settlement json'')
             | Some value \<Rightarrow>
                if json_get ''error'' value \<noteq> None then Some (Inl ''TopoStake settlement RPC returned error'')
                else if json_get ''result'' value = None then Some (Inl ''TopoStake settlement RPC missing result'')
                else Some (Inr ())))"

definition submit_topostake_json_rpc ::
    "('w, 'b) rpc_world_scheme \<Rightarrow> 'w \<Rightarrow> string \<Rightarrow> string \<Rightarrow> ((string + unit) \<times> 'w) run" where
  "submit_topostake_json_rpc W w rpc_url body =
    (case http_endpoint_parse rpc_url of
       Inl e \<Rightarrow> Some (Inl e, w)
     | Inr endpoint \<Rightarrow>
        (case exchange W w (he_host endpoint) (he_port endpoint) (http_request endpoint body) of
           (Inl e, w) \<Rightarrow> Some (Inl e, w)
         | (Inr response, w) \<Rightarrow> map_option (\<lambda>r. (r, w)) (rpc_response W response)))"

section \<open>The settlement of an epoch\<close>

text \<open>The fields of one record of the request.\<close>

record request_record =
  rr_id :: string
  rr_epoch :: nat
  rr_role :: string
  rr_validator_index :: nat
  rr_payout_address :: "string option"
  rr_amount_wei :: string

definition paid_record :: "relay_registry \<Rightarrow> nat \<Rightarrow> string \<Rightarrow> nat \<times> nat \<Rightarrow> request_record" where
  "paid_record reg epoch role settlement =
    (let (validator_index, amount) = settlement;
         payout_address = payout_address_for_validator reg validator_index
     in \<lparr>rr_id = show_nat epoch @ '':'' @ role @ '':'' @ show_nat validator_index @ '':'' @ payout_address @
           '':'' @ show_nat amount,
         rr_epoch = epoch, rr_role = role, rr_validator_index = validator_index,
         rr_payout_address = Some payout_address, rr_amount_wei = show_nat amount\<rparr>)"

definition burned_record :: "nat \<Rightarrow> nat \<Rightarrow> request_record" where
  "burned_record epoch amount =
    \<lparr>rr_id = show_nat epoch @ '':burned:0::'' @ show_nat amount, rr_epoch = epoch, rr_role = ''burned'',
     rr_validator_index = 0, rr_payout_address = None, rr_amount_wei = show_nat amount\<rparr>"

definition request_records :: "relay_registry \<Rightarrow> fee_settlement_epoch_summary \<Rightarrow> request_record list" where
  "request_records reg summary =
    map (paid_record reg (fs_epoch summary) ''proposer'') (fs_proposer_settlements summary) @
    map (paid_record reg (fs_epoch summary) ''relay'') (fs_relay_settlements summary) @
    (if 0 < fs_burned_amount_wei summary then [burned_record (fs_epoch summary) (fs_burned_amount_wei summary)] else [])"

definition record_json :: "request_record \<Rightarrow> json" where
  "record_json r = JObj
    ([(''id'', JStr (rr_id r)), (''epoch'', JNum (rr_epoch r)), (''role'', JStr (rr_role r)),
      (''validator_index'', JNum (rr_validator_index r))] @
     (case rr_payout_address r of None \<Rightarrow> [] | Some a \<Rightarrow> [(''payout_address'', JStr a)]) @
     [(''amount_wei'', JStr (rr_amount_wei r))])"

definition settlement_body :: "nat \<Rightarrow> nat \<Rightarrow> request_record list \<Rightarrow> json" where
  "settlement_body finalized_epoch epoch records = JObj
    [(''jsonrpc'', JStr ''2.0''), (''id'', JNum 1), (''method'', JStr ''topostake_submitSettlement''),
     (''params'', JArr [JObj
       [(''domain'', JStr ''TOPOSTAKE_FEE_SETTLEMENT_V1''), (''finalized_epoch'', JNum finalized_epoch),
        (''epoch'', JNum epoch), (''records'', JArr (map record_json records))]])]"

definition submit_topostake_settlement_summary ::
    "('w, 'b) rpc_world_scheme \<Rightarrow> relay_registry \<Rightarrow> 'w \<Rightarrow> string \<Rightarrow> nat \<Rightarrow> fee_settlement_epoch_summary \<Rightarrow>
     ((string + unit) \<times> 'w) run" where
  "submit_topostake_settlement_summary W reg w rpc_url finalized_epoch summary =
    (let records = request_records reg summary
     in if records = [] then Some (Inr (), w)
     else submit_topostake_json_rpc W w rpc_url
       (json_text W (settlement_body finalized_epoch (fs_epoch summary) records)))"

section \<open>The loop over settled epochs\<close>

fun submit_to_all ::
    "('w, 'b) rpc_world_scheme \<Rightarrow> relay_registry \<Rightarrow> nat \<Rightarrow> fee_settlement_epoch_summary \<Rightarrow> string list \<Rightarrow> 'w \<Rightarrow>
     (bool \<times> 'w) run" where
  "submit_to_all W reg finalized_epoch summary [] w = Some (True, w)"
| "submit_to_all W reg finalized_epoch summary (url # urls) w =
    Option.bind (submit_topostake_settlement_summary W reg w url finalized_epoch summary) (\<lambda>(r, w).
    Option.bind (submit_to_all W reg finalized_epoch summary urls w) (\<lambda>(submitted_all, w).
      Some (\<not> isl r \<and> submitted_all, w)))"

text \<open>The set of epochs that were submitted; \<open>None\<close> is a poisoned lock.\<close>

type_synonym submitted_lock = "nat list option"

definition settlement_due :: "nat \<Rightarrow> fee_settlement_epoch_summary \<Rightarrow> bool" where
  "settlement_due finalized_epoch summary \<longleftrightarrow>
    \<not> (finalized_epoch < fs_epoch summary \<or> fs_settled_records summary = 0 \<or>
       fs_pending_records summary \<noteq> 0 \<or> fs_conservation_violation summary)"

definition submit_epoch ::
    "('w, 'b) rpc_world_scheme \<Rightarrow> relay_registry \<Rightarrow> nat \<Rightarrow> string list \<Rightarrow> fee_settlement_epoch_summary \<Rightarrow>
     submitted_lock \<Rightarrow> 'w \<Rightarrow> (submitted_lock \<times> 'w) run" where
  "submit_epoch W reg finalized_epoch rpc_urls summary submitted w =
    (if \<not> settlement_due finalized_epoch summary then Some (submitted, w)
     else case submitted of
       None \<Rightarrow> Some (submitted, w)
     | Some epochs \<Rightarrow>
        if fs_epoch summary \<in> set epochs then Some (submitted, w)
        else map_option (\<lambda>(submitted_all, w).
            (if submitted_all then Some (hs_insert (fs_epoch summary) epochs) else submitted, w))
          (submit_to_all W reg finalized_epoch summary rpc_urls w))"

fun submit_epochs ::
    "('w, 'b) rpc_world_scheme \<Rightarrow> relay_registry \<Rightarrow> nat \<Rightarrow> string list \<Rightarrow> fee_settlement_epoch_summary list \<Rightarrow>
     submitted_lock \<Rightarrow> 'w \<Rightarrow> (submitted_lock \<times> 'w) run" where
  "submit_epochs W reg finalized_epoch rpc_urls [] submitted w = Some (submitted, w)"
| "submit_epochs W reg finalized_epoch rpc_urls (summary # summaries) submitted w =
    Option.bind (submit_epoch W reg finalized_epoch rpc_urls summary submitted w)
      (\<lambda>(submitted, w). submit_epochs W reg finalized_epoch rpc_urls summaries submitted w)"

definition submit_topostake_finalized_settlements ::
    "env \<Rightarrow> ('w, 'b) rpc_world_scheme \<Rightarrow> relay_registry \<Rightarrow> runtime_lock \<Rightarrow> nat \<Rightarrow> submitted_lock \<Rightarrow> 'w \<Rightarrow>
     (submitted_lock \<times> 'w) run" where
  "submit_topostake_finalized_settlements env W reg l finalized_epoch submitted w =
    (let rpc_urls = topostake_el_rpc_urls env W
     in if rpc_urls = [] then Some (submitted, w)
     else Option.bind (topostake_fee_settlement_epoch_summaries l)
       (\<lambda>summaries. submit_epochs W reg finalized_epoch rpc_urls summaries submitted w))"

section \<open>Work at every block\<close>

text \<open>
  The settlement of scores reads the total active balance from the caches of the state; when
  they are not built, all effective balances are added up.
\<close>

definition settle_scores_for_state ::
    "env \<Rightarrow> runtime_lock \<Rightarrow> beacon_state \<Rightarrow> nat option \<Rightarrow> nat \<Rightarrow> chain_spec \<Rightarrow> runtime_lock" where
  "settle_scores_for_state env l st cached_total finalized_epoch spec =
    (let total_balance = (case cached_total of Some t \<Rightarrow> t
           | None \<Rightarrow> sum_u64 (map effective_balance (bs_validators st)));
         balances = map (\<lambda>(i, v). (i, effective_balance v)) (List.enumerate 0 (bs_validators st))
     in snd (topostake_settle_scores_through_epoch env l finalized_epoch balances total_balance spec))"

definition update_topostake_finality_dependent_metrics ::
    "env \<Rightarrow> ('w, 'b) rpc_world_scheme \<Rightarrow> relay_registry \<Rightarrow> beacon_state \<Rightarrow> nat option \<Rightarrow> nat \<Rightarrow> chain_spec \<Rightarrow>
     runtime_lock \<Rightarrow> submitted_lock \<Rightarrow> 'w \<Rightarrow> (runtime_lock \<times> submitted_lock \<times> 'w) run" where
  "update_topostake_finality_dependent_metrics env W reg st cached_total finalized_epoch spec l submitted w =
    (let l = topostake_settle_credits_through_epoch l finalized_epoch
     in map_option (\<lambda>(submitted, w). (settle_scores_for_state env l st cached_total finalized_epoch spec, submitted, w))
       (submit_topostake_finalized_settlements env W reg l finalized_epoch submitted w))"

text \<open>What \<open>per_block_processing\<close> does with the evidence of a block.\<close>

definition process_block_evidence ::
    "env \<Rightarrow> ('w, 'b) rpc_world_scheme \<Rightarrow> relay_crypto \<Rightarrow> relay_registry \<Rightarrow> eth_spec \<Rightarrow> beacon_state \<Rightarrow> nat option \<Rightarrow>
     nat \<Rightarrow> nat \<Rightarrow> inline_record list \<Rightarrow> nat \<Rightarrow> chain_spec \<Rightarrow> runtime_lock \<Rightarrow> submitted_lock \<Rightarrow> 'w \<Rightarrow>
     (record_outcome list \<times> runtime_lock \<times> submitted_lock \<times> 'w) run" where
  "process_block_evidence env W C reg E st cached_total finalized_epoch slot records proposer_index spec l submitted w =
    (let (outcomes, l) = record_topostake_tx_gossip_metadata_for_block env C reg E l slot records proposer_index spec
     in map_option (\<lambda>(l, submitted, w). (outcomes, l, submitted, w))
       (update_topostake_finality_dependent_metrics env W reg st cached_total finalized_epoch spec l submitted w))"

section \<open>What is submitted\<close>

text \<open>The same network with a log of the requests that were sent.\<close>

definition logged :: "'w rpc_world \<Rightarrow> ('w \<times> (string \<times> nat \<times> string) list) rpc_world" where
  "logged W = \<lparr>exchange = (\<lambda>(w, sent) host port request.
       let (r, w) = exchange W w host port request in (r, (w, sent @ [(host, port, request)]))),
     json_text = json_text W, json_read = json_read W, el_registry_read = el_registry_read W,
     udp_local_ip = udp_local_ip W, resolve_ips = resolve_ips W\<rparr>"

definition request_to :: "'w rpc_world \<Rightarrow> relay_registry \<Rightarrow> nat \<Rightarrow> fee_settlement_epoch_summary \<Rightarrow> string \<Rightarrow>
    string \<times> nat \<times> string \<Rightarrow> bool" where
  "request_to W reg finalized_epoch summary url q \<longleftrightarrow>
    (case http_endpoint_parse url of Inl _ \<Rightarrow> False
     | Inr e \<Rightarrow> q = (he_host e, he_port e, http_request e
         (json_text W (settlement_body finalized_epoch (fs_epoch summary) (request_records reg summary)))))"

lemma logged_summary:
  assumes "submit_topostake_settlement_summary (logged W) reg (w, sent) url f summary = Some (r, (w', sent'))"
    and "q \<in> set sent'"
  shows "q \<in> set sent \<or> request_to W reg f summary url q"
  using assms
  by (auto simp: submit_topostake_settlement_summary_def submit_topostake_json_rpc_def logged_def request_to_def
      Let_def case_prod_unfold split: if_splits sum.splits prod.splits)

lemma logged_all:
  assumes "submit_to_all (logged W) reg f summary urls (w, sent) = Some (ok, (w', sent'))" and "q \<in> set sent'"
  shows "q \<in> set sent \<or> (\<exists>url \<in> set urls. request_to W reg f summary url q)"
  using assms
proof (induction urls arbitrary: w sent ok)
  case (Cons url urls)
  then show ?case
    by (fastforce simp: bind_eq_Some_conv split: prod.splits dest: logged_summary)
qed simp

lemma logged_epoch:
  assumes "submit_epoch (logged W) reg f urls summary sub (w, sent) = Some (sub', (w', sent'))" and "q \<in> set sent'"
  shows "q \<in> set sent \<or> settlement_due f summary \<and> (\<exists>epochs. sub = Some epochs \<and> fs_epoch summary \<notin> set epochs) \<and>
    (\<exists>url \<in> set urls. request_to W reg f summary url q)"
  using assms
  by (auto simp: submit_epoch_def split: if_splits option.splits dest!: logged_all)

lemma submitted_grow:
  assumes "submit_epoch W reg f urls summary (Some sub) w = Some (sub', w')"
  obtains sub2 where "sub' = Some sub2" and "set sub \<subseteq> set sub2"
proof -
  have "\<exists>sub2. sub' = Some sub2 \<and> set sub \<subseteq> set sub2"
    using assms by (auto simp: submit_epoch_def hs_insert_def split: if_splits)
  with that show ?thesis by blast
qed

lemma logged_epochs:
  assumes "submit_epochs (logged W) reg f urls summaries (Some sub) (w, sent) = Some (sub', (w', sent'))" and "q \<in> set sent'"
  shows "q \<in> set sent \<or> (\<exists>summary \<in> set summaries. settlement_due f summary \<and> fs_epoch summary \<notin> set sub \<and>
    (\<exists>url \<in> set urls. request_to W reg f summary url q))"
  using assms
proof (induction summaries arbitrary: sub w sent)
  case (Cons s summaries)
  from Cons.prems(1) obtain sub1 w1 sent1 where
      one: "submit_epoch (logged W) reg f urls s (Some sub) (w, sent) = Some (sub1, (w1, sent1))"
    and rest: "submit_epochs (logged W) reg f urls summaries sub1 (w1, sent1) = Some (sub', (w', sent'))"
    by (auto simp: bind_eq_Some_conv)
  from submitted_grow [OF one] obtain sub2 where sub2: "sub1 = Some sub2" "set sub \<subseteq> set sub2" by blast
  from Cons.IH [OF rest [unfolded sub2(1)] Cons.prems(2)] logged_epoch [OF one, of q] sub2(2)
  show ?case by auto
qed simp

lemma logged_fields:
  "el_registry_read (logged W) = el_registry_read W" "udp_local_ip (logged W) = udp_local_ip W"
  "resolve_ips (logged W) = resolve_ips W"
  by (simp_all add: logged_def)

lemma logged_urls: "topostake_el_rpc_urls env (logged W) = topostake_el_rpc_urls env W"
proof -
  have "local_ip_for_registry (logged W) = local_ip_for_registry W"
  proof
    show "local_ip_for_registry (logged W) es = local_ip_for_registry W es" for es
      by (induction es) (simp_all add: logged_fields split: sum.split option.split)
  qed
  then show ?thesis
    unfolding topostake_el_rpc_urls_def topostake_el_rpc_url_def select_topostake_el_rpc_url_from_registry_def
      logged_fields by presburger
qed

lemma sum_sort_key: "(\<Sum>x\<leftarrow>sort_key g xs. f x :: nat) = (\<Sum>x\<leftarrow>xs. f x)"
proof -
  have "(\<Sum>y\<leftarrow>insort_key g x ys. f y) = f x + (\<Sum>y\<leftarrow>ys. f y)" for x ys by (induction ys) auto
  then show ?thesis by (induction xs) simp_all
qed

lemma summaries_of:
  assumes "topostake_fee_settlement_epoch_summaries (Some rt) = Some summaries" and "s \<in> set summaries"
  obtains e er where "map_of (rt_epochs rt) e = Some er" and "s = fee_settlement_summary er e"
  using assms by (auto simp: topostake_fee_settlement_epoch_summaries_def per_epoch_def those_map_Some list_all2_conv_all_nth in_set_conv_nth)

text \<open>The decimal amounts of a request add up to the fees of the epoch.\<close>

definition requested_amount :: "request_record \<Rightarrow> nat" where
  "requested_amount r = (case parse_u64 (rr_amount_wei r) of Some n \<Rightarrow> n | None \<Rightarrow> 0)"

lemma requested_paid: "snd p < 2 ^ 64 \<Longrightarrow> requested_amount (paid_record reg e role p) = snd p"
  by (simp add: requested_amount_def paid_record_def parse_show_u64 case_prod_unfold Let_def del: power_numeral)

lemma requested_burned: "n < 2 ^ 64 \<Longrightarrow> requested_amount (burned_record e n) = n"
  by (simp add: requested_amount_def burned_record_def parse_show_u64 del: power_numeral)

lemma requested_all_paid:
  "(\<Sum>p\<leftarrow>ps. snd p) < 2 ^ 64 \<Longrightarrow> (\<Sum>p\<leftarrow>ps. requested_amount (paid_record reg e role p)) = (\<Sum>p\<leftarrow>ps. snd p)"
  by (induction ps) (auto simp: requested_paid simp del: power_numeral)

lemma requested_total:
  assumes "ledger_balanced er" and "er_total_credit_budget_scaled er < u64_max"
  shows "(\<Sum>r\<leftarrow>request_records reg (fee_settlement_summary er e). requested_amount r) = er_total_credit_budget_scaled er"
proof -
  let ?p = "\<Sum>p\<leftarrow>sort_key fst (er_proposer_credits er). snd p" and ?r = "\<Sum>p\<leftarrow>sort_key fst (er_relay_credits er). snd p"
  have lt: "er_total_credit_budget_scaled er < 2 ^ 64" using assms(2) by (rule u64_max_less)
  have sum: "?p + ?r + er_burned_credit_scaled er = er_total_credit_budget_scaled er"
    using assms(1) by (simp add: ledger_balanced_def hm_values_def sum_sort_key)
  have parts: "?p < 2 ^ 64" "?r < 2 ^ 64" "er_burned_credit_scaled er < 2 ^ 64"
    using sum lt by linarith+
  have "(\<Sum>r\<leftarrow>request_records reg (fee_settlement_summary er e). requested_amount r) =
      (\<Sum>p\<leftarrow>sort_key fst (er_proposer_credits er). requested_amount (paid_record reg e ''proposer'' p)) +
      (\<Sum>p\<leftarrow>sort_key fst (er_relay_credits er). requested_amount (paid_record reg e ''relay'' p)) +
      (if 0 < er_burned_credit_scaled er then requested_amount (burned_record e (er_burned_credit_scaled er)) else 0)"
    by (simp add: request_records_def fee_settlement_summary_def credit_summary_def sorted_topostake_credits_def
        Let_def comp_def)
  with requested_all_paid [OF parts(1)] requested_all_paid [OF parts(2)] requested_burned [OF parts(3)] sum
  show ?thesis by (simp split: if_splits)
qed

text \<open>
  C14.  Only settled fees are submitted, and all of them.  Every request that is sent to an
  execution client is for an epoch of the runtime that is final, that was not submitted
  successfully before, and all of whose credit records are settled; it goes to a configured
  endpoint; and the amounts it lists, for proposers, relays and burning, add up to exactly the
  fees recorded in that epoch.
\<close>

theorem submitted_settlements_exact:
  assumes "runtime_reachable env' spec rt"
    and "proposer_fee_ratio_scaled (topostake_config spec) \<le> SCALE"
    and "all_epochs (\<lambda>_ er. er_total_credit_budget_scaled er < u64_max) rt"
    and "submit_topostake_finalized_settlements env (logged W) reg (Some rt) finalized_epoch (Some submitted) (w, []) =
      Some (submitted', (w', sent))"
    and "q \<in> set sent"
  shows "\<exists>e er url. map_of (rt_epochs rt) e = Some er \<and> e \<le> finalized_epoch \<and> e \<notin> set submitted \<and>
    er_credit_records er \<noteq> [] \<and> list_all cr_settled (er_credit_records er) \<and>
    url \<in> set (topostake_el_rpc_urls env W) \<and>
    request_to W reg finalized_epoch (fee_settlement_summary er e) url q \<and>
    (\<Sum>r\<leftarrow>request_records reg (fee_settlement_summary er e). requested_amount r) = er_total_credit_budget_scaled er"
proof -
  let ?urls = "topostake_el_rpc_urls env W"
  from assms(4,5) obtain summaries where
      all: "topostake_fee_settlement_epoch_summaries (Some rt) = Some summaries"
    and run: "submit_epochs (logged W) reg finalized_epoch ?urls summaries (Some submitted) (w, []) = Some (submitted', (w', sent))"
    by (auto simp: submit_topostake_finalized_settlements_def logged_urls Let_def bind_eq_Some_conv split: if_splits)
  from logged_epochs [OF run assms(5)] obtain s url where
      s: "s \<in> set summaries" "settlement_due finalized_epoch s" "fs_epoch s \<notin> set submitted"
    and url: "url \<in> set ?urls" "request_to W reg finalized_epoch s url q"
    by auto
  from summaries_of [OF all s(1)] obtain e er where
      e: "map_of (rt_epochs rt) e = Some er" and s_eq: "s = fee_settlement_summary er e" .
  have "ledger_ok spec e er" and small: "er_total_credit_budget_scaled er < u64_max"
    using fee_ledger.reachable [OF assms(1)] assms(3) e by (auto dest: all_epochs_get)
  then have "ledger_balanced er" using assms(2) by (simp add: ledger_ok_def)
  note total = requested_total [OF this small, of reg e]
  let ?n = "length (filter cr_settled (er_credit_records er))"
  have "e \<le> finalized_epoch" "?n \<noteq> 0" "length (er_credit_records er) - ?n = 0" "e \<notin> set submitted"
    using s(2,3) unfolding s_eq
    by (simp_all add: settlement_due_def fee_settlement_summary_def credit_summary_def Let_def)
  moreover from this have "list_all cr_settled (er_credit_records er)"
    by (auto simp: list_all_iff dest: length_filter_less [of _ _ cr_settled])
  ultimately show ?thesis
    using e url total unfolding s_eq by (intro exI [of _ e] exI [of _ er] exI [of _ url]) auto
qed

section \<open>A concrete submission\<close>

definition devnet_env :: env where
  "devnet_env = (\<lambda>key. if key = ''TOPOSTAKE_EL_RPC_URL'' then Some ''http://geth:8545'' else None)"

definition devnet_world :: "unit rpc_world" where
  "devnet_world = \<lparr>exchange = (\<lambda>w host port request. (Inr (''HTTP/1.1 200 OK'' @ crlf @ crlf @ ''{}''), w)),
     json_text = (\<lambda>_. ''{}''), json_read = (\<lambda>_. Some (JObj [(''result'', JOther)])),
     el_registry_read = (\<lambda>_. None), udp_local_ip = (\<lambda>_ _. None), resolve_ips = (\<lambda>_. [])\<rparr>"

definition devnet_final_epoch :: epoch_runtime where
  "devnet_final_epoch = devnet_epoch\<lparr>er_credit_records := [\<lparr>cr_settlement_epoch = 7, cr_settled = True\<rparr>]\<rparr>"

definition devnet_final_rt :: evidence_runtime where
  "devnet_final_rt = devnet_rt\<lparr>rt_epochs := [(5, devnet_final_epoch)]\<rparr>"

lemma devnet_final_reachable: "runtime_reachable no_env devnet_spec devnet_final_rt"
proof -
  have "topostake_settle_credits_through_epoch (Some devnet_rt) 7 = Some devnet_final_rt"
    by (simp add: topostake_settle_credits_through_epoch_def settle_credits_rt_def settle_record_def
        devnet_final_rt_def devnet_rt_def devnet_final_epoch_def devnet_epoch_def)
  from runtime_reachable.step [OF devnet_reachable runtime_step.credits [OF this]] show ?thesis .
qed

lemma devnet_url:
  "topostake_el_rpc_urls devnet_env W = [''http://geth:8545'']"
  "http_endpoint_parse ''http://geth:8545'' = Inr \<lparr>he_host = ''geth'', he_port = 8545, he_path = ''/''\<rparr>"
proof -
  have "trim ''http://geth:8545'' = ''http://geth:8545''" by code_simp
  then show "topostake_el_rpc_urls devnet_env W = [''http://geth:8545'']"
    by (simp add: topostake_el_rpc_urls_def configured_url_def devnet_env_def non_empty_def)
  show "http_endpoint_parse ''http://geth:8545'' = Inr \<lparr>he_host = ''geth'', he_port = 8545, he_path = ''/''\<rparr>"
    by (simp add: http_endpoint_parse_def strip_prefix_def split_once_def rsplit_once_def from_str_radix_def
        digit_val_def Let_def)
qed

lemma devnet_response: "rpc_response devnet_world (''HTTP/1.1 200 OK'' @ crlf @ crlf @ ''{}'') = Some (Inr ())"
proof -
  have "split_once_str (crlf @ crlf) (''HTTP/1.1 200 OK'' @ crlf @ crlf @ ''{}'') = Some (''HTTP/1.1 200 OK'', ''{}'')"
    by code_simp
  moreover have "\<not> contains_str (to_ascii_lowercase ''HTTP/1.1 200 OK'') ''transfer-encoding: chunked''"
    by code_simp
  ultimately show ?thesis by (simp add: rpc_response_def devnet_world_def)
qed

lemma devnet_summaries:
  "topostake_fee_settlement_epoch_summaries (Some devnet_final_rt) = Some [fee_settlement_summary devnet_final_epoch 5]"
  "settlement_due 7 (fee_settlement_summary devnet_final_epoch 5)"
  "request_records reg (fee_settlement_summary devnet_final_epoch 5) =
    [paid_record reg 5 ''proposer'' (9, 500000), paid_record reg 5 ''relay'' (2, 346153), burned_record 5 153847]"
  by (simp_all add: topostake_fee_settlement_epoch_summaries_def per_epoch_def devnet_final_rt_def hm_keys_def
      settlement_due_def request_records_def fee_settlement_summary_def credit_summary_def devnet_final_epoch_def
      devnet_epoch_def sum_u64_def hm_values_def sat64_def sorted_topostake_credits_def Let_def)

lemma devnet_submission:
  "\<exists>q. submit_topostake_finalized_settlements devnet_env (logged devnet_world) devnet_registry (Some devnet_final_rt) 7
      (Some []) ((), []) = Some (Some [5], ((), [q]))"
proof -
  have "json_read (logged devnet_world) = json_read devnet_world" by (simp add: logged_def)
  then have "rpc_response (logged devnet_world) = rpc_response devnet_world"
    unfolding rpc_response_def by presburger
  moreover have "exchange (logged devnet_world) ((), []) host port request =
      (Inr (''HTTP/1.1 200 OK'' @ crlf @ crlf @ ''{}''), ((), [(host, port, request)]))" for host port request
    by (simp add: logged_def devnet_world_def)
  moreover have "fs_epoch (fee_settlement_summary devnet_final_epoch 5) = 5"
    by (simp add: fee_settlement_summary_def Let_def)
  ultimately show ?thesis
    using devnet_response
    by (simp add: submit_topostake_finalized_settlements_def devnet_url devnet_summaries submit_epoch_def
        submit_topostake_settlement_summary_def submit_topostake_json_rpc_def hs_insert_def)
qed

lemma submitted_settlements_exact_witness:
  "\<exists>q e er url. map_of (rt_epochs devnet_final_rt) e = Some er \<and> e \<le> 7 \<and>
    request_to devnet_world devnet_registry 7 (fee_settlement_summary er e) url q \<and>
    (\<Sum>r\<leftarrow>request_records devnet_registry (fee_settlement_summary er e). requested_amount r) =
      er_total_credit_budget_scaled er"
proof -
  obtain q where q: "submit_topostake_finalized_settlements devnet_env (logged devnet_world) devnet_registry
      (Some devnet_final_rt) 7 (Some []) ((), []) = Some (Some [5], ((), [q]))"
    using devnet_submission by blast
  have "all_epochs (\<lambda>_ er. er_total_credit_budget_scaled er < u64_max) devnet_final_rt"
    by (simp add: all_epochs_def hm_ok_def devnet_final_rt_def devnet_final_epoch_def devnet_epoch_def u64_max_def)
  moreover have "proposer_fee_ratio_scaled (topostake_config devnet_spec) \<le> SCALE"
    by (simp add: devnet_config topostake_fixed_point_scale_def)
  ultimately show ?thesis
    using submitted_settlements_exact [OF devnet_final_reachable _ _ q, of q] by fastforce
qed

section \<open>Chunked bodies\<close>

text \<open>The encoding that the decoder reverses: each chunk after its length in hexadecimal.\<close>

fun show_hex :: "nat \<Rightarrow> string" where
  "show_hex n = (if n < 16 then [hex_char n] else show_hex (n div 16) @ [hex_char (n mod 16)])"

declare show_hex.simps [simp del]

definition encode_chunk :: "string \<Rightarrow> string" where
  "encode_chunk c = show_hex (length c) @ crlf @ c @ crlf"

definition encode_chunked :: "string list \<Rightarrow> string" where
  "encode_chunked cs = concat (map encode_chunk cs) @ ''0'' @ crlf @ crlf"

lemma show_hex_digits: "list_all is_ascii_hexdigit (show_hex n)"
  by (induction n rule: show_hex.induct) (auto simp: show_hex.simps)

lemma show_hex_not_Nil [simp]: "show_hex n \<noteq> []"
  by (simp add: show_hex.simps [of n])

lemma parse_digits_show_hex: "n < bnd \<Longrightarrow> parse_digits 16 bnd 0 (show_hex n) = Some n"
proof (induction n rule: show_hex.induct)
  case (1 n)
  show ?case
  proof (cases "n < 16")
    case False
    with 1 have "parse_digits 16 bnd 0 (show_hex (n div 16)) = Some (n div 16)" by auto
    with False 1 show ?thesis by (simp add: show_hex.simps [of n] parse_digits_append)
  qed (use 1 in \<open>simp add: show_hex.simps [of n]\<close>)
qed

lemma hexdigit_bytes: "is_ascii_hexdigit c \<Longrightarrow> c \<noteq> CHR 0x0D \<and> c \<noteq> CHR ''+'' \<and> \<not> utf8_cont (of_char c)"
  using hexdigit_printable [of c] by (auto simp: printable_def utf8_cont_def is_ascii_hexdigit_def digit_val_def)

lemma trim_hexdigits: "list_all is_ascii_hexdigit s \<Longrightarrow> trim s = s"
  by (rule trim_id) (cases "s = []", auto simp: list_all_iff intro: hexdigit_printable)

lemma read_show_hex: "n < 2 ^ 64 \<Longrightarrow> from_str_radix 16 (2 ^ 64) (trim (show_hex n)) = Some n"
proof -
  assume n: "n < 2 ^ 64"
  obtain c r where s: "show_hex n = c # r" by (cases "show_hex n") auto
  then have "c \<noteq> CHR ''+''" using show_hex_digits [of n] by (auto dest: hexdigit_bytes)
  with s parse_digits_show_hex [OF n] show ?thesis
    unfolding trim_hexdigits [OF show_hex_digits] by (simp add: from_str_radix_def)
qed

lemma split_crlf: "CHR 0x0D \<notin> set s \<Longrightarrow> split_once_str [CHR 0x0D, CHR 0x0A] (s @ CHR 0x0D # CHR 0x0A # t) = Some (s, t)"
  by (induction s) auto

lemma split_size: "split_once_str [CHR 0x0D, CHR 0x0A] (show_hex n @ crlf @ t) = Some (show_hex n, t)"
  using split_crlf [of "show_hex n" t] show_hex_digits [of n] hexdigit_bytes by (auto simp: crlf_def list_all_iff)

lemma encode_chunked_hd: "\<not> utf8_cont (of_char (encode_chunked cs ! 0))" "encode_chunked cs \<noteq> []"
proof -
  have "is_ascii_hexdigit (hd (encode_chunked cs))"
  proof (cases cs)
    case (Cons c r)
    with show_hex_digits [of "length c"] show ?thesis
      by (cases "show_hex (length c)") (auto simp: encode_chunked_def encode_chunk_def)
  qed (simp add: encode_chunked_def is_ascii_hexdigit_def digit_val_def)
  then show "\<not> utf8_cont (of_char (encode_chunked cs ! 0))" "encode_chunked cs \<noteq> []"
    by (auto simp: encode_chunked_def hd_conv_nth dest: hexdigit_bytes)
qed

lemma decode_one_chunk:
  assumes "c \<noteq> []" and "length c + 2 < 2 ^ 64"
  shows "decode_chunked acc (encode_chunk c @ encode_chunked cs) = decode_chunked (acc @ c) (encode_chunked cs)"
proof -
  let ?after = "c @ crlf @ encode_chunked cs"
  have "length c < 2 ^ 64" using assms(2) by simp
  note rd = split_size [of "length c" ?after] read_show_hex [OF this]
  have cont: "\<not> utf8_cont 13" by (simp add: utf8_cont_def)
  have "char_boundary ?after (length c)" "char_boundary ?after (length c + 2)"
    using encode_chunked_hd [of cs] cont by (auto simp: char_boundary_def crlf_def nth_append)
  moreover have "(length c + 2) mod 2 ^ 64 = length c + 2" using assms(2) by (rule mod_less)
  moreover have "length ?after = length c + 2 + length (encode_chunked cs)" by (simp add: crlf_def)
  moreover have "take (length c) ?after = c" "drop (length c + 2) ?after = encode_chunked cs"
    by (simp_all add: crlf_def)
  ultimately show ?thesis
    using rd assms(1) unfolding encode_chunk_def append_assoc
    by (subst decode_chunked.simps) (simp del: power_numeral append_assoc)
qed

text \<open>
  C33.  Chunked responses are read back.  Decoding the chunked encoding of any chunks that are
  not empty and whose lengths fit into 64 bits returns their concatenation, without an error
  or a panic.
\<close>

theorem chunked_round_trip:
  assumes "list_all (\<lambda>c. c \<noteq> [] \<and> length c + 2 < 2 ^ 64) cs"
  shows "decode_chunked_http_body (encode_chunked cs) = Some (Inr (concat cs))"
proof -
  have "encode_chunked [] = show_hex 0 @ crlf @ crlf"
    by (simp add: encode_chunked_def show_hex.simps, code_simp)
  then have stop: "decode_chunked acc (encode_chunked []) = Some (Inr acc)" for acc
    using split_size [of 0 crlf] read_show_hex [of 0]
    by (subst decode_chunked.simps) (simp del: power_numeral)
  have "decode_chunked acc (encode_chunked cs) = Some (Inr (acc @ concat cs))" for acc
    using assms
  proof (induction cs arbitrary: acc)
    case (Cons c cs)
    have "encode_chunked (c # cs) = encode_chunk c @ encode_chunked cs" by (simp add: encode_chunked_def)
    with Cons decode_one_chunk [of c acc cs] show ?case by (simp del: power_numeral)
  qed (simp add: stop)
  then show ?thesis by (simp add: decode_chunked_http_body_def)
qed

lemma chunked_round_trip_witness:
  "decode_chunked_http_body (encode_chunked [''{'', ''}'']) = Some (Inr ''{}'')"
  using chunked_round_trip [of "[''{'', ''}'']"] by simp

text \<open>
  A chunk size that ends inside a character, or that overflows, stops the node with a panic
  instead of an error.
\<close>

lemma chunked_split_character_panics:
  "decode_chunked_http_body (''1'' @ crlf @ [CHR 0xC3, CHR 0xA9] @ crlf) = None"
proof -
  have "split_once_str [CHR 0x0D, CHR 0x0A] (''1'' @ crlf @ [CHR 0xC3, CHR 0xA9] @ crlf) =
      Some (''1'', [CHR 0xC3, CHR 0xA9] @ crlf)" by code_simp
  moreover have "trim ''1'' = ''1''" by code_simp
  ultimately show ?thesis
    unfolding decode_chunked_http_body_def
    by (subst decode_chunked.simps)
       (simp add: from_str_radix_def digit_val_def char_boundary_def utf8_cont_def crlf_def)
qed

lemma chunked_huge_size_panics:
  "decode_chunked_http_body (''ffffffffffffffff'' @ crlf @ ''ab'') = None"
proof -
  have "split_once_str [CHR 0x0D, CHR 0x0A] (''ffffffffffffffff'' @ crlf @ ''ab'') = Some (''ffffffffffffffff'', ''ab'')"
    by code_simp
  moreover have "trim ''ffffffffffffffff'' = ''ffffffffffffffff''" by code_simp
  ultimately show ?thesis
    unfolding decode_chunked_http_body_def
    by (subst decode_chunked.simps) (simp add: from_str_radix_def digit_val_def)
qed

end
