(* ===== verification/Settlement_Flow.thy ===== *)
theory Settlement_Flow
  imports Geth_Settlement Settlement_Submit
begin

text \<open>
  From the fee ledger of the consensus client to the accounts of the execution client: the
  settlement request of an epoch, as the execution client decodes it, is in normal form, is
  accepted, and is paid by the next block.  The decoder of JSON-RPC requests is the argument
  \<open>decode\<close>; it is assumed to return the fields of a request that the consensus client prints.
\<close>

definition payload_record :: "request_record \<Rightarrow> settlement_record" where
  "payload_record r = \<lparr>st_id = rr_id r, st_epoch = rr_epoch r, st_role = rr_role r,
     st_validator_index = rr_validator_index r,
     st_payout_address = (case rr_payout_address r of None \<Rightarrow> [] | Some a \<Rightarrow> a), st_amount_wei = rr_amount_wei r\<rparr>"

definition payload_of :: "nat \<Rightarrow> nat \<Rightarrow> request_record list \<Rightarrow> settlement_payload" where
  "payload_of finalized_epoch epoch records = \<lparr>sp_domain = settlement_domain, sp_finalized_epoch = finalized_epoch,
     sp_epoch = epoch, sp_records = map payload_record records\<rparr>"

text \<open>The account a validator is paid to, and what an epoch has credited to an account.\<close>

definition has_account :: "relay_registry \<Rightarrow> nat \<Rightarrow> bool" where
  "has_account reg v \<longleftrightarrow> (\<exists>a. length a = 20 \<and> payout_address_for_validator reg v = hex_bytes a)"

definition earned :: "relay_registry \<Rightarrow> epoch_runtime \<Rightarrow> bytes \<Rightarrow> nat" where
  "earned reg er a = (\<Sum>(v, x)\<leftarrow>er_proposer_credits er @ er_relay_credits er.
     if payout_address_for_validator reg v = hex_bytes a then x else 0)"

section \<open>Requests are in normal form\<close>

lemma separated: "(c :: char) \<notin> set a \<Longrightarrow> c \<notin> set b \<Longrightarrow> a @ c # x = b @ c # y \<longleftrightarrow> a = b \<and> x = y"
proof (induction a arbitrary: b)
  case Nil
  then show ?case by (cases b) auto
next
  case (Cons d a)
  then show ?case by (cases b) auto
qed

lemma show_nat_no_colon: "CHR '':'' \<notin> set (show_nat n)"
  using show_nat_digits [of "CHR '':''" n] by (auto simp: is_digit_def)

lemma trim_record_id:
  "trim (show_nat e @ x @ show_nat n) = show_nat e @ x @ show_nat n"
proof (rule trim_id)
  have "printable (hd (show_nat e))" by (intro is_digit_printable show_nat_digits [of _ e]) simp
  moreover have "printable (last (show_nat n))" by (intro is_digit_printable show_nat_digits [of _ n]) simp
  ultimately show "show_nat e @ x @ show_nat n = [] \<or> printable (hd (show_nat e @ x @ show_nat n)) \<and>
      printable (last (show_nat e @ x @ show_nat n))" by simp
qed

lemma record_ids:
  "rr_id (paid_record reg e role p) = show_nat e @ CHR '':'' # role @ CHR '':'' # show_nat (fst p) @ CHR '':'' #
     payout_address_for_validator reg (fst p) @ CHR '':'' # show_nat (snd p)"
  "rr_id (burned_record e n) = show_nat e @ CHR '':'' # ''burned'' @ CHR '':'' # ''0::'' @ show_nat n"
  by (simp_all add: paid_record_def burned_record_def case_prod_unfold Let_def)

lemma clean_paid_record:
  assumes "role \<in> {''proposer'', ''relay''}" and "has_account reg v" and "x < 2 ^ 64"
  shows "clean_record U e (payload_record (paid_record reg e role (v, x)))"
proof -
  obtain a where a: "length a = 20" "payout_address_for_validator reg v = hex_bytes a"
    using assms(2) by (auto simp: has_account_def)
  have "x < 2 ^ 256" using assms(3) by (rule less_trans) simp
  then have "amountFromDecimal (show_nat x) = Some x" by (rule parse_digits_decimal)
  moreover have "trim (rr_id (paid_record reg e role (v, x))) = rr_id (paid_record reg e role (v, x))"
    using trim_record_id [of e "'':'' @ role @ '':'' @ show_nat v @ '':'' @ hex_bytes a @ '':''" x]
    by (simp add: record_ids a(2))
  moreover have "rr_id (paid_record reg e role (v, x)) \<noteq> []" by (simp add: record_ids)
  moreover have "role \<in> {''proposer'', ''relay'', ''burned''}" using assms(1) by blast
  ultimately show ?thesis
    unfolding clean_record_def by (simp add: payload_record_def paid_record_def normalize_hex_bytes a Let_def)
qed

lemma clean_burned_record: "x < 2 ^ 64 \<Longrightarrow> clean_record U e (payload_record (burned_record e x))"
proof -
  assume "x < 2 ^ 64"
  then have "x < 2 ^ 256" by (rule less_trans) simp
  then have "amountFromDecimal (show_nat x) = Some x" by (rule parse_digits_decimal)
  moreover have "normalizeRelayAddress U [] = []" by (simp add: normalizeRelayAddress_def trim_id)
  ultimately show ?thesis
    using trim_record_id [of e "'':burned:0::''" x]
    by (simp add: clean_record_def payload_record_def burned_record_def)
qed

lemma paid_ids_distinct:
  "distinct (map fst ps) \<Longrightarrow> CHR '':'' \<notin> set role \<Longrightarrow>
    distinct (map (\<lambda>p. rr_id (paid_record reg e role p)) ps)"
  by (induction ps)
     (auto simp: paid_record_def case_prod_unfold Let_def separated show_nat_no_colon show_nat_inject)

lemma request_ids_distinct:
  assumes "distinct (map fst (fs_proposer_settlements s))" and "distinct (map fst (fs_relay_settlements s))"
  shows "distinct (map rr_id (request_records reg s))"
proof -
  have "rr_id (paid_record reg e role p) \<noteq> rr_id (paid_record reg e role' q)"
    if "role \<noteq> role'" "CHR '':'' \<notin> set role" "CHR '':'' \<notin> set role'" for role role' e p q
    using that by (simp add: record_ids separated)
  moreover have "rr_id (burned_record e n) \<noteq> rr_id (paid_record reg e role p)"
    if "role \<noteq> ''burned''" "CHR '':'' \<notin> set role" for role e p n
    using that separated [of "CHR '':''" "''burned''" role] by (auto simp: record_ids)
  ultimately show ?thesis
    using paid_ids_distinct [OF assms(1), of "''proposer''"] paid_ids_distinct [OF assms(2), of "''relay''"]
    by (auto simp: request_records_def comp_def)
qed

section \<open>The amounts of a request\<close>

lemma hex_bytes_inject: "hex_bytes a = hex_bytes b \<longleftrightarrow> a = b"
proof
  assume "hex_bytes a = hex_bytes b"
  then have "hex_decode (drop 2 (hex_bytes a)) = hex_decode (drop 2 (hex_bytes b))" by simp
  then show "a = b" by (simp add: drop_hex_bytes hex_decode_print)
qed simp

lemma account_of: "has_account reg v \<Longrightarrow> HexToAddress (payout_address_for_validator reg v) = a \<longleftrightarrow>
    payout_address_for_validator reg v = hex_bytes a"
  by (auto simp: has_account_def HexToAddress_hex_bytes hex_bytes_inject)

text \<open>An epoch whose fees are settled: its books balance, and everyone credited has an account.\<close>

definition payable :: "relay_registry \<Rightarrow> epoch_runtime \<Rightarrow> bool" where
  "payable reg er \<longleftrightarrow> hm_ok (er_proposer_credits er) \<and> hm_ok (er_relay_credits er) \<and> ledger_balanced er \<and>
    0 < er_total_credit_budget_scaled er \<and> er_total_credit_budget_scaled er < u64_max \<and>
    list_all (\<lambda>(v, x). has_account reg v) (er_proposer_credits er @ er_relay_credits er)"

lemma credit_less:
  assumes "payable reg er" and "(v, x) \<in> set (er_proposer_credits er) \<union> set (er_relay_credits er)"
  shows "x < 2 ^ 64" and "has_account reg v"
proof -
  have "x \<le> sum_list (hm_values (er_proposer_credits er)) + sum_list (hm_values (er_relay_credits er))"
    using assms(2) unfolding hm_values_def by (force intro: member_le_sum_list trans_le_add1 trans_le_add2)
  then have "x \<le> er_total_credit_budget_scaled er" using assms(1) by (simp add: payable_def ledger_balanced_def)
  with u64_max_less assms(1) show "x < 2 ^ 64" unfolding payable_def by (metis le_less_trans)
  show "has_account reg v" using assms by (auto simp: payable_def list_all_iff)
qed

lemma burned_less: "payable reg er \<Longrightarrow> er_burned_credit_scaled er < 2 ^ 64"
  using u64_max_less [of "er_total_credit_budget_scaled er"] by (auto simp: payable_def ledger_balanced_def)

lemma request_records_eq:
  "request_records reg (fee_settlement_summary er e) =
    map (paid_record reg e ''proposer'') (sort_key fst (er_proposer_credits er)) @
    map (paid_record reg e ''relay'') (sort_key fst (er_relay_credits er)) @
    (if 0 < er_burned_credit_scaled er then [burned_record e (er_burned_credit_scaled er)] else [])"
  by (simp add: request_records_def fee_settlement_summary_def credit_summary_def sorted_topostake_credits_def Let_def)

lemma request_clean:
  assumes "payable reg er"
  shows "clean_payload U (payload_of f e (request_records reg (fee_settlement_summary er e)))"
proof -
  let ?rs = "request_records reg (fee_settlement_summary er e)"
  have "er_proposer_credits er \<noteq> [] \<or> er_relay_credits er \<noteq> [] \<or> 0 < er_burned_credit_scaled er"
    using assms by (auto simp: payable_def ledger_balanced_def hm_values_def)
  moreover have "sort_key fst xs = [] \<longleftrightarrow> xs = []" for xs :: "(nat, nat) hash_map"
    using length_sort [of fst xs] by (auto simp del: length_sort)
  ultimately have "?rs \<noteq> []" by (auto simp: request_records_eq)
  moreover have "list_all (clean_record U e) (map payload_record ?rs)"
    using credit_less [OF assms] burned_less [OF assms]
    by (auto simp: request_records_eq list_all_iff intro!: clean_paid_record clean_burned_record simp del: power_numeral)
  moreover have "distinct (map st_id (map payload_record ?rs))"
  proof -
    have "map st_id (map payload_record ?rs) = map rr_id ?rs" by (simp add: payload_record_def)
    moreover have "distinct (map fst (sort_key fst xs))" if "hm_ok xs" for xs :: "(nat, nat) hash_map"
      using that distinct_sort [of id "map fst xs"] by (simp add: hm_ok_def distinct_map)
    then have "distinct (map fst (fs_proposer_settlements (fee_settlement_summary er e)))"
      "distinct (map fst (fs_relay_settlements (fee_settlement_summary er e)))"
      using assms
      by (auto simp: payable_def fee_settlement_summary_def credit_summary_def sorted_topostake_credits_def Let_def)
    ultimately show ?thesis using request_ids_distinct [of "fee_settlement_summary er e" reg] by metis
  qed
  ultimately show ?thesis by (simp add: clean_payload_def payload_of_def)
qed

lemma requested_decimal:
  assumes "payable reg er" and "r \<in> set (request_records reg (fee_settlement_summary er e))"
  shows "amountFromDecimal (rr_amount_wei r) = Some (requested_amount r)"
proof -
  have "\<exists>n. rr_amount_wei r = show_nat n \<and> n < 2 ^ 64"
    using assms(2) burned_less [OF assms(1)]
    by (auto simp: request_records_eq paid_record_def burned_record_def Let_def show_nat_inject split: if_splits
        simp del: power_numeral intro: credit_less(1) [OF assms(1)])
  then obtain n where n: "rr_amount_wei r = show_nat n" "n < 2 ^ 64" by blast
  then have "n < 2 ^ 256" by (auto intro: less_trans)
  with n show ?thesis by (simp add: requested_amount_def parse_digits_decimal parse_show_u64 del: power_numeral)
qed

lemma request_amounts:
  assumes "payable reg er"
  shows "settlement_amounts (payload_of f e (request_records reg (fee_settlement_summary er e))) =
    Some (map (\<lambda>r. of_nat (requested_amount r)) (request_records reg (fee_settlement_summary er e)))"
  unfolding settlement_amounts_def payload_of_def those_map_Some
  using requested_decimal [OF assms]
  by (auto simp: list.rel_map payload_record_def intro!: list.rel_refl_strong)

lemma sum_of_nat: "(\<Sum>x\<leftarrow>xs. of_nat (f x)) = of_nat (\<Sum>x\<leftarrow>xs. f x)"
  by (induction xs) simp_all

lemma paid_record_fields:
  "rr_role (paid_record reg e role p) = role"
  "rr_payout_address (paid_record reg e role p) = Some (payout_address_for_validator reg (fst p))"
  by (simp_all add: paid_record_def case_prod_unfold Let_def)

lemma request_paid_to:
  assumes "payable reg er" and "rs = request_records reg (fee_settlement_summary er e)"
  shows "paid_to a (zip (sp_records (payload_of f e rs)) (map (\<lambda>r. of_nat (requested_amount r)) rs)) =
    of_nat (earned reg er a)"
proof -
  let ?g = "\<lambda>r. if rr_role r \<noteq> ''burned'' \<and> HexToAddress (case rr_payout_address r of None \<Rightarrow> [] | Some p \<Rightarrow> p) = a
    then requested_amount r else 0"
  let ?h = "\<lambda>(v, x). if payout_address_for_validator reg v = hex_bytes a then x else 0"
  have paid: "?g (paid_record reg e role p) = ?h p"
    if "p \<in> set (er_proposer_credits er) \<union> set (er_relay_credits er)" "role \<noteq> ''burned''" for role p
    using that credit_less [OF assms(1), of "fst p" "snd p"] requested_paid [of p reg e role]
    by (cases p) (auto simp: paid_record_fields account_of simp del: power_numeral)
  have "paid_to a (zip (sp_records (payload_of f e rs)) (map (\<lambda>r. of_nat (requested_amount r)) rs)) = (\<Sum>r\<leftarrow>rs. of_nat (?g r))"
    unfolding paid_to_def payload_of_def
    by (simp add: zip_map_map zip_same_conv_map comp_def payload_record_def if_distrib cong: if_cong)
  also have "\<dots> = of_nat (\<Sum>r\<leftarrow>rs. ?g r)" by (rule sum_of_nat)
  also have "(\<Sum>r\<leftarrow>rs. ?g r) = (\<Sum>p\<leftarrow>sort_key fst (er_proposer_credits er). ?g (paid_record reg e ''proposer'' p)) +
      (\<Sum>p\<leftarrow>sort_key fst (er_relay_credits er). ?g (paid_record reg e ''relay'' p))"
    unfolding assms(2) request_records_eq by (simp add: comp_def burned_record_def)
  also have "\<dots> = (\<Sum>p\<leftarrow>sort_key fst (er_proposer_credits er). ?h p) + (\<Sum>p\<leftarrow>sort_key fst (er_relay_credits er). ?h p)"
    using paid by (intro arg_cong2 [where f = plus] arg_cong [where f = sum_list] map_cong) auto
  also have "\<dots> = earned reg er a" unfolding sum_sort_key earned_def by simp
  finally show ?thesis .
qed

text \<open>
  C10.  Settled fees reach the accounts of those who earned them.  Take an epoch of a reachable
  runtime with fees to pay, all of whose proposers and relays have registered accounts, and an
  execution node without other pending settlements and with enough in escrow.  Then the
  settlement request that the consensus client prints for the epoch is accepted; the node
  builds a block for it; every node imports that block and computes the same accounts; the
  escrow is debited by exactly the fees of the epoch, and every other account is credited with
  exactly what the ledger credited to its validators.
\<close>

theorem settled_fees_are_paid:
  assumes "runtime_reachable env' spec rt" and "map_of (rt_epochs rt) e = Some er"
    and "proposer_fee_ratio_scaled (topostake_config spec) \<le> SCALE"
    and "0 < er_total_credit_budget_scaled er" and "er_total_credit_budget_scaled er < u64_max"
    and "list_all (\<lambda>(v, x). has_account reg v) (er_proposer_credits er @ er_relay_credits er)"
    and decode: "decode (json_text W (settlement_body f e (request_records reg (fee_settlement_summary er e)))) =
      Some (payload_of f e (request_records reg (fee_settlement_summary er e)))"
    and "FeeEscrowEnabled U env" and "SettlementMutationEnabled U env" and "\<And>x. length (H x) = 32"
    and "no_pending s" and "show_nat e \<notin> set (executedSettlements s)"
    and "er_total_credit_budget_scaled er \<le> unat (GetBalance b FeeEscrowAddress)"
    and "earned reg er FeeEscrowAddress = 0"
  shows "\<exists>payload n s1 extra built b'.
    decode (json_text W (settlement_body f e (request_records reg (fee_settlement_summary er e)))) = Some payload \<and>
    SubmitSettlement U H s payload = (Inr n, s1) \<and> extra = header_extra U env s1 config_extra \<and>
    build_settlement U H env s1 b extra = Inr (built, s1, b') \<and>
    (\<forall>s2. \<exists>s2'. import_settlement U H env s2 b extra built = Inr (s2', b')) \<and>
    GetBalance b' FeeEscrowAddress = GetBalance b FeeEscrowAddress - of_nat (er_total_credit_budget_scaled er) \<and>
    (\<forall>a. a \<noteq> FeeEscrowAddress \<longrightarrow> GetBalance b' a = GetBalance b a + of_nat (earned reg er a))"
proof -
  let ?total = "er_total_credit_budget_scaled er"
  define rs where "rs = request_records reg (fee_settlement_summary er e)"
  define p where "p = payload_of f e rs"
  define amounts :: "uint256 list" where "amounts = map (\<lambda>r. of_nat (requested_amount r)) rs"
  have "ledger_ok spec e er" using fee_ledger.reachable [OF assms(1)] assms(2) by (rule all_epochs_get)
  then have payable: "payable reg er" using assms(3-6) by (simp add: payable_def ledger_ok_def)
  have clean: "clean_payload U p" unfolding p_def rs_def by (rule request_clean [OF payable])
  have am: "settlement_amounts p = Some amounts" unfolding p_def amounts_def rs_def by (rule request_amounts [OF payable])
  have "(\<Sum>r\<leftarrow>rs. requested_amount r) = ?total"
    unfolding rs_def by (rule requested_total) (use payable in \<open>auto simp: payable_def\<close>)
  then have sum: "sum_list amounts = of_nat ?total" unfolding amounts_def by (simp add: sum_of_nat)
  have "?total < 2 ^ 256" using u64_max_less [OF assms(5)] by (rule less_trans) simp
  then have total: "unat (of_nat ?total :: uint256) = ?total" by (simp add: unat_of_nat)
  have nz: "sum_list amounts \<noteq> 0" using total assms(4) unfolding sum by (metis less_irrefl unat_0)
  have le: "sum_list amounts \<le> GetBalance b FeeEscrowAddress" using assms(13) total by (simp add: sum word_le_nat_alt)
  have key: "show_nat (sp_epoch p) \<notin> set (executedSettlements s)" using assms(12) by (simp add: p_def payload_of_def)
  obtain s1 where s1: "SubmitSettlement U H s p = (Inr (length (sp_records p)), s1)"
      "map_of (settlementsByRoot s1) (commitment U H p) = Some p" "PendingSettlementRoot U env s1 = commitment U H p"
    using submit_clean [OF clean assms(11) key] assms(8) by metis
  note build = build_clean [OF clean assms(8,10) s1(2,3)]
  note run = execute_clean [OF assms(9) am nz le]
  define b' where "b' = pay_records (zip (sp_records p) amounts) (SubBalance FeeEscrowAddress (sum_list amounts) b)"
  have built: "build_settlement U H env s1 b (header_extra U env s1 config_extra) = Inr (block_records p, s1, b')"
    unfolding build(2) run b'_def by simp
  have imported: "\<exists>s2'. import_settlement U H env s2 b (header_extra U env s1 config_extra) (block_records p) = Inr (s2', b')" for s2
    unfolding build(1) import_clean [OF clean assms(8,10)] run b'_def by simp
  have paid: "paid_to a (zip (sp_records p) amounts) = of_nat (earned reg er a)" for a
    unfolding p_def amounts_def by (rule request_paid_to [OF payable rs_def])
  have bal: "GetBalance b' a = (if a = FeeEscrowAddress then GetBalance b a - sum_list amounts else GetBalance b a) +
      of_nat (earned reg er a)" for a
    unfolding b'_def by (simp add: GetBalance_pay GetBalance_Sub paid)
  show ?thesis
    using decode s1(1) built imported bal assms(14) unfolding sum rs_def [symmetric] p_def [symmetric]
    by (intro exI [of _ p] exI [of _ "length (sp_records p)"] exI [of _ s1] exI [of _ "header_extra U env s1 config_extra"]
        exI [of _ "block_records p"] exI [of _ b']) simp
qed

section \<open>A concrete settlement\<close>

definition payout_registry :: relay_registry where
  "payout_registry = registry_default\<lparr>payout_addresses := [(9, hex_bytes (replicate 20 9)), (2, hex_bytes (replicate 20 2))]\<rparr>"

lemma settled_fees_are_paid_witness:
  "\<exists>payload n s1 built b' s2'.
    SubmitSettlement id zero_digest empty_store payload = (Inr n, s1) \<and>
    build_settlement id zero_digest geth_env s1 [(FeeEscrowAddress, 2000000)] (header_extra id geth_env s1 []) = Inr (built, s1, b') \<and>
    import_settlement id zero_digest geth_env empty_store [(FeeEscrowAddress, 2000000)] (header_extra id geth_env s1 []) built = Inr (s2', b') \<and>
    GetBalance b' FeeEscrowAddress = 1000000 \<and> GetBalance b' (replicate 20 9) = 500000 \<and>
    GetBalance b' (replicate 20 2) = 346153"
proof -
  let ?b = "[(FeeEscrowAddress, 2000000 :: uint256)]"
  let ?rs = "request_records payout_registry (fee_settlement_summary devnet_final_epoch 5)"
  have esc: "hd FeeEscrowAddress = 0" by code_simp
  have ne: "replicate 20 9 \<noteq> FeeEscrowAddress" "replicate 20 2 \<noteq> FeeEscrowAddress"
  proof -
    have "hd (replicate 20 c) = c" for c :: byte by simp
    with esc have "replicate 20 c \<noteq> FeeEscrowAddress" if "c \<noteq> 0" for c using that by metis
    then show "replicate 20 9 \<noteq> FeeEscrowAddress" "replicate 20 2 \<noteq> FeeEscrowAddress" by simp_all
  qed
  have pay: "payout_address_for_validator payout_registry 9 = hex_bytes (replicate 20 9)"
    "payout_address_for_validator payout_registry 2 = hex_bytes (replicate 20 2)"
    by (simp_all add: payout_address_for_validator_def payout_registry_def)
  have credits: "er_proposer_credits devnet_final_epoch = [(9, 500000)]" "er_relay_credits devnet_final_epoch = [(2, 346153)]"
    "er_total_credit_budget_scaled devnet_final_epoch = 1000000"
    by (simp_all add: devnet_final_epoch_def devnet_epoch_def)
  have bal: "GetBalance ?b FeeEscrowAddress = 2000000" "a \<noteq> FeeEscrowAddress \<Longrightarrow> GetBalance ?b a = 0" for a
    by (simp_all add: GetBalance_def hm_get_or_def)
  have earned: "earned payout_registry devnet_final_epoch FeeEscrowAddress = 0"
    "earned payout_registry devnet_final_epoch (replicate 20 9) = 500000"
    "earned payout_registry devnet_final_epoch (replicate 20 2) = 346153"
    using ne by (simp_all add: earned_def credits pay hex_bytes_inject)
  have "has_account payout_registry 9" "has_account payout_registry 2"
    unfolding has_account_def pay by (intro exI [of _ "replicate 20 9"], simp) (intro exI [of _ "replicate 20 2"], simp)
  then have accounts: "list_all (\<lambda>(v, x). has_account payout_registry v)
      (er_proposer_credits devnet_final_epoch @ er_relay_credits devnet_final_epoch)" by (simp add: credits)
  have rt: "map_of (rt_epochs devnet_final_rt) 5 = Some devnet_final_epoch" by (simp add: devnet_final_rt_def)
  have "\<exists>payload n s1 extra built b'.
    (\<lambda>_. Some (payload_of 7 5 ?rs)) (json_text devnet_world (settlement_body 7 5 ?rs)) = Some payload \<and>
    SubmitSettlement id zero_digest empty_store payload = (Inr n, s1) \<and> extra = header_extra id geth_env s1 [] \<and>
    build_settlement id zero_digest geth_env s1 ?b extra = Inr (built, s1, b') \<and>
    (\<forall>s2. \<exists>s2'. import_settlement id zero_digest geth_env s2 ?b extra built = Inr (s2', b')) \<and>
    GetBalance b' FeeEscrowAddress = GetBalance ?b FeeEscrowAddress - of_nat (er_total_credit_budget_scaled devnet_final_epoch) \<and>
    (\<forall>a. a \<noteq> FeeEscrowAddress \<longrightarrow> GetBalance b' a = GetBalance ?b a + of_nat (earned payout_registry devnet_final_epoch a))"
    by (rule settled_fees_are_paid [OF devnet_final_reachable rt _ _ _ accounts _ geth_env_on])
       (simp_all add: devnet_config topostake_fixed_point_scale_def credits u64_max_def no_pending_def empty_store_def bal earned)
  then obtain payload n s1 built b' where
      "SubmitSettlement id zero_digest empty_store payload = (Inr n, s1)"
      "build_settlement id zero_digest geth_env s1 ?b (header_extra id geth_env s1 []) = Inr (built, s1, b')"
      "\<exists>s2'. import_settlement id zero_digest geth_env empty_store ?b (header_extra id geth_env s1 []) built = Inr (s2', b')"
    and b': "GetBalance b' FeeEscrowAddress = GetBalance ?b FeeEscrowAddress - of_nat (er_total_credit_budget_scaled devnet_final_epoch)"
      "\<And>a. a \<noteq> FeeEscrowAddress \<Longrightarrow> GetBalance b' a = GetBalance ?b a + of_nat (earned payout_registry devnet_final_epoch a)"
    by blast
  moreover have "GetBalance b' FeeEscrowAddress = 1000000" "GetBalance b' (replicate 20 9) = 500000"
      "GetBalance b' (replicate 20 2) = 346153"
    unfolding b'(1) b'(2) [OF ne(1)] b'(2) [OF ne(2)] by (simp_all add: bal ne earned credits)
  ultimately show ?thesis by blast
qed

end
