(* ===== verification/Spec2Isabelle.thy ===== *)
theory Spec2Isabelle
  imports World_Properties Security_Eval Beacon_Activation Beacon_Duties Settlement_Flow
begin

text \<open>
  Verification of TopoStake, a proof-of-stake protocol that rewards the propagation of
  transactions.  The repository holds a simulator in Rust (\<^verbatim>\<open>src/src\<close>) and a devnet made of a
  fork of the consensus client Lighthouse and of the execution client Geth
  (\<^verbatim>\<open>src/ethereum-topostake\<close>).  Both have the same life cycle.  A transaction collects signed
  hops while it is relayed; a proposer packs it with its path record; verified records earn
  relay fees and a propagation score; scores become active after a delay and give a bounded
  bonus to the proposer weight.

  \<^bold>\<open>Conventions.\<close>  A panic is \<open>None\<close> of the type \<open>run\<close>; an error returned by the code is the
  left side of a sum.  A \<open>HashMap\<close> is an association list with the operations of
  \<open>Prelude\<close>, a \<open>String\<close> is its UTF-8 bytes.  The 64-bit floats of the simulator are reals; the
  consensus client computes in scaled integers, which are natural numbers that saturate where
  the code saturates; balances of the execution client are 256-bit words that wrap.  Digests,
  signatures, JSON, random draws, clocks, sockets and files are arguments.  What is assumed of
  them is named (\<open>hex_laws\<close>, \<open>ecdsa_laws\<close>, \<open>bls_sign_laws\<close>, \<open>bls_aggregate_laws\<close> and the like), and
  \<open>Sample_Env\<close> gives an instance on which the assumptions hold together.  A definition that
  translates only a part of a function stands next to the definition of that function.

  \<^bold>\<open>Simulator: data and evidence.\<close>
  \<^item> \<open>Prelude\<close>, \<open>Rust_Text\<close>: tables, queues, saturating integers and the text library, with the
    locales \<open>table_api\<close> and \<open>maturity_queue\<close>.
  \<^item> \<open>Wallet\<close>, \<open>Transaction\<close> (\<^verbatim>\<open>wallet/mod.rs\<close>, \<^verbatim>\<open>tools/mod.rs\<close>, \<^verbatim>\<open>blockchain/transaction.rs\<close>).
  \<^item> \<open>Path_Evidence\<close>, \<open>Path_Properties\<close>, \<open>Path_Cache\<close> (\<^verbatim>\<open>blockchain/path.rs\<close>): hops, receipts and
    aggregated records.  Honest relaying yields a record that verifies; a verified record
    contains the signatures of every hop; receivers do not sign two histories; cached and
    uncached verdicts agree unless a name contains a separator of the cache key.
  \<^item> \<open>Block\<close>, \<open>Chain\<close> (\<^verbatim>\<open>blockchain/block.rs\<close>, \<^verbatim>\<open>blockchain/mod.rs\<close>): construction and verification
    agree, accepted histories are linked and no two of their blocks share a transaction, and the padding of the
    Merkle tree admits a repeated transaction.

  \<^bold>\<open>Simulator: consensus.\<close>
  \<^item> \<open>Topo_Formulas\<close>, \<open>Topo_Consensus\<close>, \<open>Topo_Properties\<close>, \<open>Topo_Election\<close>, \<open>Topo_Scores\<close>
    (\<^verbatim>\<open>consensus/topostake.rs\<close>): fees are conserved, padding a path and splitting a validator
    never pay, rewards settle exactly once, scores activate after the delay and stay bounded,
    the election is inverse sampling of the frozen weights.  \<open>Evidence_Rewards\<close> puts the engine
    and the verification of records together: every relay payment is backed by a record.
  \<^item> \<open>Pos_Consensus\<close>, \<open>Pow_Consensus\<close>, \<open>Pow_Properties\<close>, \<open>Pow_Race\<close>, \<open>Minotaur\<close>: the other engines.
    The mining threads are run under an arbitrary schedule; a schedule that lets every thread
    act often enough makes the election return.
  \<^item> \<open>Consensus_Base\<close> (\<^verbatim>\<open>consensus/mod.rs\<close>) has the locales \<open>proposer_election\<close>, \<open>weighted_scan\<close>,
    \<open>strict_scan\<close> and \<open>proposer_reward\<close>, interpreted by the engines.

  \<^bold>\<open>Simulator: network.\<close>
  \<^item> \<open>Node_State\<close>, \<open>Node_Network\<close> (\<^verbatim>\<open>network/message.rs\<close>, \<^verbatim>\<open>network/node.rs\<close>): one function per
    handler, \<open>node_handle\<close> dispatches.  \<open>network_step\<close> delivers, loses and injects messages in any
    order; blocks of reachable nodes carry evidence that verifies and pack the best fees.
  \<^item> \<open>Metrics\<close>, \<open>Security_Eval\<close> (\<^verbatim>\<open>metrics.rs\<close>, \<^verbatim>\<open>security_eval.rs\<close>).
  \<^item> \<open>World_Reports\<close>, \<open>World_State\<close>, \<open>World_Properties\<close> (\<^verbatim>\<open>network/world_state.rs\<close>): slots, epochs,
    canonical blocks and reports, over a record of engine operations; the locale
    \<open>simulated_engine\<close> is interpreted by all four engines.  A slot has one accounted outcome and
    makes progress when its validators are ready; reports equal the plans of the engine and
    never flag a bound in any world reachable by \<open>world_step\<close>.

  \<^bold>\<open>Consensus client.\<close>
  \<^item> \<open>Fixed_Point\<close>, \<open>Fixed_Log\<close>, \<open>Beacon_Config\<close>, \<open>Beacon_Paths\<close>, \<open>Beacon_Evidence\<close>
    (\<^verbatim>\<open>core/chain_spec.rs\<close>): scaled arithmetic with the error of its logarithm, configuration, the
    evidence runtime.  \<open>Beacon_Steps\<close> makes the runtime a transition system; the locale
    \<open>epoch_invariant\<close> lifts a property of an epoch to all reachable runtimes.  \<open>Beacon_Ledger\<close>,
    \<open>Beacon_Scores\<close>, \<open>Beacon_Activation\<close>, \<open>Beacon_Weights\<close>: the fee ledger is conserved, a
    transaction is credited once, weights stay in their bounds, and nodes that query at
    different times may disagree on scores.
  \<^item> \<open>Swap_Shuffle\<close> (\<^verbatim>\<open>swap_or_not_shuffle\<close>): the in-place shuffle computes the reference permutation.
  \<^item> \<open>Beacon_Proposer\<close>, \<open>Beacon_Duties\<close> (\<^verbatim>\<open>state/beacon_state.rs\<close>): selection returns and names an
    active validator.
  \<^item> \<open>Relay_Registry\<close>, \<open>Block_Evidence\<close>, \<open>Settlement_Submit\<close> (\<^verbatim>\<open>per_block_processing.rs\<close>): only
    evidence under a verified aggregate moves the ledger; each finalised epoch is submitted
    with exactly its credits; chunked bodies decode to what was encoded.

  \<^bold>\<open>Execution client and composition.\<close>
  \<open>Go_Text\<close> and \<open>Geth_Settlement\<close> (\<^verbatim>\<open>eth/topostake/metadata.go\<close>, \<^verbatim>\<open>miner/worker.go\<close>,
  \<^verbatim>\<open>core/state_processor.go\<close>) model settlements against the fee escrow: supply is conserved,
  builder and importer agree, and block-carried records can drain the escrow.
  \<open>Settlement_Flow\<close> composes both clients: fees credited by one are paid by the other.

  \<^bold>\<open>Bounds and fuel.\<close>  Loops that may not end return \<open>None\<close> when they do not (the selection loops
  of \<open>Beacon_Proposer\<close>); that they return is a theorem.  Schedules of mining threads are lists,
  and the theorem on termination says which lists suffice.  The series of the logarithm has
  the 24 terms of the code.  The ledger theorems assume totals below the largest \<open>u64\<close>, where
  the code saturates.

  \<^bold>\<open>Not modelled.\<close>
  \<^item> Rounding of floats; the simulator's formulas are over the reals.
  \<^item> \<^verbatim>\<open>network/mod.rs\<close> apart from the relay profiles and \<open>calculate_gini\<close>, \<^verbatim>\<open>network/graph.rs\<close>,
    \<^verbatim>\<open>main.rs\<close> and \<^verbatim>\<open>bin\<close>: random set-up, task spawning and command lines; the node and world
    theorems hold for any neighbours, stakes and order of messages.
  \<^item> The timer task of \<^verbatim>\<open>world_state.rs\<close>, CSV and JSON output, and logging that cannot panic.
  \<^item> The wire protocol of relay metadata in Geth (the relay part of \<^verbatim>\<open>metadata.go\<close>,
    \<^verbatim>\<open>eth/handler.go\<close>), which depends on devp2p and on files, and the packing of evidence in
    \<^verbatim>\<open>graffiti_calculator.rs\<close>; what they produce is judged by the modelled block processing.
  \<^item> The upstream parts of both clients, and the Python and shell of the experiments.
\<close>

end
